(* ===== verification/Go_Prelude.thy ===== *)
theory Go_Prelude
  imports Main "HOL-Library.Word" "HOL-Library.Monad_Syntax"
begin

text \<open>
  Shared vocabulary of the development: the Go types the components are written in and the
  lemmas about them that every component uses.

  \<^item> Bytes, byte slices and strings: a Go string is an immutable byte sequence, so
    \<open>gostr\<close> and \<open>bytes\<close> are both lists of 8-bit words; \<open>str\<close> turns a literal into bytes.
  \<^item> \<open>go_result\<close>: what a Go function can do: return, return an error, or panic.
  \<^item> \<open>i64\<close>: the wrap-around of \<^verbatim>\<open>int64\<close> (and of \<^verbatim>\<open>int\<close> on 64-bit targets). Counters
    (\<^verbatim>\<open>atomic.Int64\<close>) are integers kept in range by \<open>i64\<close> at every \<^verbatim>\<open>Add\<close>.
  \<^item> \<open>be16\<close>, \<open>be32\<close>, \<open>be64\<close> and their readers: \<^verbatim>\<open>binary.BigEndian\<close>, with the truncation of
    \<^verbatim>\<open>uint16(len(x))\<close> and its kin made explicit.
  \<^item> \<open>wbuf\<close>: writing into a preallocated buffer at a moving offset, with the panics of
    out-of-range indexing and the silent truncation of \<^verbatim>\<open>copy\<close>.
  \<^item> \<open>rd_n\<close>: \<^verbatim>\<open>io.ReadFull\<close> on the bytes that a stream still has to deliver.
\<close>

unbundle bit_operations_syntax

section \<open>Types\<close>

type_synonym byte = "8 word"
type_synonym bytes = "byte list"
type_synonym gostr = "byte list"

definition str :: "string \<Rightarrow> gostr" where
  "str s = map of_char s"

text \<open>The outcome of a call: a value, an error value, or a run-time panic.\<close>

datatype ('e, 'a) go_result = Ret 'a | Err 'e | Panic

named_theorems wire_simps \<open>encoders, decoders and buffer writes evaluated on symbolic buffers\<close>
named_theorems state_defs \<open>unfolding of the record-updating operations of the components\<close>

section \<open>64-bit signed integers\<close>

definition i64 :: "int \<Rightarrow> int" where
  "i64 x = (x + 2 ^ 63) mod 2 ^ 64 - 2 ^ 63"

definition in_i64 :: "int \<Rightarrow> bool" where
  "in_i64 x \<longleftrightarrow> - (2 ^ 63) \<le> x \<and> x < 2 ^ 63"

section \<open>Big-endian integers\<close>

definition be16 :: "nat \<Rightarrow> bytes" where
  "be16 n = (let v = n mod 2 ^ 16 in [word_of_nat (v div 256), word_of_nat v])"

definition be32 :: "nat \<Rightarrow> bytes" where
  "be32 n = (let v = n mod 2 ^ 32 in
     [word_of_nat (v div 2 ^ 24), word_of_nat (v div 2 ^ 16), word_of_nat (v div 256),
      word_of_nat v])"

definition be64 :: "nat \<Rightarrow> bytes" where
  "be64 n = be32 (n div 2 ^ 32) @ be32 n"

fun get16 :: "bytes \<Rightarrow> nat option" where
  "get16 (a # b # _) = Some (unat a * 256 + unat b)"
| "get16 _ = None"

fun get32 :: "bytes \<Rightarrow> nat option" where
  "get32 (a # b # c # d # _) =
     Some (((unat a * 256 + unat b) * 256 + unat c) * 256 + unat d)"
| "get32 _ = None"

definition get64 :: "bytes \<Rightarrow> nat option" where
  "get64 bs = (case (get32 bs, get32 (drop 4 bs)) of
     (Some hi, Some lo) \<Rightarrow> Some (hi * 2 ^ 32 + lo) | _ \<Rightarrow> None)"

section \<open>Writing into a buffer\<close>

text \<open>A buffer and the offset of the next write. \<open>None\<close> is a run-time panic.\<close>

type_synonym wbuf = "bytes \<times> nat"

fun w_byte :: "byte \<Rightarrow> wbuf \<Rightarrow> wbuf option" where
  "w_byte b (buf, off) = (if off < length buf then Some (buf[off := b], off + 1) else None)"

text \<open>\<^verbatim>\<open>copy(buf[off:], src); off += len(src)\<close>: the slice panics beyond the end of the buffer,
  the copy stops silently there.\<close>

fun w_copy :: "bytes \<Rightarrow> wbuf \<Rightarrow> wbuf option" where
  "w_copy src (buf, off) =
     (if off \<le> length buf
      then Some (take off buf @ take (length buf - off) src @ drop (off + length src) buf,
                 off + length src)
      else None)"

text \<open>\<^verbatim>\<open>binary.BigEndian.PutUint16(buf[off:], v)\<close> panics unless all bytes fit.\<close>

fun w_be :: "bytes \<Rightarrow> wbuf \<Rightarrow> wbuf option" where
  "w_be src (buf, off) =
     (if off + length src \<le> length buf then w_copy src (buf, off) else None)"

text \<open>A buffer whose first bytes are written and whose rest is whatever it was.\<close>

definition wst :: "bytes \<Rightarrow> bytes \<Rightarrow> wbuf" where
  "wst pre rest = (pre @ rest, length pre)"

section \<open>Reading from a stream\<close>

text \<open>
  \<^verbatim>\<open>io.ReadFull(stream, buf)\<close> for a buffer of \<open>n\<close> bytes, on the bytes the peer sends before
  it closes the stream: all \<open>n\<close> bytes and the remaining stream, or an error.
\<close>

definition rd_n :: "nat \<Rightarrow> bytes \<Rightarrow> (bytes \<times> bytes) option" where
  "rd_n n s = (if n \<le> length s then Some (take n s, drop n s) else None)"

text \<open>A bounds-checked slice \<^verbatim>\<open>data[off:off+n]\<close>.\<close>

definition sub :: "bytes \<Rightarrow> nat \<Rightarrow> nat \<Rightarrow> bytes" where
  "sub bs off n = take n (drop off bs)"

section \<open>Lemmas on lists\<close>

lemma drop_exact: "xs = a @ b \<Longrightarrow> length a = n \<Longrightarrow> drop n xs = b"
  by simp

lemma map_shuffles: "map f ` shuffles xs ys = shuffles (map f xs) (map f ys)"
proof (induction xs ys rule: shuffles.induct)
  case (3 x xs y ys)
  have "map f ` shuffles (x # xs) (y # ys) =
      (#) (f x) ` map f ` shuffles xs (y # ys) \<union> (#) (f y) ` map f ` shuffles (x # xs) ys"
    by (simp add: image_Un image_image)
  then show ?case by (simp only: 3 list.map shuffles.simps)
qed auto

section \<open>Lemmas on maps\<close>

lemma card_dom_pos: "finite (dom f) \<Longrightarrow> f i = Some k \<Longrightarrow> 0 < card (dom f)"
  by (auto simp: card_gt_0_iff)

lemma card_dom_pred:
  "finite (dom f) \<Longrightarrow> f i = Some k \<Longrightarrow> int (card (dom f) - Suc 0) = int (card (dom f)) - 1"
  using card_dom_pos [of f i k] by (simp add: of_nat_diff)

lemma card_dom_remove:
  "finite (dom f) \<Longrightarrow> f i = Some k \<Longrightarrow> int (card (dom f - {i})) = int (card (dom f)) - 1"
  by (simp add: card_dom_pred domI)

section \<open>Lemmas on 64-bit integers\<close>

lemma in_i64_i64 [simp]: "in_i64 (i64 x)"
  by (simp add: i64_def in_i64_def)

lemma i64_id [simp]: "in_i64 x \<Longrightarrow> i64 x = x"
  by (simp add: i64_def in_i64_def)

lemma i64_i64 [simp]: "i64 (i64 x) = i64 x"
  by simp

lemma mod_shift_add:
  fixes x y h m :: int
  shows "((x + h) mod m - h + y + h) mod m = (x + y + h) mod m"
proof -
  have "((x + h) mod m - h + y + h) mod m = ((x + h) mod m + y) mod m" by simp
  also have "\<dots> = (x + h + y) mod m" by (rule mod_add_left_eq)
  finally show ?thesis by (simp add: ac_simps)
qed

lemma i64_add_left [simp]: "i64 (i64 x + y) = i64 (x + y)"
  unfolding i64_def by (simp only: mod_shift_add)

lemma i64_add_right [simp]: "i64 (y + i64 x) = i64 (y + x)"
  using i64_add_left [of x y] by (simp add: add.commute)

lemma i64_diff_left [simp]: "i64 (i64 x - y) = i64 (x - y)"
  using i64_add_left [of x "- y"] by simp

lemma in_i64_0 [simp]: "in_i64 0" and in_i64_1 [simp]: "in_i64 1"
  by (simp_all add: in_i64_def)

section \<open>Lemmas on big-endian integers\<close>

lemma unat_byte_of_nat [simp]: "unat (word_of_nat n :: byte) = n mod 256"
  by (simp add: unat_of_nat)

lemma byte_lt [simp]: "unat (b :: byte) < 256"
  using unsigned_less [of b] by simp

lemma length_be16 [simp]: "length (be16 n) = 2"
  and length_be32 [simp]: "length (be32 n) = 4"
  and length_be64 [simp]: "length (be64 n) = 8"
  by (simp_all add: be16_def be32_def be64_def Let_def)

lemma be16_nonempty [simp]: "be16 n \<noteq> []"
  by (metis length_be16 list.size(3) zero_neq_numeral)

lemma get16_be16 [simp, wire_simps]: "get16 (be16 n @ xs) = Some (n mod 2 ^ 16)"
  by (simp add: be16_def Let_def)

lemma get16_be16_only [simp, wire_simps]: "get16 (be16 n) = Some (n mod 2 ^ 16)"
  using get16_be16 [of n "[]"] by simp

lemma base256_digits:
  fixes v :: nat
  assumes "v < 2 ^ 32"
  shows "((v div 2 ^ 24 mod 256 * 256 + v div 2 ^ 16 mod 256) * 256 + v div 256 mod 256) * 256
           + v mod 256 = v"
proof -
  define a b c where "a = v div 256" and "b = a div 256" and "c = b div 256"
  have abc: "v div 2 ^ 16 = b" "v div 2 ^ 24 = c" "v div 256 = a"
    by (simp_all add: a_def b_def c_def div_mult2_eq [symmetric])
  have "c < 256" using assms by (simp add: a_def b_def c_def div_mult2_eq [symmetric] less_mult_imp_div_less)
  moreover have "c * 256 + b mod 256 = b" "b * 256 + a mod 256 = a" "a * 256 + v mod 256 = v"
    by (simp_all add: a_def b_def c_def)
  ultimately show ?thesis by (simp only: abc mod_less)
qed

lemma get32_be32 [simp, wire_simps]: "get32 (be32 n @ xs) = Some (n mod 2 ^ 32)"
proof -
  have "n mod 2 ^ 32 < (2 ^ 32 :: nat)" by simp
  from base256_digits [OF this] show ?thesis
    by (simp only: be32_def Let_def append.simps get32.simps unat_byte_of_nat)
qed

lemma get64_be64 [simp, wire_simps]: "get64 (be64 n @ xs) = Some (n mod 2 ^ 64)"
proof -
  have "n div 2 ^ 32 mod 2 ^ 32 * 2 ^ 32 + n mod 2 ^ 32 = n mod (2 ^ 64 :: nat)"
    by (metis (no_types, lifting) add.commute mod_mult2_eq mult.commute numeral_Bit0 power_add)
  then show ?thesis by (simp add: get64_def be64_def)
qed

lemma get16_Some_iff: "(\<exists>v. get16 bs = Some v) \<longleftrightarrow> 2 \<le> length bs"
  by (cases bs rule: get16.cases) auto

lemma get32_Some_iff: "(\<exists>v. get32 bs = Some v) \<longleftrightarrow> 4 \<le> length bs"
  by (cases bs rule: get32.cases) auto

lemma get16_bound: "get16 bs = Some v \<Longrightarrow> v < 2 ^ 16"
proof (cases bs rule: get16.cases)
  case (1 a b xs)
  moreover have "unat a * 256 + unat b < 65536"
    using byte_lt [of a] byte_lt [of b] by linarith
  ultimately show "get16 bs = Some v \<Longrightarrow> v < 2 ^ 16" by simp
qed auto

lemma byte_256 [simp]: "(256 :: byte) = 0"
  by transfer simp

lemma word_of_nat_unat_mult: "word_of_nat (x * 256 + unat b) = (b :: byte)"
  by simp

lemma div_256_digit [simp]: "(x * 256 + unat (b :: byte)) div 256 = x"
  by simp

lemma get16_inverse: "get16 bs = Some v \<Longrightarrow> bs = be16 v @ drop 2 bs"
proof (cases bs rule: get16.cases)
  case (1 a b xs)
  assume "get16 bs = Some v"
  with 1 have v: "v = unat a * 256 + unat b" by simp
  then have "v < 65536" using byte_lt [of a] byte_lt [of b] by linarith
  then have "be16 v = [word_of_nat (v div 256), word_of_nat v]" by (simp add: be16_def)
  with 1 v show ?thesis by simp
qed auto

lemma get32_inverse: "get32 bs = Some v \<Longrightarrow> bs = be32 v @ drop 4 bs \<and> v < 2 ^ 32"
proof (cases bs rule: get32.cases)
  case (1 a b c d xs)
  assume "get32 bs = Some v"
  with 1 have v: "v = ((unat a * 256 + unat b) * 256 + unat c) * 256 + unat d" by simp
  have "unat x \<le> 255" for x :: byte using byte_lt [of x] by linarith
  from this [of a] this [of b] this [of c] this [of d]
  have "v < 4294967296" unfolding v by (simp only: distrib_right mult.assoc)
  then have lt: "v < 2 ^ 32" by simp
  have "v div 256 = (unat a * 256 + unat b) * 256 + unat c" by (simp only: v div_256_digit)
  moreover from this have "v div 2 ^ 16 = unat a * 256 + unat b"
    using div_256_digit [of "unat a * 256 + unat b" c] div_mult2_eq [of v 256 256] by simp
  moreover from this have "v div 2 ^ 24 = unat a"
    using div_256_digit [of "unat a" b] div_mult2_eq [of v "2 ^ 16" 256] by simp
  ultimately have "be32 v = [a, b, c, d]"
    using lt by (simp only: be32_def Let_def mod_less word_of_nat_unat_mult v) simp
  with 1 lt show ?thesis by simp
qed auto

section \<open>Lemmas on buffer writes\<close>

lemma fresh_wst: "(buf, 0) = wst [] buf"
  by (simp add: wst_def)

lemma w_byte_wst [wire_simps]:
  "rest \<noteq> [] \<Longrightarrow> w_byte b (wst pre rest) = Some (wst (pre @ [b]) (drop 1 rest))"
  by (cases rest) (simp_all add: wst_def list_update_append)

lemma w_copy_wst [wire_simps]:
  "length src \<le> length rest \<Longrightarrow>
   w_copy src (wst pre rest) = Some (wst (pre @ src) (drop (length src) rest))"
  by (simp add: wst_def)

lemma w_copy_wst_short:
  "length rest < length src \<Longrightarrow>
   w_copy src (wst pre rest) = Some (take (length pre + length rest) (pre @ src), length pre + length src)"
  by (simp add: wst_def)

lemma w_be_wst [wire_simps]:
  "length src \<le> length rest \<Longrightarrow>
   w_be src (wst pre rest) = Some (wst (pre @ src) (drop (length src) rest))"
  by (simp add: wst_def)

lemma w_byte_wst_full [wire_simps]: "w_byte b (wst pre []) = None"
  by (simp add: wst_def)

section \<open>Lemmas on stream reads\<close>

lemma rd_n_append [simp, wire_simps]:
  "length a = n \<Longrightarrow> rd_n n (a @ s) = Some (a, s)"
  by (simp add: rd_n_def)

lemma rd_n_Cons [simp, wire_simps]: "rd_n (Suc 0) (b # s) = Some ([b], s)"
  by (simp add: rd_n_def)

lemma rd_n_Some: "rd_n n s = Some (a, r) \<longleftrightarrow> s = a @ r \<and> length a = n"
  by (auto simp: rd_n_def)

lemma rd_n_None: "rd_n n s = None \<longleftrightarrow> length s < n"
  by (auto simp: rd_n_def)

lemma sub_append [simp]: "sub (a @ b @ c) (length a) (length b) = b"
  by (simp add: sub_def)

section \<open>Step relations\<close>

text \<open>Components whose operations interleave are step relations with an invariant that every step keeps.\<close>

locale step_invariant =
  fixes step :: "'s \<Rightarrow> 's \<Rightarrow> bool" and Inv :: "'s \<Rightarrow> bool"
  assumes step_keeps: "step s s' \<Longrightarrow> Inv s \<Longrightarrow> Inv s'"
begin

lemma steps_keep: "step\<^sup>*\<^sup>* s s' \<Longrightarrow> Inv s \<Longrightarrow> Inv s'"
  by (induction rule: rtranclp_induct) (auto intro: step_keeps)

end

end
