(* ===== verification/Circuit.thy ===== *)
theory Circuit
  imports Go_Prelude
begin

text \<open>
  The circuit breaker of \<^verbatim>\<open>internal/circuit\<close>: its configuration and defaults, the three-state
  machine with its counters, the keyed manager, and a step relation in which any number of
  goroutines run \<^verbatim>\<open>Allow\<close>, \<^verbatim>\<open>RecordSuccess\<close> and \<^verbatim>\<open>RecordFailure\<close> concurrently, with the state
  load of each call and its critical section as separate steps.

  Time is an argument (\<open>now\<close>, nanoseconds); the optional callback \<^verbatim>\<open>OnStateChange\<close> is a log of
  the calls made to it. \<^verbatim>\<open>State\<close> only ever holds the three constants, because \<^verbatim>\<open>transition\<close> is the
  only writer and is only called with them, so the \<^verbatim>\<open>default\<close> branches of the code's switches
  have no counterpart.
\<close>

section \<open>State and configuration\<close>

datatype cb_state = StateClosed | StateOpen | StateHalfOpen

fun State_String :: "cb_state \<Rightarrow> string" where
  "State_String StateClosed = ''closed''"
| "State_String StateOpen = ''open''"
| "State_String StateHalfOpen = ''half-open''"

datatype cb_error = ErrCircuitOpen | ErrTooManyRequests

record Breaker_Config =
  FailureThreshold :: int
  SuccessThreshold :: int
  cb_Timeout :: int
  MaxRequests :: int
  OnStateChange :: bool

definition second :: int where
  "second = 1000000000"

definition Breaker_DefaultConfig :: Breaker_Config where
  "Breaker_DefaultConfig = \<lparr>FailureThreshold = 5, SuccessThreshold = 3,
     cb_Timeout = 30 * second, MaxRequests = 1, OnStateChange = False\<rparr>"

record Breaker =
  cb_config :: Breaker_Config
  cb_st :: cb_state
  failures :: int
  successes :: int
  lastFailureTime :: int
  requests :: int
  cb_calls :: "(cb_state \<times> cb_state) list"

definition Breaker_normalize :: "Breaker_Config \<Rightarrow> Breaker_Config" where
  "Breaker_normalize c = c\<lparr>
     FailureThreshold := (if FailureThreshold c \<le> 0 then 5 else FailureThreshold c),
     SuccessThreshold := (if SuccessThreshold c \<le> 0 then 3 else SuccessThreshold c),
     cb_Timeout := (if cb_Timeout c \<le> 0 then 30 * second else cb_Timeout c),
     MaxRequests := (if MaxRequests c \<le> 0 then 1 else MaxRequests c)\<rparr>"

definition NewBreaker :: "Breaker_Config \<Rightarrow> Breaker" where
  "NewBreaker c = \<lparr>cb_config = Breaker_normalize c, cb_st = StateClosed, failures = 0,
     successes = 0, lastFailureTime = 0, requests = 0, cb_calls = []\<rparr>"

section \<open>Operations\<close>

definition transition :: "cb_state \<Rightarrow> Breaker \<Rightarrow> Breaker" where
  "transition to b =
     (if cb_st b = to then b
      else b\<lparr>cb_st := to, failures := 0, successes := 0, requests := 0,
             cb_calls := cb_calls b @
               (if OnStateChange (cb_config b) then [(cb_st b, to)] else [])\<rparr>)"

text \<open>\<open>None\<close> is the nil error: the request may proceed.\<close>

definition Breaker_Allow :: "int \<Rightarrow> Breaker \<Rightarrow> cb_error option \<times> Breaker" where
  "Breaker_Allow now b =
     (case cb_st b of
        StateClosed \<Rightarrow> (None, b)
      | StateOpen \<Rightarrow>
          if now - lastFailureTime b > cb_Timeout (cb_config b)
          then (None, transition StateHalfOpen b)
          else (Some ErrCircuitOpen, b)
      | StateHalfOpen \<Rightarrow>
          let r = i64 (requests b + 1); b' = b\<lparr>requests := r\<rparr>
          in if r > MaxRequests (cb_config b) then (Some ErrTooManyRequests, b') else (None, b'))"

definition Breaker_RecordSuccess :: "Breaker \<Rightarrow> Breaker" where
  "Breaker_RecordSuccess b =
     (case cb_st b of
        StateClosed \<Rightarrow> b\<lparr>failures := 0\<rparr>
      | StateOpen \<Rightarrow> b
      | StateHalfOpen \<Rightarrow>
          let n = i64 (successes b + 1); b' = b\<lparr>successes := n\<rparr>
          in if n \<ge> SuccessThreshold (cb_config b) then transition StateClosed b' else b')"

definition Breaker_RecordFailure :: "int \<Rightarrow> Breaker \<Rightarrow> Breaker" where
  "Breaker_RecordFailure now b0 =
     (let b = b0\<lparr>lastFailureTime := now\<rparr> in
      case cb_st b0 of
        StateClosed \<Rightarrow>
          (let n = i64 (failures b + 1); b' = b\<lparr>failures := n\<rparr>
           in if n \<ge> FailureThreshold (cb_config b) then transition StateOpen b' else b')
      | StateOpen \<Rightarrow> b
      | StateHalfOpen \<Rightarrow> transition StateOpen b)"

text \<open>The function under protection either fails (\<open>Some e\<close>) or not; the result tells the two
  kinds of error apart. \<open>t0\<close> and \<open>t1\<close> are the times at which the clock is read.\<close>

datatype 'e exec_error = Rejected cb_error | Failed 'e

definition Breaker_Execute ::
    "int \<Rightarrow> int \<Rightarrow> 'e option \<Rightarrow> Breaker \<Rightarrow> 'e exec_error option \<times> Breaker" where
  "Breaker_Execute t0 t1 fn b =
     (case Breaker_Allow t0 b of
        (Some e, b') \<Rightarrow> (Some (Rejected e), b')
      | (None, b') \<Rightarrow>
          (case fn of
             Some e \<Rightarrow> (Some (Failed e), Breaker_RecordFailure t1 b')
           | None \<Rightarrow> (None, Breaker_RecordSuccess b')))"

definition Breaker_Reset :: "Breaker \<Rightarrow> Breaker" where
  "Breaker_Reset b = transition StateClosed b"

definition Breaker_ForceOpen :: "Breaker \<Rightarrow> Breaker" where
  "Breaker_ForceOpen b = transition StateOpen b"

record Breaker_Stats =
  Stats_State :: cb_state
  Stats_Failures :: int
  Stats_Successes :: int
  Stats_Requests :: int

definition Breaker_GetStats :: "Breaker \<Rightarrow> Breaker_Stats" where
  "Breaker_GetStats b = \<lparr>Stats_State = cb_st b, Stats_Failures = failures b,
     Stats_Successes = successes b, Stats_Requests = requests b\<rparr>"

lemmas breaker_defs [state_defs] =
  transition_def Breaker_Allow_def Breaker_RecordSuccess_def Breaker_RecordFailure_def
  Breaker_Reset_def Breaker_ForceOpen_def

subsection \<open>The manager\<close>

record Breaker_Manager =
  breakers :: "string \<rightharpoonup> Breaker"
  mgr_config :: Breaker_Config

definition NewBreakerManager :: "Breaker_Config \<Rightarrow> Breaker_Manager" where
  "NewBreakerManager c = \<lparr>breakers = Map.empty, mgr_config = c\<rparr>"

definition Manager_Get :: "string \<Rightarrow> Breaker_Manager \<Rightarrow> Breaker \<times> Breaker_Manager" where
  "Manager_Get name m =
     (case breakers m name of
        Some b \<Rightarrow> (b, m)
      | None \<Rightarrow> (let b = NewBreaker (mgr_config m)
                in (b, m\<lparr>breakers := (breakers m)(name \<mapsto> b)\<rparr>)))"

definition Manager_Remove :: "string \<Rightarrow> Breaker_Manager \<Rightarrow> Breaker_Manager" where
  "Manager_Remove name m = m\<lparr>breakers := (breakers m)(name := None)\<rparr>"

section \<open>Sequences of calls\<close>

datatype cb_op = OpAllow int | OpSuccess | OpFailure int | OpReset | OpForceOpen

fun cb_exec :: "cb_op \<Rightarrow> Breaker \<Rightarrow> Breaker" where
  "cb_exec (OpAllow now) b = snd (Breaker_Allow now b)"
| "cb_exec OpSuccess b = Breaker_RecordSuccess b"
| "cb_exec (OpFailure now) b = Breaker_RecordFailure now b"
| "cb_exec OpReset b = Breaker_Reset b"
| "cb_exec OpForceOpen b = Breaker_ForceOpen b"

text \<open>Calls of \<^verbatim>\<open>Execute\<close> whose function succeeds, at the given times.\<close>

fun exec_successes :: "int list \<Rightarrow> Breaker \<Rightarrow> Breaker" where
  "exec_successes [] b = b"
| "exec_successes (t # ts) b =
     exec_successes ts (snd (Breaker_Execute t t (None :: unit option) b))"

text \<open>How many of a run of \<^verbatim>\<open>Allow\<close> calls are admitted.\<close>

fun allowed_count :: "int list \<Rightarrow> Breaker \<Rightarrow> nat" where
  "allowed_count [] b = 0"
| "allowed_count (t # ts) b =
     (case Breaker_Allow t b of (r, b') \<Rightarrow> (if r = None then 1 else 0) + allowed_count ts b')"

section \<open>Concurrent execution\<close>

text \<open>
  Where a goroutine is inside a call: it has loaded the state and not acted on it yet, or it is
  about to take the mutex. The lock-free part of a call and its critical section are separate
  steps, so another goroutine may change the state between them.
\<close>

datatype cb_pc =
    PIdle
  | PAllow cb_state | PAllowLock
  | PSucc cb_state | PSuccLock
  | PFail cb_state | PFailLock cb_state

record cb_sys =
  sys_b :: Breaker
  pcs :: "nat \<Rightarrow> cb_pc"
  now_ns :: int

inductive cb_step :: "cb_sys \<Rightarrow> cb_sys \<Rightarrow> bool" where
  tick: "now_ns s \<le> t \<Longrightarrow> cb_step s (s\<lparr>now_ns := t\<rparr>)"
| allow_load: "pcs s i = PIdle \<Longrightarrow>
    cb_step s (s\<lparr>pcs := (pcs s)(i := PAllow (cb_st (sys_b s)))\<rparr>)"
| allow_closed: "pcs s i = PAllow StateClosed \<Longrightarrow> cb_step s (s\<lparr>pcs := (pcs s)(i := PIdle)\<rparr>)"
| allow_early: "pcs s i = PAllow StateOpen \<Longrightarrow>
    \<not> now_ns s - lastFailureTime (sys_b s) > cb_Timeout (cb_config (sys_b s)) \<Longrightarrow>
    cb_step s (s\<lparr>pcs := (pcs s)(i := PIdle)\<rparr>)"
| allow_due: "pcs s i = PAllow StateOpen \<Longrightarrow>
    now_ns s - lastFailureTime (sys_b s) > cb_Timeout (cb_config (sys_b s)) \<Longrightarrow>
    cb_step s (s\<lparr>pcs := (pcs s)(i := PAllowLock)\<rparr>)"
| allow_lock: "pcs s i = PAllowLock \<Longrightarrow>
    cb_step s (s\<lparr>pcs := (pcs s)(i := PIdle),
      sys_b := (if cb_st (sys_b s) = StateOpen then transition StateHalfOpen (sys_b s)
                else sys_b s)\<rparr>)"
| allow_half: "pcs s i = PAllow StateHalfOpen \<Longrightarrow>
    cb_step s (s\<lparr>pcs := (pcs s)(i := PIdle),
      sys_b := (sys_b s)\<lparr>requests := i64 (requests (sys_b s) + 1)\<rparr>\<rparr>)"
| succ_load: "pcs s i = PIdle \<Longrightarrow>
    cb_step s (s\<lparr>pcs := (pcs s)(i := PSucc (cb_st (sys_b s)))\<rparr>)"
| succ_closed: "pcs s i = PSucc StateClosed \<Longrightarrow>
    cb_step s (s\<lparr>pcs := (pcs s)(i := PIdle), sys_b := (sys_b s)\<lparr>failures := 0\<rparr>\<rparr>)"
| succ_open: "pcs s i = PSucc StateOpen \<Longrightarrow> cb_step s (s\<lparr>pcs := (pcs s)(i := PIdle)\<rparr>)"
| succ_half: "pcs s i = PSucc StateHalfOpen \<Longrightarrow> n = i64 (successes (sys_b s) + 1) \<Longrightarrow>
    cb_step s (s\<lparr>pcs := (pcs s)(i :=
        if n \<ge> SuccessThreshold (cb_config (sys_b s)) then PSuccLock else PIdle),
      sys_b := (sys_b s)\<lparr>successes := n\<rparr>\<rparr>)"
| succ_lock: "pcs s i = PSuccLock \<Longrightarrow>
    cb_step s (s\<lparr>pcs := (pcs s)(i := PIdle),
      sys_b := (if cb_st (sys_b s) = StateHalfOpen then transition StateClosed (sys_b s)
                else sys_b s)\<rparr>)"
| fail_load: "pcs s i = PIdle \<Longrightarrow>
    cb_step s (s\<lparr>pcs := (pcs s)(i := PFail (cb_st (sys_b s))),
      sys_b := (sys_b s)\<lparr>lastFailureTime := now_ns s\<rparr>\<rparr>)"
| fail_closed: "pcs s i = PFail StateClosed \<Longrightarrow> n = i64 (failures (sys_b s) + 1) \<Longrightarrow>
    cb_step s (s\<lparr>pcs := (pcs s)(i :=
        if n \<ge> FailureThreshold (cb_config (sys_b s)) then PFailLock StateClosed else PIdle),
      sys_b := (sys_b s)\<lparr>failures := n\<rparr>\<rparr>)"
| fail_open: "pcs s i = PFail StateOpen \<Longrightarrow> cb_step s (s\<lparr>pcs := (pcs s)(i := PIdle)\<rparr>)"
| fail_half: "pcs s i = PFail StateHalfOpen \<Longrightarrow>
    cb_step s (s\<lparr>pcs := (pcs s)(i := PFailLock StateHalfOpen)\<rparr>)"
| fail_lock: "pcs s i = PFailLock st \<Longrightarrow>
    cb_step s (s\<lparr>pcs := (pcs s)(i := PIdle),
      sys_b := (if cb_st (sys_b s) = st then transition StateOpen (sys_b s) else sys_b s)\<rparr>)"

inductive cb_reach :: "Breaker_Config \<Rightarrow> cb_sys \<Rightarrow> bool" for c where
  cb_init: "cb_reach c \<lparr>sys_b = NewBreaker c, pcs = (\<lambda>_. PIdle), now_ns = t\<rparr>"
| cb_next: "cb_reach c s \<Longrightarrow> cb_step s s' \<Longrightarrow> cb_reach c s'"

text \<open>The state machine the package documents, and a log that walks it from \<open>a\<close> to \<open>z\<close>.\<close>

definition cb_edge :: "cb_state \<Rightarrow> cb_state \<Rightarrow> bool" where
  "cb_edge a z \<longleftrightarrow> (a, z) \<in> {(StateClosed, StateOpen), (StateOpen, StateHalfOpen),
     (StateHalfOpen, StateClosed), (StateHalfOpen, StateOpen)}"

fun cb_path :: "cb_state \<Rightarrow> (cb_state \<times> cb_state) list \<Rightarrow> cb_state \<Rightarrow> bool" where
  "cb_path a [] z \<longleftrightarrow> a = z"
| "cb_path a ((x, y) # es) z \<longleftrightarrow> a = x \<and> cb_edge x y \<and> cb_path y es z"

section \<open>The breaker interface\<close>

text \<open>
  \<^verbatim>\<open>BreakerInterface\<close>: what a component that is handed a breaker relies on. \<open>invar\<close> is whatever
  the implementation keeps true; an open breaker refuses until its timeout has passed, and a
  reset breaker admits.
\<close>

fun ask :: "(int \<Rightarrow> 'b \<Rightarrow> 'r \<times> 'b) \<Rightarrow> int list \<Rightarrow> 'b \<Rightarrow> 'r list \<times> 'b" where
  "ask allow [] b = ([], b)"
| "ask allow (t # ts) b =
     (case allow t b of (r, b') \<Rightarrow> case ask allow ts b' of (rs, b'') \<Rightarrow> (r # rs, b''))"

locale breaker_interface =
  fixes allow :: "int \<Rightarrow> 'b \<Rightarrow> 'err option \<times> 'b"
    and record_success :: "'b \<Rightarrow> 'b"
    and record_failure :: "int \<Rightarrow> 'b \<Rightarrow> 'b"
    and bstate :: "'b \<Rightarrow> cb_state"
    and breset :: "'b \<Rightarrow> 'b"
    and due :: "int \<Rightarrow> 'b \<Rightarrow> bool"
    and invar :: "'b \<Rightarrow> bool"
  assumes allow_invar: "invar b \<Longrightarrow> invar (snd (allow t b))"
    and success_invar: "invar b \<Longrightarrow> invar (record_success b)"
    and failure_invar: "invar b \<Longrightarrow> invar (record_failure t b)"
    and reset_invar: "invar b \<Longrightarrow> invar (breset b)"
    and closed_allows: "bstate b = StateClosed \<Longrightarrow> allow t b = (None, b)"
    and open_refuses: "bstate b = StateOpen \<Longrightarrow> \<not> due t b \<Longrightarrow>
          fst (allow t b) \<noteq> None \<and> snd (allow t b) = b"
    and reset_closes: "bstate (breset b) = StateClosed"
begin

text \<open>A client that asks repeatedly while the breaker is open and not due is refused each time
  and changes nothing.\<close>

lemma ask_while_open:
  assumes "bstate b = StateOpen" and "\<forall>t \<in> set ts. \<not> due t b"
  shows "None \<notin> set (fst (ask allow ts b)) \<and> snd (ask allow ts b) = b"
  using assms
proof (induction ts)
  case Nil
  then show ?case by simp
next
  case (Cons t ts)
  with open_refuses [of b t] show ?case
    by (cases "allow t b"; cases "ask allow ts b") auto
qed

lemma ask_closed: "bstate b = StateClosed \<Longrightarrow> ask allow ts b = (replicate (length ts) None, b)"
  by (induction ts) (simp_all add: closed_allows)

lemma ask_after_reset: "set (fst (ask allow ts (breset b))) \<subseteq> {None}"
  using ask_closed [OF reset_closes] by auto

end

section \<open>The invariant of the breaker\<close>

definition cb_inv :: "Breaker \<Rightarrow> bool" where
  "cb_inv b \<longleftrightarrow>
     0 < FailureThreshold (cb_config b) \<and> FailureThreshold (cb_config b) < 2 ^ 63 \<and>
     0 < SuccessThreshold (cb_config b) \<and> SuccessThreshold (cb_config b) < 2 ^ 63 \<and>
     0 < cb_Timeout (cb_config b) \<and> 0 < MaxRequests (cb_config b) \<and>
     0 \<le> failures b \<and> failures b < FailureThreshold (cb_config b) \<and>
     0 \<le> successes b \<and> successes b < SuccessThreshold (cb_config b) \<and>
     (cb_st b \<noteq> StateClosed \<longrightarrow> failures b = 0) \<and>
     (cb_st b \<noteq> StateHalfOpen \<longrightarrow> successes b = 0 \<and> requests b = 0)"

definition Breaker_due :: "int \<Rightarrow> Breaker \<Rightarrow> bool" where
  "Breaker_due now b \<longleftrightarrow> now - lastFailureTime b > cb_Timeout (cb_config b)"

lemma transition_simps [simp]:
  "cb_st (transition to b) = to"
  "cb_config (transition to b) = cb_config b"
  "lastFailureTime (transition to b) = lastFailureTime b"
  by (simp_all add: transition_def)

lemma i64_succ_le: "0 \<le> n \<Longrightarrow> n < m \<Longrightarrow> m < 2 ^ 63 \<Longrightarrow> i64 (n + 1) = n + 1"
  by (simp add: in_i64_def)

lemma cb_exec_config [simp]: "cb_config (cb_exec x b) = cb_config b"
  by (cases x)
    (auto simp: breaker_defs Let_def split: cb_state.splits if_splits)

lemma NewBreaker_inv:
  "FailureThreshold c < 2 ^ 63 \<Longrightarrow> SuccessThreshold c < 2 ^ 63 \<Longrightarrow> cb_inv (NewBreaker c)"
  by (simp add: cb_inv_def NewBreaker_def Breaker_normalize_def second_def)

lemma transition_inv: "cb_inv b \<Longrightarrow> cb_inv (transition to b)"
  by (auto simp: cb_inv_def transition_def)

lemma Allow_inv: "cb_inv b \<Longrightarrow> cb_inv (snd (Breaker_Allow now b))"
  using transition_inv [of b StateHalfOpen]
  by (auto simp: Breaker_Allow_def Let_def cb_inv_def split: cb_state.splits)

lemma RecordSuccess_inv: "cb_inv b \<Longrightarrow> cb_inv (Breaker_RecordSuccess b)"
  by (auto simp: Breaker_RecordSuccess_def Let_def cb_inv_def transition_def i64_succ_le
           split: cb_state.splits)

lemma RecordFailure_inv: "cb_inv b \<Longrightarrow> cb_inv (Breaker_RecordFailure now b)"
  by (auto simp: Breaker_RecordFailure_def Let_def cb_inv_def transition_def i64_succ_le
           split: cb_state.splits)

lemma cb_exec_inv: "cb_inv b \<Longrightarrow> cb_inv (cb_exec x b)"
  by (cases x)
    (simp_all add: Allow_inv RecordSuccess_inv RecordFailure_inv transition_inv
      Breaker_Reset_def Breaker_ForceOpen_def)

lemma Allow_closed: "cb_st b = StateClosed \<Longrightarrow> Breaker_Allow now b = (None, b)"
  by (simp add: Breaker_Allow_def)

lemma Allow_open:
  "cb_st b = StateOpen \<Longrightarrow> Breaker_Allow now b =
     (if Breaker_due now b then (None, transition StateHalfOpen b) else (Some ErrCircuitOpen, b))"
  by (simp add: Breaker_Allow_def Breaker_due_def)

lemma Allow_half:
  "cb_st b = StateHalfOpen \<Longrightarrow> 0 \<le> requests b \<Longrightarrow> requests b < 2 ^ 63 - 1 \<Longrightarrow>
   Breaker_Allow now b =
     (if requests b < MaxRequests (cb_config b) then None else Some ErrTooManyRequests,
      b\<lparr>requests := requests b + 1\<rparr>)"
  by (simp add: Breaker_Allow_def Let_def in_i64_def)

interpretation breaker: breaker_interface
  Breaker_Allow Breaker_RecordSuccess Breaker_RecordFailure cb_st Breaker_Reset
  Breaker_due cb_inv
  by unfold_locales
    (simp_all add: Allow_inv RecordSuccess_inv RecordFailure_inv Breaker_Reset_def
      transition_inv Allow_closed Allow_open)

section \<open>Half-open behaviour\<close>

lemma allowed_count_half:
  assumes "cb_st b = StateHalfOpen" and "0 \<le> requests b"
    and "requests b + int (length ts) < 2 ^ 63"
  shows "allowed_count ts b =
     min (length ts) (nat (MaxRequests (cb_config b) - requests b))"
  using assms
proof (induction ts arbitrary: b)
  case Nil
  then show ?case by simp
next
  case (Cons t ts)
  let ?b = "b\<lparr>requests := requests b + 1\<rparr>"
  have "allowed_count ts ?b =
      min (length ts) (nat (MaxRequests (cb_config b) - (requests b + 1)))"
    using Cons.IH [of ?b] Cons.prems by simp
  with Cons.prems show ?case by (auto simp: Allow_half)
qed

definition half_stuck :: "Breaker \<Rightarrow> bool" where
  "half_stuck b \<longleftrightarrow> cb_st b = StateHalfOpen \<and> 0 \<le> requests b \<and> 0 \<le> successes b \<and>
     successes b \<le> requests b + 1 \<and> successes b \<le> MaxRequests (cb_config b) + 1 \<and>
     0 < MaxRequests (cb_config b) \<and>
     MaxRequests (cb_config b) + 1 < SuccessThreshold (cb_config b) \<and>
     SuccessThreshold (cb_config b) < 2 ^ 63"

lemma half_stuck_step:
  assumes "half_stuck b" and "requests b < 2 ^ 63 - 1"
  shows "half_stuck (snd (Breaker_Execute t t (None :: unit option) b))"
    and "requests (snd (Breaker_Execute t t (None :: unit option) b)) = requests b + 1"
  using assms
  by (auto simp: Breaker_Execute_def half_stuck_def Allow_half Breaker_RecordSuccess_def Let_def
      in_i64_def)

lemma half_stuck_run:
  "half_stuck b \<Longrightarrow> requests b + int (length ts) < 2 ^ 63 \<Longrightarrow>
   half_stuck (exec_successes ts b) \<and>
   requests (exec_successes ts b) = requests b + int (length ts)"
proof (induction ts arbitrary: b)
  case Nil
  then show ?case by simp
next
  case (Cons t ts)
  let ?b = "snd (Breaker_Execute t t (None :: unit option) b)"
  have "half_stuck ?b" and "requests ?b = requests b + 1"
    using half_stuck_step [of b t] Cons.prems by auto
  with Cons.IH [of ?b] Cons.prems show ?case by auto
qed

lemma exec_successes_config [simp]: "cb_config (exec_successes ts b) = cb_config b"
proof (induction ts arbitrary: b)
  case (Cons t ts)
  have "cb_config (snd (Breaker_Execute t t (None :: unit option) b)) = cb_config b"
    by (auto simp: Breaker_Execute_def breaker_defs Let_def split: cb_state.splits prod.splits
        option.splits if_splits)
  with Cons show ?case by simp
qed simp

lemma first_probe:
  assumes "cb_inv b" and "cb_st b = StateOpen" and "Breaker_due t b"
    and "1 < SuccessThreshold (cb_config b)"
  shows "snd (Breaker_Execute t t (None :: unit option) b) =
           (transition StateHalfOpen b)\<lparr>successes := 1\<rparr>"
  using assms
  by (simp add: Breaker_Execute_def Allow_open Breaker_RecordSuccess_def Let_def transition_def
      in_i64_def)

lemma probes_close:
  assumes "cb_st b = StateHalfOpen" and "0 \<le> requests b" and "0 \<le> successes b"
    and "successes b + int (length ts) = SuccessThreshold (cb_config b)" and "ts \<noteq> []"
    and "requests b + int (length ts) \<le> MaxRequests (cb_config b)"
    and "SuccessThreshold (cb_config b) < 2 ^ 63" and "MaxRequests (cb_config b) < 2 ^ 63"
  shows "cb_st (exec_successes ts b) = StateClosed"
  using assms
proof (induction ts arbitrary: b)
  case Nil
  then show ?case by simp
next
  case (Cons t ts)
  let ?b = "b\<lparr>requests := requests b + 1, successes := successes b + 1\<rparr>"
  have step: "snd (Breaker_Execute t t (None :: unit option) b) =
      (if ts = [] then transition StateClosed ?b else ?b)"
    using Cons.prems
    by (cases ts) (auto simp: Breaker_Execute_def Allow_half Breaker_RecordSuccess_def Let_def
        in_i64_def)
  show ?case
  proof (cases "ts = []")
    case True
    with step show ?thesis by simp
  next
    case False
    with step Cons.IH [of ?b] Cons.prems show ?thesis by simp
  qed
qed

section \<open>Runs of failures\<close>

lemma failures_open:
  "cb_st b = StateOpen \<Longrightarrow> cb_st (fold Breaker_RecordFailure ts b) = StateOpen"
  by (induction ts arbitrary: b) (simp_all add: Breaker_RecordFailure_def Let_def)

lemma RecordFailure_closed:
  assumes "cb_inv b" and "cb_st b = StateClosed"
  shows "cb_st (Breaker_RecordFailure t b) =
           (if failures b + 1 < FailureThreshold (cb_config b) then StateClosed else StateOpen)"
    and "failures b + 1 < FailureThreshold (cb_config b) \<Longrightarrow>
           failures (Breaker_RecordFailure t b) = failures b + 1"
    and "cb_config (Breaker_RecordFailure t b) = cb_config b"
  using assms i64_succ_le [of "failures b" "FailureThreshold (cb_config b)"]
  by (auto simp: Breaker_RecordFailure_def Let_def cb_inv_def)

lemma failures_run:
  "cb_inv b \<Longrightarrow> cb_st b = StateClosed \<Longrightarrow>
   cb_st (fold Breaker_RecordFailure ts b) =
     (if failures b + int (length ts) < FailureThreshold (cb_config b)
      then StateClosed else StateOpen)"
proof (induction ts arbitrary: b)
  case Nil
  then show ?case by (simp add: cb_inv_def)
next
  case (Cons t ts)
  note step = RecordFailure_closed [OF Cons.prems, of t]
  show ?case
  proof (cases "failures b + 1 < FailureThreshold (cb_config b)")
    case True
    with step Cons.IH [of "Breaker_RecordFailure t b"] RecordFailure_inv [OF Cons.prems(1)]
    show ?thesis by simp
  next
    case False
    with step failures_open [of "Breaker_RecordFailure t b" ts] show ?thesis by simp
  qed
qed

section \<open>Invariants of concurrent runs\<close>

lemma cb_path_snoc: "cb_path a es x \<Longrightarrow> cb_edge x y \<Longrightarrow> cb_path a (es @ [(x, y)]) y"
  by (induction es arbitrary: a) auto

definition cb_log_ok :: "Breaker \<Rightarrow> bool" where
  "cb_log_ok b \<longleftrightarrow> OnStateChange (cb_config b) \<and> cb_path StateClosed (cb_calls b) (cb_st b)"

lemma transition_log_ok:
  "cb_log_ok b \<Longrightarrow> cb_edge (cb_st b) to \<Longrightarrow> cb_log_ok (transition to b)"
  by (auto simp: cb_log_ok_def transition_def cb_path_snoc)

definition pc_ok :: "cb_pc \<Rightarrow> bool" where
  "pc_ok p \<longleftrightarrow> p \<noteq> PFailLock StateOpen"

lemma cb_step_inv:
  "cb_step s s' \<Longrightarrow> cb_log_ok (sys_b s) \<and> (\<forall>i. pc_ok (pcs s i)) \<Longrightarrow>
   cb_log_ok (sys_b s') \<and> (\<forall>i. pc_ok (pcs s' i))"
proof (induction rule: cb_step.induct)
  case (fail_lock s i st)
  then have "st \<noteq> StateOpen" by (metis pc_ok_def)
  with fail_lock show ?case
    by (cases st) (auto simp: pc_ok_def cb_edge_def intro!: transition_log_ok)
qed (auto simp: pc_ok_def cb_log_ok_def cb_edge_def transition_def intro!: cb_path_snoc)

lemma cb_reach_inv:
  "cb_reach c s \<Longrightarrow> OnStateChange c \<Longrightarrow> cb_log_ok (sys_b s) \<and> (\<forall>i. pc_ok (pcs s i))"
proof (induction rule: cb_reach.induct)
  case (cb_init t)
  then show ?case
    by (simp add: cb_log_ok_def pc_ok_def NewBreaker_def Breaker_normalize_def)
next
  case (cb_next s s')
  then show ?case using cb_step_inv by blast
qed

section \<open>Properties\<close>

text \<open>C21. Under every interleaving of any number of goroutines in \<^verbatim>\<open>Allow\<close>, \<^verbatim>\<open>RecordSuccess\<close> and
  \<^verbatim>\<open>RecordFailure\<close>, the calls made to \<^verbatim>\<open>OnStateChange\<close> spell a path of the documented state
  machine (closed to open, open to half-open, half-open to closed or open) that starts in
  closed and ends in the current state: the double check under the mutex is enough.\<close>

theorem concurrent_transitions_legal:
  assumes "cb_reach c s" and "OnStateChange c"
  shows "cb_path StateClosed (cb_calls (sys_b s)) (cb_st (sys_b s))"
  using cb_reach_inv [OF assms] by (simp add: cb_log_ok_def)

theorem concurrent_transitions_legal_witness:
  "cb_path StateClosed
     (cb_calls (NewBreaker (Breaker_DefaultConfig\<lparr>OnStateChange := True\<rparr>))) StateClosed"
proof -
  let ?c = "Breaker_DefaultConfig\<lparr>OnStateChange := True\<rparr>"
  let ?s = "\<lparr>sys_b = NewBreaker ?c, pcs = (\<lambda>_. PIdle), now_ns = 0\<rparr>"
  have "cb_reach ?c ?s" by (rule cb_init)
  moreover have "OnStateChange ?c" by simp
  ultimately show ?thesis
    using concurrent_transitions_legal [of ?c ?s] by (simp add: NewBreaker_def)
qed

text \<open>A closed breaker with no recorded failure stays closed through any run of fewer than
  \<^verbatim>\<open>FailureThreshold\<close> consecutive failures and is open after exactly that many.\<close>

lemma opens_at_failure_threshold:
  assumes "cb_inv b" and "cb_st b = StateClosed" and "failures b = 0"
  shows "cb_st (fold Breaker_RecordFailure ts b) =
     (if int (length ts) < FailureThreshold (cb_config b) then StateClosed else StateOpen)"
  using failures_run [OF assms(1,2)] assms(3) by simp

lemma opens_at_failure_threshold_witness:
  "cb_st (fold Breaker_RecordFailure [1, 2, 3, 4, 5] (NewBreaker Breaker_DefaultConfig))
     = StateOpen"
proof -
  let ?b = "NewBreaker Breaker_DefaultConfig"
  have "cb_inv ?b"
    by (rule NewBreaker_inv) (simp_all add: Breaker_DefaultConfig_def)
  moreover have "cb_st ?b = StateClosed" "failures ?b = 0"
      "FailureThreshold (cb_config ?b) = 5"
    by (simp_all add: NewBreaker_def Breaker_normalize_def Breaker_DefaultConfig_def)
  ultimately show ?thesis
    using opens_at_failure_threshold [of ?b "[1, 2, 3, 4, 5]"] by simp
qed

text \<open>While the breaker is open and its timeout has not elapsed, every \<^verbatim>\<open>Allow\<close> is refused with
  an error and leaves the breaker as it was, however often it is asked.\<close>

lemma open_refuses_until_timeout:
  assumes "cb_st b = StateOpen"
    and "\<forall>t \<in> set ts. t - lastFailureTime b \<le> cb_Timeout (cb_config b)"
  shows "None \<notin> set (fst (ask Breaker_Allow ts b)) \<and> snd (ask Breaker_Allow ts b) = b"
  by (rule breaker.ask_while_open) (use assms in \<open>auto simp: Breaker_due_def\<close>)

lemma open_refuses_until_timeout_witness:
  "None \<notin> set (fst (ask Breaker_Allow [7, 8] (Breaker_ForceOpen (NewBreaker Breaker_DefaultConfig))))"
  using open_refuses_until_timeout
    [of "Breaker_ForceOpen (NewBreaker Breaker_DefaultConfig)" "[7, 8]"]
  by (simp add: Breaker_ForceOpen_def NewBreaker_def Breaker_normalize_def
      Breaker_DefaultConfig_def second_def)

text \<open>Once the timeout of an open breaker has elapsed, a run of \<^verbatim>\<open>Allow\<close> calls with no recorded
  outcome admits exactly the probe that moves it to half-open and then at most \<^verbatim>\<open>MaxRequests\<close>
  more, that is \<^verbatim>\<open>MaxRequests + 1\<close> in all: the probe itself is not counted.\<close>

lemma half_open_admissions:
  assumes "cb_inv b" and "cb_st b = StateOpen" and "Breaker_due t b"
    and "int (length ts) < 2 ^ 63"
  shows "allowed_count (t # ts) b = 1 + min (length ts) (nat (MaxRequests (cb_config b)))"
proof -
  let ?b = "transition StateHalfOpen b"
  have "requests ?b = 0" using assms(2) by (simp add: transition_def)
  with allowed_count_half [of ?b ts] assms show ?thesis by (simp add: Allow_open)
qed

lemma half_open_admissions_witness:
  "allowed_count (31000000000 # [31000000001, 31000000002])
     (Breaker_ForceOpen (NewBreaker Breaker_DefaultConfig)) = 2"
proof -
  let ?b = "Breaker_ForceOpen (NewBreaker Breaker_DefaultConfig)"
  have "cb_inv ?b"
    unfolding Breaker_ForceOpen_def
    by (rule transition_inv, rule NewBreaker_inv) (simp_all add: Breaker_DefaultConfig_def)
  moreover have "cb_st ?b = StateOpen" "Breaker_due 31000000000 ?b"
      "MaxRequests (cb_config ?b) = 1"
    by (simp_all add: Breaker_ForceOpen_def NewBreaker_def Breaker_normalize_def
        Breaker_DefaultConfig_def second_def Breaker_due_def)
  ultimately show ?thesis
    using half_open_admissions [of ?b 31000000000 "[31000000001, 31000000002]"] by simp
qed

text \<open>If \<^verbatim>\<open>SuccessThreshold\<close> exceeds \<^verbatim>\<open>MaxRequests + 1\<close>, which is the case for
  \<^verbatim>\<open>DefaultConfig\<close> (3 and 1), an open breaker never closes again by itself: after the timeout,
  any run of \<^verbatim>\<open>Execute\<close> calls whose functions all succeed leaves it half-open, and as soon as
  \<^verbatim>\<open>MaxRequests + 1\<close> of them have run every further call is rejected with
  \<^verbatim>\<open>ErrTooManyRequests\<close>.\<close>

lemma half_open_starvation:
  assumes "cb_inv b" and "cb_st b = StateOpen" and "Breaker_due t b"
    and "MaxRequests (cb_config b) + 1 < SuccessThreshold (cb_config b)"
    and "int (length ts) < 2 ^ 63 - 1"
  shows "cb_st (exec_successes (t # ts) b) = StateHalfOpen \<and>
         (MaxRequests (cb_config b) \<le> int (length ts) \<longrightarrow>
         fst (Breaker_Execute u u (None :: unit option) (exec_successes (t # ts) b)) =
           Some (Rejected ErrTooManyRequests))"
proof -
  let ?p = "snd (Breaker_Execute t t (None :: unit option) b)"
  have p: "?p = (transition StateHalfOpen b)\<lparr>successes := 1\<rparr>"
    using assms by (intro first_probe) (auto simp: cb_inv_def)
  then have "half_stuck ?p" and r: "requests ?p = 0" and c: "cb_config ?p = cb_config b"
    using assms by (auto simp: half_stuck_def cb_inv_def transition_def)
  with half_stuck_run [of ?p ts] assms(5)
  have run: "half_stuck (exec_successes ts ?p)"
    "requests (exec_successes ts ?p) = int (length ts)" by auto
  have "cb_config (exec_successes ts ?p) = cb_config b"
    using exec_successes_config [of ts ?p] c by simp
  with run assms(5) show ?thesis
    by (simp add: half_stuck_def Breaker_Execute_def Allow_half)
qed

lemma half_open_starvation_witness:
  "cb_st (exec_successes (31000000000 # [31000000001, 31000000002, 31000000003])
     (Breaker_ForceOpen (NewBreaker Breaker_DefaultConfig))) = StateHalfOpen"
proof -
  let ?b = "Breaker_ForceOpen (NewBreaker Breaker_DefaultConfig)"
  have "cb_inv ?b"
    unfolding Breaker_ForceOpen_def
    by (rule transition_inv, rule NewBreaker_inv) (simp_all add: Breaker_DefaultConfig_def)
  moreover have "cb_st ?b = StateOpen" "Breaker_due 31000000000 ?b"
      "MaxRequests (cb_config ?b) + 1 < SuccessThreshold (cb_config ?b)"
    by (simp_all add: Breaker_ForceOpen_def NewBreaker_def Breaker_normalize_def
        Breaker_DefaultConfig_def second_def Breaker_due_def)
  ultimately show ?thesis
    using half_open_starvation
      [of ?b 31000000000 "[31000000001, 31000000002, 31000000003]"] by simp
qed

text \<open>If \<^verbatim>\<open>SuccessThreshold\<close> is at most \<^verbatim>\<open>MaxRequests + 1\<close>, as in the breaker the QUIC server
  creates, \<^verbatim>\<open>SuccessThreshold\<close> successful \<^verbatim>\<open>Execute\<close> calls after the timeout close the breaker.\<close>

lemma half_open_recovers:
  assumes "cb_inv b" and "cb_st b = StateOpen" and "Breaker_due t b"
    and "1 < SuccessThreshold (cb_config b)"
    and "SuccessThreshold (cb_config b) \<le> MaxRequests (cb_config b) + 1"
    and "MaxRequests (cb_config b) < 2 ^ 63"
    and "int (length (t # ts)) = SuccessThreshold (cb_config b)"
  shows "cb_st (exec_successes (t # ts) b) = StateClosed"
proof -
  let ?p = "snd (Breaker_Execute t t (None :: unit option) b)"
  have "?p = (transition StateHalfOpen b)\<lparr>successes := 1\<rparr>"
    using assms by (intro first_probe)
  moreover have "ts \<noteq> []" using assms(4,7) by auto
  ultimately show ?thesis
    using assms probes_close [of ?p ts] by (auto simp: cb_inv_def transition_def)
qed

lemma half_open_recovers_witness:
  "cb_st (exec_successes [31000000000, 31000000001, 31000000002]
     (Breaker_ForceOpen (NewBreaker (Breaker_DefaultConfig\<lparr>MaxRequests := 10\<rparr>)))) = StateClosed"
proof -
  let ?b = "Breaker_ForceOpen (NewBreaker (Breaker_DefaultConfig\<lparr>MaxRequests := 10\<rparr>))"
  have "cb_inv ?b"
    unfolding Breaker_ForceOpen_def
    by (rule transition_inv, rule NewBreaker_inv) (simp_all add: Breaker_DefaultConfig_def)
  moreover have "cb_st ?b = StateOpen" "Breaker_due 31000000000 ?b"
      "SuccessThreshold (cb_config ?b) = 3" "MaxRequests (cb_config ?b) = 10"
    by (simp_all add: Breaker_ForceOpen_def NewBreaker_def Breaker_normalize_def
        Breaker_DefaultConfig_def second_def Breaker_due_def)
  ultimately show ?thesis
    using half_open_recovers [of ?b 31000000000 "[31000000001, 31000000002]"] by simp
qed

end
