(* ===== verification/Limiter.thy ===== *)
theory Limiter
  imports Go_Prelude
begin

text \<open>
  The resource limiters of \<^verbatim>\<open>internal/limiter\<close>: the counting limiters for connections and
  goroutines, the token-bucket rate limiter, the memory limiter, the composite limiter and the
  resource monitor, and the contract of the \<^verbatim>\<open>Limiter\<close> interface as the locale
  \<open>limiter_contract\<close>.

  The counting limiters are compare-and-swap loops. Run alone, the swap of a loop succeeds at
  once, which gives the sequential operations; \<open>cas_step\<close> runs any number of goroutines through
  the loops with the load and the swap as separate steps.
\<close>

datatype lim_error = ErrLimitExceeded | ErrRateLimitExceeded

section \<open>Counting limiters\<close>

record ConnectionLimiter =
  cl_max :: int
  cl_current :: int

definition NewConnectionLimiter :: "int \<Rightarrow> ConnectionLimiter" where
  "NewConnectionLimiter m = \<lparr>cl_max = m, cl_current = 0\<rparr>"

definition ConnectionLimiter_Acquire ::
    "ConnectionLimiter \<Rightarrow> lim_error option \<times> ConnectionLimiter" where
  "ConnectionLimiter_Acquire l =
     (if cl_current l \<ge> cl_max l then (Some ErrLimitExceeded, l)
      else (None, l\<lparr>cl_current := i64 (cl_current l + 1)\<rparr>))"

definition ConnectionLimiter_Release :: "ConnectionLimiter \<Rightarrow> ConnectionLimiter" where
  "ConnectionLimiter_Release l =
     (if cl_current l \<le> 0 then l else l\<lparr>cl_current := i64 (cl_current l - 1)\<rparr>)"

definition ConnectionLimiter_Available :: "ConnectionLimiter \<Rightarrow> int" where
  "ConnectionLimiter_Available l = i64 (cl_max l - cl_current l)"

record GoroutineLimiter =
  gl_max :: int
  gl_current :: int

definition NewGoroutineLimiter :: "int \<Rightarrow> GoroutineLimiter" where
  "NewGoroutineLimiter m = \<lparr>gl_max = m, gl_current = 0\<rparr>"

definition GoroutineLimiter_Acquire ::
    "GoroutineLimiter \<Rightarrow> lim_error option \<times> GoroutineLimiter" where
  "GoroutineLimiter_Acquire l =
     (let current = gl_current l in
      if current \<ge> gl_max l then (Some ErrLimitExceeded, l)
      else (None, l\<lparr>gl_current := i64 (current + 1)\<rparr>))"

definition GoroutineLimiter_Release :: "GoroutineLimiter \<Rightarrow> GoroutineLimiter" where
  "GoroutineLimiter_Release l =
     (if gl_current l \<le> 0 then l else l\<lparr>gl_current := i64 (gl_current l - 1)\<rparr>)"

text \<open>\<^verbatim>\<open>Go\<close> runs \<open>fn\<close> on the world \<open>w\<close> in its own goroutine, which releases its slot when it ends.
  The first component is the limiter right after the call, while the goroutine runs; the
  second is what the goroutine leaves behind when it is done.\<close>

definition GoroutineLimiter_Go ::
    "('w \<Rightarrow> 'w) \<Rightarrow> GoroutineLimiter \<Rightarrow>
     lim_error option \<times> GoroutineLimiter \<times> (GoroutineLimiter \<Rightarrow> 'w \<Rightarrow> GoroutineLimiter \<times> 'w)" where
  "GoroutineLimiter_Go fn l =
     (case GoroutineLimiter_Acquire l of
        (Some e, l') \<Rightarrow> (Some e, l', \<lambda>k w. (k, w))
      | (None, l') \<Rightarrow> (None, l', \<lambda>k w. (GoroutineLimiter_Release k, fn w)))"

subsection \<open>Goroutines in the compare-and-swap loops\<close>

datatype cas_pc = CIdle | CAcq int | CRel int

record cas_sys =
  cas_lim :: ConnectionLimiter
  cas_pcs :: "nat \<Rightarrow> cas_pc"
  granted :: nat
  released :: nat

inductive cas_step :: "cas_sys \<Rightarrow> cas_sys \<Rightarrow> bool" where
  acq_load: "cas_pcs s i = CIdle \<Longrightarrow> cl_current (cas_lim s) < cl_max (cas_lim s) \<Longrightarrow>
    cas_step s (s\<lparr>cas_pcs := (cas_pcs s)(i := CAcq (cl_current (cas_lim s)))\<rparr>)"
| acq_full: "cas_pcs s i = CIdle \<Longrightarrow> cl_current (cas_lim s) \<ge> cl_max (cas_lim s) \<Longrightarrow>
    cas_step s s"
| acq_swap: "cas_pcs s i = CAcq c \<Longrightarrow> cl_current (cas_lim s) = c \<Longrightarrow>
    cas_step s (s\<lparr>cas_pcs := (cas_pcs s)(i := CIdle),
      cas_lim := (cas_lim s)\<lparr>cl_current := i64 (c + 1)\<rparr>, granted := granted s + 1\<rparr>)"
| acq_retry: "cas_pcs s i = CAcq c \<Longrightarrow> cl_current (cas_lim s) \<noteq> c \<Longrightarrow>
    cas_step s (s\<lparr>cas_pcs := (cas_pcs s)(i := CIdle)\<rparr>)"
| rel_load: "cas_pcs s i = CIdle \<Longrightarrow> cl_current (cas_lim s) > 0 \<Longrightarrow>
    cas_step s (s\<lparr>cas_pcs := (cas_pcs s)(i := CRel (cl_current (cas_lim s)))\<rparr>)"
| rel_none: "cas_pcs s i = CIdle \<Longrightarrow> cl_current (cas_lim s) \<le> 0 \<Longrightarrow> cas_step s s"
| rel_swap: "cas_pcs s i = CRel c \<Longrightarrow> cl_current (cas_lim s) = c \<Longrightarrow>
    cas_step s (s\<lparr>cas_pcs := (cas_pcs s)(i := CIdle),
      cas_lim := (cas_lim s)\<lparr>cl_current := i64 (c - 1)\<rparr>, released := released s + 1\<rparr>)"
| rel_retry: "cas_pcs s i = CRel c \<Longrightarrow> cl_current (cas_lim s) \<noteq> c \<Longrightarrow>
    cas_step s (s\<lparr>cas_pcs := (cas_pcs s)(i := CIdle)\<rparr>)"

inductive cas_reach :: "int \<Rightarrow> cas_sys \<Rightarrow> bool" for m where
  cas_init: "cas_reach m \<lparr>cas_lim = NewConnectionLimiter m, cas_pcs = (\<lambda>_. CIdle),
      granted = 0, released = 0\<rparr>"
| cas_next: "cas_reach m s \<Longrightarrow> cas_step s s' \<Longrightarrow> cas_reach m s'"

section \<open>Rate limiter\<close>

record RateLimiter =
  rl_rate :: int
  rl_interval :: int
  rl_maxTokens :: int
  rl_tokens :: int
  rl_lastTime :: int

definition NewRateLimiter :: "int \<Rightarrow> int \<Rightarrow> int \<Rightarrow> RateLimiter" where
  "NewRateLimiter now rate interval = \<lparr>rl_rate = rate, rl_interval = interval,
     rl_maxTokens = rate, rl_tokens = rate, rl_lastTime = now\<rparr>"

text \<open>Go's integer division truncates towards zero.\<close>

definition quot :: "int \<Rightarrow> int \<Rightarrow> int" where
  "quot a b = sgn a * sgn b * (\<bar>a\<bar> div \<bar>b\<bar>)"

definition rl_refill :: "int \<Rightarrow> RateLimiter \<Rightarrow> RateLimiter" where
  "rl_refill now rl =
     (let elapsed = i64 (now - rl_lastTime rl);
          tokensToAdd = i64 (quot elapsed (rl_interval rl) * rl_rate rl)
      in if tokensToAdd > 0
         then rl\<lparr>rl_tokens := (let n = i64 (rl_tokens rl + tokensToAdd)
                              in if n > rl_maxTokens rl then rl_maxTokens rl else n),
                 rl_lastTime := now\<rparr>
         else rl)"

text \<open>\<open>Panic\<close>: integer division by a zero interval.\<close>

definition RateLimiter_AllowN ::
    "int \<Rightarrow> int \<Rightarrow> RateLimiter \<Rightarrow> (unit, bool \<times> RateLimiter) go_result" where
  "RateLimiter_AllowN now n rl =
     (if rl_interval rl = 0 then Panic
      else let rl' = rl_refill now rl
           in if rl_tokens rl' < n then Ret (False, rl')
              else Ret (True, rl'\<lparr>rl_tokens := i64 (rl_tokens rl' - n)\<rparr>))"

definition RateLimiter_Allow ::
    "int \<Rightarrow> RateLimiter \<Rightarrow> (unit, bool \<times> RateLimiter) go_result" where
  "RateLimiter_Allow now rl = RateLimiter_AllowN now 1 rl"

text \<open>
  \<^verbatim>\<open>WaitN\<close> polls: one entry of the schedule per turn of its loop, the time of the poll and
  whether the context is cancelled when the loop then waits (otherwise the timer fires).
  \<open>None\<close>: the schedule ends and the call has not returned. Computing the timer's duration
  divides by the rate.
\<close>

fun RateLimiter_WaitN ::
    "(int \<times> bool) list \<Rightarrow> int \<Rightarrow> RateLimiter \<Rightarrow> (unit, RateLimiter) go_result option" where
  "RateLimiter_WaitN [] n rl = None"
| "RateLimiter_WaitN ((now, cancelled) # sched) n rl =
     (case RateLimiter_AllowN now n rl of
        Panic \<Rightarrow> Some Panic
      | Err e \<Rightarrow> Some (Err e)
      | Ret (True, rl') \<Rightarrow> Some (Ret rl')
      | Ret (False, rl') \<Rightarrow>
          if rl_rate rl' = 0 then Some Panic
          else if cancelled then Some (Err ())
          else RateLimiter_WaitN sched n rl')"

text \<open>A run of \<^verbatim>\<open>AllowN\<close> calls and the number of operations it admits.\<close>

fun rl_run :: "(int \<times> int) list \<Rightarrow> RateLimiter \<Rightarrow> int \<times> RateLimiter" where
  "rl_run [] rl = (0, rl)"
| "rl_run ((now, n) # cs) rl =
     (case RateLimiter_AllowN now n rl of
        Ret (ok, rl') \<Rightarrow> (case rl_run cs rl' of (k, rl'') \<Rightarrow> ((if ok then n else 0) + k, rl''))
      | _ \<Rightarrow> (0, rl))"

section \<open>Memory limiter\<close>

record MemoryLimiter =
  ml_maxBytes :: int
  ml_usedBytes :: int
  ml_allocCount :: int

definition NewMemoryLimiter :: "int \<Rightarrow> MemoryLimiter" where
  "NewMemoryLimiter m = \<lparr>ml_maxBytes = m, ml_usedBytes = 0, ml_allocCount = 0\<rparr>"

definition MemoryLimiter_Allocate :: "int \<Rightarrow> MemoryLimiter \<Rightarrow> lim_error option \<times> MemoryLimiter" where
  "MemoryLimiter_Allocate n l =
     (if i64 (ml_usedBytes l + n) > ml_maxBytes l then (Some ErrLimitExceeded, l)
      else (None, l\<lparr>ml_usedBytes := i64 (ml_usedBytes l + n),
                     ml_allocCount := i64 (ml_allocCount l + 1)\<rparr>))"

definition MemoryLimiter_Release :: "int \<Rightarrow> MemoryLimiter \<Rightarrow> MemoryLimiter" where
  "MemoryLimiter_Release n l =
     (let newVal = i64 (ml_usedBytes l - n)
      in l\<lparr>ml_usedBytes := (if newVal < 0 then 0 else newVal)\<rparr>)"

definition MemoryLimiter_Available :: "MemoryLimiter \<Rightarrow> int" where
  "MemoryLimiter_Available l = i64 (ml_maxBytes l - ml_usedBytes l)"

section \<open>Composite limiter\<close>

text \<open>The three implementations of the \<^verbatim>\<open>Limiter\<close> interface. A composite holds distinct limiter
  objects, each with its own state.\<close>

datatype Limiter =
    LConn ConnectionLimiter
  | LGo GoroutineLimiter
  | LComposite "Limiter list"

fun Limiter_Release :: "Limiter \<Rightarrow> Limiter" where
  "Limiter_Release (LConn l) = LConn (ConnectionLimiter_Release l)"
| "Limiter_Release (LGo l) = LGo (GoroutineLimiter_Release l)"
| "Limiter_Release (LComposite ls) = LComposite (map Limiter_Release ls)"

text \<open>\<open>Composite_Acquire acquired rest\<close>: the loop of \<^verbatim>\<open>CompositeLimiter.Acquire\<close>, which on the
  first error releases the limiters acquired so far.\<close>

fun Limiter_Acquire :: "Limiter \<Rightarrow> lim_error option \<times> Limiter"
  and Composite_Acquire :: "Limiter list \<Rightarrow> Limiter list \<Rightarrow> lim_error option \<times> Limiter list" where
  "Limiter_Acquire (LConn l) = map_prod id LConn (ConnectionLimiter_Acquire l)"
| "Limiter_Acquire (LGo l) = map_prod id LGo (GoroutineLimiter_Acquire l)"
| "Limiter_Acquire (LComposite ls) = map_prod id LComposite (Composite_Acquire [] ls)"
| "Composite_Acquire acquired [] = (None, acquired)"
| "Composite_Acquire acquired (l # ls) =
     (case Limiter_Acquire l of
        (Some e, l') \<Rightarrow> (Some e, map Limiter_Release acquired @ l' # ls)
      | (None, l') \<Rightarrow> Composite_Acquire (acquired @ [l']) ls)"

section \<open>Resource monitor\<close>

record ResourceMonitor =
  rm_conn :: ConnectionLimiter
  rm_go :: GoroutineLimiter
  rm_mem :: MemoryLimiter
  rm_rate :: RateLimiter

definition NewResourceMonitor :: "int \<Rightarrow> int \<Rightarrow> int \<Rightarrow> int \<Rightarrow> int \<Rightarrow> int \<Rightarrow> ResourceMonitor" where
  "NewResourceMonitor now maxConns maxGoroutines maxMemory rateLimit rateInterval =
     \<lparr>rm_conn = NewConnectionLimiter maxConns, rm_go = NewGoroutineLimiter maxGoroutines,
      rm_mem = NewMemoryLimiter maxMemory, rm_rate = NewRateLimiter now rateLimit rateInterval\<rparr>"

record Limiter_Stats =
  Stats_Connections :: int
  Stats_MaxConnections :: int
  Stats_Goroutines :: int
  Stats_MaxGoroutines :: int
  Stats_MemoryUsed :: int
  Stats_MaxMemory :: int
  Stats_RateLimitTokens :: int

definition ResourceMonitor_Stats :: "ResourceMonitor \<Rightarrow> Limiter_Stats" where
  "ResourceMonitor_Stats m =
     \<lparr>Stats_Connections = cl_current (rm_conn m), Stats_MaxConnections = cl_max (rm_conn m),
      Stats_Goroutines = gl_current (rm_go m), Stats_MaxGoroutines = gl_max (rm_go m),
      Stats_MemoryUsed = ml_usedBytes (rm_mem m), Stats_MaxMemory = ml_maxBytes (rm_mem m),
      Stats_RateLimitTokens = rl_tokens (rm_rate m)\<rparr>"

section \<open>The contract of the interface\<close>

text \<open>A burst of \<open>n\<close> acquisitions: how many are granted, and the limiter afterwards.\<close>

fun acquire_n :: "('l \<Rightarrow> 'err option \<times> 'l) \<Rightarrow> nat \<Rightarrow> 'l \<Rightarrow> nat \<times> 'l" where
  "acquire_n acquire 0 l = (0, l)"
| "acquire_n acquire (Suc n) l =
     (case acquire l of (r, l') \<Rightarrow> case acquire_n acquire n l' of
        (k, l'') \<Rightarrow> ((if r = None then Suc k else k), l''))"

text \<open>
  What code that is given a \<^verbatim>\<open>Limiter\<close> relies on: a refused acquisition changes nothing, and a
  release undoes an acquisition.
\<close>

locale limiter_contract =
  fixes acquire :: "'l \<Rightarrow> 'err option \<times> 'l"
    and release :: "'l \<Rightarrow> 'l"
    and ok :: "'l \<Rightarrow> bool"
  assumes acquire_ok: "ok l \<Longrightarrow> acquire l = (None, l') \<Longrightarrow> ok l'"
    and acquire_err: "ok l \<Longrightarrow> acquire l = (Some e, l') \<Longrightarrow> l' = l"
    and release_undoes: "ok l \<Longrightarrow> acquire l = (None, l') \<Longrightarrow> release l' = l"
begin

text \<open>A handler that takes a slot, does work that leaves the limiter alone, and gives it back
  leaves the limiter as it was on every path.\<close>

lemma bracket_restores:
  assumes "ok l" and "acquire l = (r, l')"
  shows "(if r = None then release l' else l') = l"
  using assms acquire_err release_undoes by (cases r) auto

end

text \<open>A limiter that counts: \<open>held\<close> slots are taken, never more than \<open>cap\<close>, and a slot is
  refused only when all are taken.\<close>

locale counting_limiter = limiter_contract +
  fixes held :: "'a \<Rightarrow> int"
    and cap :: "'a \<Rightarrow> int"
  assumes acquire_counts: "ok l \<Longrightarrow> acquire l = (None, l') \<Longrightarrow>
            held l' = held l + 1 \<and> cap l' = cap l"
    and within_cap: "ok l \<Longrightarrow> held l \<le> cap l"
    and refused_full: "ok l \<Longrightarrow> acquire l = (Some e, l') \<Longrightarrow> held l = cap l"
begin

lemma burst:
  "ok l \<Longrightarrow> acquire_n acquire n l = (k, l') \<Longrightarrow>
   ok l' \<and> cap l' = cap l \<and> held l' = held l + int k \<and>
   int k = min (int n) (cap l - held l)"
proof (induction n arbitrary: l k l')
  case 0
  then show ?case using within_cap by force
next
  case (Suc n)
  obtain r l1 where a: "acquire l = (r, l1)" by (cases "acquire l")
  obtain k1 l2 where n: "acquire_n acquire n l1 = (k1, l2)" by (cases "acquire_n acquire n l1")
  show ?case
  proof (cases r)
    case None
    with a Suc.prems acquire_ok acquire_counts have
      "ok l1" "held l1 = held l + 1" "cap l1 = cap l" by auto
    with Suc.IH [OF _ n] Suc.prems a n None within_cap [of l1] show ?thesis by auto
  next
    case (Some e)
    with a Suc.prems acquire_err refused_full have "l1 = l" "held l = cap l" by auto
    with Suc.IH [OF _ n] Suc.prems a n Some show ?thesis by auto
  qed
qed

end

section \<open>The counting limiters keep the contract\<close>

definition cl_ok :: "ConnectionLimiter \<Rightarrow> bool" where
  "cl_ok l \<longleftrightarrow> 0 \<le> cl_current l \<and> cl_current l \<le> cl_max l \<and> cl_max l < 2 ^ 63"

definition gl_ok :: "GoroutineLimiter \<Rightarrow> bool" where
  "gl_ok l \<longleftrightarrow> 0 \<le> gl_current l \<and> gl_current l \<le> gl_max l \<and> gl_max l < 2 ^ 63"

lemmas counting_defs [state_defs] =
  ConnectionLimiter_Acquire_def ConnectionLimiter_Release_def cl_ok_def
  GoroutineLimiter_Acquire_def GoroutineLimiter_Release_def gl_ok_def in_i64_def Let_def

interpretation conn_limiter: counting_limiter
  ConnectionLimiter_Acquire ConnectionLimiter_Release cl_ok cl_current cl_max
  by unfold_locales (auto simp: counting_defs split: if_splits)

interpretation go_limiter: counting_limiter
  GoroutineLimiter_Acquire GoroutineLimiter_Release gl_ok gl_current gl_max
  by unfold_locales (auto simp: counting_defs split: if_splits)

fun lim_ok :: "Limiter \<Rightarrow> bool" where
  "lim_ok (LConn l) = cl_ok l"
| "lim_ok (LGo l) = gl_ok l"
| "lim_ok (LComposite ls) = list_all lim_ok ls"

lemma Acquire_Composite:
  "lim_ok l \<Longrightarrow> (case Limiter_Acquire l of
      (None, l') \<Rightarrow> lim_ok l' \<and> Limiter_Release l' = l
    | (Some e, l') \<Rightarrow> l' = l)"
  "list_all lim_ok ls \<Longrightarrow> (case Composite_Acquire acquired ls of
      (None, r) \<Rightarrow> (\<exists>ls'. r = acquired @ ls' \<and> list_all lim_ok ls' \<and> map Limiter_Release ls' = ls)
    | (Some e, r) \<Rightarrow> r = map Limiter_Release acquired @ ls)"
proof (induction l and acquired ls rule: Limiter_Acquire_Composite_Acquire.induct)
  case (1 l)
  then show ?case
    using conn_limiter.acquire_ok [of l] conn_limiter.acquire_err [of l]
      conn_limiter.release_undoes [of l]
    by (cases "ConnectionLimiter_Acquire l") (auto split: option.splits)
next
  case (2 l)
  then show ?case
    using go_limiter.acquire_ok [of l] go_limiter.acquire_err [of l]
      go_limiter.release_undoes [of l]
    by (cases "GoroutineLimiter_Acquire l") (auto split: option.splits)
next
  case (3 ls)
  then show ?case
    by (cases "Composite_Acquire [] ls") (auto split: option.splits)
next
  case (4 acquired)
  then show ?case by simp
next
  case (5 acquired l ls)
  obtain r l' where a: "Limiter_Acquire l = (r, l')" by (cases "Limiter_Acquire l")
  show ?case
  proof (cases r)
    case (Some e)
    with 5 a show ?thesis by simp
  next
    case None
    with 5 a have l': "lim_ok l'" "Limiter_Release l' = l" by auto
    obtain q c where c: "Composite_Acquire (acquired @ [l']) ls = (q, c)"
      by (cases "Composite_Acquire (acquired @ [l']) ls")
    have "list_all lim_ok ls" using 5(3) by simp
    note IH = 5(2) [OF a [symmetric] None this, unfolded c]
    show ?thesis
    proof (cases q)
      case None
      with IH obtain ls' where "c = acquired @ l' # ls'" "list_all lim_ok (l' # ls')"
          "map Limiter_Release (l' # ls') = l # ls"
        using l' by auto
      with a c None \<open>r = None\<close> show ?thesis
        by (auto intro!: exI [of _ "l' # ls'"])
    next
      case (Some e)
      with IH l' a c \<open>r = None\<close> show ?thesis by simp
    qed
  qed
qed

interpretation any_limiter: limiter_contract Limiter_Acquire Limiter_Release lim_ok
proof
  fix l l' e
  assume ok: "lim_ok l"
  show "lim_ok l'" if "Limiter_Acquire l = (None, l')"
    using Acquire_Composite(1) [OF ok] that by simp
  show "l' = l" if "Limiter_Acquire l = (Some e, l')"
    using Acquire_Composite(1) [OF ok] that by simp
  show "Limiter_Release l' = l" if "Limiter_Acquire l = (None, l')"
    using Acquire_Composite(1) [OF ok] that by simp
qed

section \<open>Runs of the compare-and-swap loops\<close>

fun cas_pc_ok :: "int \<Rightarrow> cas_pc \<Rightarrow> bool" where
  "cas_pc_ok m CIdle = True"
| "cas_pc_ok m (CAcq c) = (0 \<le> c \<and> c < m)"
| "cas_pc_ok m (CRel c) = (0 < c \<and> c \<le> m)"

definition cas_inv :: "int \<Rightarrow> cas_sys \<Rightarrow> bool" where
  "cas_inv m s \<longleftrightarrow> cl_max (cas_lim s) = m \<and> cl_ok (cas_lim s) \<and>
     cl_current (cas_lim s) = int (granted s) - int (released s) \<and>
     (\<forall>i. cas_pc_ok m (cas_pcs s i))"

lemma cas_invD:
  assumes "cas_inv m s"
  shows "cas_pcs s i = CAcq c \<Longrightarrow> 0 \<le> c \<and> c < m"
    and "cas_pcs s i = CRel c \<Longrightarrow> 0 < c \<and> c \<le> m"
    and "m < 2 ^ 63" and "cl_max (cas_lim s) = m"
  using assms by (auto simp: cas_inv_def cl_ok_def dest: spec [of _ i])

lemma cas_step_inv: "cas_step s s' \<Longrightarrow> cas_inv m s \<Longrightarrow> cas_inv m s'"
proof (induction rule: cas_step.induct)
  case (acq_swap s i c)
  then have c: "0 \<le> c" "c < m" "m < 2 ^ 63" using cas_invD [of m s] by blast+
  then have "i64 (c + 1) = c + 1" by (simp add: in_i64_def)
  with acq_swap c show ?case by (auto simp: cas_inv_def cl_ok_def)
next
  case (rel_swap s i c)
  then have c: "0 < c" "c \<le> m" "m < 2 ^ 63" using cas_invD [of m s] by blast+
  then have "i64 (c - 1) = c - 1" by (simp add: in_i64_def)
  with rel_swap c show ?case by (auto simp: cas_inv_def cl_ok_def)
qed (auto simp: cas_inv_def cl_ok_def)

lemma cas_reach_inv: "cas_reach m s \<Longrightarrow> 0 \<le> m \<Longrightarrow> m < 2 ^ 63 \<Longrightarrow> cas_inv m s"
proof (induction rule: cas_reach.induct)
  case cas_init
  then show ?case by (simp add: cas_inv_def cl_ok_def NewConnectionLimiter_def)
next
  case (cas_next s s')
  then show ?case using cas_step_inv by blast
qed

lemma cas_step_refines:
  "cas_step s s' \<Longrightarrow> cas_inv m s \<Longrightarrow>
   cas_lim s' = cas_lim s \<and> granted s' = granted s \<and> released s' = released s \<or>
   ConnectionLimiter_Acquire (cas_lim s) = (None, cas_lim s') \<and>
     granted s' = granted s + 1 \<and> released s' = released s \<or>
   ConnectionLimiter_Release (cas_lim s) = cas_lim s' \<and> 0 < cl_current (cas_lim s) \<and>
     granted s' = granted s \<and> released s' = released s + 1"
proof (induction rule: cas_step.induct)
  case (acq_swap s i c)
  then have "c < cl_max (cas_lim s)" using cas_invD [of m s] by auto
  with acq_swap show ?case by (simp add: ConnectionLimiter_Acquire_def)
next
  case (rel_swap s i c)
  then have "0 < c" using cas_invD [of m s] by auto
  with rel_swap show ?case by (simp add: ConnectionLimiter_Release_def)
qed auto

section \<open>Token bucket\<close>

definition rl_ok :: "RateLimiter \<Rightarrow> bool" where
  "rl_ok rl \<longleftrightarrow> 0 < rl_interval rl \<and> 0 < rl_rate rl \<and> rl_maxTokens rl = rl_rate rl \<and>
     0 \<le> rl_tokens rl \<and> rl_tokens rl \<le> rl_maxTokens rl \<and> rl_maxTokens rl < 2 ^ 63"

text \<open>Up to time \<open>t\<close> the refill arithmetic of the limiter stays within 64 bits.\<close>

definition rl_horizon :: "int \<Rightarrow> RateLimiter \<Rightarrow> bool" where
  "rl_horizon t rl \<longleftrightarrow> t - rl_lastTime rl < 2 ^ 63 \<and>
     (t - rl_lastTime rl) div rl_interval rl * rl_rate rl + rl_maxTokens rl < 2 ^ 63"

lemma quot_nonneg: "0 \<le> a \<Longrightarrow> 0 < b \<Longrightarrow> quot a b = a div b"
  by (cases "a = 0") (simp_all add: quot_def)

lemma div_mult_nonneg: "0 \<le> a \<Longrightarrow> 0 < b \<Longrightarrow> 0 \<le> c \<Longrightarrow> 0 \<le> a div b * (c :: int)"
  by (simp add: pos_imp_zdiv_nonneg_iff)

lemma rl_horizon_mono:
  assumes "rl_horizon t rl" and "rl_ok rl" and "now \<le> t"
  shows "rl_horizon now rl"
proof -
  have "(now - rl_lastTime rl) div rl_interval rl \<le> (t - rl_lastTime rl) div rl_interval rl"
    using assms by (intro zdiv_mono1) (auto simp: rl_ok_def)
  then have "(now - rl_lastTime rl) div rl_interval rl * rl_rate rl
      \<le> (t - rl_lastTime rl) div rl_interval rl * rl_rate rl"
    using assms by (intro mult_right_mono) (auto simp: rl_ok_def)
  with assms show ?thesis by (auto simp: rl_horizon_def)
qed

lemma refill_eq:
  assumes "rl_ok rl" and "rl_lastTime rl \<le> now" and "rl_horizon now rl"
  shows "rl_refill now rl =
    (let add = (now - rl_lastTime rl) div rl_interval rl * rl_rate rl in
     if add > 0 then rl\<lparr>rl_tokens := min (rl_tokens rl + add) (rl_maxTokens rl),
                        rl_lastTime := now\<rparr> else rl)"
proof -
  let ?q = "(now - rl_lastTime rl) div rl_interval rl * rl_rate rl"
  have e: "i64 (now - rl_lastTime rl) = now - rl_lastTime rl"
    using assms by (auto simp: rl_horizon_def in_i64_def)
  have q0: "0 \<le> ?q" using assms by (intro div_mult_nonneg) (auto simp: rl_ok_def)
  then have "i64 ?q = ?q" "i64 (rl_tokens rl + ?q) = rl_tokens rl + ?q"
    using assms by (auto simp: rl_horizon_def rl_ok_def in_i64_def)
  with e show ?thesis
    using assms by (auto simp: rl_refill_def Let_def quot_nonneg rl_ok_def)
qed

text \<open>One call: the bucket stays well formed and what it grants was in it or was refilled.\<close>

lemma AllowN_step:
  assumes "rl_ok rl" and "rl_lastTime rl \<le> now" and "rl_horizon now rl" and "0 \<le> n"
  obtains g rl' where "RateLimiter_AllowN now n rl = Ret (g, rl')" "rl_ok rl'"
    "rl_interval rl' = rl_interval rl" "rl_rate rl' = rl_rate rl"
    "rl_lastTime rl' = rl_lastTime rl \<or> rl_lastTime rl' = now"
    "(if g then n else 0) + rl_tokens rl' \<le> rl_tokens rl +
       (rl_lastTime rl' - rl_lastTime rl) div rl_interval rl * rl_rate rl"
proof -
  let ?q = "(now - rl_lastTime rl) div rl_interval rl * rl_rate rl"
  let ?r = "rl_refill now rl"
  have q0: "0 \<le> ?q" using assms by (intro div_mult_nonneg) (auto simp: rl_ok_def)
  have r: "rl_ok ?r" "rl_interval ?r = rl_interval rl" "rl_rate ?r = rl_rate rl"
      "rl_tokens ?r \<le> rl_tokens rl +
         (rl_lastTime ?r - rl_lastTime rl) div rl_interval rl * rl_rate rl"
      "rl_lastTime ?r = rl_lastTime rl \<or> rl_lastTime ?r = now"
    using assms q0 by (auto simp: refill_eq Let_def rl_ok_def)
  have i: "rl_interval rl \<noteq> 0" using assms(1) by (auto simp: rl_ok_def)
  show ?thesis
  proof (cases "rl_tokens ?r < n")
    case True
    with r i q0 show ?thesis
      by (intro that [of False ?r]) (auto simp: RateLimiter_AllowN_def Let_def)
  next
    case False
    then have "i64 (rl_tokens ?r - n) = rl_tokens ?r - n"
      using r(1) assms(4) by (auto simp: rl_ok_def in_i64_def)
    with False r i q0 assms(4) show ?thesis
      by (intro that [of True "?r\<lparr>rl_tokens := rl_tokens ?r - n\<rparr>"])
        (auto simp: RateLimiter_AllowN_def Let_def rl_ok_def)
  qed
qed

lemma div_add_le:
  fixes a b c :: int
  assumes "0 < c"
  shows "a div c + b div c \<le> (a + b) div c"
  using assms by (simp add: div_add1_eq [of a b] pos_imp_zdiv_nonneg_iff)

definition calls_ok :: "(int \<times> int) list \<Rightarrow> RateLimiter \<Rightarrow> int \<Rightarrow> bool" where
  "calls_ok cs rl t \<longleftrightarrow> sorted (map fst cs) \<and> (\<forall>(now, n) \<in> set cs. 0 \<le> n \<and> now \<le> t \<and>
     rl_lastTime rl \<le> now)"

lemma horizon_later:
  assumes "rl_horizon t rl" and "rl_ok rl" and "rl_ok rl'"
    and "rl_interval rl' = rl_interval rl" and "rl_rate rl' = rl_rate rl"
    and "rl_lastTime rl \<le> rl_lastTime rl'"
  shows "rl_horizon t rl'"
proof -
  have "(t - rl_lastTime rl') div rl_interval rl \<le> (t - rl_lastTime rl) div rl_interval rl"
    using assms by (intro zdiv_mono1) (auto simp: rl_ok_def)
  then have "(t - rl_lastTime rl') div rl_interval rl * rl_rate rl
      \<le> (t - rl_lastTime rl) div rl_interval rl * rl_rate rl"
    using assms by (intro mult_right_mono) (auto simp: rl_ok_def)
  moreover have "rl_maxTokens rl' = rl_maxTokens rl" using assms by (simp add: rl_ok_def)
  ultimately show ?thesis using assms by (auto simp: rl_horizon_def)
qed

lemma rl_run_bound:
  assumes "rl_ok rl" and "rl_horizon t rl" and "calls_ok cs rl t" and "rl_lastTime rl \<le> t"
  shows "fst (rl_run cs rl) + rl_tokens (snd (rl_run cs rl)) \<le>
     rl_tokens rl + (t - rl_lastTime rl) div rl_interval rl * rl_rate rl"
  using assms
proof (induction cs arbitrary: rl)
  case Nil
  then show ?case using div_mult_nonneg by (simp add: rl_ok_def)
next
  case (Cons c cs)
  obtain now n where c: "c = (now, n)" by (cases c)
  have now: "rl_lastTime rl \<le> now" "now \<le> t" "0 \<le> n"
    using Cons.prems(3) c by (auto simp: calls_ok_def)
  have "rl_horizon now rl" using rl_horizon_mono Cons.prems(1,2) now(2) by blast
  from AllowN_step [OF Cons.prems(1) now(1) this now(3)] obtain g rl' where
    a: "RateLimiter_AllowN now n rl = Ret (g, rl')" and ok: "rl_ok rl'"
    and same: "rl_interval rl' = rl_interval rl" "rl_rate rl' = rl_rate rl"
    and lt: "rl_lastTime rl' = rl_lastTime rl \<or> rl_lastTime rl' = now"
    and b: "(if g then n else 0) + rl_tokens rl' \<le> rl_tokens rl +
        (rl_lastTime rl' - rl_lastTime rl) div rl_interval rl * rl_rate rl" .
  have le: "rl_lastTime rl \<le> rl_lastTime rl'" "rl_lastTime rl' \<le> t" using lt now by auto
  have split: "(rl_lastTime rl' - rl_lastTime rl) div rl_interval rl * rl_rate rl +
      (t - rl_lastTime rl') div rl_interval rl * rl_rate rl
      \<le> (t - rl_lastTime rl) div rl_interval rl * rl_rate rl" (is "?x + ?y \<le> ?z")
  proof -
    have "(rl_lastTime rl' - rl_lastTime rl) div rl_interval rl +
        (t - rl_lastTime rl') div rl_interval rl \<le> (t - rl_lastTime rl) div rl_interval rl"
      using div_add_le [of "rl_interval rl" "rl_lastTime rl' - rl_lastTime rl" "t - rl_lastTime rl'"]
        Cons.prems(1) by (simp add: rl_ok_def)
    then show ?thesis
      using Cons.prems(1) mult_right_mono [of _ _ "rl_rate rl"]
      by (simp add: rl_ok_def distrib_right [symmetric])
  qed
  have "rl_horizon t rl'" using horizon_later [OF Cons.prems(2,1) ok same le(1)] .
  moreover have "calls_ok cs rl' t"
    using Cons.prems(3) lt c by (auto simp: calls_ok_def)
  ultimately have IH: "fst (rl_run cs rl') + rl_tokens (snd (rl_run cs rl')) \<le> rl_tokens rl' + ?y"
    using Cons.IH [OF ok _ _ le(2)] same by simp
  with b split show ?case by (cases "rl_run cs rl'"; cases g) (simp_all add: c a)
qed

lemma rl_run_ok:
  assumes "rl_ok rl" and "rl_horizon t rl" and "calls_ok cs rl t"
  shows "rl_ok (snd (rl_run cs rl))"
  using assms
proof (induction cs arbitrary: rl)
  case Nil
  then show ?case by simp
next
  case (Cons c cs)
  obtain now n where c: "c = (now, n)" by (cases c)
  have now: "rl_lastTime rl \<le> now" "now \<le> t" "0 \<le> n"
    using Cons.prems(3) c by (auto simp: calls_ok_def)
  have h: "rl_horizon now rl" using rl_horizon_mono Cons.prems(1,2) now(2) by blast
  from AllowN_step [OF Cons.prems(1) now(1) this now(3)] obtain g rl' where
    a: "RateLimiter_AllowN now n rl = Ret (g, rl')" and ok: "rl_ok rl'"
    and same: "rl_interval rl' = rl_interval rl" "rl_rate rl' = rl_rate rl"
    and lt: "rl_lastTime rl' = rl_lastTime rl \<or> rl_lastTime rl' = now" .
  have "rl_horizon t rl'"
    using horizon_later [OF Cons.prems(2,1) ok same] lt now by auto
  moreover have "calls_ok cs rl' t"
    using Cons.prems(3) lt c by (auto simp: calls_ok_def)
  ultimately show ?case
    using Cons.IH [OF ok] by (cases "rl_run cs rl'") (simp add: c a)
qed

lemma refill_tokens_le:
  "rl_tokens rl \<le> rl_maxTokens rl \<Longrightarrow> rl_tokens (rl_refill now rl) \<le> rl_maxTokens rl"
  "rl_maxTokens (rl_refill now rl) = rl_maxTokens rl"
  "rl_interval (rl_refill now rl) = rl_interval rl"
  "rl_rate (rl_refill now rl) = rl_rate rl"
  by (auto simp: rl_refill_def Let_def)

lemma AllowN_exceeds:
  assumes "rl_tokens rl \<le> rl_maxTokens rl" and "rl_maxTokens rl < n" and "rl_interval rl \<noteq> 0"
  shows "RateLimiter_AllowN now n rl = Ret (False, rl_refill now rl)"
  using refill_tokens_le(1) [OF assms(1), of now] assms
  by (auto simp: RateLimiter_AllowN_def Let_def)

lemma WaitN_exceeds:
  assumes "rl_tokens rl \<le> rl_maxTokens rl" and "rl_maxTokens rl < n" and "rl_interval rl \<noteq> 0"
    and "rl_rate rl \<noteq> 0"
  shows "RateLimiter_WaitN sched n rl \<in> {None, Some (Err ())}"
  using assms
proof (induction sched arbitrary: rl)
  case Nil
  then show ?case by simp
next
  case (Cons e sched)
  have "RateLimiter_WaitN sched n (rl_refill (fst e) rl) \<in> {None, Some (Err ())}"
    using Cons.prems by (intro Cons.IH) (auto simp: refill_tokens_le)
  with Cons.prems show ?case
    by (cases e) (simp add: AllowN_exceeds refill_tokens_le)
qed

section \<open>Properties\<close>

text \<open>C22. However many goroutines run \<^verbatim>\<open>Acquire\<close> and \<^verbatim>\<open>Release\<close> of a connection limiter at once, and
  however their loads and swaps interleave, the number of slots held is the number of granted
  acquisitions minus the number of effective releases and lies between 0 and the limit.\<close>

theorem cas_never_exceeds_limit:
  assumes "cas_reach m s" and "0 \<le> m" and "m < 2 ^ 63"
  shows "cl_current (cas_lim s) = int (granted s) - int (released s) \<and>
     0 \<le> cl_current (cas_lim s) \<and> cl_current (cas_lim s) \<le> m"
  using cas_reach_inv [OF assms] by (auto simp: cas_inv_def cl_ok_def)

theorem cas_never_exceeds_limit_witness:
  "cl_current (NewConnectionLimiter 2) \<le> 2"
  using cas_never_exceeds_limit [OF cas_init [of 2]] by simp

text \<open>C23. Every step of every goroutine in the compare-and-swap loops either leaves the limiter
  alone or is exactly one sequential \<^verbatim>\<open>Acquire\<close> that succeeds or one sequential \<^verbatim>\<open>Release\<close>: the
  loops are linearisable to the sequential operations.\<close>

theorem cas_steps_are_atomic_operations:
  assumes "cas_reach m s" and "0 \<le> m" and "m < 2 ^ 63" and "cas_step s s'"
  shows "cas_lim s' = cas_lim s \<and> granted s' = granted s \<and> released s' = released s \<or>
     ConnectionLimiter_Acquire (cas_lim s) = (None, cas_lim s') \<and>
       granted s' = granted s + 1 \<and> released s' = released s \<or>
     ConnectionLimiter_Release (cas_lim s) = cas_lim s' \<and> 0 < cl_current (cas_lim s) \<and>
       granted s' = granted s \<and> released s' = released s + 1"
  using cas_step_refines [OF assms(4) cas_reach_inv [OF assms(1,2,3)]] .

theorem cas_steps_are_atomic_operations_witness:
  "cas_step \<lparr>cas_lim = NewConnectionLimiter 2, cas_pcs = (\<lambda>_. CIdle)(0 := CAcq 0),
             granted = 0, released = 0\<rparr>
            \<lparr>cas_lim = (NewConnectionLimiter 2)\<lparr>cl_current := 1\<rparr>,
             cas_pcs = (\<lambda>_. CIdle)(0 := CAcq 0, 0 := CIdle), granted = 1, released = 0\<rparr> \<and>
   fst (ConnectionLimiter_Acquire (NewConnectionLimiter 2)) = None"
proof -
  let ?s = "\<lparr>cas_lim = NewConnectionLimiter 2, cas_pcs = (\<lambda>_. CIdle), granted = 0, released = 0\<rparr>"
  let ?t = "?s\<lparr>cas_pcs := (\<lambda>_. CIdle)(0 := CAcq 0)\<rparr>"
  let ?u = "?t\<lparr>cas_pcs := (cas_pcs ?t)(0 := CIdle),
      cas_lim := (cas_lim ?t)\<lparr>cl_current := i64 (0 + 1)\<rparr>, granted := granted ?t + 1\<rparr>"
  have "cas_step ?s ?t"
    using acq_load [of ?s 0] by (simp add: NewConnectionLimiter_def)
  then have r: "cas_reach 2 ?t" using cas_next [OF cas_init] by blast
  have st: "cas_step ?t ?u"
    using acq_swap [of ?t 0 0] by (simp add: NewConnectionLimiter_def)
  from cas_steps_are_atomic_operations [OF r _ _ st] st show ?thesis
    by (auto simp: NewConnectionLimiter_def ConnectionLimiter_Release_def)
qed

text \<open>A composite limiter, nested to any depth, acquires all of its limiters or none: if one
  of them refuses, every limiter is back in the state it was in; if none refuses, releasing the
  composite restores that state.\<close>

lemma composite_all_or_nothing:
  assumes "lim_ok (LComposite ls)" and "Limiter_Acquire (LComposite ls) = (r, l')"
  shows "(if r = None then Limiter_Release l' else l') = LComposite ls"
  using any_limiter.bracket_restores [OF assms] .

lemma composite_all_or_nothing_witness:
  "Limiter_Acquire (LComposite [LConn (NewConnectionLimiter 5), LGo (NewGoroutineLimiter 0)]) =
     (Some ErrLimitExceeded,
      LComposite [LConn (NewConnectionLimiter 5), LGo (NewGoroutineLimiter 0)])"
proof -
  let ?l = "LComposite [LConn (NewConnectionLimiter 5), LGo (NewGoroutineLimiter 0)]"
  obtain r l' where a: "Limiter_Acquire ?l = (r, l')" by (cases "Limiter_Acquire ?l")
  have "lim_ok ?l"
    by (simp add: cl_ok_def gl_ok_def NewConnectionLimiter_def NewGoroutineLimiter_def)
  from composite_all_or_nothing [OF this a] have
    "(if r = None then Limiter_Release l' else l') = ?l" .
  moreover have "fst (Limiter_Acquire ?l) = Some ErrLimitExceeded"
    by (simp add: counting_defs NewConnectionLimiter_def NewGoroutineLimiter_def)
  ultimately show ?thesis unfolding a by simp
qed

text \<open>Of a burst of \<open>n\<close> acquisitions on a connection limiter exactly the free slots are granted:
  \<open>min n (max - current)\<close>.\<close>

lemma connection_burst:
  assumes "cl_ok l"
  shows "int (fst (acquire_n ConnectionLimiter_Acquire n l)) =
     min (int n) (cl_max l - cl_current l)"
  using conn_limiter.burst [OF assms, of n]
  by (cases "acquire_n ConnectionLimiter_Acquire n l") auto

lemma connection_burst_witness:
  "fst (acquire_n ConnectionLimiter_Acquire 7 (NewConnectionLimiter 3)) = 3"
  using connection_burst [of "NewConnectionLimiter 3" 7]
  by (simp add: cl_ok_def NewConnectionLimiter_def)

text \<open>C34. Over any run of \<^verbatim>\<open>AllowN\<close> calls up to time \<open>t\<close> with a clock that does not go backwards, a
  fresh rate limiter admits at most \<open>rate\<close> operations at once plus \<open>rate\<close> per elapsed interval.\<close>

theorem rate_limit_respected:
  assumes "0 < rate" and "0 < interval" and "t0 \<le> t"
    and "calls_ok cs (NewRateLimiter t0 rate interval) t"
    and "rl_horizon t (NewRateLimiter t0 rate interval)"
  shows "fst (rl_run cs (NewRateLimiter t0 rate interval)) \<le>
     rate + (t - t0) div interval * rate"
proof -
  let ?rl = "NewRateLimiter t0 rate interval"
  have "rl_ok ?rl"
    using assms div_mult_nonneg [of "t - t0" interval rate]
    by (auto simp: rl_ok_def NewRateLimiter_def rl_horizon_def)
  moreover have "0 \<le> rl_tokens (snd (rl_run cs ?rl))"
    using rl_run_ok [OF \<open>rl_ok ?rl\<close> assms(5,4)] by (simp add: rl_ok_def)
  ultimately show ?thesis
    using rl_run_bound [of ?rl t cs] assms by (simp add: NewRateLimiter_def)
qed

theorem rate_limit_respected_witness:
  "fst (rl_run [(0, 6), (1, 6), (10, 6)] (NewRateLimiter 0 10 10)) \<le> 20"
  using rate_limit_respected [of 10 10 0 10 "[(0, 6), (1, 6), (10, 6)]"]
  by (simp add: calls_ok_def NewRateLimiter_def rl_horizon_def)

text \<open>\<^verbatim>\<open>WaitN\<close> for more operations than the bucket can hold never succeeds: whatever the
  schedule of polls, it is still waiting or it has returned the error of its context.\<close>

lemma wait_beyond_bucket_never_succeeds:
  assumes "0 < rate" and "0 < interval" and "rate < n"
  shows "RateLimiter_WaitN sched n (NewRateLimiter t0 rate interval) \<in> {None, Some (Err ())}"
  using assms by (intro WaitN_exceeds) (auto simp: NewRateLimiter_def)

lemma wait_beyond_bucket_never_succeeds_witness:
  "RateLimiter_WaitN [(0, False), (100, True)] 11 (NewRateLimiter 0 10 10)
     \<in> {None, Some (Err ())}"
  using wait_beyond_bucket_never_succeeds [of 10 10 11 "[(0, False), (100, True)]" 0] by simp

text \<open>The overflow of the memory limiter: with one byte in use, a request of \<open>2^63 - 1\<close> bytes
  wraps the sum to a negative number, so it is granted whatever the limit is, and the limiter
  then accounts for a negative amount of memory.\<close>

lemma memory_limit_overflow:
  assumes "ml_usedBytes l = 1" and "- (2 ^ 63) \<le> ml_maxBytes l"
  shows "fst (MemoryLimiter_Allocate (2 ^ 63 - 1) l) = None \<and>
     ml_usedBytes (snd (MemoryLimiter_Allocate (2 ^ 63 - 1) l)) = - (2 ^ 63)"
  using assms by (simp add: MemoryLimiter_Allocate_def i64_def)

lemma memory_limit_overflow_witness:
  "fst (MemoryLimiter_Allocate (2 ^ 63 - 1)
     (snd (MemoryLimiter_Allocate 1 (NewMemoryLimiter 100)))) = None"
  using memory_limit_overflow [of "snd (MemoryLimiter_Allocate 1 (NewMemoryLimiter 100))"]
  by (simp add: MemoryLimiter_Allocate_def NewMemoryLimiter_def)

end
