(* ===== verification/Buffer_Pool.thy ===== *)
theory Buffer_Pool
  imports Go_Prelude
begin

text \<open>
  The byte-buffer pools of \<^verbatim>\<open>internal/pool/pool.go\<close>. A Go slice is its backing array from the
  slice's start to its capacity, and its length: slicing \<^verbatim>\<open>b[:n]\<close> may extend a slice up to its
  capacity, so a buffer that went through a pool can have more capacity than the pool's size.

  \<^verbatim>\<open>sync.Pool\<close> hands out any buffer it holds or calls \<^verbatim>\<open>New\<close>, and may drop buffers; which of
  these happens is the argument \<open>choice\<close> of \<open>BufferPool_Get\<close>.
\<close>

section \<open>Slices\<close>

record gslice =
  arr :: bytes
  slen :: nat

definition scap :: "gslice \<Rightarrow> nat" where
  "scap b = length (arr b)"

definition contents :: "gslice \<Rightarrow> bytes" where
  "contents b = take (slen b) (arr b)"

definition slice_ok :: "gslice \<Rightarrow> bool" where
  "slice_ok b \<longleftrightarrow> slen b \<le> length (arr b)"

definition make_slice :: "nat \<Rightarrow> gslice" where
  "make_slice n = \<lparr>arr = replicate n 0, slen = n\<rparr>"

text \<open>\<^verbatim>\<open>b[:n]\<close>: allowed up to the capacity, a panic beyond it.\<close>

definition reslice :: "nat \<Rightarrow> gslice \<Rightarrow> gslice option" where
  "reslice n b = (if n \<le> scap b then Some (b\<lparr>slen := n\<rparr>) else None)"

section \<open>The pool\<close>

record BufferPool =
  bp_size :: nat
  bp_free :: "gslice list"

definition SmallBufferSize :: nat where "SmallBufferSize = 8 * 1024"
definition DefaultBufferSize :: nat where "DefaultBufferSize = 64 * 1024"
definition LargeBufferSize :: nat where "LargeBufferSize = 256 * 1024"
definition XLargeBufferSize :: nat where "XLargeBufferSize = 512 * 1024"

definition NewBufferPool :: "nat \<Rightarrow> BufferPool" where
  "NewBufferPool sz = \<lparr>bp_size = sz, bp_free = []\<rparr>"

definition remove_nth :: "nat \<Rightarrow> 'a list \<Rightarrow> 'a list" where
  "remove_nth i xs = take i xs @ drop (Suc i) xs"

definition BufferPool_Get :: "nat option \<Rightarrow> BufferPool \<Rightarrow> gslice \<times> BufferPool" where
  "BufferPool_Get choice p =
     (case choice of
        Some i \<Rightarrow> if i < length (bp_free p)
                 then (bp_free p ! i, p\<lparr>bp_free := remove_nth i (bp_free p)\<rparr>)
                 else (make_slice (bp_size p), p)
      | None \<Rightarrow> (make_slice (bp_size p), p))"

definition BufferPool_Put :: "gslice \<Rightarrow> BufferPool \<Rightarrow> BufferPool" where
  "BufferPool_Put b p =
     p\<lparr>bp_free := (if scap b < bp_size p then make_slice (bp_size p)
                   else b\<lparr>slen := bp_size p\<rparr>) # bp_free p\<rparr>"

text \<open>The four pools of the package and the choice between them by size.\<close>

datatype pool_id = SmallPool | DefaultPool | LargePool | XLargePool

fun pool_size :: "pool_id \<Rightarrow> nat" where
  "pool_size SmallPool = SmallBufferSize"
| "pool_size DefaultPool = DefaultBufferSize"
| "pool_size LargePool = LargeBufferSize"
| "pool_size XLargePool = XLargeBufferSize"

definition GetBufferForSize :: "int \<Rightarrow> pool_id" where
  "GetBufferForSize sz =
     (if sz \<le> int SmallBufferSize then SmallPool
      else if sz \<le> int DefaultBufferSize then DefaultPool
      else if sz \<le> int LargeBufferSize then LargePool
      else XLargePool)"

definition PutBufferForSize :: "nat \<Rightarrow> pool_id" where
  "PutBufferForSize c =
     (if c \<le> SmallBufferSize then SmallPool
      else if c \<le> DefaultBufferSize then DefaultPool
      else if c \<le> LargeBufferSize then LargePool
      else XLargePool)"

section \<open>Invariant\<close>

definition buf_ok :: "nat \<Rightarrow> gslice \<Rightarrow> bool" where
  "buf_ok sz b \<longleftrightarrow> slen b = sz \<and> sz \<le> scap b"

definition pool_ok :: "BufferPool \<Rightarrow> bool" where
  "pool_ok p \<longleftrightarrow> list_all (buf_ok (bp_size p)) (bp_free p)"

text \<open>No buffer of the pool has spare capacity beyond the pool's size.\<close>

definition pool_tight :: "BufferPool \<Rightarrow> bool" where
  "pool_tight p \<longleftrightarrow> list_all (\<lambda>b. scap b = bp_size p) (bp_free p)"

text \<open>A supply of buffers as its users see it: whatever \<open>get\<close> hands out satisfies \<open>good\<close>, and a
  buffer given back keeps the supply good.\<close>

locale buffer_supply =
  fixes get :: "'c \<Rightarrow> 'p \<Rightarrow> 'b \<times> 'p"
    and put :: "'b \<Rightarrow> 'p \<Rightarrow> 'p"
    and good :: "'b \<Rightarrow> bool"
    and inv :: "'p \<Rightarrow> bool"
  assumes get_good: "inv p \<Longrightarrow> get c p = (b, p') \<Longrightarrow> good b \<and> inv p'"
    and put_inv: "inv p \<Longrightarrow> inv (put b p)"
begin

text \<open>Borrow a buffer, transform it in any way, give it back.\<close>

lemma borrow: "inv p \<Longrightarrow> get c p = (b, p') \<Longrightarrow> inv (put (f b) p')"
  using get_good put_inv by blast

end

lemma make_slice_simps [simp]:
  "slen (make_slice n) = n" "scap (make_slice n) = n" "length (arr (make_slice n)) = n"
  by (simp_all add: make_slice_def scap_def)

lemma list_all_remove_nth: "list_all P xs \<Longrightarrow> list_all P (remove_nth i xs)"
  by (auto simp: remove_nth_def list_all_iff dest: in_set_takeD in_set_dropD)

lemma list_all_nth: "list_all P xs \<Longrightarrow> i < length xs \<Longrightarrow> P (xs ! i)"
  by (simp add: list_all_length)

lemma NewBufferPool_ok [simp]: "pool_ok (NewBufferPool n)" "pool_tight (NewBufferPool n)"
    "bp_size (NewBufferPool n) = n"
  by (simp_all add: pool_ok_def pool_tight_def NewBufferPool_def)

lemma Get_size [simp]: "bp_size (snd (BufferPool_Get c p)) = bp_size p"
  by (simp add: BufferPool_Get_def split: option.split)

lemma Put_size [simp]: "bp_size (BufferPool_Put b p) = bp_size p"
  by (simp add: BufferPool_Put_def)

lemma Get_ok:
  assumes "pool_ok p" and "BufferPool_Get c p = (b, p')"
  shows "buf_ok (bp_size p) b" and "pool_ok p'"
  using assms
  by (auto simp: BufferPool_Get_def pool_ok_def buf_ok_def [of _ "make_slice _"]
      list_all_remove_nth list_all_nth split: option.splits if_splits)

lemma Get_tight:
  assumes "pool_tight p" and "BufferPool_Get c p = (b, p')"
  shows "scap b = bp_size p" and "pool_tight p'"
  using assms
  by (auto simp: BufferPool_Get_def pool_tight_def list_all_remove_nth
      dest: list_all_nth split: option.splits if_splits)

lemma Put_ok: "pool_ok p \<Longrightarrow> pool_ok (BufferPool_Put b p)"
  by (simp add: pool_ok_def BufferPool_Put_def buf_ok_def scap_def)

interpretation sized_pool: buffer_supply BufferPool_Get BufferPool_Put
  "buf_ok n" "\<lambda>p. pool_ok p \<and> bp_size p = n" for n
proof
  fix p p' c b
  assume "pool_ok p \<and> bp_size p = n" and "BufferPool_Get c p = (b, p')"
  then show "buf_ok n b \<and> pool_ok p' \<and> bp_size p' = n"
    using Get_ok Get_size by (metis snd_conv)
next
  fix p b
  assume "pool_ok p \<and> bp_size p = n"
  then show "pool_ok (BufferPool_Put b p) \<and> bp_size (BufferPool_Put b p) = n"
    by (simp add: Put_ok)
qed

section \<open>Properties\<close>

text \<open>A buffer taken from a pool always has the pool's length and at least its capacity, and
  this survives any use: whatever was done to the buffer meanwhile (resliced, replaced by a
  smaller or larger one), returning it keeps every buffer of the pool at that length.\<close>

lemma pool_buffers_sized:
  assumes "pool_ok p" and "BufferPool_Get c p = (b, p')"
  shows "slen b = bp_size p \<and> bp_size p \<le> scap b \<and> pool_ok (BufferPool_Put (f b) p')"
  using sized_pool.get_good [of p "bp_size p" c b p']
    sized_pool.borrow [of p "bp_size p" c b p' f] assms
  by (auto simp: buf_ok_def)

lemma pool_buffers_sized_witness:
  "slen (fst (BufferPool_Get None (NewBufferPool 8))) = 8"
  using pool_buffers_sized [of "NewBufferPool 8" None _ _ id]
  by (cases "BufferPool_Get None (NewBufferPool 8)") auto

text \<open>Choosing a pool by size is sound for every size a pool can serve: the buffer is at least
  as large as asked for up to 512 KB, and a buffer goes back to the pool it came from.\<close>

lemma buffer_for_size_fits:
  assumes "sz \<le> int XLargeBufferSize"
  shows "sz \<le> int (pool_size (GetBufferForSize sz)) \<and>
     PutBufferForSize (pool_size (GetBufferForSize sz)) = GetBufferForSize sz"
  using assms
  by (auto simp: GetBufferForSize_def PutBufferForSize_def SmallBufferSize_def
      DefaultBufferSize_def LargeBufferSize_def XLargeBufferSize_def)

end
