(* ===== verification/MuxCodec.thy ===== *)
theory MuxCodec
  imports Buffer_Pool
begin

text \<open>
  The message codecs of \<^verbatim>\<open>forward/mux.go\<close>: the binary protocol
  (\<^verbatim>\<open>BinaryProtocol\<close>) with its pooled encode buffers, and the text protocol
  (\<^verbatim>\<open>DefaultMuxEncoder\<close>, \<^verbatim>\<open>DefaultMuxDecoder\<close>) with its hand-written integer printer.
  Both implement the Go interfaces \<^verbatim>\<open>MuxEncoder\<close> and \<^verbatim>\<open>MuxDecoder\<close>, whose contract is the
  locale \<open>mux_codec\<close>; its two interpretations are at the end.

  Encoders write into a buffer of the pool exactly where the code writes: a slice index
  beyond the length panics, \<^verbatim>\<open>copy\<close> stops silently at the length, and the final
  \<^verbatim>\<open>(*buf)[:offset]\<close> may extend up to the capacity. The first argument of an encoder is the
  pool's choice of a buffer.
\<close>

section \<open>Messages\<close>

datatype MessageType =
    MsgTypeData | MsgTypeClose | MsgTypeRequest | MsgTypeResponse | MsgTypeHandshake
  | MsgTypeNewConn | MsgTypeOther nat

fun msg_code :: "MessageType \<Rightarrow> nat" where
  "msg_code MsgTypeData = 0"
| "msg_code MsgTypeClose = 1"
| "msg_code MsgTypeRequest = 2"
| "msg_code MsgTypeResponse = 3"
| "msg_code MsgTypeHandshake = 4"
| "msg_code MsgTypeNewConn = 5"
| "msg_code (MsgTypeOther n) = 6 + n"

definition msg_of_code :: "nat \<Rightarrow> MessageType" where
  "msg_of_code n =
     (if n = 0 then MsgTypeData else if n = 1 then MsgTypeClose else if n = 2 then MsgTypeRequest
      else if n = 3 then MsgTypeResponse else if n = 4 then MsgTypeHandshake
      else if n = 5 then MsgTypeNewConn else MsgTypeOther (n - 6))"

fun MessageType_String :: "MessageType \<Rightarrow> gostr" where
  "MessageType_String MsgTypeData = str ''DATA''"
| "MessageType_String MsgTypeClose = str ''CLOSE''"
| "MessageType_String MsgTypeRequest = str ''REQUEST''"
| "MessageType_String MsgTypeResponse = str ''RESPONSE''"
| "MessageType_String MsgTypeHandshake = str ''HANDSHAKE''"
| "MessageType_String MsgTypeNewConn = str ''NEWCONN''"
| "MessageType_String (MsgTypeOther n) = str ''UNKNOWN''"

record Message =
  msg_Type :: MessageType
  msg_ID :: gostr
  msg_Payload :: bytes

datatype mux_error =
    IDTooLong | PayloadTooLong | MessageTooLarge
  | ErrMessageTooShort | ErrInvalidMessage
  | InvalidFormat | UnknownType | InvalidLength

type_synonym encoded = "(mux_error, gslice) go_result \<times> BufferPool"
type_synonym decoded = "(mux_error, MessageType \<times> gostr \<times> bytes) go_result"

section \<open>The binary protocol\<close>

definition NewBinaryProtocol :: BufferPool where
  "NewBinaryProtocol = NewBufferPool (64 * 1024)"

text \<open>The writes of \<^verbatim>\<open>Encode\<close>, in their order; \<open>None\<close> is an index panic.\<close>

definition bin_write :: "Message \<Rightarrow> wbuf \<Rightarrow> wbuf option" where
  "bin_write msg s0 = do {
     s1 \<leftarrow> w_byte (word_of_nat (msg_code (msg_Type msg))) s0;
     s2 \<leftarrow> w_be (be16 (length (msg_ID msg))) s1;
     s3 \<leftarrow> w_copy (msg_ID msg) s2;
     s4 \<leftarrow> w_be (be32 (length (msg_Payload msg))) s3;
     w_copy (msg_Payload msg) s4 }"

text \<open>Write through a slice: its first \<open>slen\<close> bytes are visible, the rest of the array stays.\<close>

definition write_slice :: "(wbuf \<Rightarrow> wbuf option) \<Rightarrow> gslice \<Rightarrow> (gslice \<times> nat) option" where
  "write_slice w b =
     (case w (contents b, 0) of
        None \<Rightarrow> None
      | Some (bs, off) \<Rightarrow> Some (b\<lparr>arr := bs @ drop (slen b) (arr b)\<rparr>, off))"

definition bin_total :: "Message \<Rightarrow> nat" where
  "bin_total msg = 1 + 2 + length (msg_ID msg) + 4 + length (msg_Payload msg)"

text \<open>The buffer that \<^verbatim>\<open>Encode\<close> works in: one of the pool, or a new one when the capacity is too
  small, the pooled one going back.\<close>

definition bin_buffer :: "nat option \<Rightarrow> Message \<Rightarrow> BufferPool \<Rightarrow> gslice \<times> BufferPool" where
  "bin_buffer c m p =
     (let (b0, p1) = BufferPool_Get c p in
      if scap b0 < bin_total m then (make_slice (bin_total m), BufferPool_Put b0 p1) else (b0, p1))"

definition BinaryProtocol_Encode :: "nat option \<Rightarrow> Message \<Rightarrow> BufferPool \<Rightarrow> encoded" where
  "BinaryProtocol_Encode choice msg p =
     (if length (msg_ID msg) > 65535 then (Err IDTooLong, p)
      else if length (msg_Payload msg) > 2 ^ 31 then (Err PayloadTooLong, p)
      else if bin_total msg > 2 ^ 31 + 65535 + 7 then (Err MessageTooLarge, p)
      else
        let (b, p2) = bin_buffer choice msg p
        in case write_slice (bin_write msg) b of
             None \<Rightarrow> (Panic, p2)
           | Some (b', off) \<Rightarrow>
               (case reslice off b' of None \<Rightarrow> (Panic, p2) | Some r \<Rightarrow> (Ret r, p2)))"

definition BinaryProtocol_Decode :: "bytes \<Rightarrow> decoded" where
  "BinaryProtocol_Decode data =
     (if length data < 7 then Err ErrMessageTooShort
      else
        let msgType = msg_of_code (unat (data ! 0)) in
        case get16 (drop 1 data) of
          None \<Rightarrow> Panic
        | Some idLen \<Rightarrow>
            if length data < 3 + idLen + 4 then Err ErrInvalidMessage
            else
              let i = sub data 3 idLen in
              case get32 (drop (3 + idLen) data) of
                None \<Rightarrow> Panic
              | Some payloadLen \<Rightarrow>
                  if length data < 3 + idLen + 4 + payloadLen then Err ErrInvalidMessage
                  else Ret (msgType, i, sub data (3 + idLen + 4) payloadLen))"

definition BinaryProtocol_Release :: "gslice \<Rightarrow> BufferPool \<Rightarrow> BufferPool" where
  "BinaryProtocol_Release b p = (if slen b > 0 then BufferPool_Put b p else p)"

definition BinaryProtocol_EncodeData :: "nat option \<Rightarrow> gostr \<Rightarrow> bytes \<Rightarrow> BufferPool \<Rightarrow> encoded" where
  "BinaryProtocol_EncodeData c connID data =
     BinaryProtocol_Encode c \<lparr>msg_Type = MsgTypeData, msg_ID = connID, msg_Payload = data\<rparr>"

definition BinaryProtocol_EncodeClose :: "nat option \<Rightarrow> gostr \<Rightarrow> BufferPool \<Rightarrow> encoded" where
  "BinaryProtocol_EncodeClose c connID =
     BinaryProtocol_Encode c \<lparr>msg_Type = MsgTypeClose, msg_ID = connID, msg_Payload = []\<rparr>"

definition BinaryProtocol_EncodeRequest ::
  "nat option \<Rightarrow> gostr \<Rightarrow> bytes \<Rightarrow> BufferPool \<Rightarrow> encoded" where
  "BinaryProtocol_EncodeRequest c reqID data =
     BinaryProtocol_Encode c \<lparr>msg_Type = MsgTypeRequest, msg_ID = reqID, msg_Payload = data\<rparr>"

definition BinaryProtocol_EncodeResponse ::
  "nat option \<Rightarrow> gostr \<Rightarrow> bytes \<Rightarrow> BufferPool \<Rightarrow> encoded" where
  "BinaryProtocol_EncodeResponse c reqID data =
     BinaryProtocol_Encode c \<lparr>msg_Type = MsgTypeResponse, msg_ID = reqID, msg_Payload = data\<rparr>"

definition BinaryProtocol_EncodeNewConn ::
  "nat option \<Rightarrow> gostr \<Rightarrow> gostr \<Rightarrow> BufferPool \<Rightarrow> encoded" where
  "BinaryProtocol_EncodeNewConn c connID remoteAddr =
     BinaryProtocol_Encode c
       \<lparr>msg_Type = MsgTypeNewConn, msg_ID = connID, msg_Payload = remoteAddr\<rparr>"

section \<open>The text protocol\<close>

definition colon :: byte where "colon = 58"

definition NewDefaultMuxEncoder :: "byte \<times> BufferPool" where
  "NewDefaultMuxEncoder = (10, NewBufferPool (64 * 1024))"

definition txt_put :: "gslice \<Rightarrow> BufferPool \<Rightarrow> BufferPool" where
  "txt_put b p = p\<lparr>bp_free := b # bp_free p\<rparr>"

text \<open>\<^verbatim>\<open>writeInt\<close>: the digits are written least significant first, then reversed in place.\<close>

function write_digits :: "nat \<Rightarrow> wbuf \<Rightarrow> wbuf option" where
  "write_digits n s =
     (if n = 0 then Some s
      else case w_byte (48 + word_of_nat (n mod 10)) s of
             None \<Rightarrow> None
           | Some s' \<Rightarrow> write_digits (n div 10) s')"
  by pat_completeness auto
termination
  by (relation "measure fst") auto

function reverse_range :: "bytes \<Rightarrow> nat \<Rightarrow> nat \<Rightarrow> bytes" where
  "reverse_range buf i j =
     (if i < j then reverse_range (buf[i := buf ! j, j := buf ! i]) (i + 1) (j - 1) else buf)"
  by pat_completeness auto
termination
  by (relation "measure (\<lambda>(buf, i, j). j - i)") auto

declare write_digits.simps [simp del] reverse_range.simps [simp del]

definition writeInt :: "nat \<Rightarrow> wbuf \<Rightarrow> wbuf option" where
  "writeInt n s =
     (if n = 0 then w_byte 48 s
      else case write_digits n s of
             None \<Rightarrow> None
           | Some (buf, off) \<Rightarrow> Some (reverse_range buf (snd s) (off - 1), off))"

definition txt_write :: "byte \<Rightarrow> gostr \<Rightarrow> gostr \<Rightarrow> bytes \<Rightarrow> wbuf \<Rightarrow> wbuf option" where
  "txt_write delim prefix i data s0 = do {
     s1 \<leftarrow> w_copy prefix s0;
     s2 \<leftarrow> w_copy i s1;
     s3 \<leftarrow> (if length data > 0 then do {
              t1 \<leftarrow> w_byte colon s2;
              t2 \<leftarrow> writeInt (length data) t1;
              t3 \<leftarrow> w_byte colon t2;
              w_copy data t3 }
           else Some s2);
     w_byte delim s3 }"

text \<open>The end of every text encoder: copy what was written into a fresh slice, put the buffer back.\<close>

definition txt_finish :: "(gslice \<times> nat) option \<Rightarrow> BufferPool \<Rightarrow> encoded" where
  "txt_finish w p =
     (case w of
        None \<Rightarrow> (Panic, p)
      | Some (b, off) \<Rightarrow>
          (case reslice off b of
             None \<Rightarrow> (Panic, p)
           | Some r \<Rightarrow> (Ret \<lparr>arr = contents r, slen = off\<rparr>, txt_put b p)))"

definition encodeMessage ::
  "nat option \<Rightarrow> byte \<Rightarrow> gostr \<Rightarrow> gostr \<Rightarrow> bytes \<Rightarrow> BufferPool \<Rightarrow> encoded" where
  "encodeMessage choice delim prefix i data p =
     (let maxTotalLen = length prefix + length i + 1 + 10 + 1 + length data + 1;
          (b0, p1) = BufferPool_Get choice p;
          (b, p2) = (if scap b0 < maxTotalLen
                     then (make_slice maxTotalLen, txt_put b0 p1) else (b0, p1))
      in txt_finish (write_slice (txt_write delim prefix i data) b) p2)"

definition DefaultMuxEncoder_EncodeData ::
  "byte \<Rightarrow> nat option \<Rightarrow> gostr \<Rightarrow> bytes \<Rightarrow> BufferPool \<Rightarrow> encoded" where
  "DefaultMuxEncoder_EncodeData delim c connID data = encodeMessage c delim (str ''DATA:'') connID data"

definition DefaultMuxEncoder_EncodeRequest ::
  "byte \<Rightarrow> nat option \<Rightarrow> gostr \<Rightarrow> bytes \<Rightarrow> BufferPool \<Rightarrow> encoded" where
  "DefaultMuxEncoder_EncodeRequest delim c reqID data =
     encodeMessage c delim (str ''REQUEST:'') reqID data"

definition DefaultMuxEncoder_EncodeResponse ::
  "byte \<Rightarrow> nat option \<Rightarrow> gostr \<Rightarrow> bytes \<Rightarrow> BufferPool \<Rightarrow> encoded" where
  "DefaultMuxEncoder_EncodeResponse delim c reqID data =
     encodeMessage c delim (str ''RESPONSE:'') reqID data"

definition DefaultMuxEncoder_EncodeClose ::
  "byte \<Rightarrow> nat option \<Rightarrow> gostr \<Rightarrow> BufferPool \<Rightarrow> encoded" where
  "DefaultMuxEncoder_EncodeClose delim c connID p =
     (let (b, p1) = BufferPool_Get c p
      in txt_finish (write_slice (\<lambda>s0. do {
             s1 \<leftarrow> w_copy (str ''CLOSE:'') s0;
             s2 \<leftarrow> w_copy connID s1;
             w_byte delim s2 }) b) p1)"

definition DefaultMuxEncoder_EncodeNewConn ::
  "byte \<Rightarrow> nat option \<Rightarrow> gostr \<Rightarrow> gostr \<Rightarrow> BufferPool \<Rightarrow> encoded" where
  "DefaultMuxEncoder_EncodeNewConn delim c connID remoteAddr p =
     (let (b, p1) = BufferPool_Get c p
      in txt_finish (write_slice (\<lambda>s0. do {
             s1 \<leftarrow> w_copy (str ''NEWCONN:'') s0;
             s2 \<leftarrow> w_copy connID s1;
             s3 \<leftarrow> w_byte colon s2;
             s4 \<leftarrow> w_copy remoteAddr s3;
             w_byte delim s4 }) b) p1)"

definition DefaultMuxEncoder_Release :: "gslice \<Rightarrow> BufferPool \<Rightarrow> BufferPool" where
  "DefaultMuxEncoder_Release b p = p"

text \<open>\<^verbatim>\<open>bytes.SplitN\<close>, \<^verbatim>\<open>bytes.Join\<close> and \<^verbatim>\<open>strconv.Atoi\<close>.\<close>

fun SplitN :: "byte \<Rightarrow> nat \<Rightarrow> bytes \<Rightarrow> bytes list" where
  "SplitN c 0 xs = []"
| "SplitN c (Suc 0) xs = [xs]"
| "SplitN c (Suc (Suc n)) xs =
     (let a = takeWhile (\<lambda>b. b \<noteq> c) xs in
      if length a = length xs then [xs] else a # SplitN c (Suc n) (drop (Suc (length a)) xs))"

fun Join :: "byte \<Rightarrow> bytes list \<Rightarrow> bytes" where
  "Join c [] = []"
| "Join c [x] = x"
| "Join c (x # y # ys) = x @ c # Join c (y # ys)"

definition is_digit :: "byte \<Rightarrow> bool" where
  "is_digit b \<longleftrightarrow> 48 \<le> unat b \<and> unat b \<le> 57"

definition digits_val :: "bytes \<Rightarrow> nat" where
  "digits_val ds = foldl (\<lambda>v d. v * 10 + (unat d - 48)) 0 ds"

definition Atoi :: "gostr \<Rightarrow> int option" where
  "Atoi s =
     (let (neg, ds) = (case s of
            [] \<Rightarrow> (False, [])
          | c # r \<Rightarrow> if c = 45 then (True, r) else if c = 43 then (False, r) else (False, s));
          v = (if neg then - int (digits_val ds) else int (digits_val ds))
      in if ds \<noteq> [] \<and> list_all is_digit ds \<and> in_i64 v then Some v else None)"

definition text_type :: "gostr \<Rightarrow> MessageType option" where
  "text_type s =
     (if s = str ''DATA'' then Some MsgTypeData
      else if s = str ''CLOSE'' then Some MsgTypeClose
      else if s = str ''REQUEST'' then Some MsgTypeRequest
      else if s = str ''RESPONSE'' then Some MsgTypeResponse
      else if s = str ''HANDSHAKE'' then Some MsgTypeHandshake
      else if s = str ''NEWCONN'' then Some MsgTypeNewConn
      else None)"

definition carries_length :: "MessageType \<Rightarrow> bool" where
  "carries_length t \<longleftrightarrow> t = MsgTypeData \<or> t = MsgTypeRequest \<or> t = MsgTypeResponse"

definition DefaultMuxDecoder_Decode :: "byte \<Rightarrow> bytes \<Rightarrow> decoded" where
  "DefaultMuxDecoder_Decode delim data0 =
     (let data = (if data0 \<noteq> [] \<and> last data0 = delim then butlast data0 else data0);
          parts = SplitN colon 4 data
      in if length parts < 2 then Err InvalidFormat
         else case text_type (parts ! 0) of
           None \<Rightarrow> Err UnknownType
         | Some msgType \<Rightarrow>
             if length parts \<ge> 4 \<and> carries_length msgType
             then (case Atoi (parts ! 2) of
                     None \<Rightarrow> Err InvalidLength
                   | Some n \<Rightarrow>
                       if int (length (parts ! 3)) > n
                       then (if n < 0 then Panic
                             else Ret (msgType, parts ! 1, take (nat n) (parts ! 3)))
                       else Ret (msgType, parts ! 1, parts ! 3))
             else if msgType = MsgTypeNewConn \<and> length parts \<ge> 3
             then Ret (msgType, parts ! 1, Join colon (drop 2 parts))
             else Ret (msgType, parts ! 1, []))"


section \<open>Reference frames\<close>

text \<open>The wire formats the package documentation gives, as byte strings.\<close>

definition bin_frame :: "MessageType \<Rightarrow> gostr \<Rightarrow> bytes \<Rightarrow> bytes" where
  "bin_frame t i pl =
     [word_of_nat (msg_code t)] @ be16 (length i) @ i @ be32 (length pl) @ pl"

abbreviation msg_frame :: "Message \<Rightarrow> bytes" where
  "msg_frame m \<equiv> bin_frame (msg_Type m) (msg_ID m) (msg_Payload m)"

definition bin_fits :: "Message \<Rightarrow> bool" where
  "bin_fits m \<longleftrightarrow> length (msg_ID m) \<le> 65535 \<and> length (msg_Payload m) \<le> 2 ^ 31"

text \<open>Decimal digits, most significant first.\<close>

fun dec :: "nat \<Rightarrow> bytes" where
  "dec n = (if n < 10 then [48 + word_of_nat n] else dec (n div 10) @ [48 + word_of_nat (n mod 10)])"

declare dec.simps [simp del]

definition txt_frame :: "byte \<Rightarrow> gostr \<Rightarrow> gostr \<Rightarrow> bytes \<Rightarrow> bytes" where
  "txt_frame delim prefix i data =
     prefix @ i @ (if data = [] then [] else [colon] @ dec (length data) @ [colon] @ data) @ [delim]"

text \<open>The buffers of the text encoder's pool are always whole: length and capacity agree.\<close>

definition txt_pool_ok :: "BufferPool \<Rightarrow> bool" where
  "txt_pool_ok p \<longleftrightarrow> bp_size p = 65536 \<and>
     list_all (\<lambda>b. slen b = scap b \<and> 65536 \<le> scap b) (bp_free p)"

section \<open>The codec interface\<close>

text \<open>An encoder call transports a message: it returns, the pool stays good, and the receiver's
  decoder reads the message back from the bytes.\<close>

definition transports ::
  "('p \<Rightarrow> bool) \<Rightarrow> (bytes \<Rightarrow> decoded) \<Rightarrow> (mux_error, gslice) go_result \<times> 'p
     \<Rightarrow> MessageType \<times> gostr \<times> bytes \<Rightarrow> bool" where
  "transports ok D r m \<longleftrightarrow> (\<exists>b p'. r = (Ret b, p') \<and> ok p' \<and> D (contents b) = Ret m)"

text \<open>The Go interfaces \<^verbatim>\<open>MuxEncoder\<close> and \<^verbatim>\<open>MuxDecoder\<close>.\<close>

locale mux_codec =
  fixes EncodeData :: "'c \<Rightarrow> gostr \<Rightarrow> bytes \<Rightarrow> 'p \<Rightarrow> (mux_error, gslice) go_result \<times> 'p"
    and EncodeClose :: "'c \<Rightarrow> gostr \<Rightarrow> 'p \<Rightarrow> (mux_error, gslice) go_result \<times> 'p"
    and EncodeRequest :: "'c \<Rightarrow> gostr \<Rightarrow> bytes \<Rightarrow> 'p \<Rightarrow> (mux_error, gslice) go_result \<times> 'p"
    and EncodeResponse :: "'c \<Rightarrow> gostr \<Rightarrow> bytes \<Rightarrow> 'p \<Rightarrow> (mux_error, gslice) go_result \<times> 'p"
    and EncodeNewConn :: "'c \<Rightarrow> gostr \<Rightarrow> gostr \<Rightarrow> 'p \<Rightarrow> (mux_error, gslice) go_result \<times> 'p"
    and Release :: "gslice \<Rightarrow> 'p \<Rightarrow> 'p"
    and Decode :: "bytes \<Rightarrow> decoded"
    and inv :: "'p \<Rightarrow> bool"
    and sendable :: "gostr \<Rightarrow> bytes \<Rightarrow> bool"
  assumes data_law: "inv p \<Longrightarrow> sendable i d \<Longrightarrow>
      transports inv Decode (EncodeData c i d p) (MsgTypeData, i, d)"
    and close_law: "inv p \<Longrightarrow> sendable i [] \<Longrightarrow>
      transports inv Decode (EncodeClose c i p) (MsgTypeClose, i, [])"
    and request_law: "inv p \<Longrightarrow> sendable i d \<Longrightarrow>
      transports inv Decode (EncodeRequest c i d p) (MsgTypeRequest, i, d)"
    and response_law: "inv p \<Longrightarrow> sendable i d \<Longrightarrow>
      transports inv Decode (EncodeResponse c i d p) (MsgTypeResponse, i, d)"
    and newconn_law: "inv p \<Longrightarrow> sendable i d \<Longrightarrow>
      transports inv Decode (EncodeNewConn c i d p) (MsgTypeNewConn, i, d)"
    and release_law: "inv p \<Longrightarrow> inv (Release b p)"
    and sendable_nil: "sendable i d \<Longrightarrow> sendable i []"
begin

lemma data_then_release:
  assumes "inv p" and "sendable i d" and "EncodeData c i d p = (r, p')"
  shows "\<exists>b. r = Ret b \<and> Decode (contents b) = Ret (MsgTypeData, i, d) \<and> inv (Release b p')"
  using data_law [OF assms(1,2), of c] assms(3) release_law by (auto simp: transports_def)

lemma close_then_release:
  assumes "inv p" and "sendable i d" and "EncodeClose c i p = (r, p')"
  shows "\<exists>b. r = Ret b \<and> Decode (contents b) = Ret (MsgTypeClose, i, []) \<and> inv (Release b p')"
  using close_law [OF assms(1) sendable_nil [OF assms(2)], of c] assms(3) release_law
  by (auto simp: transports_def)

end

definition bin_inv :: "BufferPool \<Rightarrow> bool" where
  "bin_inv p \<longleftrightarrow> pool_ok p \<and> bp_size p = 65536"

definition bin_sendable :: "gostr \<Rightarrow> bytes \<Rightarrow> bool" where
  "bin_sendable i d \<longleftrightarrow> length i + length d + 10 \<le> 65536"

definition txt_sendable :: "gostr \<Rightarrow> bytes \<Rightarrow> bool" where
  "txt_sendable i d \<longleftrightarrow> length i + length d + 10 \<le> 65536 \<and> colon \<notin> set i"

section \<open>Lemmas on the binary protocol\<close>

lemma msg_of_code_code [simp]: "msg_of_code (msg_code t) = t"
  by (cases t) (simp_all add: msg_of_code_def)

lemma msg_code_of_code [simp]: "msg_code (msg_of_code n) = n"
  by (simp add: msg_of_code_def)

lemma length_bin_frame [simp]: "length (msg_frame m) = bin_total m"
  by (simp add: bin_frame_def bin_total_def)

lemma bin_write_wst:
  assumes "bin_total m \<le> length buf"
  shows "bin_write m (buf, 0) = Some (wst (msg_frame m) (drop (bin_total m) buf))"
proof -
  have "buf \<noteq> []" using assms by (auto simp: bin_total_def)
  then show ?thesis
    unfolding bin_write_def fresh_wst bin_frame_def using assms
    by (simp add: wire_simps bin_total_def del: drop_drop add: drop_drop [symmetric])
       (simp add: drop_drop add.commute add.left_commute)
qed

lemma write_slice_enough:
  assumes "slice_ok b" and "w (contents b, 0) = Some (wst fr rest)"
    and "length fr + length rest = slen b"
  shows "\<exists>b' r. write_slice w b = Some (b', length fr) \<and> reslice (length fr) b' = Some r
     \<and> contents r = fr \<and> scap r = scap b \<and> slen r = length fr \<and> scap b' = scap b \<and> slen b' = slen b"
  using assms
  by (auto simp: write_slice_def wst_def reslice_def scap_def contents_def slice_ok_def)

lemma length_contents [simp]: "slice_ok b \<Longrightarrow> length (contents b) = slen b"
  by (simp add: contents_def slice_ok_def)

lemma buf_ok_slice_ok: "buf_ok n b \<Longrightarrow> slice_ok b \<and> slen b = n"
  by (simp add: buf_ok_def slice_ok_def scap_def)

lemma slice_ok_make_slice [simp]: "slice_ok (make_slice n)"
  by (simp add: slice_ok_def make_slice_def)

lemma bin_write_slice:
  assumes "slice_ok b" and "bin_total m \<le> slen b"
  shows "\<exists>b' r. write_slice (bin_write m) b = Some (b', bin_total m)
     \<and> reslice (bin_total m) b' = Some r \<and> contents r = msg_frame m \<and> slen r = bin_total m
     \<and> scap r = scap b"
  using write_slice_enough [of b "bin_write m" "msg_frame m" "drop (bin_total m) (contents b)"]
    bin_write_wst [of m "contents b"] assms
  by fastforce

lemma Encode_unfold:
  assumes "bin_fits m"
  shows "BinaryProtocol_Encode c m p =
     (let (b, p2) = bin_buffer c m p in
      case write_slice (bin_write m) b of
        None \<Rightarrow> (Panic, p2)
      | Some (b', off) \<Rightarrow> (case reslice off b' of None \<Rightarrow> (Panic, p2) | Some r \<Rightarrow> (Ret r, p2)))"
  using assms
  by (simp add: BinaryProtocol_Encode_def bin_fits_def bin_total_def)

lemma bin_buffer_ok:
  assumes "pool_ok p" and "pool_tight p \<or> bin_total m \<le> bp_size p"
    and "bin_buffer c m p = (b, p2)"
  shows "slice_ok b" and "bin_total m \<le> slen b" and "pool_ok p2" and "bp_size p2 = bp_size p"
    and "pool_tight p \<Longrightarrow> bin_total m \<le> bp_size p \<Longrightarrow> scap b = bp_size p \<and> pool_tight p2"
proof -
  obtain b0 p1 where g: "BufferPool_Get c p = (b0, p1)" by fastforce
  note ok = Get_ok [OF assms(1) g]
  have sz: "bp_size p1 = bp_size p" using Get_size [of c p] g by simp
  have cap: "scap b0 = bp_size p" if "pool_tight p" using Get_tight(1) [OF that g] .
  have tight: "pool_tight p1" if "pool_tight p" using Get_tight(2) [OF that g] .
  show "slice_ok b" "bin_total m \<le> slen b" "pool_ok p2" "bp_size p2 = bp_size p"
    using assms(2,3) g ok sz cap buf_ok_slice_ok [OF ok(1)]
    by (auto simp: bin_buffer_def Put_ok split: if_splits)
  show "scap b = bp_size p \<and> pool_tight p2" if "pool_tight p" "bin_total m \<le> bp_size p"
    using assms(3) g cap tight that by (auto simp: bin_buffer_def split: if_splits)
qed

lemma Encode_frame:
  assumes "pool_ok p" and "bin_fits m" and "pool_tight p \<or> bin_total m \<le> bp_size p"
  shows "\<exists>b p'. BinaryProtocol_Encode c m p = (Ret b, p') \<and> contents b = msg_frame m
     \<and> slen b = bin_total m \<and> pool_ok p' \<and> bp_size p' = bp_size p"
proof -
  obtain b p2 where bb: "bin_buffer c m p = (b, p2)" by fastforce
  note ok = bin_buffer_ok [OF assms(1,3) bb]
  from bin_write_slice [OF ok(1,2)] ok(3,4) show ?thesis
    by (auto simp: Encode_unfold [OF assms(2)] bb)
qed

lemma Release_ok [simp]:
  "pool_ok p \<Longrightarrow> pool_ok (BinaryProtocol_Release b p)"
  "bp_size (BinaryProtocol_Release b p) = bp_size p"
  by (simp_all add: BinaryProtocol_Release_def Put_ok)

lemma Decode_frame:
  assumes "length i \<le> 65535" and "length pl < 2 ^ 32" and "msg_code t < 256"
  shows "BinaryProtocol_Decode (bin_frame t i pl @ rest) = Ret (t, i, pl)"
proof -
  let ?d = "bin_frame t i pl @ rest"
  have "unat (?d ! 0) = msg_code t" using assms(3) by (simp add: bin_frame_def)
  moreover have "get16 (drop 1 ?d) = Some (length i)"
    using assms(1) by (simp add: bin_frame_def)
  moreover have "drop (3 + length i) ?d = be32 (length pl) @ pl @ rest"
    by (rule drop_exact [of _ "word_of_nat (msg_code t) # be16 (length i) @ i"])
      (simp_all add: bin_frame_def)
  moreover have "drop 3 ?d = i @ be32 (length pl) @ pl @ rest"
    by (simp add: bin_frame_def)
  moreover have "drop (3 + length i + 4) ?d = pl @ rest"
    by (rule drop_exact [of _ "word_of_nat (msg_code t) # be16 (length i) @ i @ be32 (length pl)"])
      (simp_all add: bin_frame_def)
  moreover have "length ?d = 7 + length i + length pl + length rest"
    by (simp add: bin_frame_def)
  ultimately show ?thesis
    using assms(2) by (simp add: BinaryProtocol_Decode_def Let_def sub_def)
qed

lemma Decode_inverse:
  assumes "BinaryProtocol_Decode data = Ret (t, i, pl)"
  shows "\<exists>rest. data = bin_frame t i pl @ rest \<and> length i \<le> 65535 \<and> length pl < 2 ^ 32
     \<and> msg_code t < 256"
proof -
  from assms obtain a d1 where d: "data = a # d1" and t: "t = msg_of_code (unat a)"
    by (cases data) (auto simp: BinaryProtocol_Decode_def Let_def split: if_splits option.splits)
  from assms d obtain n where n: "get16 d1 = Some n"
    by (auto simp: BinaryProtocol_Decode_def Let_def split: if_splits option.splits)
  from get16_inverse [OF this] obtain d2 where d1: "d1 = be16 n @ d2" by blast
  have nlt: "n < 2 ^ 16" using get16_bound [OF n] .
  from assms n have i: "i = take n d2" and len2: "n + 4 \<le> length d2"
    by (auto simp: BinaryProtocol_Decode_def Let_def d d1 sub_def split: if_splits option.splits)
  define d3 where "d3 = drop n d2"
  have d2: "d2 = i @ d3" and li: "length i = n" using i len2 by (simp_all add: d3_def)
  have "drop (3 + n) data = d3"
    by (rule drop_exact [of _ "a # be16 n @ i"]) (simp_all add: d d1 d2 li)
  with assms n obtain k where k: "get32 d3 = Some k"
      and pl: "pl = sub data (3 + n + 4) k" and len3: "3 + n + 4 + k \<le> length data"
    by (auto simp: BinaryProtocol_Decode_def Let_def d split: if_splits option.splits)
  from get32_inverse [OF k] obtain d4 where d3': "d3 = be32 k @ d4" and k': "k < 2 ^ 32" by blast
  have "drop (3 + n + 4) data = d4"
    by (rule drop_exact [of _ "a # be16 n @ i @ be32 k"]) (simp_all add: d d1 d2 d3' li)
  with pl len3 have "pl = take k d4" and "length pl = k"
    by (simp_all add: sub_def d d1 d2 d3' li)
  then have "data = bin_frame t i pl @ drop k d4"
    by (simp add: bin_frame_def d d1 d2 d3' li t)
  with li nlt k' \<open>length pl = k\<close> show ?thesis by (auto simp: t)
qed

lemma Decode_no_panic: "BinaryProtocol_Decode data \<noteq> Panic"
proof (cases "length data < 7")
  case False
  then obtain n where n: "get16 (drop 1 data) = Some n"
    using get16_Some_iff [of "drop 1 data"] by auto
  have "length data < 7 + n \<or> get32 (drop (3 + n) data) \<noteq> None"
    using get32_Some_iff [of "drop (3 + n) data"] by auto
  with n False show ?thesis
    by (auto simp: BinaryProtocol_Decode_def Let_def split: option.splits)
qed (simp add: BinaryProtocol_Decode_def)

text \<open>A pooled buffer whose capacity suffices but whose length does not: the header is written, the
  payload is cut at the length, and the final slice exposes the bytes that were there before.\<close>

lemma bin_write_short:
  assumes "7 + length (msg_ID m) \<le> length buf" and "length buf < bin_total m"
  shows "bin_write m (buf, 0) = Some (take (length buf) (msg_frame m), bin_total m)"
proof -
  let ?h = "[word_of_nat (msg_code (msg_Type m))] @ be16 (length (msg_ID m)) @ msg_ID m
              @ be32 (length (msg_Payload m))"
  have ne: "buf \<noteq> []" using assms(1) by auto
  have "bin_write m (buf, 0) = w_copy (msg_Payload m) (wst ?h (drop (7 + length (msg_ID m)) buf))"
    unfolding bin_write_def fresh_wst using assms(1) ne
    by (simp add: wire_simps add.commute add.left_commute)
  also have "\<dots> = Some (take (length buf) (msg_frame m), bin_total m)"
    using assms by (subst w_copy_wst_short) (simp_all add: bin_frame_def bin_total_def)
  finally show ?thesis .
qed

lemma Encode_stale:
  assumes "bin_fits m" and "BufferPool_Get c p = (b, p1)" and "slice_ok b"
    and "7 + length (msg_ID m) \<le> slen b" and "slen b < bin_total m" and "bin_total m \<le> scap b"
  shows "\<exists>r. BinaryProtocol_Encode c m p = (Ret r, p1) \<and> slen r = bin_total m
     \<and> contents r = take (slen b) (msg_frame m) @ sub (arr b) (slen b) (bin_total m - slen b)"
proof -
  have "bin_buffer c m p = (b, p1)" using assms(2,6) by (simp add: bin_buffer_def)
  moreover have "bin_write m (contents b, 0) = Some (take (slen b) (msg_frame m), bin_total m)"
    using bin_write_short [of m "contents b"] assms by simp
  ultimately show ?thesis
    using assms
    by (auto simp: Encode_unfold write_slice_def reslice_def scap_def contents_def sub_def)
qed

lemma Encode_fresh_arr:
  assumes "bin_fits m" and "pool_ok p" and "pool_tight p" and "bp_size p < bin_total m"
  shows "\<exists>b p'. BinaryProtocol_Encode c m p = (Ret b, p') \<and> arr b = msg_frame m
     \<and> slen b = bin_total m \<and> bp_size p' = bp_size p"
proof -
  obtain b0 p1 where g: "BufferPool_Get c p = (b0, p1)" by fastforce
  have "bin_buffer c m p = (make_slice (bin_total m), BufferPool_Put b0 p1)"
    using Get_tight(1) [OF assms(3) g] assms(4) by (simp add: bin_buffer_def g)
  moreover have "contents (make_slice (bin_total m)) = replicate (bin_total m) 0"
    by (simp add: contents_def make_slice_def)
  moreover have "bp_size p1 = bp_size p" using Get_size [of c p] g by simp
  ultimately show ?thesis
    using bin_write_wst [of m "replicate (bin_total m) 0"]
    by (auto simp: Encode_unfold [OF assms(1)] write_slice_def wst_def reslice_def scap_def make_slice_def)
qed

section \<open>Lemmas on the text protocol\<close>

lemma reverse_range_rev:
  "reverse_range (pre @ xs @ post) (length pre) (length pre + length xs - 1) = pre @ rev xs @ post"
proof (induction "length xs" arbitrary: pre xs post rule: less_induct)
  case less
  show ?case
  proof (cases "length xs < 2")
    case True
    then have "rev xs = xs" by (cases xs) auto
    then show ?thesis using True by (subst reverse_range.simps) auto
  next
    case False
    then obtain a ys b where xs: "xs = a # ys @ [b]"
      by (metis One_nat_def Suc_1 length_Cons lessI less_Suc0 list.exhaust list.size(3) rev_exhaust
          zero_less_Suc)
    have "(pre @ xs @ post) ! (length pre + length xs - 1) = b"
      and "(pre @ xs @ post) ! length pre = a"
      by (simp_all add: xs nth_append)
    moreover have "(pre @ xs @ post)[length pre := b, length pre + length xs - 1 := a]
        = (pre @ [b]) @ ys @ (a # post)"
      by (simp add: xs list_update_append)
    moreover have "length pre < length pre + length xs - 1" using False by simp
    ultimately have "reverse_range (pre @ xs @ post) (length pre) (length pre + length xs - 1)
        = reverse_range ((pre @ [b]) @ ys @ (a # post)) (length pre + 1) (length pre + length xs - 1 - 1)"
      by (subst reverse_range.simps) (simp del: append.simps append_assoc)
    also have "\<dots> = (pre @ [b]) @ rev ys @ (a # post)"
      using less.hyps [of ys "pre @ [b]" "a # post"] xs by simp
    finally show ?thesis by (simp add: xs)
  qed
qed

lemma write_digits_wst:
  assumes "n > 0" and "length (dec n) \<le> length rest"
  shows "write_digits n (wst pre rest)
     = Some (wst (pre @ rev (dec n)) (drop (length (dec n)) rest))"
  using assms
proof (induction n arbitrary: pre rest rule: dec.induct)
  case (1 n)
  show ?case
  proof (cases "n < 10")
    case True
    then have "rest \<noteq> []" "dec n = [48 + word_of_nat n]" using 1(3) by (auto simp: dec.simps)
    with True 1(2) show ?thesis
      by (subst write_digits.simps) (simp add: wire_simps write_digits.simps [of 0])
  next
    case False
    then have d: "dec n = dec (n div 10) @ [48 + word_of_nat (n mod 10)]" by (subst dec.simps) simp
    with 1(3) have "rest \<noteq> []" "length (dec (n div 10)) \<le> length (drop 1 rest)" by auto
    with False 1(1) [of "drop 1 rest" "pre @ [48 + word_of_nat (n mod 10)]"] show ?thesis
      by (subst write_digits.simps) (simp add: wire_simps d)
  qed
qed

lemma writeInt_wst [wire_simps]:
  assumes "length (dec n) \<le> length rest"
  shows "writeInt n (wst pre rest) = Some (wst (pre @ dec n) (drop (length (dec n)) rest))"
proof (cases "n = 0")
  case True
  then have "rest \<noteq> []" using assms by (auto simp: dec.simps)
  then show ?thesis using True by (simp add: writeInt_def wire_simps dec.simps)
next
  case False
  then show ?thesis
    using write_digits_wst [of n rest pre] assms
      reverse_range_rev [of pre "rev (dec n)" "drop (length (dec n)) rest"]
    by (simp add: writeInt_def wst_def)
qed

lemma length_dec: "n < 10 ^ k \<Longrightarrow> 0 < k \<Longrightarrow> length (dec n) \<le> k"
proof (induction n arbitrary: k rule: dec.induct)
  case (1 n)
  show ?case
  proof (cases "n < 10")
    case False
    with 1(2) obtain j where k: "k = Suc j" "0 < j"
      by (metis gr0_conv_Suc 1(3) power_one_right zero_less_iff_neq_zero One_nat_def)
    with 1(2) have "n div 10 < 10 ^ j" by (simp add: less_mult_imp_div_less mult.commute)
    with 1(1) [OF False _ k(2)] False k show ?thesis by (subst dec.simps) simp
  qed (use 1(3) in \<open>simp add: dec.simps\<close>)
qed

lemma unat_digit [simp]: "k < 10 \<Longrightarrow> unat (48 + word_of_nat k :: byte) = 48 + k"
  by (simp add: unat_word_ariths unat_of_nat)

lemma digits_val_snoc [simp]: "digits_val (ds @ [d]) = digits_val ds * 10 + (unat d - 48)"
  by (simp add: digits_val_def)

lemma dec_digits: "dec n \<noteq> [] \<and> list_all is_digit (dec n) \<and> digits_val (dec n) = n"
proof (induction n rule: dec.induct)
  case (1 n)
  show ?case
  proof (cases "n < 10")
    case True
    then show ?thesis
      by (subst (1 2 3) dec.simps) (simp add: is_digit_def digits_val_def)
  next
    case False
    then have "dec n = dec (n div 10) @ [48 + word_of_nat (n mod 10)]" by (subst dec.simps) simp
    with 1 [OF False] show ?thesis by (simp add: is_digit_def)
  qed
qed

lemma is_digit_not_special: "is_digit b \<Longrightarrow> b \<noteq> 45 \<and> b \<noteq> 43 \<and> b \<noteq> colon"
  by (auto simp: is_digit_def colon_def)

lemma Atoi_dec: "n < 2 ^ 63 \<Longrightarrow> Atoi (dec n) = Some (int n)"
  using dec_digits [of n] is_digit_not_special [of "hd (dec n)"]
  by (cases "dec n") (auto simp: Atoi_def in_i64_def)

lemma colon_not_in_dec: "colon \<notin> set (dec n)"
  using dec_digits [of n] is_digit_not_special by (auto simp: list_all_iff)

lemma takeWhile_sep: "c \<notin> set a \<Longrightarrow> takeWhile (\<lambda>b. b \<noteq> c) (a @ c # r) = a"
  and takeWhile_no_sep: "c \<notin> set a \<Longrightarrow> takeWhile (\<lambda>b. b \<noteq> c) a = a"
  by (induction a) auto

lemma SplitN_step:
  "c \<notin> set a \<Longrightarrow> SplitN c (Suc (Suc n)) (a @ c # r) = a # SplitN c (Suc n) r"
  by (simp add: takeWhile_sep Let_def)

lemma SplitN_end: "c \<notin> set a \<Longrightarrow> SplitN c (Suc n) a = [a]"
  by (cases n) (simp_all add: takeWhile_no_sep)

lemma SplitN_Cons: "\<exists>y ys. SplitN c (Suc n) xs = y # ys"
  by (cases n) (simp_all add: Let_def)

lemma Join_SplitN: "Join c (SplitN c (Suc n) xs) = xs"
proof (induction c "Suc n" xs arbitrary: n rule: SplitN.induct)
  case (3 c n xs)
  let ?a = "takeWhile (\<lambda>b. b \<noteq> c) xs"
  show ?case
  proof (cases "length ?a = length xs")
    case False
    then have "length ?a < length xs" using length_takeWhile_le [of "\<lambda>b. b \<noteq> c" xs] by linarith
    then have "xs ! length ?a = c" using nth_length_takeWhile by blast
    with \<open>length ?a < length xs\<close> have xs: "xs = ?a @ c # drop (Suc (length ?a)) xs"
      by (metis append_take_drop_id Cons_nth_drop_Suc takeWhile_eq_take)
    obtain y ys where "SplitN c (Suc n) (drop (Suc (length ?a)) xs) = y # ys"
      using SplitN_Cons by blast
    with 3 [OF refl False] False xs show ?thesis by simp
  qed simp
qed auto

lemma txt_write_wst:
  assumes "length prefix + length i + 13 + length data \<le> length buf" and "length data < 10 ^ 10"
  shows "txt_write delim prefix i data (buf, 0) =
     Some (wst (txt_frame delim prefix i data) (drop (length (txt_frame delim prefix i data)) buf))"
proof -
  have "length (dec (length data)) \<le> 10" using length_dec [OF assms(2)] by simp
  then show ?thesis
    unfolding txt_write_def fresh_wst txt_frame_def using assms(1)
    by (simp add: wire_simps add.commute add.left_commute)
qed

lemma txt_Get:
  assumes "txt_pool_ok p" and "BufferPool_Get c p = (b, p')"
  shows "slen b = scap b" and "65536 \<le> scap b" and "txt_pool_ok p'" and "slice_ok b"
proof -
  have "slen b = scap b \<and> 65536 \<le> scap b \<and> txt_pool_ok p'"
    using assms list_all_nth [of _ "bp_free p"]
    by (auto simp: BufferPool_Get_def txt_pool_ok_def list_all_remove_nth
        split: option.splits if_splits)
  then show "slen b = scap b" "65536 \<le> scap b" "txt_pool_ok p'" "slice_ok b"
    by (simp_all add: slice_ok_def scap_def)
qed

lemma txt_put_ok:
  "txt_pool_ok p \<Longrightarrow> slen b = scap b \<Longrightarrow> 65536 \<le> scap b \<Longrightarrow> txt_pool_ok (txt_put b p)"
  by (simp add: txt_pool_ok_def txt_put_def)

text \<open>All three text encoders end this way: the writes fit, a copy is returned.\<close>

lemma txt_finish_ok:
  assumes "w (contents b, 0) = Some (wst fr rest)" and "length fr + length rest = slen b"
    and "slen b = scap b" and "65536 \<le> scap b" and "txt_pool_ok p"
  shows "\<exists>r p'. txt_finish (write_slice w b) p = (Ret r, p') \<and> contents r = fr \<and> txt_pool_ok p'"
proof -
  have "slice_ok b" using assms(3) by (simp add: slice_ok_def scap_def)
  from write_slice_enough [where w = w, OF this assms(1,2)] obtain b' r where
    "write_slice w b = Some (b', length fr)" "reslice (length fr) b' = Some r" "contents r = fr"
    "scap b' = scap b" "slen b' = slen b" by blast
  with assms(3-5) show ?thesis
    by (simp add: txt_finish_def contents_def [of "\<lparr>arr = fr, slen = length fr\<rparr>"] txt_put_ok)
qed

lemma encodeMessage_frame:
  assumes "txt_pool_ok p" and "length data < 10 ^ 10"
  shows "\<exists>r p'. encodeMessage c delim prefix i data p = (Ret r, p')
     \<and> contents r = txt_frame delim prefix i data \<and> txt_pool_ok p'"
proof -
  let ?n = "length prefix + length i + 1 + 10 + 1 + length data + 1"
  obtain b0 p1 where g: "BufferPool_Get c p = (b0, p1)" by fastforce
  note ok = txt_Get [OF assms(1) g]
  define b p2 where "b = (if scap b0 < ?n then make_slice ?n else b0)"
    and "p2 = (if scap b0 < ?n then txt_put b0 p1 else p1)"
  have enc: "encodeMessage c delim prefix i data p =
      txt_finish (write_slice (txt_write delim prefix i data) b) p2"
    by (simp add: encodeMessage_def g b_def p2_def Let_def)
  have b: "slen b = scap b" "65536 \<le> scap b" "?n \<le> slen b" "txt_pool_ok p2"
    using ok by (auto simp: b_def p2_def txt_put_ok)
  then have lb: "length (contents b) = slen b" by (simp add: contents_def scap_def)
  note w = txt_write_wst [of prefix i data "contents b" delim]
  have "length (dec (length data)) \<le> 10" using length_dec [OF assms(2)] by simp
  then have "length (txt_frame delim prefix i data) \<le> slen b"
    using b(3) by (simp add: txt_frame_def)
  with w assms(2) b lb show ?thesis unfolding enc by (intro txt_finish_ok) auto
qed

lemma EncodeClose_frame:
  assumes "txt_pool_ok p" and "length i + 7 \<le> 65536"
  shows "\<exists>r p'. DefaultMuxEncoder_EncodeClose delim c i p = (Ret r, p')
     \<and> contents r = txt_frame delim (str ''CLOSE:'') i [] \<and> txt_pool_ok p'"
proof -
  obtain b p1 where g: "BufferPool_Get c p = (b, p1)" by fastforce
  note ok = txt_Get [OF assms(1) g]
  have l: "length (str ''CLOSE:'') = 6" by (simp add: str_def)
  show ?thesis
    unfolding DefaultMuxEncoder_EncodeClose_def g Let_def prod.case
    by (rule txt_finish_ok [OF _ _ ok(1,2,3)], unfold fresh_wst, insert ok l assms(2))
      (simp add: wire_simps txt_frame_def, simp add: txt_frame_def)
qed

lemma EncodeNewConn_frame:
  assumes "txt_pool_ok p" and "length i + length addr + 10 \<le> 65536"
  shows "\<exists>r p'. DefaultMuxEncoder_EncodeNewConn delim c i addr p = (Ret r, p')
     \<and> contents r = str ''NEWCONN:'' @ i @ [colon] @ addr @ [delim] \<and> txt_pool_ok p'"
proof -
  obtain b p1 where g: "BufferPool_Get c p = (b, p1)" by fastforce
  note ok = txt_Get [OF assms(1) g]
  have l: "length (str ''NEWCONN:'') = 8" by (simp add: str_def)
  show ?thesis
    unfolding DefaultMuxEncoder_EncodeNewConn_def g Let_def prod.case
    by (rule txt_finish_ok [OF _ _ ok(1,2,3)], unfold fresh_wst, insert ok l assms(2))
      (simp add: wire_simps, simp)
qed

lemma str_prefixes:
  "str ''DATA:'' = str ''DATA'' @ [colon]" "str ''CLOSE:'' = str ''CLOSE'' @ [colon]"
  "str ''REQUEST:'' = str ''REQUEST'' @ [colon]" "str ''RESPONSE:'' = str ''RESPONSE'' @ [colon]"
  "str ''NEWCONN:'' = str ''NEWCONN'' @ [colon]"
  by (simp_all add: str_def colon_def)

lemma text_types:
  "text_type (str ''DATA'') = Some MsgTypeData" "text_type (str ''CLOSE'') = Some MsgTypeClose"
  "text_type (str ''REQUEST'') = Some MsgTypeRequest"
  "text_type (str ''RESPONSE'') = Some MsgTypeResponse"
  "text_type (str ''NEWCONN'') = Some MsgTypeNewConn"
  by code_simp+

lemma colon_not_in_types:
  "colon \<notin> set (str ''DATA'')" "colon \<notin> set (str ''CLOSE'')" "colon \<notin> set (str ''REQUEST'')"
  "colon \<notin> set (str ''RESPONSE'')" "colon \<notin> set (str ''NEWCONN'')"
  by code_simp+

lemma SplitN_4: "SplitN c 4 xs = SplitN c (Suc (Suc (Suc (Suc 0)))) xs"
  by (simp add: numeral_eq_Suc)

lemma txt_decode_frame:
  assumes "text_type pre = Some t" and "carries_length t" and "colon \<notin> set pre" and "colon \<notin> set i"
    and "length data < 2 ^ 63"
  shows "DefaultMuxDecoder_Decode delim (txt_frame delim (pre @ [colon]) i data) = Ret (t, i, data)"
proof (cases "data = []")
  case True
  then show ?thesis
    using assms
    by (simp add: DefaultMuxDecoder_Decode_def txt_frame_def SplitN_4 SplitN_step SplitN_end
        carries_length_def butlast_append Let_def del: SplitN.simps)
next
  case False
  then show ?thesis
    using assms colon_not_in_dec Atoi_dec [OF assms(5)]
    by (simp add: DefaultMuxDecoder_Decode_def txt_frame_def SplitN_4 SplitN_step SplitN.simps(2)
        butlast_append Let_def del: SplitN.simps(3))
qed

lemma txt_decode_close:
  assumes "colon \<notin> set i"
  shows "DefaultMuxDecoder_Decode delim (txt_frame delim (str ''CLOSE:'') i []) =
     Ret (MsgTypeClose, i, [])"
  using assms colon_not_in_types
  by (simp add: DefaultMuxDecoder_Decode_def txt_frame_def SplitN_4 SplitN_step SplitN_end
      str_prefixes text_types carries_length_def butlast_append Let_def del: SplitN.simps)

lemma txt_decode_newconn:
  assumes "colon \<notin> set i"
  shows "DefaultMuxDecoder_Decode delim (str ''NEWCONN:'' @ i @ [colon] @ addr @ [delim]) =
     Ret (MsgTypeNewConn, i, addr)"
  using assms colon_not_in_types Join_SplitN [of colon "Suc 0" addr]
    SplitN_Cons [of colon "Suc 0" addr]
  by (auto simp: DefaultMuxDecoder_Decode_def SplitN_4 SplitN_step butlast_append
      str_prefixes text_types carries_length_def Let_def simp del: SplitN.simps)

section \<open>Both protocols implement the interface\<close>

lemma bin_transports:
  assumes "bin_inv p" and "bin_sendable (msg_ID m) (msg_Payload m)" and "msg_code (msg_Type m) < 256"
  shows "transports bin_inv BinaryProtocol_Decode (BinaryProtocol_Encode c m p)
     (msg_Type m, msg_ID m, msg_Payload m)"
proof -
  have "bin_fits m" "bin_total m \<le> bp_size p" "pool_ok p"
    using assms by (auto simp: bin_fits_def bin_sendable_def bin_total_def bin_inv_def)
  from Encode_frame [OF this(3,1), of c] this(2)
    Decode_frame [of "msg_ID m" "msg_Payload m" "msg_Type m" "[]"] assms
  show ?thesis by (auto simp: transports_def bin_inv_def bin_sendable_def)
qed

interpretation binary_codec: mux_codec
  BinaryProtocol_EncodeData BinaryProtocol_EncodeClose BinaryProtocol_EncodeRequest
  BinaryProtocol_EncodeResponse BinaryProtocol_EncodeNewConn BinaryProtocol_Release
  BinaryProtocol_Decode bin_inv bin_sendable
  by unfold_locales
    (use bin_transports [where m = "\<lparr>msg_Type = _, msg_ID = _, msg_Payload = _\<rparr>"] in \<open>simp_all add:
      BinaryProtocol_EncodeData_def BinaryProtocol_EncodeClose_def BinaryProtocol_EncodeRequest_def
      BinaryProtocol_EncodeResponse_def BinaryProtocol_EncodeNewConn_def\<close>,
     simp_all add: bin_inv_def bin_sendable_def)

lemma txt_transports:
  assumes "txt_pool_ok p" and "txt_sendable i d"
    and "text_type pre = Some t" and "carries_length t" and "colon \<notin> set pre"
  shows "transports txt_pool_ok (DefaultMuxDecoder_Decode delim)
     (encodeMessage c delim (pre @ [colon]) i d p) (t, i, d)"
proof -
  have "length d < 10 ^ 10" "length d < 2 ^ 63" "colon \<notin> set i"
    using assms(2) by (auto simp: txt_sendable_def)
  from encodeMessage_frame [OF assms(1) this(1), of c delim "pre @ [colon]" i]
    txt_decode_frame [OF assms(3-5) this(3,2), of delim]
  show ?thesis by (auto simp: transports_def)
qed

interpretation text_codec: mux_codec
  "DefaultMuxEncoder_EncodeData delim" "DefaultMuxEncoder_EncodeClose delim"
  "DefaultMuxEncoder_EncodeRequest delim" "DefaultMuxEncoder_EncodeResponse delim"
  "DefaultMuxEncoder_EncodeNewConn delim" DefaultMuxEncoder_Release
  "DefaultMuxDecoder_Decode delim" txt_pool_ok txt_sendable
  for delim
proof
  fix p i d c
  assume p: "txt_pool_ok p" and s: "txt_sendable i d"
  note T = txt_transports [OF p s _ _ colon_not_in_types(1)] txt_transports [OF p s _ _ colon_not_in_types(3)]
    txt_transports [OF p s _ _ colon_not_in_types(4)]
  show "transports txt_pool_ok (DefaultMuxDecoder_Decode delim)
      (DefaultMuxEncoder_EncodeData delim c i d p) (MsgTypeData, i, d)"
    and "transports txt_pool_ok (DefaultMuxDecoder_Decode delim)
      (DefaultMuxEncoder_EncodeRequest delim c i d p) (MsgTypeRequest, i, d)"
    and "transports txt_pool_ok (DefaultMuxDecoder_Decode delim)
      (DefaultMuxEncoder_EncodeResponse delim c i d p) (MsgTypeResponse, i, d)"
    using T
    by (simp_all add: DefaultMuxEncoder_EncodeData_def DefaultMuxEncoder_EncodeRequest_def
        DefaultMuxEncoder_EncodeResponse_def str_prefixes text_types carries_length_def)
  show "transports txt_pool_ok (DefaultMuxDecoder_Decode delim)
      (DefaultMuxEncoder_EncodeNewConn delim c i d p) (MsgTypeNewConn, i, d)"
    using EncodeNewConn_frame [OF p, of i d delim c] txt_decode_newconn [of i delim d] s
    by (auto simp: transports_def txt_sendable_def)
next
  fix p i c
  assume "txt_pool_ok p" and "txt_sendable i []"
  then show "transports txt_pool_ok (DefaultMuxDecoder_Decode delim)
      (DefaultMuxEncoder_EncodeClose delim c i p) (MsgTypeClose, i, [])"
    using EncodeClose_frame [of p i delim c] txt_decode_close [of i delim]
    by (auto simp: transports_def txt_sendable_def)
qed (simp_all add: DefaultMuxEncoder_Release_def txt_sendable_def)

section \<open>Properties\<close>



text \<open>C18. The binary decoder accepts exactly the frames: it returns a message if and only if the data
  starts with that message's frame (anything may follow), and it panics on no input.\<close>

theorem binary_decode_exact:
  "BinaryProtocol_Decode data \<noteq> Panic \<and>
   (BinaryProtocol_Decode data = Ret (t, i, pl) \<longleftrightarrow>
      (\<exists>rest. data = bin_frame t i pl @ rest) \<and> length i \<le> 65535 \<and> length pl < 2 ^ 32
      \<and> msg_code t < 256)"
  using Decode_no_panic [of data] Decode_inverse [of data t i pl] Decode_frame [of i pl t] by auto

text \<open>A released buffer of more than 64 KB is handed out again with a length of 64 KB and a larger
  capacity. If a first message was that large, the next message between 64 KB and its size that
  reuses the buffer is sent with everything beyond 64 KB replaced by bytes of the first message:
  the second receiver gets data of the first connection.\<close>

lemma binary_reuse_sends_stale_bytes:
  assumes "bin_fits m1" and "bin_fits m2" and "7 + length (msg_ID m2) \<le> 65536"
    and "65536 < bin_total m2" and "bin_total m2 \<le> bin_total m1"
    and "BinaryProtocol_Encode None m1 NewBinaryProtocol = (Ret b, p)"
  shows "\<exists>r p'. BinaryProtocol_Encode (Some 0) m2 (BinaryProtocol_Release b p) = (Ret r, p')
     \<and> contents r = take 65536 (bin_frame (msg_Type m2) (msg_ID m2) (msg_Payload m2))
         @ sub (bin_frame (msg_Type m1) (msg_ID m1) (msg_Payload m1)) 65536 (bin_total m2 - 65536)"
proof -
  have b: "arr b = msg_frame m1" "slen b = bin_total m1" "bp_size p = 65536"
    using Encode_fresh_arr [OF assms(1), of NewBinaryProtocol None] assms(4-6)
    by (simp_all add: NewBinaryProtocol_def)
  let ?b = "b\<lparr>slen := 65536\<rparr>"
  have "BinaryProtocol_Release b p = p\<lparr>bp_free := ?b # bp_free p\<rparr>"
    using b assms(4,5) by (simp add: BinaryProtocol_Release_def BufferPool_Put_def scap_def)
  then have "BufferPool_Get (Some 0) (BinaryProtocol_Release b p) = (?b, p)"
    by (simp add: BufferPool_Get_def remove_nth_def)
  from Encode_stale [OF assms(2) this] b assms(3-5) show ?thesis
    by (auto simp: slice_ok_def scap_def)
qed

lemma binary_reuse_sends_stale_bytes_witness:
  "\<exists>m1 m2 b p r p'. BinaryProtocol_Encode None m1 NewBinaryProtocol = (Ret b, p)
     \<and> BinaryProtocol_Encode (Some 0) m2 (BinaryProtocol_Release b p) = (Ret r, p')
     \<and> msg_Payload m2 = replicate 65530 2 \<and> last (contents r) = 1"
proof -
  let ?m1 = "\<lparr>msg_Type = MsgTypeData, msg_ID = [], msg_Payload = replicate 65530 1\<rparr>"
  let ?m2 = "\<lparr>msg_Type = MsgTypeData, msg_ID = [], msg_Payload = replicate 65530 2\<rparr>"
  have f: "bin_fits ?m1" "bin_fits ?m2" and t: "bin_total ?m1 = 65537" "bin_total ?m2 = 65537"
    by (simp_all add: bin_fits_def bin_total_def)
  obtain b p where e: "BinaryProtocol_Encode None ?m1 NewBinaryProtocol = (Ret b, p)"
    using Encode_fresh_arr [OF f(1), of NewBinaryProtocol None] t
    by (auto simp: NewBinaryProtocol_def)
  from binary_reuse_sends_stale_bytes [OF f _ _ _ e] t obtain r p' where
    r: "BinaryProtocol_Encode (Some 0) ?m2 (BinaryProtocol_Release b p) = (Ret r, p')"
      "contents r = take 65536 (msg_frame ?m2) @ sub (msg_frame ?m1) 65536 1"
    by auto
  have "sub (msg_frame ?m1) 65536 1 = [1]"
    by (rule nth_equalityI) (simp_all add: sub_def bin_frame_def nth_append)
  with r(2) have "last (contents r) = 1" by simp
  with e r(1) show ?thesis by force
qed



text \<open>A text message that announces a negative length crashes the decoder: the comparison
  \<^verbatim>\<open>len(payload) > length\<close> succeeds and \<^verbatim>\<open>payload[:length]\<close> panics, whatever the ID and the
  payload.\<close>

lemma text_decode_negative_length_panics:
  assumes "colon \<notin> set i" and "0 < n" and "n < 2 ^ 63"
  shows "DefaultMuxDecoder_Decode delim
     (str ''DATA:'' @ i @ [colon, 45] @ dec n @ [colon] @ pl @ [delim]) = Panic"
proof -
  have "Atoi (45 # dec n) = Some (- int n)"
    using dec_digits [of n] assms(3) by (simp add: Atoi_def in_i64_def)
  moreover have "colon \<notin> set (45 # dec n)"
    using colon_not_in_dec by (simp add: colon_def)
  from SplitN_step [OF this, of 0 pl]
  have "SplitN colon (Suc (Suc 0)) (45 # dec n @ colon # pl) = [45 # dec n, pl]" by simp
  ultimately show ?thesis
    using assms colon_not_in_types
    by (simp add: DefaultMuxDecoder_Decode_def SplitN_4 SplitN_step SplitN.simps(2) butlast_append
        str_prefixes text_types carries_length_def Let_def del: SplitN.simps(3))
qed

lemma text_decode_negative_length_panics_witness:
  "DefaultMuxDecoder_Decode 10 (str ''DATA:x:-1:y'' @ [10]) = Panic"
  using text_decode_negative_length_panics [of "str ''x''" 1 10 "str ''y''"]
  by (simp add: str_def colon_def dec.simps)

end
