(* ===== verification/MuxConn.thy ===== *)
theory MuxConn
  imports MuxCodec
begin

text \<open>
  The users of the codecs in \<^verbatim>\<open>forward/mux.go\<close>: the forwarder from a local connection into a
  multiplexed one, the two directions of the bidirectional forwarder, the manager of many local
  connections over one multiplexed connection, and the HTTP request/response exchange.

  A value of the Go interface \<^verbatim>\<open>MuxEncoder\<close> is a record of functions, so the operations here take
  any encoder. What the environment does at each turn of a loop (a cancelled context, a
  backpressure yield, the outcome of a read) is a list of events; a loop that has used up its
  events is still waiting. A writer is a function from the data and its state to the number of
  bytes taken, whether it failed, and its new state.
\<close>

section \<open>Interfaces of the environment\<close>

record ('c, 'p) MuxEncoder =
  enc_Data :: "'c \<Rightarrow> gostr \<Rightarrow> bytes \<Rightarrow> 'p \<Rightarrow> (mux_error, gslice) go_result \<times> 'p"
  enc_Close :: "'c \<Rightarrow> gostr \<Rightarrow> 'p \<Rightarrow> (mux_error, gslice) go_result \<times> 'p"
  enc_Request :: "'c \<Rightarrow> gostr \<Rightarrow> bytes \<Rightarrow> 'p \<Rightarrow> (mux_error, gslice) go_result \<times> 'p"
  enc_Response :: "'c \<Rightarrow> gostr \<Rightarrow> bytes \<Rightarrow> 'p \<Rightarrow> (mux_error, gslice) go_result \<times> 'p"
  enc_NewConn :: "'c \<Rightarrow> gostr \<Rightarrow> gostr \<Rightarrow> 'p \<Rightarrow> (mux_error, gslice) go_result \<times> 'p"
  enc_Release :: "gslice \<Rightarrow> 'p \<Rightarrow> 'p"

type_synonym 'w writer = "bytes \<Rightarrow> 'w \<Rightarrow> (nat \<times> bool) \<times> 'w"

datatype fw_event =
    CtxDone
  | Yielded
  | ReadOk bytes
  | ReadEOF
  | ReadClosed
  | ReadErr

datatype fw_error = CtxErr | ReadFailed | EncodeFailed mux_error | WriteFailed | WriteLocalFailed

datatype fw_result = FwWaiting | FwDone "fw_error option" | FwPanic

section \<open>ForwardMux\<close>

definition fw_send_close ::
  "('c, 'p) MuxEncoder \<Rightarrow> 'w writer \<Rightarrow> gostr \<Rightarrow> 'c \<Rightarrow> 'p \<Rightarrow> 'w \<Rightarrow> fw_result \<times> 'p \<times> 'w" where
  "fw_send_close E wr connID c p w =
     (case enc_Close E c connID p of
        (Panic, p1) \<Rightarrow> (FwPanic, p1, w)
      | (Err e, p1) \<Rightarrow> (FwDone (Some (EncodeFailed e)), p1, w)
      | (Ret b, p1) \<Rightarrow>
          (case wr (contents b) w of
             ((n, failed), w1) \<Rightarrow>
               if failed then (FwDone (Some WriteFailed), p1, w1)
               else (FwDone None, enc_Release E b p1, w1)))"

fun ForwardMux ::
  "('c, 'p) MuxEncoder \<Rightarrow> 'w writer \<Rightarrow> gostr \<Rightarrow> (fw_event \<times> 'c) list \<Rightarrow> 'p \<Rightarrow> 'w
     \<Rightarrow> fw_result \<times> 'p \<times> 'w" where
  "ForwardMux E wr connID [] p w = (FwWaiting, p, w)"
| "ForwardMux E wr connID ((ev, c) # evs) p w =
     (case ev of
        CtxDone \<Rightarrow> (FwDone (Some CtxErr), p, w)
      | Yielded \<Rightarrow> ForwardMux E wr connID evs p w
      | ReadEOF \<Rightarrow> fw_send_close E wr connID c p w
      | ReadClosed \<Rightarrow> fw_send_close E wr connID c p w
      | ReadErr \<Rightarrow> (FwDone (Some ReadFailed), p, w)
      | ReadOk d \<Rightarrow>
          if d = [] then ForwardMux E wr connID evs p w
          else (case enc_Data E c connID d p of
                  (Panic, p1) \<Rightarrow> (FwPanic, p1, w)
                | (Err e, p1) \<Rightarrow> (FwDone (Some (EncodeFailed e)), p1, w)
                | (Ret b, p1) \<Rightarrow>
                    (case wr (contents b) w of
                       ((n, failed), w1) \<Rightarrow>
                         if failed then (FwDone (Some WriteFailed), enc_Release E b p1, w1)
                         else ForwardMux E wr connID evs (enc_Release E b p1) w1)))"

section \<open>ForwardBidirectionalMux\<close>

text \<open>The first goroutine, local to remote. A failed close message is ignored.\<close>

fun bidi_local_to_remote ::
  "('c, 'p) MuxEncoder \<Rightarrow> 'w writer \<Rightarrow> gostr \<Rightarrow> (fw_event \<times> 'c) list \<Rightarrow> 'p \<Rightarrow> 'w
     \<Rightarrow> fw_result \<times> 'p \<times> 'w" where
  "bidi_local_to_remote E wr connID [] p w = (FwWaiting, p, w)"
| "bidi_local_to_remote E wr connID ((ev, c) # evs) p w =
     (case ev of
        CtxDone \<Rightarrow> (FwDone None, p, w)
      | Yielded \<Rightarrow> bidi_local_to_remote E wr connID evs p w
      | ReadErr \<Rightarrow> (FwDone (Some ReadFailed), p, w)
      | ReadOk d \<Rightarrow>
          if d = [] then bidi_local_to_remote E wr connID evs p w
          else (case enc_Data E c connID d p of
                  (Panic, p1) \<Rightarrow> (FwPanic, p1, w)
                | (Err e, p1) \<Rightarrow> (FwDone (Some (EncodeFailed e)), p1, w)
                | (Ret b, p1) \<Rightarrow>
                    (case wr (contents b) w of
                       ((n, failed), w1) \<Rightarrow>
                         if failed then (FwDone (Some WriteFailed), enc_Release E b p1, w1)
                         else bidi_local_to_remote E wr connID evs (enc_Release E b p1) w1))
      | _ \<Rightarrow> \<comment> \<open>EOF or a closed connection\<close>
          (case enc_Close E c connID p of
             (Panic, p1) \<Rightarrow> (FwPanic, p1, w)
           | (Err e, p1) \<Rightarrow> (FwDone None, p1, w)
           | (Ret b, p1) \<Rightarrow> (FwDone None, enc_Release E b p1, snd (wr (contents b) w))))"

text \<open>The second goroutine, remote to local: each read is decoded as one message, whatever its
  connection ID; undecodable reads are skipped. The local connection is a writer and a flag that
  says whether it was closed.\<close>

fun bidi_remote_to_local ::
  "(bytes \<Rightarrow> decoded) \<Rightarrow> 'w writer \<Rightarrow> fw_event list \<Rightarrow> 'w \<Rightarrow> bool \<Rightarrow> fw_result \<times> 'w \<times> bool" where
  "bidi_remote_to_local D wr [] w closed = (FwWaiting, w, closed)"
| "bidi_remote_to_local D wr (ev # evs) w closed =
     (case ev of
        CtxDone \<Rightarrow> (FwDone None, w, closed)
      | Yielded \<Rightarrow> bidi_remote_to_local D wr evs w closed
      | ReadEOF \<Rightarrow> (FwDone None, w, closed)
      | ReadClosed \<Rightarrow> (FwDone None, w, closed)
      | ReadErr \<Rightarrow> (FwDone (Some ReadFailed), w, closed)
      | ReadOk d \<Rightarrow>
          if d = [] then bidi_remote_to_local D wr evs w closed
          else (case D d of
                  Panic \<Rightarrow> (FwPanic, w, closed)
                | Err _ \<Rightarrow> bidi_remote_to_local D wr evs w closed
                | Ret (t, _, payload) \<Rightarrow>
                    if t = MsgTypeData \<or> t = MsgTypeResponse
                    then (if payload = [] then bidi_remote_to_local D wr evs w closed
                          else (case wr payload w of
                                  ((n, failed), w1) \<Rightarrow>
                                    if failed then (FwDone (Some WriteLocalFailed), w1, closed)
                                    else bidi_remote_to_local D wr evs w1 closed))
                    else if t = MsgTypeClose then (FwDone None, w, True)
                    else bidi_remote_to_local D wr evs w closed))"

definition muxReadBuffer :: nat where "muxReadBuffer = 32 * 1024"

section \<open>MuxConnManager\<close>

text \<open>Local connections are numbered; the manager's view of them is what was written to each and
  which were closed.\<close>

record MuxConnManager =
  mc_connections :: "gostr \<rightharpoonup> nat"
  mc_cancelled :: bool
  mc_activeConns :: int
  mc_totalConns :: int
  mc_bytesIn :: int
  mc_bytesOut :: int
  mc_written :: "nat \<Rightarrow> bytes"
  mc_closed :: "nat set"

definition NewMuxConnManager :: MuxConnManager where
  "NewMuxConnManager =
     \<lparr>mc_connections = Map.empty, mc_cancelled = False, mc_activeConns = 0, mc_totalConns = 0,
      mc_bytesIn = 0, mc_bytesOut = 0, mc_written = (\<lambda>_. []), mc_closed = {}\<rparr>"

definition countingWriter_Write :: "'w writer \<Rightarrow> ('w \<times> int) writer" where
  "countingWriter_Write wr d s =
     (case wr d (fst s) of ((n, failed), w) \<Rightarrow> ((n, failed), (w, i64 (snd s + int n))))"

text \<open>\<^verbatim>\<open>AddConnection\<close> before its goroutine starts; the goroutine then runs \<open>ForwardMux\<close> and ends
  with \<open>MuxConnManager_finish\<close>.\<close>

definition MuxConnManager_AddConnection :: "gostr \<Rightarrow> nat \<Rightarrow> MuxConnManager \<Rightarrow> MuxConnManager" where
  "MuxConnManager_AddConnection connID conn m =
     m\<lparr>mc_connections := (mc_connections m)(connID \<mapsto> conn),
       mc_activeConns := i64 (mc_activeConns m + 1),
       mc_totalConns := i64 (mc_totalConns m + 1)\<rparr>"

definition MuxConnManager_RemoveConnection :: "gostr \<Rightarrow> MuxConnManager \<Rightarrow> MuxConnManager" where
  "MuxConnManager_RemoveConnection connID m =
     (case mc_connections m connID of
        None \<Rightarrow> m
      | Some conn \<Rightarrow>
          m\<lparr>mc_connections := (mc_connections m)(connID := None),
            mc_closed := insert conn (mc_closed m),
            mc_activeConns := i64 (mc_activeConns m - 1)\<rparr>)"

definition MuxConnManager_finish :: "gostr \<Rightarrow> MuxConnManager \<Rightarrow> MuxConnManager" where
  "MuxConnManager_finish connID m =
     (case mc_connections m connID of
        None \<Rightarrow> m
      | Some conn \<Rightarrow>
          m\<lparr>mc_connections := (mc_connections m)(connID := None),
            mc_closed := insert conn (mc_closed m),
            mc_activeConns := i64 (mc_activeConns m - 1)\<rparr>)"

definition MuxConnManager_GetConnection :: "gostr \<Rightarrow> MuxConnManager \<Rightarrow> nat option" where
  "MuxConnManager_GetConnection connID m = mc_connections m connID"

text \<open>A local connection takes up to \<open>room\<close> bytes, and none once it is closed.\<close>

definition conn_write :: "nat \<Rightarrow> nat \<Rightarrow> bytes \<Rightarrow> MuxConnManager \<Rightarrow> nat \<times> MuxConnManager" where
  "conn_write room conn d m =
     (let n = (if conn \<in> mc_closed m then 0 else min room (length d))
      in (n, m\<lparr>mc_written := (mc_written m)(conn := mc_written m conn @ take n d)\<rparr>))"

datatype incoming_result =
    InNil
  | InErr mux_error
  | NewConnNotification gostr gostr
  | InPanic

definition mc_deliver :: "nat \<Rightarrow> gostr \<Rightarrow> bytes \<Rightarrow> MuxConnManager \<Rightarrow> MuxConnManager" where
  "mc_deliver room i payload m =
     (case MuxConnManager_GetConnection i m of
        None \<Rightarrow> m
      | Some conn \<Rightarrow>
          (case conn_write room conn payload m of
             (n, m1) \<Rightarrow> m1\<lparr>mc_bytesIn := i64 (mc_bytesIn m1 + int n)\<rparr>))"

definition MuxConnManager_HandleIncoming ::
  "(bytes \<Rightarrow> decoded) \<Rightarrow> bool \<Rightarrow> nat \<Rightarrow> bytes \<Rightarrow> MuxConnManager \<Rightarrow> incoming_result \<times> MuxConnManager" where
  "MuxConnManager_HandleIncoming D yielded room data m =
     (if yielded then (InNil, m)
      else case D data of
        Panic \<Rightarrow> (InPanic, m)
      | Err e \<Rightarrow> (InErr e, m)
      | Ret (t, i, payload) \<Rightarrow>
          (case t of
             MsgTypeData \<Rightarrow> (InNil, mc_deliver room i payload m)
           | MsgTypeClose \<Rightarrow> (InNil, MuxConnManager_RemoveConnection i m)
           | MsgTypeResponse \<Rightarrow> (InNil, mc_deliver room i payload m)
           | MsgTypeNewConn \<Rightarrow> (NewConnNotification i payload, m)
           | _ \<Rightarrow> (InNil, m)))"

definition MuxConnManager_Close :: "MuxConnManager \<Rightarrow> MuxConnManager" where
  "MuxConnManager_Close m =
     m\<lparr>mc_cancelled := True, mc_closed := mc_closed m \<union> ran (mc_connections m)\<rparr>"

record MuxConnStats =
  ms_ActiveConnections :: int
  ms_TotalConnections :: int
  ms_BytesIn :: int
  ms_BytesOut :: int

definition MuxConnManager_Stats :: "MuxConnManager \<Rightarrow> MuxConnStats" where
  "MuxConnManager_Stats m =
     \<lparr>ms_ActiveConnections = mc_activeConns m, ms_TotalConnections = mc_totalConns m,
      ms_BytesIn = mc_bytesIn m, ms_BytesOut = mc_bytesOut m\<rparr>"

section \<open>ForwardHTTP\<close>

datatype http_error =
    HEncode mux_error | HWrite | HRead | HDecode mux_error | HNotResponse MessageType | HIDMismatch

text \<open>The reply is the outcome of the single \<^verbatim>\<open>Read\<close> into the 64 KB response buffer.\<close>

definition ForwardHTTP ::
  "('c, 'p) MuxEncoder \<Rightarrow> (bytes \<Rightarrow> decoded) \<Rightarrow> 'w writer \<Rightarrow> 'c \<Rightarrow> bytes \<Rightarrow> gostr \<Rightarrow> bytes option
     \<Rightarrow> 'p \<Rightarrow> 'w \<Rightarrow> (http_error, bytes) go_result \<times> 'p \<times> 'w" where
  "ForwardHTTP E D wr c reqData reqID reply p w =
     (case enc_Request E c reqID reqData p of
        (Panic, p1) \<Rightarrow> (Panic, p1, w)
      | (Err e, p1) \<Rightarrow> (Err (HEncode e), p1, w)
      | (Ret b, p1) \<Rightarrow>
          (case wr (contents b) w of
             ((n, failed), w1) \<Rightarrow>
               if failed then (Err HWrite, enc_Release E b p1, w1)
               else
                 let p2 = enc_Release E b p1 in
                 case reply of
                   None \<Rightarrow> (Err HRead, p2, w1)
                 | Some d \<Rightarrow>
                     (case D d of
                        Panic \<Rightarrow> (Panic, p2, w1)
                      | Err e \<Rightarrow> (Err (HDecode e), p2, w1)
                      | Ret (t, i, payload) \<Rightarrow>
                          if t \<noteq> MsgTypeResponse then (Err (HNotResponse t), p2, w1)
                          else if i \<noteq> reqID then (Err HIDMismatch, p2, w1)
                          else (Ret payload, p2, w1))))"

section \<open>Vocabulary of the properties\<close>

text \<open>A multiplexed connection that takes every frame whole and in order.\<close>

fun frame_writer :: "bytes list writer" where
  "frame_writer d fs = ((length d, False), fs @ [d])"

declare frame_writer.simps [simp del]

fun sent_chunks :: "(fw_event \<times> 'c) list \<Rightarrow> bytes list" where
  "sent_chunks [] = []"
| "sent_chunks ((ReadOk d, c) # evs) = (if d = [] then sent_chunks evs else d # sent_chunks evs)"
| "sent_chunks (_ # evs) = sent_chunks evs"

text \<open>A stretch of the forwarding loop that only reads sendable data and yields.\<close>

fun quiet_event :: "(gostr \<Rightarrow> bytes \<Rightarrow> bool) \<Rightarrow> gostr \<Rightarrow> fw_event \<Rightarrow> bool" where
  "quiet_event ok i (ReadOk d) = ok i d"
| "quiet_event ok i Yielded = True"
| "quiet_event ok i _ = False"

definition stream_msgs :: "gostr \<Rightarrow> bytes list \<Rightarrow> (MessageType \<times> gostr \<times> bytes) list" where
  "stream_msgs i ds = map (\<lambda>d. (MsgTypeData, i, d)) ds @ [(MsgTypeClose, i, [])]"

fun mc_receive ::
  "(bytes \<Rightarrow> decoded) \<Rightarrow> nat \<Rightarrow> bytes list \<Rightarrow> MuxConnManager \<Rightarrow> MuxConnManager" where
  "mc_receive D room [] m = m"
| "mc_receive D room (f # fs) m =
     mc_receive D room fs (snd (MuxConnManager_HandleIncoming D False room f m))"

definition BinaryProtocol_encoder :: "(nat option, BufferPool) MuxEncoder" where
  "BinaryProtocol_encoder =
     \<lparr>enc_Data = BinaryProtocol_EncodeData, enc_Close = BinaryProtocol_EncodeClose,
      enc_Request = BinaryProtocol_EncodeRequest, enc_Response = BinaryProtocol_EncodeResponse,
      enc_NewConn = BinaryProtocol_EncodeNewConn, enc_Release = BinaryProtocol_Release\<rparr>"

text \<open>Operations of the manager, and the counting invariant.\<close>

datatype mc_op =
    McAdd gostr nat
  | McRemove gostr
  | McFinish gostr
  | McIncoming bool nat bytes
  | McClose

fun mc_exec :: "(bytes \<Rightarrow> decoded) \<Rightarrow> mc_op \<Rightarrow> MuxConnManager \<Rightarrow> MuxConnManager" where
  "mc_exec D (McAdd i c) m = MuxConnManager_AddConnection i c m"
| "mc_exec D (McRemove i) m = MuxConnManager_RemoveConnection i m"
| "mc_exec D (McFinish i) m = MuxConnManager_finish i m"
| "mc_exec D (McIncoming y room d) m = snd (MuxConnManager_HandleIncoming D y room d m)"
| "mc_exec D McClose m = MuxConnManager_Close m"

fun mc_fresh_adds :: "(bytes \<Rightarrow> decoded) \<Rightarrow> mc_op list \<Rightarrow> MuxConnManager \<Rightarrow> bool" where
  "mc_fresh_adds D [] m = True"
| "mc_fresh_adds D (op # ops) m =
     ((case op of McAdd i c \<Rightarrow> mc_connections m i = None | _ \<Rightarrow> True)
      \<and> mc_fresh_adds D ops (mc_exec D op m))"

definition mc_counted :: "MuxConnManager \<Rightarrow> bool" where
  "mc_counted m \<longleftrightarrow> finite (dom (mc_connections m))
     \<and> mc_activeConns m = i64 (int (card (dom (mc_connections m))))"

definition only_conn :: "gostr \<Rightarrow> nat \<Rightarrow> MuxConnManager \<Rightarrow> bool" where
  "only_conn i k m \<longleftrightarrow> (\<forall>j. mc_connections m j = Some k \<longrightarrow> j = i)"

section \<open>The forwarder over any codec\<close>

context mux_codec
begin

lemma forward_delivers:
  assumes E: "enc_Data E = EncodeData" "enc_Close E = EncodeClose" "enc_Release E = Release"
    and "inv p" and "list_all (quiet_event sendable i) (map fst evs)" and "sendable i []"
  shows "\<exists>fs p'. ForwardMux E frame_writer i (evs @ [(ReadEOF, c)]) p w = (FwDone None, p', w @ fs)
     \<and> inv p' \<and> map Decode fs = map Ret (stream_msgs i (sent_chunks evs))"
  using assms(4,5)
proof (induction evs arbitrary: p w)
  case Nil
  obtain r p1 where e: "EncodeClose c i p = (r, p1)" by fastforce
  from close_then_release [OF Nil(1) assms(6) e] e frame_writer.simps [of _ w] show ?case
    by (auto simp: fw_send_close_def E stream_msgs_def)
next
  case (Cons x evs)
  obtain ev k where x: "x = (ev, k)" by fastforce
  from Cons(3) x have rest: "list_all (quiet_event sendable i) (map fst evs)"
    and ev: "quiet_event sendable i ev" by auto
  show ?case
  proof (cases "\<exists>d. ev = ReadOk d \<and> d \<noteq> []")
    case True
    then obtain d where d: "ev = ReadOk d" "d \<noteq> []" "sendable i d" using ev by auto
    obtain r p1 where e: "EncodeData k i d p = (r, p1)" by fastforce
    from data_then_release [OF Cons(2) d(3) e] obtain b where
      b: "r = Ret b" "Decode (contents b) = Ret (MsgTypeData, i, d)" "inv (Release b p1)" by blast
    from Cons.IH [OF b(3) rest, of "w @ [contents b]"] obtain fs p' where
      "ForwardMux E frame_writer i (evs @ [(ReadEOF, c)]) (Release b p1) (w @ [contents b])
         = (FwDone None, p', (w @ [contents b]) @ fs)"
      "inv p'" "map Decode fs = map Ret (stream_msgs i (sent_chunks evs))" by blast
    moreover have "frame_writer (contents b) w = ((length (contents b), False), w @ [contents b])"
      by (rule frame_writer.simps)
    ultimately show ?thesis
      using e b d by (intro exI [of _ "contents b # fs"])
        (auto simp: x E stream_msgs_def)
  next
    case False
    then have "ForwardMux E frame_writer i ((x # evs) @ [(ReadEOF, c)]) p w
        = ForwardMux E frame_writer i (evs @ [(ReadEOF, c)]) p w"
      and "sent_chunks (x # evs) = sent_chunks evs"
      using ev by (cases ev; simp add: x)+
    with Cons.IH [OF Cons(2) rest, of w] show ?thesis by simp
  qed
qed

end

section \<open>Demultiplexing\<close>

text \<open>What one decoded message of a connection, or of another one, does to the local connection.\<close>

lemma incoming_data:
  assumes "D f = Ret (MsgTypeData, i, d)" and "mc_connections m i = Some k" and "k \<notin> mc_closed m"
    and "length d \<le> room"
  shows "snd (MuxConnManager_HandleIncoming D False room f m) =
     m\<lparr>mc_written := (mc_written m)(k := mc_written m k @ d),
       mc_bytesIn := i64 (mc_bytesIn m + int (length d))\<rparr>"
  using assms
  by (simp add: MuxConnManager_HandleIncoming_def mc_deliver_def conn_write_def
      MuxConnManager_GetConnection_def)

lemma incoming_other:
  assumes "D f = Ret (t, j, d)" and "mc_connections m j \<noteq> Some k"
  shows "mc_written (snd (MuxConnManager_HandleIncoming D False room f m)) k = mc_written m k"
    and "k \<in> mc_closed (snd (MuxConnManager_HandleIncoming D False room f m)) \<longleftrightarrow> k \<in> mc_closed m"
  using assms
  by (auto simp: MuxConnManager_HandleIncoming_def mc_deliver_def conn_write_def
      MuxConnManager_GetConnection_def MuxConnManager_RemoveConnection_def Let_def
      split: MessageType.splits option.splits)

lemma incoming_connections:
  assumes "D f = Ret (t, j, d)"
  shows "mc_connections (snd (MuxConnManager_HandleIncoming D False room f m)) =
     (if t = MsgTypeClose then (mc_connections m)(j := None) else mc_connections m)"
  using assms
  by (auto simp: MuxConnManager_HandleIncoming_def mc_deliver_def conn_write_def
      MuxConnManager_GetConnection_def MuxConnManager_RemoveConnection_def Let_def
      split: MessageType.splits option.splits)

lemma receive_gone:
  assumes "map D fs = map Ret ms" and "\<forall>j. mc_connections m j \<noteq> Some k"
  shows "mc_written (mc_receive D room fs m) k = mc_written m k
     \<and> (\<forall>j. mc_connections (mc_receive D room fs m) j \<noteq> Some k)
     \<and> (k \<in> mc_closed (mc_receive D room fs m) \<longleftrightarrow> k \<in> mc_closed m)
     \<and> (mc_connections m i = None \<longrightarrow> mc_connections (mc_receive D room fs m) i = None)"
  using assms
proof (induction fs arbitrary: ms m)
  case (Cons f fs)
  then obtain t j d ms' where ms: "ms = (t, j, d) # ms'" "D f = Ret (t, j, d)"
    "map D fs = map Ret ms'" by auto
  let ?m = "snd (MuxConnManager_HandleIncoming D False room f m)"
  have "\<forall>j. mc_connections ?m j \<noteq> Some k"
    using Cons(3) incoming_connections [where D = D and f = f, OF ms(2), of room m] by simp
  from Cons.IH [OF ms(3) this] Cons(3) incoming_connections [where D = D and f = f, OF ms(2), of room m]
    incoming_other [where k = k and D = D and f = f, OF ms(2), of m room]
  show ?case by auto
qed simp

lemma receive_stream:
  assumes "map D fs = map Ret ms" and "filter (\<lambda>(t, j, d). j = i) ms = stream_msgs i ds"
    and "mc_connections m i = Some k" and "only_conn i k m" and "k \<notin> mc_closed m"
    and "list_all (\<lambda>d. length d \<le> room) ds"
  shows "mc_written (mc_receive D room fs m) k = mc_written m k @ concat ds
     \<and> mc_connections (mc_receive D room fs m) i = None \<and> k \<in> mc_closed (mc_receive D room fs m)"
  using assms
proof (induction fs arbitrary: ms m ds)
  case Nil
  then show ?case by (simp add: stream_msgs_def)
next
  case (Cons f fs)
  then obtain t j d ms' where ms: "ms = (t, j, d) # ms'" "D f = Ret (t, j, d)"
    "map D fs = map Ret ms'" by auto
  let ?m = "snd (MuxConnManager_HandleIncoming D False room f m)"
  note conns = incoming_connections [where D = D and f = f, OF ms(2), of room m]
  show ?case
  proof (cases "j = i")
    case False
    then have "mc_connections m j \<noteq> Some k" using Cons(5) by (auto simp: only_conn_def)
    note other = incoming_other [where k = k and D = D and f = f, OF ms(2) this, of room]
    have "only_conn i k ?m" using Cons(5) conns by (auto simp: only_conn_def split: if_splits)
    moreover have "filter (\<lambda>(t, j, d). j = i) ms' = stream_msgs i ds"
      using Cons(3) ms(1) False by simp
    ultimately show ?thesis
      using Cons.IH [OF ms(3), of ds ?m] Cons(4-7) conns False other by (auto split: if_splits)
  next
    case i: True
    show ?thesis
    proof (cases ds)
      case Nil
      then have "t = MsgTypeClose" "filter (\<lambda>(t, j, d). j = i) ms' = []"
        using Cons(3) ms(1) i by (auto simp: stream_msgs_def)
      moreover from this have m: "?m = MuxConnManager_RemoveConnection i m"
        using ms(2) i by (simp add: MuxConnManager_HandleIncoming_def)
      moreover have "\<forall>j. mc_connections ?m j \<noteq> Some k"
        using Cons(5) conns calculation i by (auto simp: only_conn_def)
      from receive_gone [OF ms(3) this, of room i] show ?thesis
        using Cons(4) conns calculation i Nil m by (auto simp: MuxConnManager_RemoveConnection_def)
    next
      case (Cons d' ds')
      then have d: "t = MsgTypeData" "d' = d" "filter (\<lambda>(t, j, d). j = i) ms' = stream_msgs i ds'"
        using Cons.prems(2) ms(1) i by (auto simp: stream_msgs_def)
      have m: "?m = m\<lparr>mc_written := (mc_written m)(k := mc_written m k @ d),
          mc_bytesIn := i64 (mc_bytesIn m + int (length d))\<rparr>"
        using incoming_data [of D f i d m k room] ms(2) d i Cons Cons.prems by simp
      have "only_conn i k ?m" using Cons.prems(4) by (simp add: m only_conn_def)
      then show ?thesis
        using Cons.IH [OF ms(3) d(3), of ?m] Cons.prems Cons d(2) m by simp
    qed
  qed
qed

section \<open>Counting connections\<close>

lemma remove_counted: "mc_counted m \<Longrightarrow> mc_counted (MuxConnManager_RemoveConnection i m)"
  by (auto simp: mc_counted_def MuxConnManager_RemoveConnection_def card_dom_remove card_dom_pred
      split: option.splits)

lemma finish_remove: "MuxConnManager_finish = MuxConnManager_RemoveConnection"
  by (simp add: fun_eq_iff MuxConnManager_finish_def MuxConnManager_RemoveConnection_def)

lemma deliver_counted: "mc_counted m \<Longrightarrow> mc_counted (mc_deliver room i d m)"
  by (auto simp: mc_counted_def mc_deliver_def conn_write_def Let_def split: option.splits)

lemma incoming_counted:
  "mc_counted m \<Longrightarrow> mc_counted (snd (MuxConnManager_HandleIncoming D y room d m))"
  by (auto simp: MuxConnManager_HandleIncoming_def remove_counted deliver_counted
      split: go_result.splits MessageType.splits)

lemma close_counted: "mc_counted m \<Longrightarrow> mc_counted (MuxConnManager_Close m)"
  by (simp add: MuxConnManager_Close_def mc_counted_def)

lemma exec_counted:
  assumes "mc_counted m" and "\<And>i c. op = McAdd i c \<Longrightarrow> mc_connections m i = None"
  shows "mc_counted (mc_exec D op m)"
proof (cases op)
  case (McAdd i c)
  with assms show ?thesis
    by (auto simp: mc_counted_def MuxConnManager_AddConnection_def domIff card_insert_if add.commute)
qed (use assms(1) in \<open>simp_all add: finish_remove remove_counted incoming_counted
  close_counted\<close>)

section \<open>Properties\<close>

text \<open>C8. End-to-end delivery over the binary protocol. A forwarder reads any sequence of chunks from
  a local connection (each fitting a 64 KB frame) until EOF; its frames reach the other side's
  manager interleaved in any order with frames of other connections. Then the local connection
  registered under this ID receives exactly the bytes read, in order, and is closed and removed
  at the end.\<close>

theorem forwarded_stream_delivered:
  assumes "bin_inv p" and "list_all (quiet_event bin_sendable i) (map fst evs)"
    and "bin_sendable i []"
    and "ForwardMux BinaryProtocol_encoder frame_writer i (evs @ [(ReadEOF, c)]) p [] = (res, p', fs)"
    and "map BinaryProtocol_Decode gs = map Ret others" and "list_all (\<lambda>(t, j, d). j \<noteq> i) others"
    and "all \<in> shuffles fs gs"
    and "mc_connections m i = Some k" and "only_conn i k m" and "k \<notin> mc_closed m"
    and "list_all (\<lambda>d. length d \<le> room) (sent_chunks evs)"
  shows "res = FwDone None \<and>
     (let m' = mc_receive BinaryProtocol_Decode room all m in
      mc_written m' k = mc_written m k @ concat (sent_chunks evs) \<and>
      mc_connections m' i = None \<and> k \<in> mc_closed m')"
proof -
  let ?D = BinaryProtocol_Decode and ?mine = "stream_msgs i (sent_chunks evs)"
  have "res = FwDone None" and fs: "map ?D fs = map Ret ?mine"
    using binary_codec.forward_delivers [of BinaryProtocol_encoder p i evs c "[]"] assms(1-4)
    by (auto simp: BinaryProtocol_encoder_def)
  have "map ?D all \<in> shuffles (map Ret ?mine) (map Ret others)"
    using assms(5,7) fs by (metis map_shuffles imageI)
  then obtain ms where ms: "map ?D all = map Ret ms" "ms \<in> shuffles ?mine others"
    by (auto simp: map_shuffles [symmetric])
  have "filter (\<lambda>(t, j, d). j = i) ?mine = ?mine"
    by (auto simp: stream_msgs_def filter_id_conv)
  moreover have "filter (\<lambda>(t, j, d). j = i) others = []"
    using assms(6) by (auto simp: filter_empty_conv list_all_iff)
  ultimately have "filter (\<lambda>(t, j, d). j = i) ms = ?mine"
    using filter_shuffles [of "\<lambda>(t, j, d). j = i" ?mine others] ms(2) by auto
  from receive_stream [OF ms(1) this assms(8-11)] \<open>res = FwDone None\<close> show ?thesis
    by (simp add: Let_def)
qed

theorem forwarded_stream_delivered_witness:
  "\<exists>res p' fs m.
     ForwardMux BinaryProtocol_encoder frame_writer [7] [(ReadOk [1, 2], None), (ReadEOF, None)]
       NewBinaryProtocol [] = (res, p', fs)
     \<and> mc_written (mc_receive BinaryProtocol_Decode 65536 fs m) 3 = [1, 2]
     \<and> 3 \<in> mc_closed (mc_receive BinaryProtocol_Decode 65536 fs m)"
proof -
  let ?m = "MuxConnManager_AddConnection [7] 3 NewMuxConnManager"
  obtain res p' fs where e: "ForwardMux BinaryProtocol_encoder frame_writer [7]
      ([(ReadOk [1, 2], None)] @ [(ReadEOF, None)]) NewBinaryProtocol [] = (res, p', fs)"
    by (metis prod_cases3)
  have "bin_inv NewBinaryProtocol" by (simp add: bin_inv_def NewBinaryProtocol_def)
  from forwarded_stream_delivered [OF this _ _ e, of "[]" "[]" fs ?m 3 65536] e show ?thesis
    by (intro exI [of _ res] exI [of _ p'] exI [of _ fs] exI [of _ ?m])
      (simp add: bin_sendable_def MuxConnManager_AddConnection_def NewMuxConnManager_def
        only_conn_def Let_def)
qed

text \<open>The active-connection counter of the manager equals the number of registered connections
  through any sequence of additions, removals, ends of forwarders, incoming messages and closing,
  as long as no connection is added under an ID that is still registered.\<close>

lemma manager_counts_connections:
  assumes "mc_fresh_adds D ops NewMuxConnManager"
  shows "let m = fold (mc_exec D) ops NewMuxConnManager in
     finite (dom (mc_connections m))
     \<and> mc_activeConns m = i64 (int (card (dom (mc_connections m))))"
proof -
  have "mc_counted (fold (mc_exec D) ops m)" if "mc_counted m" "mc_fresh_adds D ops m" for m
    using that
  proof (induction ops arbitrary: m)
    case (Cons op ops)
    have "mc_counted (mc_exec D op m)" using Cons(2,3) by (intro exec_counted) auto
    with Cons show ?case by simp
  qed simp
  from this [OF _ assms] show ?thesis
    by (simp add: mc_counted_def NewMuxConnManager_def)
qed

lemma manager_counts_connections_witness:
  "mc_activeConns (fold (mc_exec BinaryProtocol_Decode)
     [McAdd [1] 10, McAdd [2] 20, McRemove [1], McFinish [1]] NewMuxConnManager) = 1"
  using manager_counts_connections [of BinaryProtocol_Decode
      "[McAdd [1] 10, McAdd [2] 20, McRemove [1], McFinish [1]]"]
  by (simp add: NewMuxConnManager_def MuxConnManager_AddConnection_def
      MuxConnManager_RemoveConnection_def MuxConnManager_finish_def in_i64_def)

text \<open>Adding a connection under an ID that is still registered loses the old one: when the old
  connection's forwarder ends, it removes and closes the new connection, the old connection is
  never closed, and the active counter stays one too high for good.\<close>

lemma duplicate_id_closes_the_wrong_connection:
  assumes "mc_counted m" and "mc_connections m i = Some k" and "k \<noteq> k'" and "k \<notin> mc_closed m"
  shows "let m' = MuxConnManager_finish i (MuxConnManager_AddConnection i k' m) in
     k' \<in> mc_closed m' \<and> k \<notin> mc_closed m' \<and> mc_connections m' i = None
     \<and> mc_activeConns m' = i64 (int (card (dom (mc_connections m'))) + 1)"
  using assms
  by (simp add: MuxConnManager_finish_def MuxConnManager_AddConnection_def mc_counted_def
      card_dom_remove card_dom_pred insert_absorb domI)

lemma duplicate_id_closes_the_wrong_connection_witness:
  "let m = MuxConnManager_AddConnection [7] 1 NewMuxConnManager;
       m' = MuxConnManager_finish [7] (MuxConnManager_AddConnection [7] 2 m) in
   2 \<in> mc_closed m' \<and> 1 \<notin> mc_closed m' \<and> mc_activeConns m' = 1"
proof -
  let ?m = "MuxConnManager_AddConnection [7] 1 NewMuxConnManager"
  have "mc_counted ?m" "mc_connections ?m [7] = Some 1" "1 \<notin> mc_closed ?m"
    by (simp_all add: mc_counted_def MuxConnManager_AddConnection_def NewMuxConnManager_def)
  from duplicate_id_closes_the_wrong_connection [OF this(1,2) _ this(3), of 2]
  show ?thesis
    by (simp add: Let_def MuxConnManager_finish_def MuxConnManager_AddConnection_def
        NewMuxConnManager_def)
qed

text \<open>In \<^verbatim>\<open>ForwardBidirectionalMux\<close> both directions use 32 KB buffers, so a full 32 KB read on the
  one side becomes a frame that does not fit into one read on the other: the first read of the
  frame is skipped as undecodable, nothing of it reaches the local connection, and the remaining
  bytes, the tail of the payload, are then decoded as a message of their own.\<close>

lemma bidirectional_full_read_lost:
  assumes "length d = muxReadBuffer" and "length i \<le> 65535"
    and "length i + 7 \<le> muxReadBuffer"
  shows "let f = bin_frame MsgTypeData i d;
       tail = drop (length d - (7 + length i)) d in
     bidi_remote_to_local BinaryProtocol_Decode wr
       (map ReadOk [take muxReadBuffer f, drop muxReadBuffer f] @ evs) w closed
     = bidi_remote_to_local BinaryProtocol_Decode wr (ReadOk tail # evs) w closed"
proof -
  let ?f = "bin_frame MsgTypeData i d" and ?n = muxReadBuffer
  have "BinaryProtocol_Decode (take ?n ?f) \<noteq> Ret (t, j, pl)" for t j pl
  proof
    assume "BinaryProtocol_Decode (take ?n ?f) = Ret (t, j, pl)"
    from Decode_inverse [OF this] obtain rest where r: "take ?n ?f = bin_frame t j pl @ rest"
      and b: "length j \<le> 65535" "length pl < 2 ^ 32" "msg_code t < 256" by blast
    then have "?f = bin_frame t j pl @ (rest @ drop ?n ?f)"
      by (metis append.assoc append_take_drop_id)
    then have "BinaryProtocol_Decode ?f = Ret (t, j, pl)"
      using Decode_frame [OF b] by metis
    moreover have "BinaryProtocol_Decode (?f @ []) = Ret (MsgTypeData, i, d)"
      using assms by (intro Decode_frame) (simp_all add: muxReadBuffer_def)
    ultimately have "pl = d" "j = i" by auto
    with r have "length ?f \<le> length (take ?n ?f)" by (simp add: bin_frame_def)
    then show False using assms(1) by (simp add: bin_frame_def)
  qed
  moreover have "BinaryProtocol_Decode (take ?n ?f) \<noteq> Panic" by (rule Decode_no_panic)
  ultimately obtain e where "BinaryProtocol_Decode (take ?n ?f) = Err e"
    by (metis go_result.exhaust prod_cases3)
  moreover have "take ?n ?f \<noteq> []" by (simp add: bin_frame_def muxReadBuffer_def)
  moreover have "?f = ([0] @ be16 (length i) @ i @ be32 (length d)) @ d" by (simp add: bin_frame_def)
  then have "drop ?n ?f = drop (length d - (7 + length i)) d"
    using assms(1,3) by (simp only: drop_append) simp
  ultimately show ?thesis by (simp add: Let_def)
qed

lemma bidirectional_full_read_lost_witness:
  "let f = bin_frame MsgTypeData [7] (replicate 32768 9) in
   bidi_remote_to_local BinaryProtocol_Decode frame_writer
     [ReadOk (take muxReadBuffer f), ReadOk (drop muxReadBuffer f)] [] False
   = bidi_remote_to_local BinaryProtocol_Decode frame_writer [ReadOk (replicate 8 9)] [] False"
  using bidirectional_full_read_lost [of "replicate 32768 9" "[7]" frame_writer "[]" "[]" False]
  by (simp add: muxReadBuffer_def Let_def)

end
