(* ===== verification/Backpressure.thy ===== *)
theory Backpressure
  imports Go_Prelude
begin

text \<open>
  Flow control, \<^verbatim>\<open>internal/backpressure/backpressure.go\<close>: the controller with watermarks, the pair for
  the two directions of a connection, and the adaptive controller whose waits double. The locale
  \<open>watermark_controller\<close> is what both controllers promise about levels; its lemma on sequences of
  levels is proved once and used for both. \<^verbatim>\<open>CheckAndYield\<close> sleeps; the model returns whether it slept
  (and how long, for the adaptive controller, through its statistics).
\<close>

section \<open>The controller\<close>

record Controller =
  bp_highWatermark :: int
  bp_lowWatermark :: int
  bp_currentLevel :: int
  bp_paused :: bool

definition NewController :: Controller where
  "NewController = \<lparr>bp_highWatermark = 2 ^ 20, bp_lowWatermark = 2 ^ 19, bp_currentLevel = 0, bp_paused = False\<rparr>"

definition Controller_Pause :: "Controller \<Rightarrow> Controller" where
  "Controller_Pause c = c\<lparr>bp_paused := True\<rparr>"

definition Controller_Resume :: "Controller \<Rightarrow> Controller" where
  "Controller_Resume c = c\<lparr>bp_paused := False\<rparr>"

definition Controller_CheckAndYield :: "Controller \<Rightarrow> bool" where
  "Controller_CheckAndYield c = bp_paused c"

definition Controller_UpdateLevel :: "int \<Rightarrow> Controller \<Rightarrow> Controller" where
  "Controller_UpdateLevel level c =
     (let c1 = c\<lparr>bp_currentLevel := level\<rparr> in
      if level \<ge> bp_highWatermark c1 then c1\<lparr>bp_paused := True\<rparr>
      else if level \<le> bp_lowWatermark c1 then c1\<lparr>bp_paused := False\<rparr> else c1)"

definition Controller_SetWatermarks :: "int \<Rightarrow> int \<Rightarrow> Controller \<Rightarrow> Controller" where
  "Controller_SetWatermarks low high c = c\<lparr>bp_lowWatermark := low, bp_highWatermark := high\<rparr>"

section \<open>Pairs\<close>

record Bp_Pair =
  pair_A :: Controller
  pair_B :: Controller

definition NewPair :: Bp_Pair where
  "NewPair = \<lparr>pair_A = NewController, pair_B = NewController\<rparr>"

definition Pair_PauseA :: "Bp_Pair \<Rightarrow> Bp_Pair" where
  "Pair_PauseA p = p\<lparr>pair_A := Controller_Pause (pair_A p)\<rparr>"

definition Pair_PauseB :: "Bp_Pair \<Rightarrow> Bp_Pair" where
  "Pair_PauseB p = p\<lparr>pair_B := Controller_Pause (pair_B p)\<rparr>"

definition Pair_ResumeA :: "Bp_Pair \<Rightarrow> Bp_Pair" where
  "Pair_ResumeA p = p\<lparr>pair_A := Controller_Resume (pair_A p)\<rparr>"

definition Pair_ResumeB :: "Bp_Pair \<Rightarrow> Bp_Pair" where
  "Pair_ResumeB p = p\<lparr>pair_B := Controller_Resume (pair_B p)\<rparr>"

definition Pair_SignalErrorA :: "Bp_Pair \<Rightarrow> Bp_Pair" where
  "Pair_SignalErrorA p = p\<lparr>pair_B := Controller_Resume (pair_B p)\<rparr>"

definition Pair_SignalErrorB :: "Bp_Pair \<Rightarrow> Bp_Pair" where
  "Pair_SignalErrorB p = p\<lparr>pair_A := Controller_Resume (pair_A p)\<rparr>"

section \<open>The adaptive controller\<close>

record AdaptiveConfig =
  ac_HighWatermark :: int
  ac_LowWatermark :: int
  ac_YieldMin :: int
  ac_YieldMax :: int

record AdaptiveController =
  ad_highWatermark :: int
  ad_lowWatermark :: int
  ad_currentLevel :: int
  ad_paused :: bool
  ad_yieldMin :: int
  ad_yieldMax :: int
  ad_yieldCurrent :: int
  ad_pauseCount :: int
  ad_totalPause :: int

definition NewAdaptiveController :: "AdaptiveConfig \<Rightarrow> AdaptiveController" where
  "NewAdaptiveController cfg =
     (let dflt = (\<lambda>d x. if x \<le> 0 then d else x); ymin = dflt 50000 (ac_YieldMin cfg) in
      \<lparr>ad_highWatermark = dflt (2 ^ 20) (ac_HighWatermark cfg),
       ad_lowWatermark = dflt (2 ^ 19) (ac_LowWatermark cfg), ad_currentLevel = 0, ad_paused = False,
       ad_yieldMin = ymin, ad_yieldMax = dflt 10000000 (ac_YieldMax cfg), ad_yieldCurrent = ymin,
       ad_pauseCount = 0, ad_totalPause = 0\<rparr>)"

definition Adaptive_Pause :: "AdaptiveController \<Rightarrow> AdaptiveController" where
  "Adaptive_Pause c = c\<lparr>ad_paused := True\<rparr>"

definition Adaptive_Resume :: "AdaptiveController \<Rightarrow> AdaptiveController" where
  "Adaptive_Resume c = c\<lparr>ad_paused := False, ad_yieldCurrent := ad_yieldMin c\<rparr>"

definition Adaptive_CheckAndYield :: "AdaptiveController \<Rightarrow> bool \<times> AdaptiveController" where
  "Adaptive_CheckAndYield c =
     (if \<not> ad_paused c then (False, c)
      else
        let yieldTimeNs = ad_yieldCurrent c;
            doubled = i64 (yieldTimeNs * 2);
            newYieldNs = (if doubled > ad_yieldMax c then ad_yieldMax c else doubled)
        in (True, c\<lparr>ad_yieldCurrent := newYieldNs, ad_pauseCount := i64 (ad_pauseCount c + 1),
                    ad_totalPause := i64 (ad_totalPause c + yieldTimeNs)\<rparr>))"

definition Adaptive_UpdateLevel :: "int \<Rightarrow> AdaptiveController \<Rightarrow> AdaptiveController" where
  "Adaptive_UpdateLevel level c =
     (let c1 = c\<lparr>ad_currentLevel := level\<rparr> in
      if level \<ge> ad_highWatermark c1 then c1\<lparr>ad_paused := True\<rparr>
      else if level \<le> ad_lowWatermark c1
      then c1\<lparr>ad_paused := False, ad_yieldCurrent := ad_yieldMin c1\<rparr> else c1)"

definition Adaptive_SetWatermarks :: "int \<Rightarrow> int \<Rightarrow> AdaptiveController \<Rightarrow> AdaptiveController" where
  "Adaptive_SetWatermarks low high c = c\<lparr>ad_lowWatermark := low, ad_highWatermark := high\<rparr>"

definition Adaptive_Stats :: "AdaptiveController \<Rightarrow> int \<times> int" where
  "Adaptive_Stats c = (ad_pauseCount c, ad_totalPause c)"

definition Adaptive_Reset :: "AdaptiveController \<Rightarrow> AdaptiveController" where
  "Adaptive_Reset c = c\<lparr>ad_yieldCurrent := ad_yieldMin c, ad_paused := False\<rparr>"

section \<open>The contract on levels\<close>

text \<open>Paused after a sequence of levels: the latest level outside the band between the watermarks
  decides; without one, nothing has changed.\<close>

definition pause_after :: "int \<Rightarrow> int \<Rightarrow> bool \<Rightarrow> int list \<Rightarrow> bool" where
  "pause_after low high p levels =
     (case filter (\<lambda>l. l \<ge> high \<or> l \<le> low) (rev levels) of [] \<Rightarrow> p | l # _ \<Rightarrow> l \<ge> high)"

locale watermark_controller =
  fixes update_level :: "int \<Rightarrow> 'c \<Rightarrow> 'c"
    and is_paused :: "'c \<Rightarrow> bool"
    and low_mark :: "'c \<Rightarrow> int"
    and high_mark :: "'c \<Rightarrow> int"
  assumes at_high: "level \<ge> high_mark c \<Longrightarrow> is_paused (update_level level c)"
    and at_low: "\<not> level \<ge> high_mark c \<Longrightarrow> level \<le> low_mark c \<Longrightarrow> \<not> is_paused (update_level level c)"
    and in_band: "low_mark c < level \<Longrightarrow> level < high_mark c \<Longrightarrow>
          is_paused (update_level level c) = is_paused c"
    and marks: "low_mark (update_level level c) = low_mark c" "high_mark (update_level level c) = high_mark c"
begin

lemma marks_fold [simp]:
  "low_mark (fold update_level levels c) = low_mark c" "high_mark (fold update_level levels c) = high_mark c"
  by (induction levels arbitrary: c) (simp_all add: marks)

lemma paused_after_levels:
  "is_paused (fold update_level levels c) = pause_after (low_mark c) (high_mark c) (is_paused c) levels"
proof (induction levels rule: rev_induct)
  case Nil
  then show ?case by (simp add: pause_after_def)
next
  case (snoc l levels)
  let ?c = "fold update_level levels c"
  consider "l \<ge> high_mark c" | "\<not> l \<ge> high_mark c" "l \<le> low_mark c" | "low_mark c < l" "l < high_mark c"
    by linarith
  then show ?case
    using snoc at_high [of ?c l] at_low [of ?c l] in_band [of ?c l] by cases (simp_all add: pause_after_def)
qed

end

interpretation controller: watermark_controller
  Controller_UpdateLevel bp_paused bp_lowWatermark bp_highWatermark
  by unfold_locales (simp_all add: Controller_UpdateLevel_def Let_def)

interpretation adaptive: watermark_controller
  Adaptive_UpdateLevel ad_paused ad_lowWatermark ad_highWatermark
  by unfold_locales (simp_all add: Adaptive_UpdateLevel_def Let_def)

section \<open>Lemmas\<close>

definition yields :: "nat \<Rightarrow> AdaptiveController \<Rightarrow> AdaptiveController" where
  "yields n c = ((snd \<circ> Adaptive_CheckAndYield) ^^ n) c"

definition adaptive_ok :: "AdaptiveController \<Rightarrow> bool" where
  "adaptive_ok c \<longleftrightarrow> 0 < ad_yieldMin c \<and> ad_yieldMin c \<le> ad_yieldMax c \<and> ad_yieldMax c < 2 ^ 62"

lemma min_double: "0 \<le> (b :: int) \<Longrightarrow> min b (2 * min b a) = min b (2 * a)"
  by (simp add: min_def)

lemma yields_step:
  assumes "adaptive_ok c" and "ad_paused c" and "ad_yieldCurrent c = ad_yieldMin c"
  shows "ad_paused (yields n c) \<and> ad_yieldMax (yields n c) = ad_yieldMax c
     \<and> ad_yieldCurrent (yields n c) = min (ad_yieldMax c) (2 ^ n * ad_yieldMin c)"
proof (induction n)
  case 0
  show ?case using assms by (simp add: yields_def adaptive_ok_def)
next
  case (Suc n)
  let ?c = "yields n c"
  have pos: "0 \<le> 2 ^ n * ad_yieldMin c" using assms(1) by (simp add: adaptive_ok_def)
  have "0 \<le> ad_yieldCurrent ?c" "ad_yieldCurrent ?c \<le> ad_yieldMax c"
    using Suc pos assms(1) by (simp_all add: adaptive_ok_def min_def del: zero_le_mult_iff)
  then have "in_i64 (ad_yieldCurrent ?c * 2)"
    using assms(1) by (simp add: in_i64_def adaptive_ok_def)
  moreover have "ad_paused ?c" "ad_yieldMax ?c = ad_yieldMax c" using Suc by simp_all
  ultimately have "ad_yieldCurrent (snd (Adaptive_CheckAndYield ?c)) = min (ad_yieldMax c) (2 * ad_yieldCurrent ?c)"
    by (auto simp: Adaptive_CheckAndYield_def Let_def)
  also have "\<dots> = min (ad_yieldMax c) (2 ^ Suc n * ad_yieldMin c)"
    using Suc min_double [of "ad_yieldMax c" "2 ^ n * ad_yieldMin c"] assms(1)
    by (simp add: adaptive_ok_def mult.assoc)
  finally show ?case
    using Suc by (simp add: yields_def Adaptive_CheckAndYield_def Let_def)
qed

section \<open>Properties\<close>

text \<open>Both controllers have the hysteresis of their watermarks: after any sequence of levels, the
  flow is paused exactly if the latest level at or beyond one of the watermarks was at the high one,
  and as before if all levels were strictly between the two.\<close>

lemma watermark_hysteresis:
  "bp_paused (fold Controller_UpdateLevel levels c) =
       pause_after (bp_lowWatermark c) (bp_highWatermark c) (bp_paused c) levels
     \<and> ad_paused (fold Adaptive_UpdateLevel levels a) =
       pause_after (ad_lowWatermark a) (ad_highWatermark a) (ad_paused a) levels"
  by (simp add: controller.paused_after_levels adaptive.paused_after_levels)

text \<open>The adaptive controller backs off exponentially up to its maximum: while it is paused, the
  wait after \<open>n\<close> checks is \<open>2 ^ n\<close> times the minimum, capped at the maximum, and a level at or below
  the low watermark brings it back to the minimum.\<close>

lemma adaptive_backoff:
  assumes "adaptive_ok c" and "ad_paused c" and "ad_yieldCurrent c = ad_yieldMin c"
  shows "ad_yieldCurrent (yields n c) = min (ad_yieldMax c) (2 ^ n * ad_yieldMin c)
     \<and> (level \<le> ad_lowWatermark c' \<and> level < ad_highWatermark c' \<longrightarrow>
          ad_yieldCurrent (Adaptive_UpdateLevel level c') = ad_yieldMin c')"
  using yields_step [OF assms] by (simp add: Adaptive_UpdateLevel_def Let_def)

lemma adaptive_backoff_witness:
  "let c = Adaptive_Pause (NewAdaptiveController
        \<lparr>ac_HighWatermark = 0, ac_LowWatermark = 0, ac_YieldMin = 0, ac_YieldMax = 0\<rparr>) in
   ad_yieldCurrent (yields 3 c) = 400000 \<and> ad_yieldCurrent (yields 10 c) = 10000000"
proof -
  let ?c = "Adaptive_Pause (NewAdaptiveController
        \<lparr>ac_HighWatermark = 0, ac_LowWatermark = 0, ac_YieldMin = 0, ac_YieldMax = 0\<rparr>)"
  have "adaptive_ok ?c" "ad_paused ?c" "ad_yieldCurrent ?c = ad_yieldMin ?c"
    "ad_yieldMin ?c = 50000" "ad_yieldMax ?c = 10000000"
    by (simp_all add: adaptive_ok_def Adaptive_Pause_def NewAdaptiveController_def Let_def)
  with adaptive_backoff [of ?c 3] adaptive_backoff [of ?c 10] show ?thesis by (simp add: Let_def)
qed

end
