(* ===== verification/QuicWire.thy ===== *)
theory QuicWire
  imports Buffer_Pool
begin

text \<open>
  The wire formats of \<^verbatim>\<open>quic/quic.go\<close> and \<^verbatim>\<open>quic/sdk.go\<close>: the session header of data streams
  and the three parsers of it (server, client, stream handler), the control messages (register,
  register ack, new connection, close, data, config update, session restore), the heartbeat
  datagrams, and the constant-time comparison of tokens.

  Builders write into a buffer of the size the code allocates; parsers follow the offsets and the
  checks of the code. A message handed to a parser without a bounds check is a view into the
  read buffer: its length is what was read, its capacity reaches to the end of the buffer.
\<close>

section \<open>Constants\<close>

abbreviation StreamTypeControl :: byte where "StreamTypeControl \<equiv> 0"
abbreviation StreamTypeData :: byte where "StreamTypeData \<equiv> 1"

abbreviation MsgRegister :: byte where "MsgRegister \<equiv> 1"
abbreviation MsgRegisterAck :: byte where "MsgRegisterAck \<equiv> 2"
abbreviation MsgHeartbeat :: byte where "MsgHeartbeat \<equiv> 3"
abbreviation MsgHeartbeatAck :: byte where "MsgHeartbeatAck \<equiv> 4"
abbreviation MsgNewConn :: byte where "MsgNewConn \<equiv> 5"
abbreviation MsgCloseConn :: byte where "MsgCloseConn \<equiv> 6"
abbreviation MsgError :: byte where "MsgError \<equiv> 7"
abbreviation MsgData :: byte where "MsgData \<equiv> 8"
abbreviation MsgConfigUpdate :: byte where "MsgConfigUpdate \<equiv> 9"
abbreviation MsgConfigAck :: byte where "MsgConfigAck \<equiv> 10"
abbreviation MsgSessionRestore :: byte where "MsgSessionRestore \<equiv> 11"
abbreviation MsgSessionRestoreAck :: byte where "MsgSessionRestoreAck \<equiv> 12"

abbreviation DgramTypeHeartbeat :: byte where "DgramTypeHeartbeat \<equiv> 1"
abbreviation DgramTypeHeartbeatAck :: byte where "DgramTypeHeartbeatAck \<equiv> 2"

abbreviation ProtocolTCP :: byte where "ProtocolTCP \<equiv> 1"
abbreviation ProtocolHTTP :: byte where "ProtocolHTTP \<equiv> 2"
abbreviation ProtocolQUIC :: byte where "ProtocolQUIC \<equiv> 3"
abbreviation ProtocolHTTP2 :: byte where "ProtocolHTTP2 \<equiv> 4"
abbreviation ProtocolHTTP3 :: byte where "ProtocolHTTP3 \<equiv> 5"

abbreviation FlagHTTP2FrameMap :: byte where "FlagHTTP2FrameMap \<equiv> 4"

abbreviation AddrTypeIPv4 :: byte where "AddrTypeIPv4 \<equiv> 1"
abbreviation AddrTypeIPv6 :: byte where "AddrTypeIPv6 \<equiv> 2"
abbreviation AddrTypeDomain :: byte where "AddrTypeDomain \<equiv> 3"

section \<open>Addresses\<close>

definition IndexByte :: "byte \<Rightarrow> bytes \<Rightarrow> nat option" where
  "IndexByte c s = (let a = takeWhile (\<lambda>b. b \<noteq> c) s in if length a = length s then None else Some (length a))"

definition LastIndexByte :: "byte \<Rightarrow> bytes \<Rightarrow> nat option" where
  "LastIndexByte c s = map_option (\<lambda>i. length s - 1 - i) (IndexByte c (rev s))"

text \<open>The host that \<^verbatim>\<open>net.SplitHostPort\<close> returns, or \<open>None\<close> for its errors.\<close>

definition SplitHostPort_host :: "gostr \<Rightarrow> gostr option" where
  "SplitHostPort_host hp =
     (case LastIndexByte 58 hp of
        None \<Rightarrow> None
      | Some i \<Rightarrow>
          if hp ! 0 = 91
          then (case IndexByte 93 hp of
                  None \<Rightarrow> None
                | Some e \<Rightarrow>
                    if e + 1 = i \<and> IndexByte 91 (drop 1 hp) = None \<and> IndexByte 93 (drop (e + 1) hp) = None
                    then Some (sub hp 1 (e - 1)) else None)
          else if IndexByte 58 (take i hp) = None \<and> IndexByte 91 hp = None \<and> IndexByte 93 hp = None
          then Some (take i hp) else None)"

text \<open>\<^verbatim>\<open>net.ParseIP\<close>. A field of a dotted quad has no leading zero and is at most 255.\<close>

definition v4_field :: "bytes \<Rightarrow> byte option" where
  "v4_field ds =
     (let v = foldl (\<lambda>v d. v * 10 + (unat d - 48)) 0 ds in
      if ds \<noteq> [] \<and> length ds \<le> 3 \<and> list_all (\<lambda>d. 48 \<le> unat d \<and> unat d \<le> 57) ds \<and> v \<le> 255
         \<and> (length ds = 1 \<or> hd ds \<noteq> 48)
      then Some (word_of_nat v) else None)"

fun split_on :: "byte \<Rightarrow> bytes \<Rightarrow> bytes \<Rightarrow> bytes list" where
  "split_on c acc [] = [acc]"
| "split_on c acc (b # bs) = (if b = c then acc # split_on c [] bs else split_on c (acc @ [b]) bs)"

definition parseIPv4 :: "gostr \<Rightarrow> bytes option" where
  "parseIPv4 s =
     (let fs = map v4_field (split_on 46 [] s) in
      if length fs = 4 \<and> list_all (\<lambda>f. f \<noteq> None) fs then Some (map the fs) else None)"

definition hexval :: "byte \<Rightarrow> nat option" where
  "hexval b =
     (let v = unat b in
      if 48 \<le> v \<and> v \<le> 57 then Some (v - 48)
      else if 97 \<le> v \<and> v \<le> 102 then Some (v - 87)
      else if 65 \<le> v \<and> v \<le> 70 then Some (v - 55) else None)"

text \<open>The loop of the IPv6 parser: at most eight groups of up to four hexadecimal digits, one
  ellipsis, an optional dotted quad at the end. The state is the bytes so far and the position of
  the ellipsis.\<close>

fun v6_loop :: "nat \<Rightarrow> gostr \<Rightarrow> bytes \<Rightarrow> nat option \<Rightarrow> (bytes \<times> nat option \<times> gostr) option" where
  "v6_loop 0 s ip ell = Some (ip, ell, s)"
| "v6_loop (Suc n) s ip ell =
     (let ds = takeWhile (\<lambda>b. hexval b \<noteq> None) s;
          v = foldl (\<lambda>v d. v * 16 + the (hexval d)) 0 ds;
          r = drop (length ds) s
      in if ds = [] \<or> length ds > 4 then None
         else if r \<noteq> [] \<and> hd r = 46
         then (if (ell = None \<and> length ip \<noteq> 12) \<or> length ip + 4 > 16 then None
               else case parseIPv4 s of None \<Rightarrow> None | Some q \<Rightarrow> Some (ip @ q, ell, []))
         else
           let ip' = ip @ [word_of_nat (v div 256), word_of_nat v] in
           if r = [] then Some (ip', ell, [])
           else if hd r \<noteq> 58 \<or> length r = 1 then None
           else if r ! 1 = 58
           then (if ell \<noteq> None then None
                 else if length r = 2 then Some (ip', Some (length ip'), [])
                 else v6_loop n (drop 2 r) ip' (Some (length ip')))
           else v6_loop n (drop 1 r) ip' ell)"

definition v6_expand :: "bytes \<Rightarrow> nat option \<Rightarrow> bytes option" where
  "v6_expand ip ell =
     (case ell of
        None \<Rightarrow> if length ip = 16 then Some ip else None
      | Some e \<Rightarrow> if length ip < 16 then Some (take e ip @ replicate (16 - length ip) 0 @ drop e ip)
                  else None)"

definition parseIPv6 :: "gostr \<Rightarrow> bytes option" where
  "parseIPv6 s =
     (let lead = (take 2 s = [58, 58]);
          s' = (if lead then drop 2 s else s)
      in if lead \<and> s' = [] then Some (replicate 16 0)
         else case v6_loop 8 s' [] (if lead then Some 0 else None) of
                Some (ip, ell, []) \<Rightarrow> v6_expand ip ell
              | _ \<Rightarrow> None)"

definition ParseIP :: "gostr \<Rightarrow> bytes option" where
  "ParseIP s =
     (case dropWhile (\<lambda>b. b \<noteq> 46 \<and> b \<noteq> 58 \<and> b \<noteq> 37) s of
        b # _ \<Rightarrow>
          if b = 46 then map_option (\<lambda>q. replicate 10 0 @ [255, 255] @ q) (parseIPv4 s)
          else if b = 58 \<and> (37 :: byte) \<notin> set s then parseIPv6 s
          else None
      | [] \<Rightarrow> None)"

definition is_To4 :: "bytes \<Rightarrow> bool" where
  "is_To4 ip \<longleftrightarrow> take 12 ip = replicate 10 0 @ [255, 255]"

definition detectAddrType :: "gostr \<Rightarrow> byte" where
  "detectAddrType target =
     (let host = (case SplitHostPort_host target of None \<Rightarrow> target | Some h \<Rightarrow> h) in
      case ParseIP host of
        None \<Rightarrow> AddrTypeDomain
      | Some ip \<Rightarrow> if is_To4 ip then AddrTypeIPv4 else AddrTypeIPv6)"

section \<open>The session header\<close>

record SessionHeader =
  sh_Protocol :: byte
  sh_AddrType :: byte
  sh_Target :: gostr
  sh_Flags :: byte
  sh_ConnID :: gostr
  sh_HTTP2StreamID :: nat

text \<open>A length-prefixed string, \<^verbatim>\<open>PutUint16(buf[off:], uint16(len(s)))\<close> and \<^verbatim>\<open>copy(buf[off:], s)\<close>.\<close>

definition w_str :: "gostr \<Rightarrow> wbuf \<Rightarrow> wbuf option" where
  "w_str s st = do { st1 \<leftarrow> w_be (be16 (length s)) st; w_copy s st1 }"

text \<open>Run the writes on a fresh buffer of \<open>n\<close> bytes; \<open>None\<close> is a panic.\<close>

definition fill :: "nat \<Rightarrow> (wbuf \<Rightarrow> wbuf option) \<Rightarrow> bytes option" where
  "fill n w = map_option fst (w (replicate n 0, 0))"

definition has_stream_id :: "byte \<Rightarrow> byte \<Rightarrow> bool" where
  "has_stream_id protocol flags \<longleftrightarrow> protocol = ProtocolHTTP2 \<and> flags AND FlagHTTP2FrameMap \<noteq> 0"

definition SessionHeader_Encode :: "SessionHeader \<Rightarrow> bytes option" where
  "SessionHeader_Encode h =
     (let addrType = (if sh_AddrType h = 0 then detectAddrType (sh_Target h) else sh_AddrType h);
          hasID = has_stream_id (sh_Protocol h) (sh_Flags h);
          totalLen = 1 + 1 + 2 + length (sh_Target h) + 1 + 2 + length (sh_ConnID h)
                     + (if hasID then 4 else 0)
      in fill totalLen (\<lambda>s0. do {
           s1 \<leftarrow> w_byte (sh_Protocol h) s0;
           s2 \<leftarrow> w_byte addrType s1;
           s3 \<leftarrow> w_str (sh_Target h) s2;
           s4 \<leftarrow> w_byte (sh_Flags h) s3;
           s5 \<leftarrow> w_str (sh_ConnID h) s4;
           if hasID then w_be (be32 (sh_HTTP2StreamID h)) s5 else Some s5 }))"

datatype header_error = HeaderTooShort | TruncatedTarget | TruncatedConnID | TruncatedStreamID

definition DecodeSessionHeader ::
  "bytes \<Rightarrow> (header_error, SessionHeader \<times> nat) go_result" where
  "DecodeSessionHeader data =
     (if length data < 7 then Err HeaderTooShort
      else case get16 (drop 2 data) of
        None \<Rightarrow> Panic
      | Some targetLen \<Rightarrow>
          if length data < 4 + targetLen + 3 then Err TruncatedTarget
          else
            let flags = data ! (4 + targetLen) in
            case get16 (drop (5 + targetLen) data) of
              None \<Rightarrow> Panic
            | Some connIDLen \<Rightarrow>
                if length data < 7 + targetLen + connIDLen then Err TruncatedConnID
                else
                  let h = \<lparr>sh_Protocol = data ! 0, sh_AddrType = data ! 1,
                            sh_Target = sub data 4 targetLen, sh_Flags = flags,
                            sh_ConnID = sub data (7 + targetLen) connIDLen, sh_HTTP2StreamID = 0\<rparr>;
                      off = 7 + targetLen + connIDLen
                  in if has_stream_id (sh_Protocol h) flags
                     then (if length data < off + 4 then Err TruncatedStreamID
                           else case get32 (drop off data) of
                                  None \<Rightarrow> Panic
                                | Some sid \<Rightarrow> Ret (h\<lparr>sh_HTTP2StreamID := sid\<rparr>, off + 4))
                     else Ret (h, off))"

section \<open>Reading data streams\<close>

text \<open>A stream is the bytes the peer sends before closing its side; \<open>None\<close> is an early return
  (a short read). \<^verbatim>\<open>io.ReadFull\<close> of a length-prefixed string skips the read when the length is 0.\<close>

definition rd_byte :: "bytes \<Rightarrow> (byte \<times> bytes) option" where
  "rd_byte s = map_option (\<lambda>(a, r). (a ! 0, r)) (rd_n 1 s)"

definition rd_u16 :: "bytes \<Rightarrow> (nat \<times> bytes) option" where
  "rd_u16 s = do { (a, r) \<leftarrow> rd_n 2 s; n \<leftarrow> get16 a; Some (n, r) }"

definition rd_str :: "bytes \<Rightarrow> (gostr \<times> bytes) option" where
  "rd_str s = do { (n, r) \<leftarrow> rd_u16 s; if n > 0 then rd_n n r else Some ([], r) }"

definition is_protocol :: "byte \<Rightarrow> bool" where
  "is_protocol b \<longleftrightarrow> ProtocolTCP \<le> b \<and> b \<le> ProtocolHTTP3"

text \<open>The connection ID in the legacy format, whose length's high byte was already read.\<close>

definition rd_legacy :: "byte \<Rightarrow> bytes \<Rightarrow> (gostr \<times> bytes) option" where
  "rd_legacy hi s = do {
     (lo, r) \<leftarrow> rd_byte s;
     let n = unat hi * 256 + unat lo;
     if n > 0 then rd_n n r else Some ([], r) }"

text \<open>\<^verbatim>\<open>MuxServer.handleDataStream\<close> up to the lookup: connection ID, target override, rest.\<close>

definition server_read_header :: "bytes \<Rightarrow> (gostr \<times> gostr \<times> bytes) option" where
  "server_read_header s0 = do {
     (st, s1) \<leftarrow> rd_byte s0;
     if st \<noteq> StreamTypeData then None else do {
       (nb, s2) \<leftarrow> rd_byte s1;
       if is_protocol nb then do {
         (target, s3) \<leftarrow> rd_str s2;
         (flags, s4) \<leftarrow> rd_byte s3;
         (connID, s5) \<leftarrow> rd_str s4;
         Some (connID, target, s5) }
       else do {
         (connID, s3) \<leftarrow> rd_legacy nb s2;
         Some (connID, [], s3) } } }"

text \<open>\<^verbatim>\<open>MuxClient.handleQUICDataStream\<close> up to the choice of the target.\<close>

definition client_read_header :: "bytes \<Rightarrow> (gostr \<times> gostr \<times> bytes) option" where
  "client_read_header s0 = do {
     (st, s1) \<leftarrow> rd_byte s0;
     if st \<noteq> StreamTypeData then None else do {
       (nb, s2) \<leftarrow> rd_byte s1;
       if is_protocol nb then do {
         (addrType, s3) \<leftarrow> rd_byte s2;
         (target, s4) \<leftarrow> rd_str s3;
         (flags, s5) \<leftarrow> rd_byte s4;
         (connID, s6) \<leftarrow> rd_str s5;
         Some (connID, target, s6) }
       else do {
         (connID, s3) \<leftarrow> rd_legacy nb s2;
         Some (connID, [], s3) } } }"

text \<open>\<^verbatim>\<open>StreamHandler.parseSessionHeader\<close>, after the stream type was read.\<close>

definition StreamHandler_parseSessionHeader :: "bytes \<Rightarrow> (SessionHeader \<times> bytes) option" where
  "StreamHandler_parseSessionHeader s1 = do {
     (nb, s2) \<leftarrow> rd_byte s1;
     if is_protocol nb then do {
       (addrType, s3) \<leftarrow> rd_byte s2;
       (target, s4) \<leftarrow> rd_str s3;
       (flags, s5) \<leftarrow> rd_byte s4;
       (connID, s6) \<leftarrow> rd_str s5;
       Some (\<lparr>sh_Protocol = nb, sh_AddrType = addrType, sh_Target = target, sh_Flags = flags,
              sh_ConnID = connID, sh_HTTP2StreamID = 0\<rparr>, s6) }
     else do {
       (connID, s3) \<leftarrow> rd_legacy nb s2;
       Some (\<lparr>sh_Protocol = 0, sh_AddrType = 0, sh_Target = [], sh_Flags = 0,
              sh_ConnID = connID, sh_HTTP2StreamID = 0\<rparr>, s3) } }"

definition StreamHandler_HandleDataStream ::
  "gostr \<Rightarrow> bytes \<Rightarrow> (SessionHeader \<times> gostr \<times> bytes) option" where
  "StreamHandler_HandleDataStream localAddr s0 = do {
     (st, s1) \<leftarrow> rd_byte s0;
     if st \<noteq> StreamTypeData then None else do {
       (h, s) \<leftarrow> StreamHandler_parseSessionHeader s1;
       Some (h, (if sh_Target h \<noteq> [] then sh_Target h else localAddr), s) } }"

section \<open>Control messages\<close>

datatype wire_error =
    ErrInvalidMessageType
  | PayloadTooShort
  | BadTunnelIDLen nat nat | MissingProtocol | InvalidProtocol byte
  | MissingLocalAddrLen | BadLocalAddrLen nat nat
  | MissingDomainLen | BadDomainLen nat nat
  | MissingTokenLen | BadTokenLen nat nat
  | NotRegisterAck byte
  | ServerError gostr

definition parseControlMessage :: "bytes \<Rightarrow> (wire_error, byte \<times> bytes) go_result" where
  "parseControlMessage data =
     (case data of [] \<Rightarrow> Err ErrInvalidMessageType | t # payload \<Rightarrow> Ret (t, payload))"

text \<open>\<^verbatim>\<open>readControlMessage\<close> on what one \<^verbatim>\<open>Read\<close> delivers: at most 4096 bytes.\<close>

definition controlBuffer :: nat where "controlBuffer = 4096"

definition readControlMessage :: "bytes \<Rightarrow> (wire_error, byte \<times> bytes) go_result" where
  "readControlMessage arriving = parseControlMessage (take controlBuffer arriving)"

definition valid_protocol :: "byte \<Rightarrow> bool" where
  "valid_protocol b \<longleftrightarrow> b = ProtocolTCP \<or> b = ProtocolHTTP \<or> b = ProtocolQUIC
     \<or> b = ProtocolHTTP2 \<or> b = ProtocolHTTP3"

record RegisterInfo =
  ri_tunnelID :: gostr
  ri_protocol :: byte
  ri_localAddr :: gostr
  ri_domain :: gostr
  ri_authToken :: gostr

definition parseRegisterPayload :: "bytes \<Rightarrow> (wire_error, RegisterInfo) go_result" where
  "parseRegisterPayload payload =
     (if length payload < 9 then Err PayloadTooShort
      else case get16 payload of None \<Rightarrow> Panic | Some n1 \<Rightarrow>
      if 2 + n1 > length payload then Err (BadTunnelIDLen n1 (length payload - 2))
      else if 2 + n1 \<ge> length payload then Err MissingProtocol
      else let protocol = payload ! (2 + n1); o1 = 3 + n1 in
      if \<not> valid_protocol protocol then Err (InvalidProtocol protocol)
      else if o1 + 2 > length payload then Err MissingLocalAddrLen
      else case get16 (drop o1 payload) of None \<Rightarrow> Panic | Some n2 \<Rightarrow>
      if o1 + 2 + n2 > length payload then Err (BadLocalAddrLen n2 (length payload - (o1 + 2)))
      else let o2 = o1 + 2 + n2 in
      if o2 + 2 > length payload then Err MissingDomainLen
      else case get16 (drop o2 payload) of None \<Rightarrow> Panic | Some n3 \<Rightarrow>
      if n3 > 0 \<and> o2 + 2 + n3 > length payload then Err (BadDomainLen n3 (length payload - (o2 + 2)))
      else let o3 = o2 + 2 + n3 in
      if o3 + 2 > length payload then Err MissingTokenLen
      else case get16 (drop o3 payload) of None \<Rightarrow> Panic | Some n4 \<Rightarrow>
      if o3 + 2 + n4 > length payload then Err (BadTokenLen n4 (length payload - (o3 + 2)))
      else Ret \<lparr>ri_tunnelID = sub payload 2 n1, ri_protocol = protocol,
                ri_localAddr = sub payload (o1 + 2) n2, ri_domain = sub payload (o2 + 2) n3,
                ri_authToken = sub payload (o3 + 2) n4\<rparr>)"

definition buildRegisterMessage :: "gostr \<Rightarrow> byte \<Rightarrow> gostr \<Rightarrow> gostr \<Rightarrow> gostr \<Rightarrow> bytes option" where
  "buildRegisterMessage tunnelID protocol localAddr domain authToken =
     fill (1 + 2 + length tunnelID + 1 + 2 + length localAddr + 2 + length domain + 2 + length authToken)
       (\<lambda>s0. do {
          s1 \<leftarrow> w_byte MsgRegister s0;
          s2 \<leftarrow> w_str tunnelID s1;
          s3 \<leftarrow> w_byte protocol s2;
          s4 \<leftarrow> w_str localAddr s3;
          s5 \<leftarrow> w_str domain s4;
          w_str authToken s5 })"

text \<open>The bytes \<^verbatim>\<open>sendRegisterAck\<close> writes to the stream.\<close>

definition sendRegisterAck :: "gostr \<Rightarrow> gostr \<Rightarrow> nat \<Rightarrow> gostr \<Rightarrow> bytes option" where
  "sendRegisterAck tunnelID publicURL port errMsg =
     fill (1 + 2 + length tunnelID + 2 + length publicURL + 2 + 2 + length errMsg)
       (\<lambda>s0. do {
          s1 \<leftarrow> w_byte MsgRegisterAck s0;
          s2 \<leftarrow> w_str tunnelID s1;
          s3 \<leftarrow> w_str publicURL s2;
          s4 \<leftarrow> w_be (be16 port) s3;
          w_str errMsg s4 })"

definition buildNewConnMessage :: "gostr \<Rightarrow> gostr \<Rightarrow> bytes option" where
  "buildNewConnMessage connID remoteAddr =
     fill (1 + 2 + length connID + 2 + length remoteAddr)
       (\<lambda>s0. do {
          s1 \<leftarrow> w_byte MsgNewConn s0;
          s2 \<leftarrow> w_str connID s1;
          w_str remoteAddr s2 })"

definition BuildCloseConnMessage :: "gostr \<Rightarrow> bytes option" where
  "BuildCloseConnMessage connID =
     fill (1 + length connID) (\<lambda>s0. do { s1 \<leftarrow> w_byte MsgCloseConn s0; w_copy connID s1 })"

definition buildConfigUpdate :: "bytes \<Rightarrow> bytes option" where
  "buildConfigUpdate configJSON =
     fill (1 + 2 + length configJSON)
       (\<lambda>s0. do { s1 \<leftarrow> w_byte MsgConfigUpdate s0; w_str configJSON s1 })"

text \<open>\<^verbatim>\<open>sendSessionRestore\<close> builds its message by appending; \<^verbatim>\<open>byte(n>>8), byte(n)\<close> and the eight
  shifted bytes of the timestamp are big-endian integers.\<close>

definition buildSessionRestore :: "gostr \<Rightarrow> byte \<Rightarrow> gostr \<Rightarrow> nat \<Rightarrow> bytes" where
  "buildSessionRestore tunnelID protocol localAddr timestamp =
     [MsgSessionRestore] @ be16 (length tunnelID) @ tunnelID @ [protocol]
     @ be16 (length localAddr) @ localAddr @ be64 timestamp"

text \<open>The parsing part of \<^verbatim>\<open>handleSessionRestore\<close>; \<open>None\<close> is an early return. The timestamp is
  read and dropped.\<close>

definition parseSessionRestore :: "bytes \<Rightarrow> (gostr \<times> byte \<times> gostr) option" where
  "parseSessionRestore payload =
     (if length payload < 2 then None
      else case get16 payload of None \<Rightarrow> None | Some n1 \<Rightarrow>
      if length payload < 2 + n1 + 1 then None
      else let protocol = payload ! (2 + n1); o1 = 3 + n1 in
      if length payload < o1 + 2 then None
      else case get16 (drop o1 payload) of None \<Rightarrow> None | Some n2 \<Rightarrow>
      if length payload < o1 + 2 + n2 + 8 then None
      else Some (sub payload 2 n1, protocol, sub payload (o1 + 2) n2))"

section \<open>Parsers without bounds checks\<close>

text \<open>The part of a read buffer behind the message type: \<open>n\<close> bytes were read into the buffer.\<close>

definition payload_view :: "bytes \<Rightarrow> nat \<Rightarrow> gslice" where
  "payload_view buf n = \<lparr>arr = drop 1 buf, slen = n - 1\<rparr>"

text \<open>\<^verbatim>\<open>Uint16(p[off:])\<close> needs two bytes within the length; \<^verbatim>\<open>p[off:off+n]\<close> only needs the
  capacity. \<open>None\<close> is a panic.\<close>

definition v_u16 :: "gslice \<Rightarrow> nat \<Rightarrow> nat option" where
  "v_u16 p off = (if off + 2 \<le> slen p then get16 (drop off (arr p)) else None)"

definition v_str :: "gslice \<Rightarrow> nat \<Rightarrow> nat \<Rightarrow> gostr option" where
  "v_str p off n = (if off + n \<le> scap p then Some (sub (arr p) off n) else None)"

text \<open>\<^verbatim>\<open>readRegisterAck\<close> on what one \<^verbatim>\<open>Read\<close> into its zeroed 1024-byte buffer delivers: the tunnel
  ID and public URL it stores (already stored when a server error is returned), and the result.\<close>

definition ackBuffer :: nat where "ackBuffer = 1024"

definition readRegisterAck ::
  "bytes \<Rightarrow> (wire_error, unit) go_result \<times> (gostr \<times> gostr) option" where
  "readRegisterAck arriving =
     (let data = take ackBuffer arriving; n = length data;
          buf = data @ replicate (ackBuffer - n) 0; p = payload_view buf n
      in case parseControlMessage data of
           Panic \<Rightarrow> (Panic, None)
         | Err e \<Rightarrow> (Err e, None)
         | Ret (t, _) \<Rightarrow>
             if t \<noteq> MsgRegisterAck then (Err (NotRegisterAck t), None)
             else (case (do {
                     n1 \<leftarrow> v_u16 p 0;
                     tid \<leftarrow> v_str p 2 n1;
                     n2 \<leftarrow> v_u16 p (2 + n1);
                     url \<leftarrow> v_str p (4 + n1) n2;
                     Some (tid, url, 4 + n1 + n2) }) of
                  None \<Rightarrow> (Panic, None)
                | Some (tid, url, off) \<Rightarrow>
                    (case v_u16 p (off + 2) of
                       None \<Rightarrow> (Panic, Some (tid, url))
                     | Some n3 \<Rightarrow>
                         if n3 > 0
                         then (case v_str p (off + 4) n3 of
                                 None \<Rightarrow> (Panic, Some (tid, url))
                               | Some msg \<Rightarrow> (Err (ServerError msg), Some (tid, url)))
                         else (Ret (), Some (tid, url)))))"

text \<open>The parsing part of \<^verbatim>\<open>MuxClient.handleNewConn\<close>.\<close>

definition parseNewConn :: "gslice \<Rightarrow> (gostr \<times> gostr) option" where
  "parseNewConn p = do {
     n1 \<leftarrow> v_u16 p 0;
     connID \<leftarrow> v_str p 2 n1;
     n2 \<leftarrow> v_u16 p (2 + n1);
     remoteAddr \<leftarrow> v_str p (4 + n1) n2;
     Some (connID, remoteAddr) }"

text \<open>The checked parsers of \<^verbatim>\<open>handleData\<close> and \<^verbatim>\<open>handleConfigUpdate\<close>; \<open>None\<close> is an early return.\<close>

definition parseDataPayload :: "bytes \<Rightarrow> (gostr \<times> bytes) option" where
  "parseDataPayload payload =
     (if length payload < 2 then None
      else case get16 payload of None \<Rightarrow> None | Some n1 \<Rightarrow>
      if 2 + n1 > length payload then None
      else if 2 + n1 + 4 > length payload then None
      else case get32 (drop (2 + n1) payload) of None \<Rightarrow> None | Some n2 \<Rightarrow>
      if 6 + n1 + n2 > length payload then None
      else Some (sub payload 2 n1, sub payload (6 + n1) n2))"

definition parseConfigUpdate :: "bytes \<Rightarrow> bytes option" where
  "parseConfigUpdate payload =
     (if length payload < 2 then None
      else case get16 (take 2 payload) of None \<Rightarrow> None | Some n \<Rightarrow>
      if length payload < 2 + n then None else Some (sub payload 2 n))"

section \<open>Datagrams, tokens and the first frame\<close>

definition clientHeartbeat :: "nat \<Rightarrow> bytes option" where
  "clientHeartbeat nowMs =
     fill 9 (\<lambda>s0. do {
       s1 \<leftarrow> w_byte DgramTypeHeartbeat s0;
       s2 \<leftarrow> w_be (be32 nowMs) s1;
       w_be (be32 0) s2 })"

text \<open>The reply to a heartbeat datagram, with the 32-bit difference of the two clocks; \<open>None\<close>
  when the datagram is too short.\<close>

definition heartbeatReply :: "nat \<Rightarrow> bytes \<Rightarrow> bytes option" where
  "heartbeatReply nowMs data =
     (if length data < 9 then None
      else case get32 (sub data 1 4) of None \<Rightarrow> None | Some clientTimestamp \<Rightarrow>
        let now = nowMs mod 2 ^ 32; rtt = (now + 2 ^ 32 - clientTimestamp) mod 2 ^ 32
        in fill 9 (\<lambda>s0. do {
             s1 \<leftarrow> w_byte DgramTypeHeartbeatAck s0;
             s2 \<leftarrow> w_be (be32 now) s1;
             w_be (be32 rtt) s2 }))"

definition constantTimeEqual :: "bytes \<Rightarrow> bytes \<Rightarrow> bool" where
  "constantTimeEqual a b \<longleftrightarrow> length a = length b \<and> fold (\<lambda>(x, y) r. r OR (x XOR y)) (zip a b) 0 = 0"

text \<open>The first frame that \<^verbatim>\<open>DialTunnel\<close> and \<^verbatim>\<open>DialTunnelWithPayload\<close> write.\<close>

definition DialTunnel_header :: "gostr \<Rightarrow> bytes option" where
  "DialTunnel_header domain = fill (2 + length domain) (w_str domain)"

definition DialTunnelWithPayload_header :: "gostr \<Rightarrow> bytes \<Rightarrow> bytes option" where
  "DialTunnelWithPayload_header domain payload =
     fill (2 + length domain + length payload)
       (\<lambda>s0. do { s1 \<leftarrow> w_str domain s0; w_copy payload s1 })"

section \<open>Reference formats\<close>

definition pstr :: "gostr \<Rightarrow> bytes" where
  "pstr s = be16 (length s) @ s"

definition short :: "gostr \<Rightarrow> bool" where
  "short s \<longleftrightarrow> length s \<le> 65535"

definition header_addr :: "SessionHeader \<Rightarrow> byte" where
  "header_addr h = (if sh_AddrType h = 0 then detectAddrType (sh_Target h) else sh_AddrType h)"

definition header_bytes :: "SessionHeader \<Rightarrow> bytes" where
  "header_bytes h =
     [sh_Protocol h, header_addr h] @ pstr (sh_Target h) @ [sh_Flags h] @ pstr (sh_ConnID h)
     @ (if has_stream_id (sh_Protocol h) (sh_Flags h) then be32 (sh_HTTP2StreamID h) else [])"

text \<open>What decoding gives back: the address type is filled in, the stream ID only survives where
  it is transmitted.\<close>

definition header_norm :: "SessionHeader \<Rightarrow> SessionHeader" where
  "header_norm h =
     h\<lparr>sh_AddrType := header_addr h,
       sh_HTTP2StreamID := (if has_stream_id (sh_Protocol h) (sh_Flags h)
                            then sh_HTTP2StreamID h mod 2 ^ 32 else 0)\<rparr>"

section \<open>Lemmas on builders\<close>

lemma length_pstr [simp]: "length (pstr s) = 2 + length s"
  by (simp add: pstr_def)

lemma w_str_wst [wire_simps]:
  "2 + length s \<le> length rest \<Longrightarrow>
   w_str s (wst pre rest) = Some (wst (pre @ pstr s) (drop (2 + length s) rest))"
  by (simp add: w_str_def wire_simps pstr_def)

lemma fill_wst:
  "w (wst [] (replicate n 0)) = Some (wst f r) \<Longrightarrow> r = [] \<Longrightarrow> fill n w = Some f"
  by (simp add: fill_def wst_def)

lemma SessionHeader_Encode_bytes: "SessionHeader_Encode h = Some (header_bytes h)"
  unfolding SessionHeader_Encode_def Let_def
  by (cases "has_stream_id (sh_Protocol h) (sh_Flags h)"; rule fill_wst)
    (simp add: wire_simps header_bytes_def header_addr_def, simp)+

lemma buildRegisterMessage_bytes:
  "buildRegisterMessage tid pr la dm tok =
     Some ([MsgRegister] @ pstr tid @ [pr] @ pstr la @ pstr dm @ pstr tok)"
  unfolding buildRegisterMessage_def by (rule fill_wst) (simp add: wire_simps, simp)

lemma sendRegisterAck_bytes:
  "sendRegisterAck tid url port err =
     Some ([MsgRegisterAck] @ pstr tid @ pstr url @ be16 port @ pstr err)"
  unfolding sendRegisterAck_def by (rule fill_wst) (simp add: wire_simps, simp)

lemma buildNewConnMessage_bytes:
  "buildNewConnMessage i a = Some ([MsgNewConn] @ pstr i @ pstr a)"
  unfolding buildNewConnMessage_def by (rule fill_wst) (simp add: wire_simps, simp)

lemma BuildCloseConnMessage_bytes: "BuildCloseConnMessage i = Some ([MsgCloseConn] @ i)"
  unfolding BuildCloseConnMessage_def by (rule fill_wst) (simp add: wire_simps, simp)

lemma buildConfigUpdate_bytes: "buildConfigUpdate c = Some ([MsgConfigUpdate] @ pstr c)"
  unfolding buildConfigUpdate_def by (rule fill_wst) (simp add: wire_simps, simp)

lemma DialTunnel_header_bytes:
  "DialTunnel_header d = Some (pstr d)"
  "DialTunnelWithPayload_header d p = Some (pstr d @ p)"
  unfolding DialTunnel_header_def DialTunnelWithPayload_header_def
  by (rule fill_wst; simp add: wire_simps; simp)+

section \<open>Lemmas on parsers\<close>

lemma short_mod [simp]: "short s \<Longrightarrow> length s mod 65536 = length s"
  by (simp add: short_def)

lemma rd_byte_Cons [simp]: "rd_byte (b # s) = Some (b, s)"
  by (simp add: rd_byte_def)

lemma rd_u16_be16 [simp]: "rd_u16 (be16 n @ s) = Some (n mod 2 ^ 16, s)"
  by (simp add: rd_u16_def)

lemma rd_str_pstr [simp]: "short t \<Longrightarrow> rd_str (pstr t @ s) = Some (t, s)"
  by (simp add: rd_str_def pstr_def)

lemma get16_pstr [simp]: "short t \<Longrightarrow> get16 (pstr t @ s) = Some (length t)"
  by (simp add: pstr_def)

lemma sub_at: "xs = a @ b @ c \<Longrightarrow> length a = n \<Longrightarrow> length b = k \<Longrightarrow> sub xs n k = b"
  by (auto simp: sub_def)

lemma nth_at: "xs = a @ b # c \<Longrightarrow> length a = n \<Longrightarrow> xs ! n = b"
  by auto

lemma DecodeSessionHeader_bytes:
  assumes "short (sh_Target h)" and "short (sh_ConnID h)"
  shows "DecodeSessionHeader (header_bytes h @ rest) = Ret (header_norm h, length (header_bytes h))"
proof -
  let ?t = "sh_Target h" and ?c = "sh_ConnID h" and ?id = "has_stream_id (sh_Protocol h) (sh_Flags h)"
  let ?sid = "if ?id then be32 (sh_HTTP2StreamID h) else []"
  define d where "d = header_bytes h @ rest"
  have d: "d = [sh_Protocol h, header_addr h] @ pstr ?t @ [sh_Flags h] @ pstr ?c @ ?sid @ rest"
    by (simp add: d_def header_bytes_def)
  have len: "length d = 7 + length ?t + length ?c + length ?sid + length rest" by (simp add: d)
  have "get16 (drop 2 d) = Some (length ?t)" using assms(1) by (simp add: d)
  moreover have "d ! 0 = sh_Protocol h" "d ! 1 = header_addr h" by (simp_all add: d)
  moreover have "d ! (4 + length ?t) = sh_Flags h"
    by (rule nth_at [of _ "[sh_Protocol h, header_addr h] @ pstr ?t"]) (simp_all add: d)
  moreover have "drop (5 + length ?t) d = pstr ?c @ ?sid @ rest"
    by (rule drop_exact [of _ "[sh_Protocol h, header_addr h] @ pstr ?t @ [sh_Flags h]"])
      (simp_all add: d)
  then have "get16 (drop (5 + length ?t) d) = Some (length ?c)" using assms(2) by simp
  moreover have "sub d 4 (length ?t) = ?t"
    by (rule sub_at [of _ "[sh_Protocol h, header_addr h] @ be16 (length ?t)"])
      (simp_all add: d pstr_def)
  moreover have "sub d (7 + length ?t) (length ?c) = ?c"
    by (rule sub_at [of _ "[sh_Protocol h, header_addr h] @ pstr ?t @ [sh_Flags h] @ be16 (length ?c)"])
      (simp_all add: d pstr_def)
  moreover have "drop (7 + length ?t + length ?c) d = ?sid @ rest"
    by (rule drop_exact [of _ "[sh_Protocol h, header_addr h] @ pstr ?t @ [sh_Flags h] @ pstr ?c"])
      (simp_all add: d)
  moreover have "length (header_bytes h) = 7 + length ?t + length ?c + length ?sid"
    by (simp add: header_bytes_def)
  ultimately show ?thesis
    unfolding d_def [symmetric] using len
    by (simp add: DecodeSessionHeader_def Let_def header_norm_def)
qed

lemma client_read_header_bytes:
  assumes "short (sh_Target h)" and "short (sh_ConnID h)" and "is_protocol (sh_Protocol h)"
  shows "client_read_header (StreamTypeData # header_bytes h @ rest) =
     Some (sh_ConnID h, sh_Target h,
           (if has_stream_id (sh_Protocol h) (sh_Flags h) then be32 (sh_HTTP2StreamID h) else [])
           @ rest)"
  using assms by (simp add: client_read_header_def header_bytes_def)

lemma StreamHandler_same:
  "client_read_header (StreamTypeData # s) =
     map_option (\<lambda>(h, r). (sh_ConnID h, sh_Target h, r)) (StreamHandler_parseSessionHeader s)"
  by (simp add: client_read_header_def StreamHandler_parseSessionHeader_def split: bind_split
      prod.splits)

lemma parseRegisterPayload_bytes:
  assumes "short tid" and "short la" and "short dm" and "short tok" and "valid_protocol pr"
  shows "parseRegisterPayload (pstr tid @ [pr] @ pstr la @ pstr dm @ pstr tok @ rest) =
     Ret \<lparr>ri_tunnelID = tid, ri_protocol = pr, ri_localAddr = la, ri_domain = dm, ri_authToken = tok\<rparr>"
proof -
  define d where "d = pstr tid @ [pr] @ pstr la @ pstr dm @ pstr tok @ rest"
  have len: "length d = 9 + length tid + length la + length dm + length tok + length rest"
    by (simp add: d_def)
  have "get16 d = Some (length tid)" using assms by (simp add: d_def)
  moreover have "d ! (2 + length tid) = pr" by (rule nth_at [of _ "pstr tid"]) (simp_all add: d_def)
  moreover have "drop (3 + length tid) d = pstr la @ pstr dm @ pstr tok @ rest"
    by (rule drop_exact [of _ "pstr tid @ [pr]"]) (simp_all add: d_def)
  moreover have "drop (5 + length tid + length la) d = pstr dm @ pstr tok @ rest"
    by (rule drop_exact [of _ "pstr tid @ [pr] @ pstr la"]) (simp_all add: d_def)
  moreover have "drop (7 + length tid + length la + length dm) d = pstr tok @ rest"
    by (rule drop_exact [of _ "pstr tid @ [pr] @ pstr la @ pstr dm"]) (simp_all add: d_def)
  moreover have "sub d 2 (length tid) = tid"
    by (rule sub_at [of _ "be16 (length tid)"]) (simp_all add: d_def pstr_def)
  moreover have "sub d (5 + length tid) (length la) = la"
    by (rule sub_at [of _ "pstr tid @ [pr] @ be16 (length la)"]) (simp_all add: d_def pstr_def)
  moreover have "sub d (7 + length tid + length la) (length dm) = dm"
    by (rule sub_at [of _ "pstr tid @ [pr] @ pstr la @ be16 (length dm)"]) (simp_all add: d_def pstr_def)
  moreover have "sub d (9 + length tid + length la + length dm) (length tok) = tok"
    by (rule sub_at [of _ "pstr tid @ [pr] @ pstr la @ pstr dm @ be16 (length tok)"])
      (simp_all add: d_def pstr_def)
  ultimately show ?thesis
    unfolding d_def [symmetric] using len assms
    by (simp add: parseRegisterPayload_def Let_def add.commute add.left_commute)
qed

lemma v_u16_at:
  assumes "arr p = a @ pstr t @ b" and "length a = n" and "n + 2 \<le> slen p" and "short t"
  shows "v_u16 p n = Some (length t)"
  using assms by (auto simp: v_u16_def)

lemma v_str_at:
  assumes "arr p = a @ pstr t @ b" and "length a + 2 = n"
  shows "v_str p n (length t) = Some t"
  using assms sub_at [of "arr p" "a @ be16 (length t)" t b "length a + 2" "length t"]
  by (auto simp: v_str_def scap_def pstr_def)

lemma readRegisterAck_bytes:
  assumes "short tid" and "short url" and "short err"
    and "9 + length tid + length url + length err \<le> ackBuffer"
  shows "readRegisterAck ([MsgRegisterAck] @ pstr tid @ pstr url @ be16 port @ pstr err) =
     ((if err = [] then Ret () else Err (ServerError err)), Some (tid, url))"
proof -
  define data where "data = [MsgRegisterAck] @ pstr tid @ pstr url @ be16 port @ pstr err"
  define z :: bytes where "z = replicate (ackBuffer - length data) 0"
  define p where "p = payload_view (data @ z) (length data)"
  have len: "length data = 9 + length tid + length url + length err" by (simp add: data_def)
  have arr: "arr p = pstr tid @ pstr url @ be16 port @ pstr err @ z"
    and slen: "slen p = 8 + length tid + length url + length err"
    by (simp_all add: p_def payload_view_def data_def)
  note at = v_u16_at [of p "[]" tid] v_u16_at [of p "pstr tid" url]
    v_u16_at [of p "pstr tid @ pstr url @ be16 port" err "z" "6 + length tid + length url"]
    v_str_at [of p "[]" tid] v_str_at [of p "pstr tid" url]
    v_str_at [of p "pstr tid @ pstr url @ be16 port" err "z" "8 + length tid + length url"]
  have us: "v_u16 p 0 = Some (length tid)" "v_str p 2 (length tid) = Some tid"
      "v_u16 p (2 + length tid) = Some (length url)"
      "v_str p (4 + length tid) (length url) = Some url"
      "v_u16 p (6 + length tid + length url) = Some (length err)"
      "v_str p (8 + length tid + length url) (length err) = Some err"
    using at arr slen assms by simp_all
  have "take ackBuffer data = data" using assms(4) len by simp
  moreover have "parseControlMessage data = Ret (MsgRegisterAck, tl data)"
    by (simp add: data_def parseControlMessage_def)
  ultimately show ?thesis
    unfolding data_def [symmetric] readRegisterAck_def Let_def
    using us [unfolded add.assoc]
    by (simp add: p_def [symmetric, unfolded z_def] add.assoc)
qed

lemma constantTimeEqual_eq: "constantTimeEqual a b \<longleftrightarrow> a = b"
proof -
  have acc: "fold (\<lambda>(x, y) r. r OR (x XOR y)) ps (r :: byte) = 0 \<longleftrightarrow> r = 0 \<and> list_all (\<lambda>(x, y). x = y) ps"
    for ps r
  proof (induction ps arbitrary: r)
    case (Cons q ps)
    obtain x y where q: "q = (x, y)" by fastforce
    have "r OR (x XOR y) = 0 \<longleftrightarrow> r = 0 \<and> x = y"
      by (auto simp: bit_eq_iff bit_simps)
    with Cons show ?case by (simp add: q)
  qed simp
  have "list_all (\<lambda>(x, y). x = y) (zip a b) \<longleftrightarrow> a = b" if "length a = length b"
    using that by (induction a b rule: list_induct2) auto
  with acc show ?thesis by (auto simp: constantTimeEqual_def list_all_iff in_set_zip)
qed

lemma parseSessionRestore_bytes:
  assumes "short tid" and "short la"
  shows "parseSessionRestore (tl (buildSessionRestore tid pr la ts)) = Some (tid, pr, la)"
proof -
  define d where "d = pstr tid @ [pr] @ pstr la @ be64 ts"
  have "buildSessionRestore tid pr la ts = MsgSessionRestore # d"
    by (simp add: buildSessionRestore_def d_def pstr_def)
  moreover have "get16 d = Some (length tid)" using assms by (simp add: d_def)
  moreover have "d ! (2 + length tid) = pr" by (rule nth_at [of _ "pstr tid"]) (simp_all add: d_def)
  moreover have "drop (3 + length tid) d = pstr la @ be64 ts"
    by (rule drop_exact [of _ "pstr tid @ [pr]"]) (simp_all add: d_def)
  moreover have "sub d 2 (length tid) = tid"
    by (rule sub_at [of _ "be16 (length tid)"]) (simp_all add: d_def pstr_def)
  moreover have "sub d (5 + length tid) (length la) = la"
    by (rule sub_at [of _ "pstr tid @ [pr] @ be16 (length la)"]) (simp_all add: d_def pstr_def)
  moreover have "length d = 5 + length tid + length la + 8" by (simp add: d_def)
  ultimately show ?thesis
    using assms by (simp add: parseSessionRestore_def Let_def)
qed

text \<open>A longer payload does not change what was accepted.\<close>

lemma get16_append: "get16 a = Some n \<Longrightarrow> get16 (a @ b) = Some n"
  by (cases a rule: get16.cases) auto

lemma get16_drop_append:
  "get16 (drop k a) = Some n \<Longrightarrow> get16 (drop k (a @ b)) = Some n"
  using get16_append [of "drop k a" n "drop (k - length a) b"] by simp

lemma sub_append_left: "n + k \<le> length a \<Longrightarrow> sub (a @ b) n k = sub a n k"
  by (simp add: sub_def)

lemma parseRegisterPayload_append:
  assumes "parseRegisterPayload d = Ret ri"
  shows "parseRegisterPayload (d @ e) = Ret ri"
    and "9 + length (ri_tunnelID ri) + length (ri_localAddr ri) + length (ri_domain ri)
       + length (ri_authToken ri) \<le> length d"
proof -
  from assms obtain n1 where n1: "get16 d = Some n1" "2 + n1 < length d"
    by (auto simp: parseRegisterPayload_def split: if_splits option.splits)
  with assms obtain n2 where n2: "get16 (drop (3 + n1) d) = Some n2" "5 + n1 + n2 \<le> length d"
      and pr: "valid_protocol (d ! (2 + n1))"
    by (auto simp: parseRegisterPayload_def Let_def split: if_splits option.splits)
  with assms n1 obtain n3 where n3: "get16 (drop (5 + n1 + n2) d) = Some n3"
      "7 + n1 + n2 + n3 + 2 \<le> length d"
    by (auto simp: parseRegisterPayload_def Let_def add.commute add.left_commute
        split: if_splits option.splits)
  with assms n1 n2 pr obtain n4 where n4: "get16 (drop (7 + n1 + n2 + n3) d) = Some n4"
      "9 + n1 + n2 + n3 + n4 \<le> length d"
    by (auto simp: parseRegisterPayload_def Let_def add.commute add.left_commute
        split: if_splits option.splits)
  have ri: "ri = \<lparr>ri_tunnelID = sub d 2 n1, ri_protocol = d ! (2 + n1),
      ri_localAddr = sub d (5 + n1) n2, ri_domain = sub d (7 + n1 + n2) n3,
      ri_authToken = sub d (9 + n1 + n2 + n3) n4\<rparr>"
    using assms n1 n2 n3 n4 pr
    by (simp add: parseRegisterPayload_def Let_def add.commute add.left_commute)
  have "get16 (d @ e) = Some n1" "get16 (drop (3 + n1) (d @ e)) = Some n2"
    "get16 (drop (5 + n1 + n2) (d @ e)) = Some n3" "get16 (drop (7 + n1 + n2 + n3) (d @ e)) = Some n4"
    using get16_append [OF n1(1)] get16_drop_append [OF n2(1)] get16_drop_append [OF n3(1)]
      get16_drop_append [OF n4(1)] by blast+
  with n1 n2 n3 n4 pr show "parseRegisterPayload (d @ e) = Ret ri"
    by (simp add: parseRegisterPayload_def Let_def ri nth_append sub_append_left
        add.commute add.left_commute del: drop_append)
  show "9 + length (ri_tunnelID ri) + length (ri_localAddr ri) + length (ri_domain ri)
      + length (ri_authToken ri) \<le> length d"
    using n4(2) by (simp add: ri sub_def)
qed

text \<open>An acknowledgement cut at the end of the buffer: length and capacity of the view agree, so some
  read runs past it.\<close>

lemma get16_take: "2 \<le> k \<Longrightarrow> get16 (take k x) = get16 x"
  by (cases x rule: get16.cases; cases k; cases "k - 1") auto

lemma v_u16_cut:
  "arr p = take k x \<Longrightarrow> slen p = k \<Longrightarrow> n + 2 \<le> k \<Longrightarrow> v_u16 p n = get16 (drop n x) \<or> length x < n + 2"
  by (simp add: v_u16_def drop_take get16_take)

lemma readRegisterAck_overflow:
  assumes "short tid" and "short url" and "short err"
    and "sendRegisterAck tid url port err = Some msg" and "1024 < length msg"
  shows "fst (readRegisterAck msg) = Panic"
proof -
  define x where "x = pstr tid @ pstr url @ be16 port @ pstr err"
  have msg: "msg = MsgRegisterAck # x" using assms(4) by (simp add: sendRegisterAck_bytes x_def)
  have lx: "length x = 8 + length tid + length url + length err" "1023 < length x"
    using assms(5) by (simp_all add: x_def msg)
  define p where "p = payload_view (take 1024 msg) 1024"
  have p: "arr p = take 1023 x" "slen p = 1023" "scap p = 1023"
    using lx by (simp_all add: p_def payload_view_def msg scap_def)
  have "get16 x = Some (length tid)" using assms(1) by (simp add: x_def)
  moreover have "drop (2 + length tid) x = pstr url @ be16 port @ pstr err"
    by (rule drop_exact [of _ "pstr tid"]) (simp_all add: x_def)
  then have "get16 (drop (2 + length tid) x) = Some (length url)" using assms(2) by simp
  moreover have "drop (6 + length tid + length url) x = pstr err"
    by (rule drop_exact [of _ "pstr tid @ pstr url @ be16 port"]) (simp_all add: x_def)
  then have "get16 (drop (6 + length tid + length url) x) = Some (length err)"
    using assms(3) get16_pstr [of err "[]"] by simp
  ultimately have u: "v_u16 p 0 = Some (length tid)"
      "v_u16 p (2 + length tid) = (if 4 + length tid \<le> 1023 then Some (length url) else None)"
      "v_u16 p (6 + (length tid + length url)) =
         (if 8 + length tid + length url \<le> 1023 then Some (length err) else None)"
    using v_u16_cut [OF p(1,2), of 0] v_u16_cut [OF p(1,2), of "2 + length tid"]
      v_u16_cut [OF p(1,2), of "6 + length tid + length url"] lx p(2)
    by (auto simp: v_u16_def add.assoc)
  have "take ackBuffer msg = take 1024 msg" "length (take ackBuffer msg) = 1024"
    using assms(5) by (simp_all add: ackBuffer_def)
  moreover have "parseControlMessage (take 1024 msg) = Ret (MsgRegisterAck, take 1023 x)"
    by (simp add: msg parseControlMessage_def)
  ultimately show ?thesis
    using u lx
    by (auto simp: readRegisterAck_def Let_def p_def [symmetric] ackBuffer_def v_str_def p(3) add.assoc
        split: bind_splits if_splits)
qed

section \<open>Properties\<close>

text \<open>The session header round-trips: for every header whose target and connection ID fit 16-bit
  lengths, \<^verbatim>\<open>Encode\<close> succeeds and \<^verbatim>\<open>DecodeSessionHeader\<close> returns the same header with the address
  type filled in, together with the number of bytes it occupies, whatever follows it.\<close>

lemma session_header_roundtrip:
  assumes "short (sh_Target h)" and "short (sh_ConnID h)"
  shows "\<exists>b. SessionHeader_Encode h = Some b
     \<and> DecodeSessionHeader (b @ rest) = Ret (header_norm h, length b)"
  using DecodeSessionHeader_bytes [OF assms] by (simp add: SessionHeader_Encode_bytes)

lemma session_header_roundtrip_witness:
  "let h = \<lparr>sh_Protocol = 1, sh_AddrType = 0, sh_Target = str ''10.0.0.1:80'', sh_Flags = 1,
            sh_ConnID = str ''ab'', sh_HTTP2StreamID = 9\<rparr> in
   \<exists>b. SessionHeader_Encode h = Some b
     \<and> DecodeSessionHeader (b @ [1, 2]) = Ret (h\<lparr>sh_AddrType := 1, sh_HTTP2StreamID := 0\<rparr>, length b)"
proof -
  let ?h = "\<lparr>sh_Protocol = 1, sh_AddrType = 0, sh_Target = str ''10.0.0.1:80'', sh_Flags = 1,
            sh_ConnID = str ''ab'', sh_HTTP2StreamID = 9\<rparr>"
  have "detectAddrType (str ''10.0.0.1:80'') = 1" by code_simp
  then have "header_norm ?h = ?h\<lparr>sh_AddrType := 1, sh_HTTP2StreamID := 0\<rparr>"
    by (simp add: header_norm_def header_addr_def has_stream_id_def)
  with session_header_roundtrip [of ?h "[1, 2]"] show ?thesis
    by (simp add: short_def str_def)
qed

text \<open>The client reads what the encoder writes: from a data stream that starts with the stream type
  and an encoded header, both \<^verbatim>\<open>MuxClient.handleQUICDataStream\<close> and \<^verbatim>\<open>StreamHandler\<close> recover the
  connection ID and the target and leave exactly the payload that follows (headers with an HTTP/2
  stream ID apart); on every stream the two parsers agree.\<close>

lemma client_reads_session_header:
  assumes "short (sh_Target h)" and "short (sh_ConnID h)" and "is_protocol (sh_Protocol h)"
    and "\<not> has_stream_id (sh_Protocol h) (sh_Flags h)" and "SessionHeader_Encode h = Some b"
  shows "client_read_header (StreamTypeData # b @ payload) = Some (sh_ConnID h, sh_Target h, payload)
     \<and> client_read_header (StreamTypeData # s) =
       map_option (\<lambda>(h', r). (sh_ConnID h', sh_Target h', r)) (StreamHandler_parseSessionHeader s)"
  using client_read_header_bytes [OF assms(1-3), of payload] assms(4,5) StreamHandler_same [of s]
  by (simp add: SessionHeader_Encode_bytes)

lemma client_reads_session_header_witness:
  "\<exists>b. SessionHeader_Encode \<lparr>sh_Protocol = 3, sh_AddrType = 3, sh_Target = [], sh_Flags = 1,
         sh_ConnID = [97], sh_HTTP2StreamID = 0\<rparr> = Some b
     \<and> client_read_header (1 # b @ [42]) = Some ([97], [], [42])"
proof -
  let ?h = "\<lparr>sh_Protocol = 3, sh_AddrType = 3, sh_Target = [], sh_Flags = 1, sh_ConnID = [97],
      sh_HTTP2StreamID = 0\<rparr>"
  obtain b where "SessionHeader_Encode ?h = Some b" by (simp add: SessionHeader_Encode_bytes)
  with client_reads_session_header [of ?h b "[42]" "[]"] show ?thesis
    by (simp add: short_def is_protocol_def has_stream_id_def word_le_nat_alt)
qed

text \<open>The server does not: \<^verbatim>\<open>MuxServer.handleDataStream\<close> has no read for the address-type byte, so it
  takes it as the high byte of the target's length. On an encoded header with a target shorter
  than 256 bytes it swallows \<open>256 * address type\<close> bytes of header and payload as the target, or
  gives up when there are fewer.\<close>

lemma server_misreads_session_header:
  assumes "is_protocol (sh_Protocol h)" and "length (sh_Target h) < 256" and "header_addr h \<noteq> 0"
    and "SessionHeader_Encode h = Some b"
  shows "server_read_header (StreamTypeData # b @ payload) \<noteq> Some (sh_ConnID h, sh_Target h, payload)
     \<and> (length b + length payload < 256 * unat (header_addr h) \<longrightarrow>
        server_read_header (StreamTypeData # b @ payload) = None)
     \<and> (\<forall>c t r. server_read_header (StreamTypeData # b @ payload) = Some (c, t, r) \<longrightarrow>
        length t = 256 * unat (header_addr h))"
proof -
  let ?n = "256 * unat (header_addr h)"
  have pos: "0 < unat (header_addr h)" using assms(3) by (simp add: unat_gt_0)
  obtain rest where b: "b @ payload = [sh_Protocol h, header_addr h, 0] @ rest"
      and l: "length rest + 3 = length b + length payload"
    using assms(2,4)
    by (auto simp: SessionHeader_Encode_bytes header_bytes_def pstr_def be16_def Let_def)
  have "rd_str ([header_addr h, 0] @ rest) = rd_n ?n rest"
    using pos by (simp add: rd_str_def rd_u16_def rd_n_def mult.commute)
  then have eq: "server_read_header (StreamTypeData # b @ payload) =
      do { (target, s3) \<leftarrow> rd_n ?n rest; (flags, s4) \<leftarrow> rd_byte s3; (connID, s5) \<leftarrow> rd_str s4;
           Some (connID, target, s5) }"
    using assms(1) by (simp add: b server_read_header_def)
  have len: "length t = ?n"
    if "server_read_header (StreamTypeData # b @ payload) = Some (c, t, r)" for c t r
    using that unfolding eq by (auto simp: rd_n_Some split: bind_splits prod.splits)
  have "sh_Target h \<noteq> t" if "length t = ?n" for t using that pos assms(2) by auto
  moreover have "server_read_header (StreamTypeData # b @ payload) = None"
    if "length b + length payload < ?n"
    using that l unfolding eq by (simp add: rd_n_None [THEN iffD2])
  ultimately show ?thesis using len by blast
qed

lemma server_misreads_session_header_witness:
  "\<exists>b. SessionHeader_Encode \<lparr>sh_Protocol = 1, sh_AddrType = 3, sh_Target = [], sh_Flags = 1,
         sh_ConnID = [97], sh_HTTP2StreamID = 0\<rparr> = Some b
     \<and> server_read_header (1 # b @ [42]) = None"
  using server_misreads_session_header [of "\<lparr>sh_Protocol = 1, sh_AddrType = 3, sh_Target = [],
      sh_Flags = 1, sh_ConnID = [97], sh_HTTP2StreamID = 0\<rparr>" _ "[42]"]
  by (simp add: is_protocol_def SessionHeader_Encode_bytes header_addr_def header_bytes_def
      has_stream_id_def word_le_nat_alt)



text \<open>The acknowledgement: the client stores the tunnel ID and URL the server sent and reports its
  error message, as long as the message fits the client's 1024-byte read; an acknowledgement that
  is longer crashes the client, since its fields are sliced without a bounds check.\<close>

lemma register_ack_roundtrip:
  assumes "short tid" and "short url" and "short err"
    and "sendRegisterAck tid url port err = Some msg"
  shows "if length msg \<le> 1024
     then readRegisterAck msg =
       ((if err = [] then Ret () else Err (ServerError err)), Some (tid, url))
     else fst (readRegisterAck msg) = Panic"
proof (cases "length msg \<le> 1024")
  case True
  with assms readRegisterAck_bytes [OF assms(1-3), of port] show ?thesis
    by (auto simp: sendRegisterAck_bytes ackBuffer_def)
next
  case False
  with readRegisterAck_overflow [OF assms] show ?thesis by simp
qed

lemma register_ack_roundtrip_witness:
  "\<exists>msg. sendRegisterAck [97] [117] 8080 [] = Some msg \<and> readRegisterAck msg = (Ret (), Some ([97], [117]))"
  using register_ack_roundtrip [of "[97]" "[117]" "[]" 8080]
  by (simp add: short_def sendRegisterAck_bytes)

end
