(* ===== verification/Ports.thy ===== *)
theory Ports
  imports Go_Prelude
begin

text \<open>
  The port allocator of \<^verbatim>\<open>quic/quic.go\<close>: a range of ports and the set of those in use. The
  locale \<open>port_allocator\<close> is what the tunnel server relies on; \<open>port_manager\<close> interprets it on
  the code's allocator.
\<close>

record PortManager =
  pm_start :: int
  pm_end :: int
  pm_used :: "int set"

definition NewPortManager :: "int \<Rightarrow> int \<Rightarrow> PortManager" where
  "NewPortManager s e = \<lparr>pm_start = s, pm_end = e, pm_used = {}\<rparr>"

text \<open>The loop of \<^verbatim>\<open>Allocate\<close>: the first unused port from \<open>port\<close> on.\<close>

function scan_ports :: "int set \<Rightarrow> int \<Rightarrow> int \<Rightarrow> int option" where
  "scan_ports used port hi =
     (if port \<le> hi then (if port \<notin> used then Some port else scan_ports used (port + 1) hi)
      else None)"
  by pat_completeness auto
termination
  by (relation "measure (\<lambda>(used, port, hi). nat (hi + 1 - port))") auto

declare scan_ports.simps [simp del]

definition PortManager_Allocate :: "PortManager \<Rightarrow> int option \<times> PortManager" where
  "PortManager_Allocate m =
     (case scan_ports (pm_used m) (pm_start m) (pm_end m) of
        None \<Rightarrow> (None, m)
      | Some p \<Rightarrow> (Some p, m\<lparr>pm_used := insert p (pm_used m)\<rparr>))"

definition PortManager_Release :: "int \<Rightarrow> PortManager \<Rightarrow> PortManager" where
  "PortManager_Release p m = m\<lparr>pm_used := pm_used m - {p}\<rparr>"

definition port_range :: "PortManager \<Rightarrow> int set" where
  "port_range m = {pm_start m..pm_end m}"

fun allocate_n :: "('m \<Rightarrow> int option \<times> 'm) \<Rightarrow> nat \<Rightarrow> 'm \<Rightarrow> int option list \<times> 'm" where
  "allocate_n f 0 m = ([], m)"
| "allocate_n f (Suc n) m =
     (let (p, m1) = f m; (ps, m2) = allocate_n f n m1 in (p # ps, m2))"

section \<open>What a port allocator promises\<close>

locale port_allocator =
  fixes allocate :: "'m \<Rightarrow> int option \<times> 'm"
    and release :: "int \<Rightarrow> 'm \<Rightarrow> 'm"
    and used :: "'m \<Rightarrow> int set"
    and ports :: "'m \<Rightarrow> int set"
  assumes allocate_Some: "allocate m = (Some p, m') \<Longrightarrow>
      p \<in> ports m - used m \<and> used m' = insert p (used m) \<and> ports m' = ports m"
    and allocate_None: "allocate m = (None, m') \<Longrightarrow> m' = m \<and> ports m \<subseteq> used m"
    and release_used: "used (release p m) = used m - {p}"
    and release_ports: "ports (release p m) = ports m"
begin

lemma allocate_free: "\<not> ports m \<subseteq> used m \<Longrightarrow> \<exists>p m'. allocate m = (Some p, m')"
  using allocate_None by (metis option.exhaust surj_pair)

lemma allocate_fresh: "allocate m = (Some p, m') \<Longrightarrow> p \<notin> used m \<and> p \<in> used m'"
  using allocate_Some by blast

lemma allocated_stay_used:
  "allocate_n allocate n m = (ps, m') \<Longrightarrow> used m \<subseteq> used m' \<and> (\<forall>p. Some p \<in> set ps \<longrightarrow> p \<notin> used m)"
proof (induction n arbitrary: m ps m')
  case (Suc n)
  obtain q m1 where q: "allocate m = (q, m1)" by fastforce
  obtain qs where qs: "allocate_n allocate n m1 = (qs, m')" "ps = q # qs"
    using Suc(2) q by (auto simp: Let_def split: prod.splits)
  have "used m \<subseteq> used m1" using q allocate_Some allocate_None by (cases q) blast+
  with Suc.IH [OF qs(1)] q qs(2) show ?case
    using allocate_fresh by (cases q) (auto dest: allocate_Some)
qed simp

text \<open>Ports handed out without a release in between are pairwise distinct.\<close>

lemma allocated_distinct:
  "allocate_n allocate n m = (ps, m') \<Longrightarrow> distinct (filter (\<lambda>p. p \<noteq> None) ps)"
proof (induction n arbitrary: m ps m')
  case (Suc n)
  obtain q m1 where q: "allocate m = (q, m1)" by fastforce
  obtain qs where qs: "allocate_n allocate n m1 = (qs, m')" "ps = q # qs"
    using Suc(2) q by (auto simp: Let_def split: prod.splits)
  have "q \<notin> set qs" if "q \<noteq> None"
    using allocated_stay_used [OF qs(1)] q that allocate_fresh by (cases q) auto
  with Suc.IH [OF qs(1)] qs(2) show ?case by auto
qed simp

end

section \<open>The code's allocator\<close>

lemma scan_ports_Some:
  "scan_ports used port hi = Some p \<Longrightarrow>
   port \<le> p \<and> p \<le> hi \<and> p \<notin> used \<and> {port..<p} \<subseteq> used"
proof (induction used port hi rule: scan_ports.induct)
  case (1 used port hi)
  show ?case
  proof (cases "port \<le> hi \<and> port \<in> used")
    case True
    with 1(2) have "scan_ports used (port + 1) hi = Some p"
      by (subst (asm) scan_ports.simps) simp
    from 1(1) [OF _ _ this] True have
      "port + 1 \<le> p \<and> p \<le> hi \<and> p \<notin> used" "{port + 1..<p} \<subseteq> used" by auto
    moreover have "{port..<p} \<subseteq> insert port {port + 1..<p}" by auto
    ultimately show ?thesis using True by auto
  next
    case False
    with 1(2) show ?thesis by (subst (asm) scan_ports.simps) (auto split: if_splits)
  qed
qed

lemma scan_ports_None: "scan_ports used port hi = None \<Longrightarrow> {port..hi} \<subseteq> used"
proof (induction used port hi rule: scan_ports.induct)
  case (1 used port hi)
  show ?case
  proof (cases "port \<le> hi")
    case True
    with 1(2) have "port \<in> used" "scan_ports used (port + 1) hi = None"
      by (subst (asm) scan_ports.simps; simp split: if_splits)+
    with 1(1) True have "{port + 1..hi} \<subseteq> used" by simp
    moreover have "{port..hi} \<subseteq> insert port {port + 1..hi}" by auto
    ultimately show ?thesis using \<open>port \<in> used\<close> by auto
  qed simp
qed

interpretation port_manager: port_allocator PortManager_Allocate PortManager_Release pm_used port_range
proof
  fix m p m'
  assume "PortManager_Allocate m = (Some p, m')"
  then show "p \<in> port_range m - pm_used m \<and> pm_used m' = insert p (pm_used m)
      \<and> port_range m' = port_range m"
    using scan_ports_Some [of "pm_used m" "pm_start m" "pm_end m" p]
    by (auto simp: PortManager_Allocate_def port_range_def split: option.splits)
next
  fix m m'
  assume "PortManager_Allocate m = (None, m')"
  then show "m' = m \<and> port_range m \<subseteq> pm_used m"
    using scan_ports_None [of "pm_used m" "pm_start m" "pm_end m"]
    by (auto simp: PortManager_Allocate_def port_range_def split: option.splits)
qed (simp_all add: PortManager_Release_def port_range_def)

section \<open>Properties\<close>

text \<open>The allocator hands out the lowest free port of its range and fails exactly when the range is
  used up; ports handed out one after the other are pairwise distinct.\<close>

lemma allocate_lowest_free_port:
  "(case PortManager_Allocate m of
      (Some p, m') \<Rightarrow> p \<in> port_range m - pm_used m \<and> {pm_start m..<p} \<subseteq> pm_used m
                      \<and> pm_used m' = insert p (pm_used m)
    | (None, m') \<Rightarrow> m' = m \<and> port_range m \<subseteq> pm_used m)
   \<and> distinct (filter (\<lambda>p. p \<noteq> None) (fst (allocate_n PortManager_Allocate n m)))"
proof -
  obtain p m' where a: "PortManager_Allocate m = (p, m')" by fastforce
  have "{pm_start m..<q} \<subseteq> pm_used m" if "p = Some q" for q
    using a that scan_ports_Some [of "pm_used m" "pm_start m" "pm_end m" q]
    by (auto simp: PortManager_Allocate_def split: option.splits)
  then show ?thesis
    using a port_manager.allocate_Some port_manager.allocate_None
      port_manager.allocated_distinct [OF surjective_pairing]
    by (cases p) auto
qed

end
