(* ===== verification/Tunnel_Server.thy ===== *)
theory Tunnel_Server
  imports Circuit Limiter MuxCodec QuicWire Ports
begin

text \<open>
  The tunnel server of \<^verbatim>\<open>quic/quic.go\<close> (\<^verbatim>\<open>MuxServer\<close>): registration and session restore on
  the control stream, the control loop, external connections, domain routing, closing of tunnels
  and the health check.

  Tunnels are objects shared between maps and goroutines, so the server's state has a heap: a
  pointer is an index into the list of all tunnels ever created, and the maps
  \<^verbatim>\<open>tunnels\<close> and \<^verbatim>\<open>tunnelByDomain\<close> hold pointers. QUIC connections, streams and external
  connections are numbered; the state records which of them were closed and what was written to
  each control stream or data stream. A goroutine is a sequence of operations (a start, one operation
  per turn of its loop, an end), so the order in which goroutines run is the order of the operations.
  Current time, generated IDs and the outcome of reads, writes and stream opening are arguments.
\<close>

section \<open>Configuration\<close>

record EntryProtocolConfig =
  ep_EnableHTTP3 :: bool
  ep_EnableQUIC :: bool
  ep_EnableTCPTLS :: bool
  ep_QUICALPN :: gostr

definition DefaultEntryProtocolConfig :: EntryProtocolConfig where
  "DefaultEntryProtocolConfig =
     \<lparr>ep_EnableHTTP3 = True, ep_EnableQUIC = True, ep_EnableTCPTLS = True,
      ep_QUICALPN = str ''quic-tunnel''\<rparr>"

record MuxServerConfig =
  sc_EntryProtocols :: EntryProtocolConfig
  sc_AuthToken :: gostr
  sc_PortRangeStart :: int
  sc_PortRangeEnd :: int
  sc_MaxTunnels :: int
  sc_MaxConnsPerTunnel :: int
  sc_TunnelTimeout :: int
  sc_ConnTimeout :: int

definition DefaultMuxServerConfig :: MuxServerConfig where
  "DefaultMuxServerConfig =
     \<lparr>sc_EntryProtocols = DefaultEntryProtocolConfig, sc_AuthToken = [],
      sc_PortRangeStart = 10000, sc_PortRangeEnd = 20000, sc_MaxTunnels = 10000,
      sc_MaxConnsPerTunnel = 1000, sc_TunnelTimeout = 300 * second, sc_ConnTimeout = 600 * second\<rparr>"

text \<open>The defaults that \<^verbatim>\<open>NewMuxServer\<close> applies.\<close>

definition MuxServer_normalize :: "MuxServerConfig \<Rightarrow> MuxServerConfig" where
  "MuxServer_normalize c =
     (let ep = sc_EntryProtocols c;
          ep1 = (if \<not> ep_EnableHTTP3 ep \<and> \<not> ep_EnableQUIC ep \<and> \<not> ep_EnableTCPTLS ep
                 then DefaultEntryProtocolConfig else ep);
          ep2 = (if ep_QUICALPN ep1 = [] then ep1\<lparr>ep_QUICALPN := str ''quic-tunnel''\<rparr> else ep1)
      in c\<lparr>sc_EntryProtocols := ep2,
           sc_MaxTunnels := (if sc_MaxTunnels c \<le> 0 then 10000 else sc_MaxTunnels c),
           sc_MaxConnsPerTunnel := (if sc_MaxConnsPerTunnel c \<le> 0 then 1000 else sc_MaxConnsPerTunnel c),
           sc_TunnelTimeout := (if sc_TunnelTimeout c \<le> 0 then 300 * second else sc_TunnelTimeout c),
           sc_ConnTimeout := (if sc_ConnTimeout c \<le> 0 then 600 * second else sc_ConnTimeout c),
           sc_PortRangeStart := (if sc_PortRangeStart c \<le> 0 then 10000 else sc_PortRangeStart c),
           sc_PortRangeEnd := (if sc_PortRangeEnd c \<le> 0 then 20000 else sc_PortRangeEnd c)\<rparr>)"

definition server_breaker_config :: Breaker_Config where
  "server_breaker_config =
     \<lparr>FailureThreshold = 5, SuccessThreshold = 3, cb_Timeout = 30 * second, MaxRequests = 10,
      OnStateChange = True\<rparr>"

section \<open>State\<close>

datatype endpoint = QConn nat | QStream nat | ExtConn nat

record Tunnel =
  tn_ID :: gostr
  tn_Protocol :: byte
  tn_LocalAddr :: gostr
  tn_PublicURL :: gostr
  tn_Port :: int
  tn_Domain :: gostr
  tn_Conn :: nat
  tn_ControlStream :: nat
  tn_ExternalConns :: "gostr \<rightharpoonup> nat"
  tn_streamActivity :: "gostr \<rightharpoonup> int"
  tn_externalListener :: bool
  tn_externalQUICListener :: bool
  tn_LastActive :: int
  tn_cancelled :: bool

record MuxServer =
  sv_config :: MuxServerConfig
  sv_heap :: "Tunnel list"
  sv_tunnels :: "gostr \<rightharpoonup> nat"
  sv_tunnelByDomain :: "gostr \<rightharpoonup> nat"
  sv_portManager :: PortManager
  sv_activeTunnels :: int
  sv_totalTunnels :: int
  sv_activeConns :: int
  sv_totalConns :: int
  sv_bytesIn :: int
  sv_bytesOut :: int
  sv_circuitBreaker :: Breaker
  sv_connLimiter :: ConnectionLimiter
  sv_stopped :: bool
  sv_sent :: "(endpoint \<times> bytes) list"
  sv_closed :: "endpoint set"

definition NewMuxServer :: "MuxServerConfig \<Rightarrow> MuxServer" where
  "NewMuxServer config =
     (let c = MuxServer_normalize config in
      \<lparr>sv_config = c, sv_heap = [], sv_tunnels = Map.empty, sv_tunnelByDomain = Map.empty,
       sv_portManager = NewPortManager (sc_PortRangeStart c) (sc_PortRangeEnd c),
       sv_activeTunnels = 0, sv_totalTunnels = 0, sv_activeConns = 0, sv_totalConns = 0,
       sv_bytesIn = 0, sv_bytesOut = 0,
       sv_circuitBreaker = NewBreaker server_breaker_config,
       sv_connLimiter = NewConnectionLimiter (i64 (sc_MaxConnsPerTunnel c * sc_MaxTunnels c)),
       sv_stopped = False, sv_sent = [], sv_closed = {}\<rparr>)"

abbreviation tunnel_at :: "MuxServer \<Rightarrow> nat \<Rightarrow> Tunnel" where
  "tunnel_at s p \<equiv> sv_heap s ! p"

text \<open>The context of a tunnel is derived from the server's: it is done when the tunnel was closed or the
  server was stopped.\<close>

definition ctx_done :: "nat \<Rightarrow> MuxServer \<Rightarrow> bool" where
  "ctx_done p s \<longleftrightarrow> sv_stopped s \<or> tn_cancelled (tunnel_at s p)"

definition set_tunnel :: "nat \<Rightarrow> Tunnel \<Rightarrow> MuxServer \<Rightarrow> MuxServer" where
  "set_tunnel p t s = s\<lparr>sv_heap := (sv_heap s)[p := t]\<rparr>"

definition send :: "endpoint \<Rightarrow> bytes option \<Rightarrow> MuxServer \<Rightarrow> MuxServer" where
  "send e msg s = (case msg of None \<Rightarrow> s | Some b \<Rightarrow> s\<lparr>sv_sent := sv_sent s @ [(e, b)]\<rparr>)"

definition close :: "endpoint set \<Rightarrow> MuxServer \<Rightarrow> MuxServer" where
  "close es s = s\<lparr>sv_closed := sv_closed s \<union> es\<rparr>"

definition unix :: "int \<Rightarrow> int" where
  "unix now = now div second"

definition sendAck :: "nat \<Rightarrow> gostr \<Rightarrow> gostr \<Rightarrow> int \<Rightarrow> gostr \<Rightarrow> MuxServer \<Rightarrow> MuxServer" where
  "sendAck stream tunnelID publicURL port errMsg =
     send (QStream stream) (sendRegisterAck tunnelID publicURL (nat (port mod 2 ^ 16)) errMsg)"

section \<open>Closing a tunnel\<close>

definition closeTunnel :: "nat \<Rightarrow> MuxServer \<Rightarrow> MuxServer" where
  "closeTunnel p s =
     (let t = tunnel_at s p;
          s1 = set_tunnel p (t\<lparr>tn_cancelled := True, tn_externalListener := False,
                               tn_externalQUICListener := False, tn_ExternalConns := Map.empty\<rparr>) s;
          s2 = close (insert (QConn (tn_Conn t)) (ExtConn ` ran (tn_ExternalConns t))) s1;
          s3 = s2\<lparr>sv_activeConns := i64 (sv_activeConns s2 - int (card (dom (tn_ExternalConns t))))\<rparr>;
          s4 = (if tn_Port t > 0
                then s3\<lparr>sv_portManager := PortManager_Release (tn_Port t) (sv_portManager s3)\<rparr> else s3);
          s5 = (if tn_Domain t \<noteq> []
                then s4\<lparr>sv_tunnelByDomain := (sv_tunnelByDomain s4)(tn_Domain t := None)\<rparr> else s4)
      in s5\<lparr>sv_tunnels := (sv_tunnels s5)(tn_ID t := None),
            sv_activeTunnels := i64 (sv_activeTunnels s5 - 1)\<rparr>)"

section \<open>Registration\<close>

datatype goroutine = TCPListener | QUICListener | HTTP3Listener | DataStreams | Datagrams

text \<open>What the control-stream handler does next: return, or run the control loop of a tunnel after
  starting goroutines.\<close>

datatype control_outcome = CtlReturn | CtlLoop nat "goroutine list"

definition with_port ::
  "string \<Rightarrow> MuxServer \<Rightarrow> (gostr \<times> int) option \<times> MuxServer" where
  "with_port scheme s =
     (case PortManager_Allocate (sv_portManager s) of
        (None, m) \<Rightarrow> (None, s\<lparr>sv_portManager := m\<rparr>)
      | (Some port, m) \<Rightarrow> (Some (str scheme @ dec (nat port), port), s\<lparr>sv_portManager := m\<rparr>))"

definition domain_url :: "gostr \<Rightarrow> gostr" where
  "domain_url tunnelID = str ''https://'' @ tunnelID @ str ''.example.com''"

text \<open>The public address of a registration; \<open>None\<close> when no port is free.\<close>

definition register_address ::
  "byte \<Rightarrow> gostr \<Rightarrow> MuxServer \<Rightarrow> (gostr \<times> int) option \<times> MuxServer" where
  "register_address protocol tunnelID s =
     (if protocol = ProtocolTCP then with_port ''tcp://:'' s
      else if protocol = ProtocolQUIC then with_port ''quic://:'' s
      else if protocol = ProtocolHTTP3 then with_port ''https://:'' s
      else (Some (domain_url tunnelID, 0), s))"

definition restore_address ::
  "byte \<Rightarrow> gostr \<Rightarrow> MuxServer \<Rightarrow> (gostr \<times> int) option \<times> MuxServer" where
  "restore_address protocol tunnelID s =
     (if protocol = ProtocolTCP then with_port ''tcp://:'' s
      else if protocol = ProtocolQUIC then with_port ''quic://:'' s
      else (Some (domain_url tunnelID, 0), s))"

text \<open>A new tunnel object, stored under its ID and counted.\<close>

definition new_tunnel :: "gostr \<Rightarrow> byte \<Rightarrow> gostr \<Rightarrow> gostr \<Rightarrow> int \<Rightarrow> gostr \<Rightarrow> nat \<Rightarrow> nat \<Rightarrow> int \<Rightarrow> Tunnel" where
  "new_tunnel tunnelID protocol localAddr publicURL port domain conn stream lastActive =
     \<lparr>tn_ID = tunnelID, tn_Protocol = protocol, tn_LocalAddr = localAddr, tn_PublicURL = publicURL,
      tn_Port = port, tn_Domain = domain, tn_Conn = conn, tn_ControlStream = stream,
      tn_ExternalConns = Map.empty, tn_streamActivity = Map.empty, tn_externalListener = False,
      tn_externalQUICListener = False, tn_LastActive = lastActive, tn_cancelled = False\<rparr>"

definition store_tunnel :: "Tunnel \<Rightarrow> MuxServer \<Rightarrow> MuxServer" where
  "store_tunnel t s =
     s\<lparr>sv_heap := sv_heap s @ [t],
       sv_tunnels := (sv_tunnels s)(tn_ID t \<mapsto> length (sv_heap s)),
       sv_activeTunnels := i64 (sv_activeTunnels s + 1),
       sv_totalTunnels := i64 (sv_totalTunnels s + 1)\<rparr>"

definition handleSessionRestore ::
  "int \<Rightarrow> nat \<Rightarrow> nat \<Rightarrow> bytes \<Rightarrow> MuxServer \<Rightarrow> control_outcome \<times> MuxServer" where
  "handleSessionRestore now conn stream payload s =
     (case parseSessionRestore payload of
        None \<Rightarrow> (CtlReturn, s)
      | Some (tunnelID, protocol, localAddr) \<Rightarrow>
          (case sv_tunnels s tunnelID of
             Some p \<Rightarrow>
               let t = tunnel_at s p;
                   s1 = set_tunnel p (t\<lparr>tn_Conn := conn, tn_ControlStream := stream,
                                        tn_LastActive := unix now\<rparr>) s
               in (CtlReturn, sendAck stream tunnelID (tn_PublicURL t) (tn_Port t) [] s1)
           | None \<Rightarrow>
               (case restore_address protocol tunnelID s of
                  (None, s1) \<Rightarrow>
                    (CtlReturn, sendAck stream tunnelID [] 0 (str ''no available port'') s1)
                | (Some (publicURL, port), s1) \<Rightarrow>
                    let s2 = store_tunnel (new_tunnel tunnelID protocol localAddr publicURL port []
                                             conn stream 0) s1;
                        s3 = sendAck stream tunnelID publicURL port [] s2
                    in (CtlLoop (length (sv_heap s1))
                          ((if protocol = ProtocolTCP then [TCPListener]
                            else if protocol = ProtocolQUIC then [QUICListener] else [])
                           @ [DataStreams, Datagrams]), s3))))"

text \<open>The error texts of \<^verbatim>\<open>parseRegisterPayload\<close>, which the server sends to the client.\<close>

definition bad_length_text :: "string \<Rightarrow> nat \<Rightarrow> nat \<Rightarrow> gostr" where
  "bad_length_text field n rest =
     str (''invalid '' @ field @ '' length: '') @ dec n @ str '' (remaining: '' @ dec rest @ str '')''"

fun wire_error_text :: "wire_error \<Rightarrow> gostr" where
  "wire_error_text ErrInvalidMessageType = str ''invalid message type''"
| "wire_error_text PayloadTooShort = str ''payload too short: minimum 9 bytes required''"
| "wire_error_text (BadTunnelIDLen n r) = bad_length_text ''tunnel_id'' n r"
| "wire_error_text MissingProtocol = str ''payload truncated: missing protocol byte''"
| "wire_error_text (InvalidProtocol b) =
     str ''invalid protocol: '' @ dec (unat b) @ str '' (expected 1, 2, 3, 4 or 5)''"
| "wire_error_text MissingLocalAddrLen = str ''payload truncated: missing local_addr length''"
| "wire_error_text (BadLocalAddrLen n r) = bad_length_text ''local_addr'' n r"
| "wire_error_text MissingDomainLen = str ''payload truncated: missing domain length''"
| "wire_error_text (BadDomainLen n r) = bad_length_text ''domain'' n r"
| "wire_error_text MissingTokenLen = str ''payload truncated: missing auth_token length''"
| "wire_error_text (BadTokenLen n r) = bad_length_text ''auth_token'' n r"
| "wire_error_text (NotRegisterAck t) = str ''expected register ack, got '' @ dec (unat t)"
| "wire_error_text (ServerError m) = str ''server error: '' @ m"

definition handleRegister ::
  "int \<Rightarrow> nat \<Rightarrow> nat \<Rightarrow> bytes \<Rightarrow> MuxServer \<Rightarrow> control_outcome \<times> MuxServer" where
  "handleRegister now conn stream payload s =
     (case parseRegisterPayload payload of
        Panic \<Rightarrow> (CtlReturn, s)
      | Err e \<Rightarrow> (CtlReturn, sendAck stream [] [] 0 (wire_error_text e) s)
      | Ret ri \<Rightarrow>
          if sc_AuthToken (sv_config s) \<noteq> []
             \<and> \<not> constantTimeEqual (ri_authToken ri) (sc_AuthToken (sv_config s))
          then (CtlReturn, sendAck stream (ri_tunnelID ri) [] 0 (str ''authentication failed'') s)
          else if sv_activeTunnels s \<ge> sc_MaxTunnels (sv_config s)
          then (CtlReturn, sendAck stream (ri_tunnelID ri) [] 0 (str ''max tunnels reached'') s)
          else (case register_address (ri_protocol ri) (ri_tunnelID ri) s of
                  (None, s1) \<Rightarrow>
                    (CtlReturn, sendAck stream (ri_tunnelID ri) [] 0 (str ''no available port'') s1)
                | (Some (publicURL, port), s1) \<Rightarrow>
                    let p = length (sv_heap s1);
                        s2 = store_tunnel (new_tunnel (ri_tunnelID ri) (ri_protocol ri)
                               (ri_localAddr ri) publicURL port (ri_domain ri) conn stream (unix now)) s1;
                        s3 = (if ri_domain ri \<noteq> []
                              then s2\<lparr>sv_tunnelByDomain := (sv_tunnelByDomain s2)(ri_domain ri \<mapsto> p)\<rparr>
                              else s2);
                        s4 = s3\<lparr>sv_circuitBreaker := Breaker_RecordSuccess (sv_circuitBreaker s3)\<rparr>;
                        s5 = sendAck stream (ri_tunnelID ri) publicURL port [] s4
                    in (CtlLoop p
                          ((if ri_protocol ri = ProtocolTCP \<and> port > 0 then [TCPListener] else [])
                           @ (if ri_protocol ri = ProtocolQUIC \<and> port > 0 then [QUICListener] else [])
                           @ (if ri_protocol ri = ProtocolHTTP3 \<and> port > 0 then [HTTP3Listener] else [])
                           @ [DataStreams, Datagrams]), s5)))"

text \<open>\<^verbatim>\<open>handleControlStream\<close> up to the control loop, on what the first read delivers (\<open>None\<close> is a read
  error). When it returns, its deferred \<^verbatim>\<open>stream.Close\<close> runs.\<close>

definition handleControlStream ::
  "int \<Rightarrow> nat \<Rightarrow> nat \<Rightarrow> bytes option \<Rightarrow> MuxServer \<Rightarrow> control_outcome \<times> MuxServer" where
  "handleControlStream now conn stream arriving s =
     (case (case arriving of None \<Rightarrow> (CtlReturn, s)
            | Some data \<Rightarrow>
                (case readControlMessage data of
                   Ret (t, payload) \<Rightarrow>
                     if t = MsgSessionRestore then handleSessionRestore now conn stream payload s
                     else if t \<noteq> MsgRegister then (CtlReturn, s)
                     else handleRegister now conn stream payload s
                 | _ \<Rightarrow> (CtlReturn, s))) of
        (CtlReturn, s1) \<Rightarrow> (CtlReturn, close {QStream stream} s1)
      | (CtlLoop p gs, s1) \<Rightarrow> (CtlLoop p gs, s1))"

definition alpn_allowed :: "EntryProtocolConfig \<Rightarrow> gostr \<Rightarrow> bool" where
  "alpn_allowed ep alpn =
     (if alpn = str ''h3'' then ep_EnableHTTP3 ep
      else if alpn = ep_QUICALPN ep then ep_EnableQUIC ep
      else ep_EnableQUIC ep)"

text \<open>What a new QUIC connection brings: no stream at all, or a stream with its first byte (if any)
  and what the next read delivers.\<close>

type_synonym conn_arrival = "(nat \<times> byte option \<times> bytes option) option"

text \<open>\<^verbatim>\<open>handleConnection\<close>; when it returns without entering the control loop, its deferred
  \<^verbatim>\<open>conn.CloseWithError\<close> runs.\<close>

definition handleConnection ::
  "int \<Rightarrow> gostr \<Rightarrow> nat \<Rightarrow> conn_arrival \<Rightarrow> MuxServer \<Rightarrow> control_outcome \<times> MuxServer" where
  "handleConnection now alpn conn arrival s =
     (case (case Breaker_Allow now (sv_circuitBreaker s) of
              (Some e, b) \<Rightarrow> (CtlReturn, s\<lparr>sv_circuitBreaker := b\<rparr>)
            | (None, b) \<Rightarrow>
                let s1 = s\<lparr>sv_circuitBreaker := b\<rparr> in
                if \<not> alpn_allowed (sc_EntryProtocols (sv_config s1)) alpn then (CtlReturn, s1)
                else case arrival of
                  None \<Rightarrow> (CtlReturn, s1\<lparr>sv_circuitBreaker := Breaker_RecordFailure now b\<rparr>)
                | Some (stream, first, arriving) \<Rightarrow>
                    if first \<noteq> Some StreamTypeControl then (CtlReturn, close {QStream stream} s1)
                    else handleControlStream now conn stream arriving s1) of
        (CtlReturn, s2) \<Rightarrow> (CtlReturn, close {QConn conn} s2)
      | (CtlLoop p gs, s2) \<Rightarrow> (CtlLoop p gs, s2))"

text \<open>The deferred closes after the control loop of a connection has ended.\<close>

definition handleConnection_end :: "nat \<Rightarrow> nat \<Rightarrow> MuxServer \<Rightarrow> MuxServer" where
  "handleConnection_end conn stream s = close {QConn conn} (close {QStream stream} s)"

section \<open>The control loop\<close>

text \<open>One completed read of \<^verbatim>\<open>controlLoop\<close> (\<open>None\<close> is a read error) and the check at the top of the
  next turn: the result says whether the loop goes on. \<open>wfail\<close>: writing the heartbeat ack fails.\<close>

definition control_close_conn :: "nat \<Rightarrow> gostr \<Rightarrow> MuxServer \<Rightarrow> MuxServer" where
  "control_close_conn p connID s =
     (let t = tunnel_at s p in
      case tn_ExternalConns t connID of
        None \<Rightarrow> s
      | Some c \<Rightarrow>
          let s1 = close {ExtConn c}
                     (set_tunnel p (t\<lparr>tn_ExternalConns := (tn_ExternalConns t)(connID := None)\<rparr>) s)
          in s1\<lparr>sv_activeConns := i64 (sv_activeConns s1 - 1)\<rparr>)"

definition controlLoop_turn ::
  "int \<Rightarrow> bool \<Rightarrow> bytes option \<Rightarrow> nat \<Rightarrow> MuxServer \<Rightarrow> bool \<times> MuxServer" where
  "controlLoop_turn now wfail arriving p s =
     (let t = tunnel_at s p; go_on = (\<lambda>s'. (\<not> ctx_done p s', s')) in
      case arriving of
        None \<Rightarrow> (False, if ctx_done p s then s else closeTunnel p s)
      | Some data \<Rightarrow>
          (case parseControlMessage data of
             Ret (ty, payload) \<Rightarrow>
               let s1 = set_tunnel p (t\<lparr>tn_LastActive := unix now\<rparr>) s in
               if ty = MsgHeartbeat
               then (if wfail then (False, s1)
                     else go_on (send (QStream (tn_ControlStream t)) (Some [MsgHeartbeatAck]) s1))
               else if ty = MsgCloseConn then go_on (control_close_conn p payload s1)
               else go_on s1
           | _ \<Rightarrow> go_on s))"

section \<open>External connections\<close>

text \<open>A listener goroutine: the listener is stored with the tunnel if it could be opened (\<open>ok\<close> stands
  for resolving, listening and the TLS configuration), runs turns of its accept loop, and is taken
  out again at the end. A turn is judged when \<^verbatim>\<open>Accept\<close> returns, together with the check at the
  top of the next turn: whether the loop goes on, and the connection a goroutine is started for.\<close>

datatype accept_result = Accepted nat | AcceptClosed | AcceptFailed

definition startExternalListener :: "bool \<Rightarrow> nat \<Rightarrow> MuxServer \<Rightarrow> MuxServer" where
  "startExternalListener ok p s =
     (if ok then set_tunnel p ((tunnel_at s p)\<lparr>tn_externalListener := True\<rparr>) s else s)"

fun startExternalListener_turn :: "accept_result \<Rightarrow> nat \<Rightarrow> MuxServer \<Rightarrow> bool \<times> nat option" where
  "startExternalListener_turn (Accepted c) p s = (\<not> ctx_done p s, Some c)"
| "startExternalListener_turn AcceptClosed p s = (False, None)"
| "startExternalListener_turn AcceptFailed p s = (\<not> ctx_done p s, None)"

definition startExternalListener_end :: "nat \<Rightarrow> MuxServer \<Rightarrow> MuxServer" where
  "startExternalListener_end p s = set_tunnel p ((tunnel_at s p)\<lparr>tn_externalListener := False\<rparr>) s"

definition startExternalQUICListener :: "bool \<Rightarrow> nat \<Rightarrow> MuxServer \<Rightarrow> MuxServer" where
  "startExternalQUICListener ok p s =
     (if ok then set_tunnel p ((tunnel_at s p)\<lparr>tn_externalQUICListener := True\<rparr>) s else s)"

definition startExternalQUICListener_end :: "nat \<Rightarrow> MuxServer \<Rightarrow> MuxServer" where
  "startExternalQUICListener_end p s =
     set_tunnel p ((tunnel_at s p)\<lparr>tn_externalQUICListener := False\<rparr>) s"

text \<open>The HTTP/3 listener is the QUIC listener with another TLS configuration; it uses the same field of
  the tunnel.\<close>

definition startExternalHTTP3Listener :: "bool \<Rightarrow> nat \<Rightarrow> MuxServer \<Rightarrow> MuxServer" where
  "startExternalHTTP3Listener ok p s = startExternalQUICListener ok p s"

text \<open>Store an external connection with the tunnel and count it.\<close>

definition add_external :: "nat \<Rightarrow> gostr \<Rightarrow> nat \<Rightarrow> MuxServer \<Rightarrow> MuxServer" where
  "add_external p connID c s =
     (let t = tunnel_at s p;
          s1 = set_tunnel p (t\<lparr>tn_ExternalConns := (tn_ExternalConns t)(connID \<mapsto> c)\<rparr>) s
      in s1\<lparr>sv_activeConns := i64 (sv_activeConns s1 + 1),
            sv_totalConns := i64 (sv_totalConns s1 + 1)\<rparr>)"

text \<open>\<^verbatim>\<open>handleExternalConnection\<close> up to the forwarding loop; the result says whether it starts.\<close>

definition handleExternalConnection ::
  "gostr \<Rightarrow> gostr \<Rightarrow> bool \<Rightarrow> nat \<Rightarrow> nat \<Rightarrow> MuxServer \<Rightarrow> bool \<times> MuxServer" where
  "handleExternalConnection connID remoteAddr wfail p c s =
     (case ConnectionLimiter_Acquire (sv_connLimiter s) of
        (Some e, l) \<Rightarrow> (False, close {ExtConn c} (s\<lparr>sv_connLimiter := l\<rparr>))
      | (None, l) \<Rightarrow>
          let s1 = add_external p connID c (s\<lparr>sv_connLimiter := l\<rparr>)
          in (True, if wfail then s1
                    else send (QStream (tn_ControlStream (tunnel_at s1 p)))
                           (buildNewConnMessage connID remoteAddr) s1))"

text \<open>One read of \<^verbatim>\<open>forwardExternalToControl\<close>: the data is sent on the control stream as a message of
  the text protocol. The result says whether the loop goes on; \<open>q\<close> is the encoder's pool.\<close>

definition forwardExternalToControl_turn ::
  "nat option \<Rightarrow> bool \<Rightarrow> gostr \<Rightarrow> bytes \<Rightarrow> nat \<Rightarrow> MuxServer \<Rightarrow> BufferPool \<Rightarrow> bool \<times> MuxServer \<times> BufferPool" where
  "forwardExternalToControl_turn ch wfail connID d p s q =
     (case DefaultMuxEncoder_EncodeData 10 ch connID d q of
        (Ret b, q0) \<Rightarrow>
          let q1 = DefaultMuxEncoder_Release b q0 in
          if wfail then (False, s, q1)
          else
            let s1 = send (QStream (tn_ControlStream (tunnel_at s p))) (Some (contents b)) s
            in (\<not> ctx_done p s,
                s1\<lparr>sv_bytesOut := i64 (sv_bytesOut s1 + int (length d))\<rparr>, q1)
      | (_, q1) \<Rightarrow> (False, s, q1))"

text \<open>The deferred calls of \<^verbatim>\<open>forwardExternalToControl\<close> and \<^verbatim>\<open>handleExternalConnection\<close>.\<close>

definition forwardExternalToControl_end :: "bool \<Rightarrow> gostr \<Rightarrow> nat \<Rightarrow> nat \<Rightarrow> MuxServer \<Rightarrow> MuxServer" where
  "forwardExternalToControl_end wfail connID p c s =
     (let t = tunnel_at s p;
          s1 = set_tunnel p (t\<lparr>tn_ExternalConns := (tn_ExternalConns t)(connID := None)\<rparr>)
                 (close {ExtConn c} s);
          s2 = s1\<lparr>sv_activeConns := i64 (sv_activeConns s1 - 1)\<rparr>;
          s3 = (if wfail then s2
                else send (QStream (tn_ControlStream t)) (BuildCloseConnMessage connID) s2)
      in s3\<lparr>sv_connLimiter := ConnectionLimiter_Release (sv_connLimiter s3)\<rparr>)"

text \<open>\<^verbatim>\<open>handleExternalQUICConnection\<close> up to its loop, and its deferred calls. The result says whether
  streams are accepted.\<close>

definition handleExternalQUICConnection ::
  "gostr \<Rightarrow> gostr \<Rightarrow> bool \<Rightarrow> nat \<Rightarrow> nat \<Rightarrow> MuxServer \<Rightarrow> bool \<times> MuxServer" where
  "handleExternalQUICConnection connID remoteAddr wfail p c s =
     (case ConnectionLimiter_Acquire (sv_connLimiter s) of
        (Some e, l) \<Rightarrow> (False, close {QConn c} (s\<lparr>sv_connLimiter := l\<rparr>))
      | (None, l) \<Rightarrow>
          let s1 = s\<lparr>sv_connLimiter := l, sv_activeConns := i64 (sv_activeConns s + 1),
                     sv_totalConns := i64 (sv_totalConns s + 1)\<rparr>
          in if wfail
             then (False, close {QConn c}
                     (s1\<lparr>sv_activeConns := i64 (sv_activeConns s1 - 1),
                         sv_connLimiter := ConnectionLimiter_Release l\<rparr>))
             else (True, send (QStream (tn_ControlStream (tunnel_at s1 p)))
                           (buildNewConnMessage connID remoteAddr) s1))"

definition handleExternalQUICConnection_end :: "nat \<Rightarrow> MuxServer \<Rightarrow> MuxServer" where
  "handleExternalQUICConnection_end c s =
     close {QConn c} (s\<lparr>sv_connLimiter := ConnectionLimiter_Release (sv_connLimiter s)\<rparr>)"

text \<open>The code repeats the function for HTTP/3 with other log texts.\<close>

definition handleExternalHTTP3Connection ::
  "gostr \<Rightarrow> gostr \<Rightarrow> bool \<Rightarrow> nat \<Rightarrow> nat \<Rightarrow> MuxServer \<Rightarrow> bool \<times> MuxServer" where
  "handleExternalHTTP3Connection = handleExternalQUICConnection"

text \<open>The header written on a new data stream, after the stream type.\<close>

definition stream_header :: "byte \<Rightarrow> gostr \<Rightarrow> Tunnel \<Rightarrow> SessionHeader" where
  "stream_header protocol connID t =
     \<lparr>sh_Protocol = protocol, sh_AddrType = 0, sh_Target = tn_LocalAddr t, sh_Flags = 0,
      sh_ConnID = connID, sh_HTTP2StreamID = 0\<rparr>"

definition open_data_stream :: "byte \<Rightarrow> gostr \<Rightarrow> nat \<Rightarrow> nat \<Rightarrow> MuxServer \<Rightarrow> MuxServer" where
  "open_data_stream protocol connID stream p s =
     send (QStream stream) (SessionHeader_Encode (stream_header protocol connID (tunnel_at s p)))
       (send (QStream stream) (Some [StreamTypeData]) s)"

text \<open>The opening of a data stream for the external stream \<open>e\<close>, with the environment's outcomes: the
  stream that was opened and whether the two writes succeed. The result is the stream to forward to;
  without one, the deferred closes have run.\<close>

definition open_forward ::
  "byte \<Rightarrow> gostr \<Rightarrow> nat option \<Rightarrow> bool \<Rightarrow> bool \<Rightarrow> nat \<Rightarrow> nat \<Rightarrow> MuxServer \<Rightarrow> nat option \<times> MuxServer" where
  "open_forward protocol connID opened w1 w2 e p s =
     (case opened of
        None \<Rightarrow> (None, close {QStream e} s)
      | Some stream \<Rightarrow>
          if \<not> w1 then (None, close {QStream e, QStream stream} s)
          else if \<not> w2
          then (None, close {QStream e, QStream stream} (send (QStream stream) (Some [StreamTypeData]) s))
          else (Some stream, open_data_stream protocol connID stream p s))"

definition forwardQUICStream ::
  "gostr \<Rightarrow> nat option \<Rightarrow> bool \<Rightarrow> bool \<Rightarrow> nat \<Rightarrow> nat \<Rightarrow> MuxServer \<Rightarrow> nat option \<times> MuxServer" where
  "forwardQUICStream connID opened w1 w2 e p s =
     open_forward (tn_Protocol (tunnel_at s p)) connID opened w1 w2 e p s"

text \<open>One chunk in either direction; each direction has its own buffer.\<close>

definition forwardQUICStream_out :: "nat \<Rightarrow> bytes \<Rightarrow> MuxServer \<Rightarrow> MuxServer" where
  "forwardQUICStream_out stream d s =
     (send (QStream stream) (Some d) s)\<lparr>sv_bytesOut := i64 (sv_bytesOut s + int (length d))\<rparr>"

definition forwardQUICStream_in :: "nat \<Rightarrow> bytes \<Rightarrow> MuxServer \<Rightarrow> MuxServer" where
  "forwardQUICStream_in e d s =
     (send (QStream e) (Some d) s)\<lparr>sv_bytesIn := i64 (sv_bytesIn s + int (length d))\<rparr>"

definition forwardQUICStream_end :: "nat \<Rightarrow> nat \<Rightarrow> MuxServer \<Rightarrow> MuxServer" where
  "forwardQUICStream_end e stream s = close {QStream e, QStream stream} s"

definition forwardHTTP3Stream ::
  "gostr \<Rightarrow> nat option \<Rightarrow> bool \<Rightarrow> bool \<Rightarrow> nat \<Rightarrow> nat \<Rightarrow> MuxServer \<Rightarrow> nat option \<times> MuxServer" where
  "forwardHTTP3Stream connID opened w1 w2 e p s = open_forward ProtocolHTTP3 connID opened w1 w2 e p s"

text \<open>The two directions of \<^verbatim>\<open>forwardHTTP3Stream\<close> share one buffer, so the read and the write of a chunk
  are operations of their own: a read of \<open>d\<close> (either direction) overwrites the start of the buffer,
  a write of \<open>n\<close> bytes sends what the buffer holds then. The counters are swapped compared with
  \<^verbatim>\<open>forwardQUICStream\<close>.\<close>

definition forwardHTTP3Stream_read :: "bytes \<Rightarrow> bytes \<Rightarrow> bytes" where
  "forwardHTTP3Stream_read d buf = take (length buf) d @ drop (length d) buf"

definition forwardHTTP3Stream_out :: "nat \<Rightarrow> nat \<Rightarrow> bytes \<Rightarrow> MuxServer \<Rightarrow> MuxServer" where
  "forwardHTTP3Stream_out stream n buf s =
     (send (QStream stream) (Some (take n buf)) s)\<lparr>sv_bytesIn := i64 (sv_bytesIn s + int n)\<rparr>"

definition forwardHTTP3Stream_in :: "nat \<Rightarrow> nat \<Rightarrow> bytes \<Rightarrow> MuxServer \<Rightarrow> MuxServer" where
  "forwardHTTP3Stream_in e n buf s =
     (send (QStream e) (Some (take n buf)) s)\<lparr>sv_bytesOut := i64 (sv_bytesOut s + int n)\<rparr>"

definition forwardHTTP3Stream_end :: "nat \<Rightarrow> nat \<Rightarrow> MuxServer \<Rightarrow> MuxServer" where
  "forwardHTTP3Stream_end e stream s = close {QStream e, QStream stream} s"

section \<open>Domain routing\<close>

text \<open>\<^verbatim>\<open>handleTCPConnection\<close> on the bytes the client sends first. The environment decides whether the
  data stream can be opened (\<open>Some\<close> its number) and whether the two writes on it succeed.\<close>

definition handleTCPConnection ::
  "gostr \<Rightarrow> nat option \<Rightarrow> bool \<Rightarrow> bool \<Rightarrow> nat \<Rightarrow> bytes \<Rightarrow> MuxServer
     \<Rightarrow> (nat \<times> nat \<times> bytes) option \<times> MuxServer" where
  "handleTCPConnection connID opened w1 w2 c arriving s =
     (let refuse = (\<lambda>s'. (None, close {ExtConn c} s'));
          release = (\<lambda>s'. s'\<lparr>sv_connLimiter := ConnectionLimiter_Release (sv_connLimiter s')\<rparr>)
      in case rd_u16 arriving of
        None \<Rightarrow> refuse s
      | Some (n, r) \<Rightarrow>
          if n = 0 \<or> n > 256 then refuse s
          else case rd_n n r of
            None \<Rightarrow> refuse s
          | Some (domain, payload) \<Rightarrow>
              (case sv_tunnelByDomain s domain of
                 None \<Rightarrow> refuse s
               | Some p \<Rightarrow>
                   (case ConnectionLimiter_Acquire (sv_connLimiter s) of
                      (Some e, l) \<Rightarrow> refuse (s\<lparr>sv_connLimiter := l\<rparr>)
                    | (None, l) \<Rightarrow>
                        let s1 = s\<lparr>sv_connLimiter := l\<rparr> in
                        (case opened of
                           None \<Rightarrow> refuse (release s1)
                         | Some stream \<Rightarrow>
                             if \<not> w1 then refuse (release (close {QStream stream} s1))
                             else if \<not> w2
                             then refuse (release (close {QStream stream}
                                    (send (QStream stream) (Some [StreamTypeData]) s1)))
                             else (Some (p, stream, payload),
                                   add_external p connID c
                                     (open_data_stream ProtocolTCP connID stream p s1))))))"

section \<open>Bidirectional forwarding\<close>

definition forwardBidirectional_start :: "int \<Rightarrow> gostr \<Rightarrow> nat \<Rightarrow> MuxServer \<Rightarrow> MuxServer" where
  "forwardBidirectional_start now connID p s =
     (let t = tunnel_at s p in
      set_tunnel p (t\<lparr>tn_streamActivity := (tn_streamActivity t)(connID \<mapsto> unix now)\<rparr>) s)"

text \<open>One chunk in either direction: it is written, counted, and the activity time is updated if the
  entry is still there (the code updates the counter object; once deleted it is unreachable).\<close>

definition touch :: "int \<Rightarrow> gostr \<Rightarrow> nat \<Rightarrow> MuxServer \<Rightarrow> MuxServer" where
  "touch now connID p s =
     (let t = tunnel_at s p in
      if tn_streamActivity t connID = None then s
      else set_tunnel p (t\<lparr>tn_streamActivity := (tn_streamActivity t)(connID \<mapsto> unix now)\<rparr>) s)"

definition forwardBidirectional_out :: "int \<Rightarrow> gostr \<Rightarrow> nat \<Rightarrow> nat \<Rightarrow> bytes \<Rightarrow> MuxServer \<Rightarrow> MuxServer" where
  "forwardBidirectional_out now connID stream p d s =
     touch now connID p
       ((send (QStream stream) (Some d) s)\<lparr>sv_bytesOut := i64 (sv_bytesOut s + int (length d))\<rparr>)"

definition forwardBidirectional_in :: "int \<Rightarrow> gostr \<Rightarrow> nat \<Rightarrow> nat \<Rightarrow> bytes \<Rightarrow> MuxServer \<Rightarrow> MuxServer" where
  "forwardBidirectional_in now connID c p d s =
     touch now connID p
       ((send (ExtConn c) (Some d) s)\<lparr>sv_bytesIn := i64 (sv_bytesIn s + int (length d))\<rparr>)"

definition forwardBidirectional_end :: "gostr \<Rightarrow> nat \<Rightarrow> nat \<Rightarrow> nat \<Rightarrow> MuxServer \<Rightarrow> MuxServer" where
  "forwardBidirectional_end connID stream c p s =
     (let s1 = close {ExtConn c, QStream stream} s;
          t = tunnel_at s1 p;
          s2 = (if tn_ExternalConns t connID = None then s1
                else s1\<lparr>sv_activeConns := i64 (sv_activeConns s1 - 1)\<rparr>)
      in set_tunnel p (t\<lparr>tn_ExternalConns := (tn_ExternalConns t)(connID := None),
                         tn_streamActivity := (tn_streamActivity t)(connID := None)\<rparr>) s2)"

text \<open>\<^verbatim>\<open>handleDataStream\<close>: which external connection a data stream of the client joins.\<close>

definition handleDataStream :: "nat \<Rightarrow> bytes \<Rightarrow> MuxServer \<Rightarrow> (gostr \<times> nat \<times> bytes) option" where
  "handleDataStream p arriving s = do {
     (connID, target, rest) \<leftarrow> server_read_header arriving;
     c \<leftarrow> tn_ExternalConns (tunnel_at s p) connID;
     Some (connID, c, rest) }"

section \<open>Health check and monitoring\<close>

text \<open>One tick over the tunnels, in the order in which \<^verbatim>\<open>Range\<close> visits their IDs.\<close>

definition check_tunnel :: "int \<Rightarrow> gostr \<Rightarrow> MuxServer \<Rightarrow> MuxServer" where
  "check_tunnel now i s =
     (case sv_tunnels s i of
        None \<Rightarrow> s
      | Some p \<Rightarrow>
          if unix now - tn_LastActive (tunnel_at s p) > sc_TunnelTimeout (sv_config s) div second
          then closeTunnel p s else s)"

definition healthCheck_tick :: "int \<Rightarrow> gostr list \<Rightarrow> MuxServer \<Rightarrow> MuxServer" where
  "healthCheck_tick now ids s = fold (check_tunnel now) ids s"

definition streamIdleTimeout :: int where "streamIdleTimeout = 600"

definition cleanup_stream :: "int \<Rightarrow> nat \<Rightarrow> gostr \<Rightarrow> MuxServer \<Rightarrow> MuxServer" where
  "cleanup_stream now p connID s =
     (case tn_streamActivity (tunnel_at s p) connID of
        None \<Rightarrow> s
      | Some lastActive \<Rightarrow>
          if unix now - lastActive > streamIdleTimeout
          then let s1 = control_close_conn p connID s;
                   t1 = tunnel_at s1 p
               in set_tunnel p (t1\<lparr>tn_streamActivity := (tn_streamActivity t1)(connID := None)\<rparr>) s1
          else s)"

definition cleanupIdleStreams :: "int \<Rightarrow> (gostr \<times> gostr) list \<Rightarrow> MuxServer \<Rightarrow> MuxServer" where
  "cleanupIdleStreams now visits s =
     fold (\<lambda>(i, connID) s'. case sv_tunnels s' i of None \<Rightarrow> s' | Some p \<Rightarrow> cleanup_stream now p connID s')
       visits s"

text \<open>One datagram received by the goroutine of \<open>conn\<close>, which answers on that connection.\<close>

definition handleDatagram :: "int \<Rightarrow> nat \<Rightarrow> bytes \<Rightarrow> nat \<Rightarrow> MuxServer \<Rightarrow> MuxServer" where
  "handleDatagram now conn data p s =
     (case data of
        [] \<Rightarrow> s
      | ty # _ \<Rightarrow>
          if ty = DgramTypeHeartbeat \<and> length data \<ge> 9
          then let t = tunnel_at s p;
                   s1 = set_tunnel p (t\<lparr>tn_LastActive := unix now\<rparr>) s
               in send (QConn conn) (heartbeatReply (nat (now div 1000000)) data) s1
          else s)"

definition SendConfigUpdate :: "gostr \<Rightarrow> bytes \<Rightarrow> MuxServer \<Rightarrow> bool \<times> MuxServer" where
  "SendConfigUpdate tunnelID configJSON s =
     (case sv_tunnels s tunnelID of
        None \<Rightarrow> (False, s)
      | Some p \<Rightarrow> (True, send (QStream (tn_ControlStream (tunnel_at s p))) (buildConfigUpdate configJSON) s))"

definition SendEnhancedHeartbeat :: "int \<Rightarrow> gostr \<Rightarrow> MuxServer \<Rightarrow> bool \<times> MuxServer" where
  "SendEnhancedHeartbeat now tunnelID s =
     (case sv_tunnels s tunnelID of
        None \<Rightarrow> (False, s)
      | Some p \<Rightarrow>
          (True, send (QStream (tn_ControlStream (tunnel_at s p)))
             (fill 27 (\<lambda>b0. do {
                b1 \<leftarrow> w_byte MsgHeartbeat b0;
                b2 \<leftarrow> w_be (be32 (nat (now div 1000000))) b1;
                b3 \<leftarrow> w_be (be32 0) b2;
                b4 \<leftarrow> w_be (be64 (nat (sv_bytesIn s mod 2 ^ 64))) b3;
                b5 \<leftarrow> w_be (be64 (nat (sv_bytesOut s mod 2 ^ 64))) b4;
                w_be (be16 0) b5 })) s))"

record NetworkQuality =
  nq_RTT :: int
  nq_BytesIn :: int
  nq_BytesOut :: int
  nq_LossRate :: int
  nq_Timestamp :: int

definition GetNetworkQuality :: "gostr \<Rightarrow> MuxServer \<Rightarrow> NetworkQuality option" where
  "GetNetworkQuality tunnelID s =
     map_option (\<lambda>p. \<lparr>nq_RTT = 0, nq_BytesIn = sv_bytesIn s, nq_BytesOut = sv_bytesOut s,
                     nq_LossRate = 0, nq_Timestamp = tn_LastActive (tunnel_at s p)\<rparr>)
       (sv_tunnels s tunnelID)"

record ServerStats =
  ss_ActiveTunnels :: int
  ss_TotalTunnels :: int
  ss_ActiveConns :: int
  ss_TotalConns :: int
  ss_BytesIn :: int
  ss_BytesOut :: int

definition MuxServer_GetStats :: "MuxServer \<Rightarrow> ServerStats" where
  "MuxServer_GetStats s =
     \<lparr>ss_ActiveTunnels = sv_activeTunnels s, ss_TotalTunnels = sv_totalTunnels s,
      ss_ActiveConns = sv_activeConns s, ss_TotalConns = sv_totalConns s,
      ss_BytesIn = sv_bytesIn s, ss_BytesOut = sv_bytesOut s\<rparr>"

text \<open>\<^verbatim>\<open>Stop\<close>: the context is cancelled and every tunnel is closed, in the order in which \<^verbatim>\<open>Range\<close> visits them.\<close>

definition MuxServer_Stop :: "gostr list \<Rightarrow> MuxServer \<Rightarrow> MuxServer" where
  "MuxServer_Stop ids s =
     fold (\<lambda>i s'. case sv_tunnels s' i of None \<Rightarrow> s' | Some p \<Rightarrow> closeTunnel p s') ids
       (s\<lparr>sv_stopped := True\<rparr>)"

end
