(* ===== verification/Retry.thy ===== *)
theory Retry
  imports Complex_Main Go_Prelude
begin

text \<open>
  Retry with exponential backoff, \<^verbatim>\<open>internal/retry/retry.go\<close>. The function that is retried threads a
  state of its own, and each call gets what the environment decides for it as an input. A turn of the
  retry loop has its environment: whether the context is done at its top, the input of the
  call, the two random draws, and whether the context ends during the wait. The loop may run
  forever; the list of environments is what has happened so far, and \<open>RetryRunning\<close> says that the loop
  is still going after it.

  Floating-point factors are rational numbers, and conversion to a duration truncates; the code's
  products are exact for durations below \<open>2 ^ 53\<close> ns and a factor that is a power of two, and rounded
  otherwise.
\<close>

section \<open>Configuration\<close>

record 'e Retry_Config =
  rc_MaxAttempts :: int
  rc_InitialDelay :: int
  rc_MaxDelay :: int
  rc_Multiplier :: rat
  rc_Jitter :: rat
  rc_RetryableError :: "('e \<Rightarrow> bool) option"

definition Retry_DefaultConfig :: "'e Retry_Config" where
  "Retry_DefaultConfig =
     \<lparr>rc_MaxAttempts = 3, rc_InitialDelay = 100000000, rc_MaxDelay = 30000000000, rc_Multiplier = 2,
      rc_Jitter = 1 / 10, rc_RetryableError = None\<rparr>"

definition NewRetrier :: "'e Retry_Config \<Rightarrow> 'e Retry_Config" where
  "NewRetrier c = c\<lparr>
     rc_MaxAttempts := (if rc_MaxAttempts c < 0 then 0 else rc_MaxAttempts c),
     rc_InitialDelay := (if rc_InitialDelay c \<le> 0 then 100000000 else rc_InitialDelay c),
     rc_MaxDelay := (if rc_MaxDelay c \<le> 0 then 30000000000 else rc_MaxDelay c),
     rc_Multiplier := (if rc_Multiplier c \<le> 1 then 2 else rc_Multiplier c),
     rc_Jitter := (if rc_Jitter c < 0 then 0 else if rc_Jitter c > 1 then 1 else rc_Jitter c)\<rparr>"

definition WithMaxAttempts :: "int \<Rightarrow> 'e Retry_Config" where
  "WithMaxAttempts n = NewRetrier (Retry_DefaultConfig\<lparr>rc_MaxAttempts := n\<rparr>)"

definition WithDelay :: "int \<Rightarrow> 'e Retry_Config" where
  "WithDelay d = NewRetrier (Retry_DefaultConfig\<lparr>rc_InitialDelay := d\<rparr>)"

definition WithRetryableError :: "('e \<Rightarrow> bool) \<Rightarrow> 'e Retry_Config" where
  "WithRetryableError f = NewRetrier (Retry_DefaultConfig\<lparr>rc_RetryableError := Some f\<rparr>)"

text \<open>Classification of errors. An error is represented by what its methods \<^verbatim>\<open>Temporary\<close> and \<^verbatim>\<open>Timeout\<close> answer, \<open>None\<close> where
  its type has no such method and the type assertion fails.\<close>

record error_methods =
  em_Temporary :: "bool option"
  em_Timeout :: "bool option"

definition isTemporary :: "error_methods \<Rightarrow> bool" where
  "isTemporary err = (case em_Temporary err of Some answer \<Rightarrow> answer | None \<Rightarrow> False)"

definition isTimeout :: "error_methods \<Rightarrow> bool" where
  "isTimeout err = (case em_Timeout err of Some answer \<Rightarrow> answer | None \<Rightarrow> False)"

definition Retryable :: "error_methods \<Rightarrow> bool" where
  "Retryable err \<longleftrightarrow> isTemporary err \<or> isTimeout err"

section \<open>Backoff\<close>

definition trunc :: "rat \<Rightarrow> int" where
  "trunc x = (if x < 0 then \<lceil>x\<rceil> else \<lfloor>x\<rfloor>)"

definition calculateDelay :: "'e Retry_Config \<Rightarrow> rat \<times> rat \<Rightarrow> int \<Rightarrow> int" where
  "calculateDelay c draws currentDelay =
     (let scaled = trunc (of_int currentDelay * rc_Multiplier c);
          newDelay = (if scaled > rc_MaxDelay c then rc_MaxDelay c else scaled)
      in if rc_Jitter c > 0
         then let jitter = trunc (fst draws * of_int newDelay * rc_Jitter c)
              in if snd draws < 1 / 2 then newDelay - jitter else newDelay + jitter
         else newDelay)"

section \<open>The retry loop\<close>

datatype 'e retry_error = ErrMaxAttemptsExceeded | ErrContextCanceled | FnError 'e

datatype ('e, 'r) retry_outcome =
  RetryRunning | RetryPanic | RetryOk 'r | RetryErr "'e retry_error"

record 'a retry_env =
  re_ctxTop :: bool
  re_input :: 'a
  re_draws :: "rat \<times> rat"
  re_ctxWait :: bool

text \<open>The outcome, the state of the function, and the delays that were waited for.\<close>

fun DoWithResult_loop ::
  "'e Retry_Config \<Rightarrow> ('a \<Rightarrow> 's \<Rightarrow> ('e, 'r) go_result \<times> 's) \<Rightarrow> nat \<Rightarrow> int \<Rightarrow> 'e option \<Rightarrow> 'a retry_env list \<Rightarrow> 's
     \<Rightarrow> ('e, 'r) retry_outcome \<times> 's \<times> int list" where
  "DoWithResult_loop cfg fn attempt delay lastErr [] s = (RetryRunning, s, [])"
| "DoWithResult_loop cfg fn attempt delay lastErr (v # vs) s =
     (if re_ctxTop v then (RetryErr ErrContextCanceled, s, [])
      else if rc_MaxAttempts cfg > 0 \<and> int attempt \<ge> rc_MaxAttempts cfg
      then (RetryErr (case lastErr of Some e \<Rightarrow> FnError e | None \<Rightarrow> ErrMaxAttemptsExceeded), s, [])
      else case fn (re_input v) s of
        (Panic, s1) \<Rightarrow> (RetryPanic, s1, [])
      | (Ret r, s1) \<Rightarrow> (RetryOk r, s1, [])
      | (Err e, s1) \<Rightarrow>
          if (case rc_RetryableError cfg of None \<Rightarrow> False | Some ok \<Rightarrow> \<not> ok e)
          then (RetryErr (FnError e), s1, [])
          else
            let d = (if attempt = 0 then rc_InitialDelay cfg else calculateDelay cfg (re_draws v) delay)
            in if re_ctxWait v then (RetryErr ErrContextCanceled, s1, [d])
               else case DoWithResult_loop cfg fn (Suc attempt) d (Some e) vs s1 of
                      (out, s2, ds) \<Rightarrow> (out, s2, d # ds))"

definition DoWithResult ::
  "'e Retry_Config \<Rightarrow> ('a \<Rightarrow> 's \<Rightarrow> ('e, 'r) go_result \<times> 's) \<Rightarrow> 'a retry_env list \<Rightarrow> 's
     \<Rightarrow> ('e, 'r) retry_outcome \<times> 's \<times> int list" where
  "DoWithResult cfg fn vs s = DoWithResult_loop cfg fn 0 0 None vs s"

text \<open>\<^verbatim>\<open>Do\<close> is \<^verbatim>\<open>DoWithResult\<close> for a function without a result.\<close>

definition Retrier_Do ::
  "'e Retry_Config \<Rightarrow> ('a \<Rightarrow> 's \<Rightarrow> ('e, unit) go_result \<times> 's) \<Rightarrow> 'a retry_env list \<Rightarrow> 's
     \<Rightarrow> ('e, unit) retry_outcome \<times> 's \<times> int list" where
  "Retrier_Do cfg fn vs s = DoWithResult cfg fn vs s"

section \<open>The variant with a callback\<close>

record 'e Attempt =
  at_AttemptNumber :: nat
  at_Delay :: int
  at_Error :: "'e retry_error option"

definition attempt_of :: "nat \<Rightarrow> int \<Rightarrow> 'e retry_error option \<Rightarrow> 'e Attempt" where
  "attempt_of n d e = \<lparr>at_AttemptNumber = n, at_Delay = d, at_Error = e\<rparr>"

text \<open>The last component lists the calls of the callback.\<close>

fun DoWithCallback_loop ::
  "'e Retry_Config \<Rightarrow> ('a \<Rightarrow> 's \<Rightarrow> ('e, unit) go_result \<times> 's) \<Rightarrow> nat \<Rightarrow> int \<Rightarrow> 'e option \<Rightarrow> 'a retry_env list \<Rightarrow> 's
     \<Rightarrow> ('e, unit) retry_outcome \<times> 's \<times> 'e Attempt list" where
  "DoWithCallback_loop cfg fn attempt delay lastErr [] s = (RetryRunning, s, [])"
| "DoWithCallback_loop cfg fn attempt delay lastErr (v # vs) s =
     (if re_ctxTop v
      then (RetryErr ErrContextCanceled, s, [attempt_of attempt 0 (Some ErrContextCanceled)])
      else if rc_MaxAttempts cfg > 0 \<and> int attempt \<ge> rc_MaxAttempts cfg
      then (RetryErr (case lastErr of Some e \<Rightarrow> FnError e | None \<Rightarrow> ErrMaxAttemptsExceeded), s,
            [attempt_of attempt 0 (map_option FnError lastErr)])
      else case fn (re_input v) s of
        (Panic, s1) \<Rightarrow> (RetryPanic, s1, [])
      | (Ret r, s1) \<Rightarrow> (RetryOk r, s1, [attempt_of attempt 0 None])
      | (Err e, s1) \<Rightarrow>
          if (case rc_RetryableError cfg of None \<Rightarrow> False | Some ok \<Rightarrow> \<not> ok e)
          then (RetryErr (FnError e), s1, [attempt_of attempt 0 (Some (FnError e))])
          else
            let d = (if attempt = 0 then rc_InitialDelay cfg else calculateDelay cfg (re_draws v) delay);
                a = attempt_of attempt d (Some (FnError e))
            in if re_ctxWait v then (RetryErr ErrContextCanceled, s1, [a])
               else case DoWithCallback_loop cfg fn (Suc attempt) d (Some e) vs s1 of
                      (out, s2, as) \<Rightarrow> (out, s2, a # as))"

definition DoWithCallback ::
  "'e Retry_Config \<Rightarrow> ('a \<Rightarrow> 's \<Rightarrow> ('e, unit) go_result \<times> 's) \<Rightarrow> 'a retry_env list \<Rightarrow> 's
     \<Rightarrow> ('e, unit) retry_outcome \<times> 's \<times> 'e Attempt list" where
  "DoWithCallback cfg fn vs s = DoWithCallback_loop cfg fn 0 0 None vs s"

section \<open>Reference\<close>

text \<open>Call the function on one input after the other until it succeeds; what is returned is the
  last error.\<close>

fun try_each ::
  "('a \<Rightarrow> 's \<Rightarrow> ('e, 'r) go_result \<times> 's) \<Rightarrow> 'e retry_error \<Rightarrow> 'a list \<Rightarrow> 's \<Rightarrow> ('e, 'r) retry_outcome \<times> 's" where
  "try_each fn last_error [] s = (RetryErr last_error, s)"
| "try_each fn last_error (x # xs) s =
     (case fn x s of
        (Panic, s1) \<Rightarrow> (RetryPanic, s1)
      | (Ret r, s1) \<Rightarrow> (RetryOk r, s1)
      | (Err e, s1) \<Rightarrow> try_each fn (FnError e) xs s1)"

definition uncancelled :: "'a retry_env list \<Rightarrow> bool" where
  "uncancelled vs \<longleftrightarrow> list_all (\<lambda>v. \<not> re_ctxTop v \<and> \<not> re_ctxWait v) vs"

definition retries_all :: "'e Retry_Config \<Rightarrow> bool" where
  "retries_all cfg \<longleftrightarrow> (\<forall>e. case rc_RetryableError cfg of None \<Rightarrow> True | Some ok \<Rightarrow> ok e)"

definition draws_ok :: "'a retry_env list \<Rightarrow> bool" where
  "draws_ok vs \<longleftrightarrow> list_all (\<lambda>v. 0 \<le> fst (re_draws v) \<and> fst (re_draws v) < 1) vs"

definition retrier_ok :: "'e Retry_Config \<Rightarrow> bool" where
  "retrier_ok c \<longleftrightarrow> 0 < rc_InitialDelay c \<and> 0 < rc_MaxDelay c \<and> 1 < rc_Multiplier c
     \<and> 0 \<le> rc_Jitter c \<and> rc_Jitter c \<le> 1 \<and> 0 \<le> rc_MaxAttempts c"

section \<open>Lemmas\<close>

lemma NewRetrier_ok: "retrier_ok (NewRetrier c)"
  by (simp add: retrier_ok_def NewRetrier_def)

lemma loop_tries:
  assumes "uncancelled vs" and "retries_all cfg" and "rc_MaxAttempts cfg > 0"
    and "int n \<le> rc_MaxAttempts cfg" and "nat (rc_MaxAttempts cfg) - n < length vs"
  shows "\<exists>ds. DoWithResult_loop cfg fn n d e vs s =
     (fst (try_each fn (case e of Some x \<Rightarrow> FnError x | None \<Rightarrow> ErrMaxAttemptsExceeded)
        (map re_input (take (nat (rc_MaxAttempts cfg) - n) vs)) s),
      snd (try_each fn (case e of Some x \<Rightarrow> FnError x | None \<Rightarrow> ErrMaxAttemptsExceeded)
        (map re_input (take (nat (rc_MaxAttempts cfg) - n) vs)) s), ds)"
  using assms
proof (induction vs arbitrary: n d e s)
  case (Cons v vs)
  show ?case
  proof (cases "int n = rc_MaxAttempts cfg")
    case True
    with Cons(2,4) show ?thesis by (auto simp: uncancelled_def)
  next
    case False
    with Cons(5) have n: "nat (rc_MaxAttempts cfg) - n = Suc (nat (rc_MaxAttempts cfg) - Suc n)"
      "int (Suc n) \<le> rc_MaxAttempts cfg" by linarith+
    obtain r s1 where f: "fn (re_input v) s = (r, s1)" by fastforce
    show ?thesis
    proof (cases r)
      case (Err x)
      let ?d = "if n = 0 then rc_InitialDelay cfg else calculateDelay cfg (re_draws v) d"
      from Cons(1) [of "Suc n" ?d "Some x" s1] Cons(2-6) n obtain ds where
        "DoWithResult_loop cfg fn (Suc n) ?d (Some x) vs s1 =
          (fst (try_each fn (FnError x) (map re_input (take (nat (rc_MaxAttempts cfg) - Suc n) vs)) s1),
           snd (try_each fn (FnError x) (map re_input (take (nat (rc_MaxAttempts cfg) - Suc n) vs)) s1), ds)"
        by (auto simp: uncancelled_def)
      moreover have "\<not> (case rc_RetryableError cfg of None \<Rightarrow> False | Some ok \<Rightarrow> \<not> ok x)"
        using Cons(3) by (auto simp: retries_all_def split: option.splits)
      ultimately show ?thesis using Cons(2) n f Err by (simp add: uncancelled_def Let_def)
    qed (use Cons(2) n f in \<open>auto simp: uncancelled_def\<close>)
  qed
qed simp

text \<open>With a classification of errors, an error of the function is returned after all attempts when it is retryable, and
  otherwise before, without waiting for the remaining ones.\<close>

lemma loop_classifies:
  assumes "rc_RetryableError cfg = Some ok" and "0 < rc_MaxAttempts cfg"
    and "DoWithResult_loop cfg fn n d le vs s = (RetryErr (FnError e), s', ds)"
    and "int n \<le> rc_MaxAttempts cfg" and "\<And>x. le = Some x \<Longrightarrow> ok x"
  shows "if ok e then int (n + length ds) = rc_MaxAttempts cfg else int (n + length ds) < rc_MaxAttempts cfg"
  using assms(3-)
proof (induction vs arbitrary: n d le s ds)
  case (Cons v vs)
  show ?case
  proof (cases "re_ctxTop v \<or> rc_MaxAttempts cfg \<le> int n")
    case True
    with Cons.prems assms(1,2) show ?thesis by (auto split: if_splits option.splits)
  next
    case False
    with Cons.prems(1) assms(1,2) Cons.IH [of "Suc n"] show ?thesis
      by (force split: if_splits option.splits prod.splits go_result.splits simp: Let_def)
  qed
qed simp

lemma retryable_errors_exhaust:
  assumes "DoWithResult (WithRetryableError Retryable) fn vs s = (RetryErr (FnError e), s', ds)"
  shows "if Retryable e then length ds = 3 else length ds < 3"
  using loop_classifies [of "WithRetryableError Retryable" Retryable, OF _ _ assms [unfolded DoWithResult_def]]
  by (simp add: WithRetryableError_def NewRetrier_def Retry_DefaultConfig_def split: if_splits)

lemma trunc_between: "0 \<le> x \<Longrightarrow> x \<le> of_int m \<Longrightarrow> 0 \<le> trunc x \<and> trunc x \<le> m"
  by (simp add: trunc_def floor_le_iff le_floor_iff)

text \<open>Each delay lies between 0 and the cap plus the jitter's share of it.\<close>

lemma calculateDelay_bounds:
  assumes "retrier_ok c" and "0 \<le> fst u" and "fst u < 1" and "0 \<le> d"
  shows "0 \<le> calculateDelay c u d \<and> of_int (calculateDelay c u d) \<le> of_int (rc_MaxDelay c) * (1 + rc_Jitter c)"
proof -
  define n where "n = (if trunc (of_int d * rc_Multiplier c) > rc_MaxDelay c then rc_MaxDelay c
      else trunc (of_int d * rc_Multiplier c))"
  define j where "j = trunc (fst u * of_int n * rc_Jitter c)"
  have "0 \<le> of_int d * rc_Multiplier c" using assms(1,4) by (simp add: retrier_ok_def)
  then have "0 \<le> trunc (of_int d * rc_Multiplier c)" by (simp add: trunc_def)
  then have n: "0 \<le> n" "n \<le> rc_MaxDelay c" using assms(1) by (auto simp: n_def retrier_ok_def)
  have J: "0 \<le> rc_Jitter c" "rc_Jitter c \<le> 1" using assms(1) by (auto simp: retrier_ok_def)
  have x0: "0 \<le> fst u * of_int n * rc_Jitter c" using assms(2) n J by simp
  have "fst u * of_int n \<le> of_int n" using assms(2,3) n by (simp add: mult_left_le_one_le)
  then have x1: "fst u * of_int n * rc_Jitter c \<le> of_int n * rc_Jitter c"
    using J(1) by (rule mult_right_mono)
  also have "\<dots> \<le> of_int n" using J n by (simp add: mult_right_le_one_le)
  finally have j: "0 \<le> j" "j \<le> n" using trunc_between [OF x0, of n] by (auto simp: j_def)
  have "of_int j \<le> fst u * of_int n * rc_Jitter c" using x0 by (simp add: j_def trunc_def)
  also have "\<dots> \<le> of_int (rc_MaxDelay c) * rc_Jitter c"
    using x1 n J(1) by (meson mult_right_mono of_int_le_iff order_trans)
  finally have jj: "of_int j \<le> of_int (rc_MaxDelay c) * rc_Jitter c" .
  have "calculateDelay c u d = n \<or> calculateDelay c u d = n - j \<or> calculateDelay c u d = n + j"
    by (simp add: calculateDelay_def Let_def n_def j_def)
  moreover have "0 \<le> of_int (rc_MaxDelay c) * rc_Jitter c" using j(1) jj by linarith
  moreover have "(of_int n :: rat) \<le> of_int (rc_MaxDelay c)" using n(2) by simp
  ultimately show ?thesis
    using n j jj by (auto simp: distrib_left)
qed

definition delay_ok :: "'e Retry_Config \<Rightarrow> int \<Rightarrow> bool" where
  "delay_ok c x \<longleftrightarrow> 0 \<le> x \<and>
     (x = rc_InitialDelay c \<or> of_int x \<le> of_int (rc_MaxDelay c) * (1 + rc_Jitter c))"

lemma loop_delays:
  assumes "retrier_ok cfg" and "draws_ok vs" and "0 \<le> d"
    and "DoWithResult_loop cfg fn n d e vs s = (out, s', ds)"
  shows "list_all (delay_ok cfg) ds"
  using assms(2-)
proof (induction vs arbitrary: n d e s ds)
  case (Cons v vs)
  define d' where "d' = (if n = 0 then rc_InitialDelay cfg else calculateDelay cfg (re_draws v) d)"
  have d': "delay_ok cfg d'"
    using Cons(2,3) assms(1) calculateDelay_bounds [OF assms(1), of "re_draws v" d]
    by (auto simp: d'_def draws_ok_def retrier_ok_def delay_ok_def)
  have vs: "draws_ok vs" using Cons(2) by (simp add: draws_ok_def)
  have "ds = [] \<or> ds = [d'] \<or> (\<exists>x s1 ds'. DoWithResult_loop cfg fn (Suc n) d' (Some x) vs s1 = (out, s', ds')
      \<and> ds = d' # ds')"
    using Cons(4) by (auto simp: d'_def Let_def split: if_splits prod.splits go_result.splits)
  moreover have "0 \<le> d'" using d' by (simp add: delay_ok_def)
  ultimately show ?case
    using d' Cons(1) [OF vs, of d' "Suc n"] by auto
qed simp

lemma callback_same:
  "fst (DoWithCallback_loop cfg fn n d e vs s) = fst (DoWithResult_loop cfg fn n d e vs s)
     \<and> fst (snd (DoWithCallback_loop cfg fn n d e vs s)) = fst (snd (DoWithResult_loop cfg fn n d e vs s))
     \<and> filter (\<lambda>x. x \<noteq> 0) (map at_Delay (snd (snd (DoWithCallback_loop cfg fn n d e vs s)))) =
         filter (\<lambda>x. x \<noteq> 0) (snd (snd (DoWithResult_loop cfg fn n d e vs s)))"
proof (induction vs arbitrary: n d e s)
  case (Cons v vs)
  obtain r s1 where f: "fn (re_input v) s = (r, s1)" by fastforce
  show ?case
  proof (cases r)
    case (Err x)
    define d' where "d' = (if n = 0 then rc_InitialDelay cfg else calculateDelay cfg (re_draws v) d)"
    from Cons [of "Suc n" d' "Some x" s1] f Err show ?thesis
      by (auto simp: d'_def [symmetric] attempt_of_def Let_def case_prod_beta)
  qed (use f in \<open>simp_all add: attempt_of_def\<close>)
qed simp

section \<open>Properties\<close>

text \<open>C32. A retrier with a positive limit that takes no error as final always returns: once the loop has had one turn more than
  \<^verbatim>\<open>MaxAttempts\<close>, its outcome and the function's state are those of calling the function at most
  \<^verbatim>\<open>MaxAttempts\<close> times, one attempt after the other, up to the first success, with the last error
  when there is none.\<close>

theorem retry_tries_at_most:
  assumes "uncancelled vs" and "retries_all cfg" and "rc_MaxAttempts cfg > 0"
    and "nat (rc_MaxAttempts cfg) < length vs"
  shows "\<exists>ds. DoWithResult cfg fn vs s =
     (fst (try_each fn ErrMaxAttemptsExceeded (map re_input (take (nat (rc_MaxAttempts cfg)) vs)) s),
      snd (try_each fn ErrMaxAttemptsExceeded (map re_input (take (nat (rc_MaxAttempts cfg)) vs)) s), ds)"
  using loop_tries [OF assms(1-3), of 0 fn 0 None s] assms(3,4) by (simp add: DoWithResult_def)

theorem retry_tries_at_most_witness:
  "\<exists>ds. DoWithResult (Retry_DefaultConfig :: nat Retry_Config)
     (\<lambda>x s. (if x then Ret s else Err s, s + 1))
     (map (\<lambda>b. \<lparr>re_ctxTop = False, re_input = b, re_draws = (0, 0), re_ctxWait = False\<rparr>)
        [False, False, False, True]) (0 :: nat) = (RetryErr (FnError 2), 3, ds)"
  using retry_tries_at_most [of "map (\<lambda>b. \<lparr>re_ctxTop = False, re_input = b, re_draws = (0, 0),
        re_ctxWait = False\<rparr>) [False, False, False, True]" "Retry_DefaultConfig :: nat Retry_Config"
      "\<lambda>x s. (if x then Ret s else Err s, s + 1)" 0]
  by (simp add: uncancelled_def retries_all_def Retry_DefaultConfig_def numeral_eq_Suc)

text \<open>Every wait of a retrier is at least zero and, apart from the first one (which is
  \<^verbatim>\<open>InitialDelay\<close>, whatever the cap), at most \<^verbatim>\<open>MaxDelay\<close> enlarged by the jitter factor: the jitter is
  added after the cap, so \<^verbatim>\<open>MaxDelay\<close> itself is not the bound.\<close>

lemma retry_delays_bounded:
  assumes "draws_ok vs" and "DoWithResult (NewRetrier c) fn vs s = (out, s', ds)" and "x \<in> set ds"
  shows "0 \<le> x \<and> (x = rc_InitialDelay (NewRetrier c) \<or>
     of_int x \<le> of_int (rc_MaxDelay (NewRetrier c)) * (1 + rc_Jitter (NewRetrier c)))"
  using loop_delays [OF NewRetrier_ok assms(1), of 0 c fn 0 None s out s' ds] assms(2,3)
  by (auto simp: DoWithResult_def list_all_iff delay_ok_def)

lemma retry_delays_bounded_witness:
  "let c = \<lparr>rc_MaxAttempts = 3, rc_InitialDelay = 10, rc_MaxDelay = 10, rc_Multiplier = 2, rc_Jitter = 1,
            rc_RetryableError = None\<rparr> :: unit Retry_Config in
   calculateDelay c (1 / 2, 1 / 2) 10 = 15 \<and>
   (\<forall>x \<in> set (snd (snd (DoWithResult (NewRetrier c) (\<lambda>(_ :: unit) s. (Err () :: (unit, unit) go_result, s))
       (replicate 3 \<lparr>re_ctxTop = False, re_input = (), re_draws = (1 / 2, 1 / 2), re_ctxWait = False\<rparr>) ()))).
     (of_int x :: rat) \<le> 20)"
proof -
  let ?c = "\<lparr>rc_MaxAttempts = 3, rc_InitialDelay = 10, rc_MaxDelay = 10, rc_Multiplier = 2, rc_Jitter = 1,
            rc_RetryableError = None\<rparr> :: unit Retry_Config"
  let ?v = "\<lparr>re_ctxTop = False, re_input = (), re_draws = (1 / 2, 1 / 2), re_ctxWait = False\<rparr> :: unit retry_env"
  let ?fn = "\<lambda>(_ :: unit) (s :: unit). (Err () :: (unit, unit) go_result, s)"
  have n: "NewRetrier ?c = ?c" by (simp add: NewRetrier_def)
  obtain out s' ds where r: "DoWithResult (NewRetrier ?c) ?fn (replicate 3 ?v) () = (out, s', ds)"
    using prod_cases3 by blast
  have "draws_ok (replicate 3 ?v)" by (simp add: draws_ok_def list_all_iff)
  note b = retry_delays_bounded [OF this r]
  have "(of_int x :: rat) \<le> 20" if "x \<in> set ds" for x using b [OF that] by (auto simp: n)
  then show ?thesis
    using r by (simp add: Let_def calculateDelay_def trunc_def)
qed

text \<open>The variant with a callback runs the same retry loop: same outcome, same calls of the function,
  and its callbacks report exactly the delays that are waited for (a callback without a wait reports 0).\<close>

lemma callback_variant_equivalent:
  "fst (DoWithCallback cfg fn vs s) = fst (Retrier_Do cfg fn vs s)
     \<and> fst (snd (DoWithCallback cfg fn vs s)) = fst (snd (Retrier_Do cfg fn vs s))
     \<and> filter (\<lambda>x. x \<noteq> 0) (map at_Delay (snd (snd (DoWithCallback cfg fn vs s)))) =
         filter (\<lambda>x. x \<noteq> 0) (snd (snd (Retrier_Do cfg fn vs s)))"
  unfolding DoWithCallback_def Retrier_Do_def DoWithResult_def by (rule callback_same)

end
