(* ===== verification/Tunnel_Client.thy ===== *)
theory Tunnel_Client
  imports Tunnel_Server Retry
begin

text \<open>
  The tunnel client of \<^verbatim>\<open>quic/quic.go\<close> (\<^verbatim>\<open>MuxClient\<close>): connecting with and without early data, the
  connect loop with its retrier, the control loop, local connections, data streams, and the cached
  session state; and the anti-replay cache \<^verbatim>\<open>AntiReplay\<close>.

  As for the server, an operation is one handler or one turn of a goroutine's loop; dial results,
  stream numbers, bytes that arrive and outcomes of writes are arguments. \<open>QConn\<close> is a QUIC
  connection, \<open>QStream\<close> a stream and \<open>ExtConn\<close> a plain TCP connection, here one to the local service.
  Goroutines that an operation starts are appended to \<open>ct_started\<close>.
\<close>

section \<open>Configuration and state\<close>

record MuxClientConfig =
  cc_TunnelID :: gostr
  cc_Protocol :: byte
  cc_LocalAddr :: gostr
  cc_Domain :: gostr
  cc_AuthToken :: gostr
  cc_ReconnectInterval :: int
  cc_MaxReconnectTries :: int
  cc_Enable0RTT :: bool
  cc_SessionCache :: bool

definition DefaultMuxClientConfig :: MuxClientConfig where
  "DefaultMuxClientConfig =
     \<lparr>cc_TunnelID = [], cc_Protocol = ProtocolTCP, cc_LocalAddr = [], cc_Domain = [], cc_AuthToken = [],
      cc_ReconnectInterval = 5 * second, cc_MaxReconnectTries = 0, cc_Enable0RTT = True,
      cc_SessionCache = True\<rparr>"

datatype client_goroutine =
  ConnectLoop | HeartbeatLoop | DatagramLoop | ControlLoop | DataStreamAcceptor | LocalForward gostr nat

record MuxClient =
  ct_config :: MuxClientConfig
  ct_conn :: "nat option"
  ct_controlStream :: "nat option"
  ct_localConns :: "gostr \<rightharpoonup> nat"
  ct_localQUICConns :: "gostr \<rightharpoonup> nat"
  ct_tunnelID :: gostr
  ct_publicURL :: gostr
  ct_activeConns :: int
  ct_totalConns :: int
  ct_bytesIn :: int
  ct_bytesOut :: int
  ct_ctxDone :: bool
  ct_reconnectCh :: bool
  ct_connected :: bool
  ct_buf :: bytes
  ct_started :: "client_goroutine list"
  ct_sent :: "(endpoint \<times> bytes) list"
  ct_closed :: "endpoint set"

text \<open>\<open>newID\<close> is what \<^verbatim>\<open>generateID\<close> returns. The control loop's buffer is a fresh one of the pool.\<close>

definition NewMuxClient :: "gostr \<Rightarrow> MuxClientConfig \<Rightarrow> MuxClient" where
  "NewMuxClient newID config =
     \<lparr>ct_config = config\<lparr>
        cc_TunnelID := (if cc_TunnelID config = [] then newID else cc_TunnelID config),
        cc_ReconnectInterval := (if cc_ReconnectInterval config = 0 then 5 * second
                                 else cc_ReconnectInterval config),
        cc_Protocol := (if cc_Protocol config = 0 then ProtocolTCP else cc_Protocol config)\<rparr>,
      ct_conn = None, ct_controlStream = None, ct_localConns = Map.empty, ct_localQUICConns = Map.empty,
      ct_tunnelID = [], ct_publicURL = [], ct_activeConns = 0, ct_totalConns = 0, ct_bytesIn = 0,
      ct_bytesOut = 0, ct_ctxDone = False, ct_reconnectCh = False, ct_connected = False,
      ct_buf = replicate 65536 0, ct_started = [], ct_sent = [], ct_closed = {}\<rparr>"

definition ct_send :: "endpoint \<Rightarrow> bytes option \<Rightarrow> MuxClient \<Rightarrow> MuxClient" where
  "ct_send e msg c = (case msg of None \<Rightarrow> c | Some b \<Rightarrow> c\<lparr>ct_sent := ct_sent c @ [(e, b)]\<rparr>)"

definition ct_close :: "endpoint set \<Rightarrow> MuxClient \<Rightarrow> MuxClient" where
  "ct_close es c = c\<lparr>ct_closed := ct_closed c \<union> es\<rparr>"

text \<open>A write on the control stream that the environment lets succeed or not; \<open>False\<close> also when there
  is no stream.\<close>

definition control_write :: "bool \<Rightarrow> bytes option \<Rightarrow> MuxClient \<Rightarrow> bool \<times> MuxClient" where
  "control_write ok msg c =
     (case ct_controlStream c of
        None \<Rightarrow> (False, c)
      | Some st \<Rightarrow> if ok then (True, ct_send (QStream st) msg c) else (False, c))"

section \<open>Connecting\<close>

datatype connect_error =
    DialFailed | OpenStreamFailed | WriteTypeFailed | RegisterFailed | AckReadFailed
  | AckFailed wire_error

text \<open>What one attempt meets: the connection it gets (after resolving, listening and dialling), the
  stream, the outcomes of the writes, what is read as acknowledgement, whether datagrams are
  supported, and the time for the session restore message.\<close>

record connect_env =
  ce_conn :: "nat option"
  ce_stream :: "nat option"
  ce_writeType :: bool
  ce_writeMsg :: bool
  ce_writeFallback :: bool
  ce_ack :: "bytes option"
  ce_datagrams :: bool
  ce_now :: nat

definition sendRegister :: "bool \<Rightarrow> MuxClient \<Rightarrow> bool \<times> MuxClient" where
  "sendRegister ok c =
     (let cf = ct_config c in
      control_write ok (buildRegisterMessage (cc_TunnelID cf) (cc_Protocol cf) (cc_LocalAddr cf)
        (cc_Domain cf) (cc_AuthToken cf)) c)"

definition sendSessionRestore :: "nat \<Rightarrow> bool \<Rightarrow> MuxClient \<Rightarrow> bool \<times> MuxClient" where
  "sendSessionRestore now ok c =
     control_write ok (Some (buildSessionRestore (ct_tunnelID c) (cc_Protocol (ct_config c))
       (cc_LocalAddr (ct_config c)) now)) c"

definition client_readRegisterAck ::
  "bytes option \<Rightarrow> MuxClient \<Rightarrow> (connect_error, unit) go_result \<times> MuxClient" where
  "client_readRegisterAck arriving c =
     (case ct_controlStream c of
        None \<Rightarrow> (Err AckReadFailed, c)
      | Some st \<Rightarrow>
          (case arriving of
             None \<Rightarrow> (Err AckReadFailed, c)
           | Some d \<Rightarrow>
               (case readRegisterAck d of
                  (res, upd) \<Rightarrow>
                    (case res of Ret u \<Rightarrow> Ret () | Err e \<Rightarrow> Err (AckFailed e) | Panic \<Rightarrow> Panic,
                     case upd of None \<Rightarrow> c
                     | Some (tid, url) \<Rightarrow> c\<lparr>ct_tunnelID := tid, ct_publicURL := url\<rparr>))))"

definition start_loops :: "bool \<Rightarrow> MuxClient \<Rightarrow> MuxClient" where
  "start_loops datagrams c =
     c\<lparr>ct_started := ct_started c @ [HeartbeatLoop] @ (if datagrams then [DatagramLoop] else [])
         @ [ControlLoop]
         @ (if cc_Protocol (ct_config c) = ProtocolQUIC \<or> cc_Protocol (ct_config c) = ProtocolTCP
            then [DataStreamAcceptor] else [])\<rparr>"

text \<open>The steps that \<^verbatim>\<open>connect\<close> and \<^verbatim>\<open>connect0RTT\<close> share: up to the stream type, and from the
  acknowledgement on.\<close>

definition open_control :: "connect_env \<Rightarrow> MuxClient \<Rightarrow> (connect_error, unit) go_result \<times> MuxClient" where
  "open_control v c =
     (case ce_conn v of
        None \<Rightarrow> (Err DialFailed, c)
      | Some q \<Rightarrow>
          let c1 = c\<lparr>ct_conn := Some q\<rparr> in
          (case ce_stream v of
             None \<Rightarrow> (Err OpenStreamFailed, ct_close {QConn q} c1)
           | Some st \<Rightarrow>
               let c2 = c1\<lparr>ct_controlStream := Some st\<rparr> in
               if ce_writeType v then (Ret (), ct_send (QStream st) (Some [StreamTypeControl]) c2)
               else (Err WriteTypeFailed, c2)))"

definition finish_connect :: "connect_env \<Rightarrow> MuxClient \<Rightarrow> (connect_error, unit) go_result \<times> MuxClient" where
  "finish_connect v c =
     (case client_readRegisterAck (ce_ack v) c of
        (Ret u, c1) \<Rightarrow> (Ret (), start_loops (ce_datagrams v) c1)
      | (r, c1) \<Rightarrow> (r, c1))"

definition connect :: "connect_env \<Rightarrow> MuxClient \<Rightarrow> (connect_error, unit) go_result \<times> MuxClient" where
  "connect v c =
     (case open_control v c of
        (Ret u, c1) \<Rightarrow>
          (case sendRegister (ce_writeMsg v) c1 of
             (True, c2) \<Rightarrow> finish_connect v c2
           | (False, c2) \<Rightarrow> (Err RegisterFailed, c2))
      | (r, c1) \<Rightarrow> (r, c1))"

definition connect0RTT :: "connect_env \<Rightarrow> MuxClient \<Rightarrow> (connect_error, unit) go_result \<times> MuxClient" where
  "connect0RTT v c =
     (case open_control v c of
        (Ret u, c1) \<Rightarrow>
          (case sendSessionRestore (ce_now v) (ce_writeMsg v) c1 of
             (True, c2) \<Rightarrow> finish_connect v c2
           | (False, c2) \<Rightarrow>
               (case sendRegister (ce_writeFallback v) c2 of
                  (True, c3) \<Rightarrow> finish_connect v c3
                | (False, c3) \<Rightarrow> (Err RegisterFailed, c3)))
      | (r, c1) \<Rightarrow> (r, c1))"

section \<open>Cached state\<close>

record TunnelState =
  ts_TunnelID :: gostr
  ts_Protocol :: byte
  ts_LocalAddr :: gostr
  ts_PublicURL :: gostr
  ts_SavedAt :: int

definition SaveTunnelState :: "int \<Rightarrow> MuxClient \<Rightarrow> TunnelState" where
  "SaveTunnelState now c =
     \<lparr>ts_TunnelID = ct_tunnelID c, ts_Protocol = cc_Protocol (ct_config c),
      ts_LocalAddr = cc_LocalAddr (ct_config c), ts_PublicURL = ct_publicURL c, ts_SavedAt = now\<rparr>"

definition hasCachedState :: "MuxClient \<Rightarrow> bool" where
  "hasCachedState c \<longleftrightarrow> ct_tunnelID c \<noteq> [] \<and> ct_publicURL c \<noteq> []"

definition RestoreFromState :: "TunnelState \<Rightarrow> MuxClient \<Rightarrow> MuxClient" where
  "RestoreFromState st c =
     (let c1 = (if ts_TunnelID st \<noteq> [] then c\<lparr>ct_tunnelID := ts_TunnelID st\<rparr> else c)
      in if ts_PublicURL st \<noteq> [] then c1\<lparr>ct_publicURL := ts_PublicURL st\<rparr> else c1)"

section \<open>The connect loop\<close>

definition client_retrier :: "MuxClientConfig \<Rightarrow> connect_error Retry_Config" where
  "client_retrier cf =
     NewRetrier \<lparr>rc_MaxAttempts = cc_MaxReconnectTries cf, rc_InitialDelay = cc_ReconnectInterval cf,
                 rc_MaxDelay = 300 * second, rc_Multiplier = 2, rc_Jitter = 1 / 10,
                 rc_RetryableError = Some (\<lambda>_. True)\<rparr>"

definition retry_connect ::
  "(connect_env \<Rightarrow> MuxClient \<Rightarrow> (connect_error, unit) go_result \<times> MuxClient) \<Rightarrow> connect_env retry_env list
     \<Rightarrow> MuxClient \<Rightarrow> (connect_error, unit) retry_outcome \<times> MuxClient" where
  "retry_connect fn vs c =
     (case Retrier_Do (client_retrier (ct_config c)) fn vs c of (out, c1, ds) \<Rightarrow> (out, c1))"

text \<open>What a turn of the loop leads to: still inside the retrier, a crash, the end, another turn with
  that many failed rounds, or connected and waiting.\<close>

datatype connect_next = LoopRunning | LoopPanic | LoopReturn | LoopAgain int | LoopConnected

definition connectLoop_turn ::
  "int \<Rightarrow> connect_env retry_env list \<Rightarrow> connect_env retry_env list \<Rightarrow> bool \<Rightarrow> MuxClient \<Rightarrow> connect_next \<times> MuxClient" where
  "connectLoop_turn tries early regular cancelled c =
     (let cf = ct_config c;
          (out, c1) =
            (if cc_Enable0RTT cf \<and> cc_SessionCache cf \<and> hasCachedState c
             then (case retry_connect connect0RTT early c of
                     (RetryErr e, c0) \<Rightarrow> retry_connect connect regular c0
                   | (r, c0) \<Rightarrow> (r, c0))
             else retry_connect connect regular c)
      in case out of
           RetryRunning \<Rightarrow> (LoopRunning, c1)
         | RetryPanic \<Rightarrow> (LoopPanic, c1)
         | RetryOk u \<Rightarrow> (LoopConnected, c1\<lparr>ct_connected := True\<rparr>)
         | RetryErr e \<Rightarrow>
             if cancelled \<or> e = ErrContextCanceled then (LoopReturn, c1)
             else if cc_MaxReconnectTries cf > 0 \<and> tries \<ge> cc_MaxReconnectTries cf then (LoopReturn, c1)
             else (LoopAgain (tries + 1), c1))"

text \<open>The wait of a connected client: \<open>None\<close> while neither the context nor the channel is ready.\<close>

definition connectLoop_wait :: "MuxClient \<Rightarrow> (connect_next \<times> MuxClient) option" where
  "connectLoop_wait c =
     (if ct_ctxDone c then Some (LoopReturn, c)
      else if ct_reconnectCh c then Some (LoopAgain 0, c\<lparr>ct_reconnectCh := False, ct_connected := False\<rparr>)
      else None)"

definition triggerReconnect :: "MuxClient \<Rightarrow> MuxClient" where
  "triggerReconnect c = c\<lparr>ct_reconnectCh := True\<rparr>"

section \<open>Heartbeats\<close>

definition sendStreamHeartbeat :: "bool \<Rightarrow> MuxClient \<Rightarrow> MuxClient" where
  "sendStreamHeartbeat ok c =
     (case control_write ok (Some [MsgHeartbeat]) c of
        (True, c1) \<Rightarrow> c1
      | (False, c1) \<Rightarrow> triggerReconnect c1)"

text \<open>One tick; the result says whether the loop goes on.\<close>

definition heartbeatLoop_turn :: "nat \<Rightarrow> bool \<Rightarrow> bool \<Rightarrow> bool \<Rightarrow> nat \<Rightarrow> MuxClient \<Rightarrow> bool \<times> MuxClient" where
  "heartbeatLoop_turn nowMs datagrams dgramOk ok conn c =
     (if ct_ctxDone c \<or> \<not> ct_connected c then (False, c)
      else if datagrams
      then (if dgramOk then (True, ct_send (QConn conn) (clientHeartbeat nowMs) c)
            else (True, sendStreamHeartbeat ok c))
      else (True, sendStreamHeartbeat ok c))"

text \<open>Received datagrams change nothing; the loop ends when the client is not connected.\<close>

definition datagramReceiveLoop_turn :: "MuxClient \<Rightarrow> bool" where
  "datagramReceiveLoop_turn c \<longleftrightarrow> \<not> ct_ctxDone c \<and> ct_connected c"

section \<open>Control messages\<close>

text \<open>\<open>None\<close> is a panic of the unchecked parser.\<close>

definition handleNewConn :: "nat option \<Rightarrow> bool \<Rightarrow> gslice \<Rightarrow> MuxClient \<Rightarrow> MuxClient option" where
  "handleNewConn dialed ok payload c =
     (case parseNewConn payload of
        None \<Rightarrow> None
      | Some (connID, remoteAddr) \<Rightarrow>
          if cc_Protocol (ct_config c) = ProtocolQUIC then Some c
          else (case dialed of
                  None \<Rightarrow> Some (snd (control_write ok (BuildCloseConnMessage connID) c))
                | Some l \<Rightarrow>
                    Some (c\<lparr>ct_localConns := (ct_localConns c)(connID \<mapsto> l),
                            ct_activeConns := i64 (ct_activeConns c + 1),
                            ct_totalConns := i64 (ct_totalConns c + 1),
                            ct_started := ct_started c @ [LocalForward connID l]\<rparr>)))"

definition client_close_conn :: "gostr \<Rightarrow> MuxClient \<Rightarrow> MuxClient" where
  "client_close_conn connID c =
     (case ct_localConns c connID of
        None \<Rightarrow> c
      | Some l \<Rightarrow>
          (ct_close {ExtConn l} c)\<lparr>ct_localConns := (ct_localConns c)(connID := None),
             ct_activeConns := i64 (ct_activeConns c - 1)\<rparr>)"

text \<open>\<open>written\<close> is the number of bytes written before the write fails, if it does.\<close>

definition handleData :: "nat option \<Rightarrow> bytes \<Rightarrow> MuxClient \<Rightarrow> MuxClient" where
  "handleData written payload c =
     (case parseDataPayload payload of
        None \<Rightarrow> c
      | Some (connID, d) \<Rightarrow>
          (case ct_localConns c connID of
             None \<Rightarrow> c
           | Some l \<Rightarrow>
               (case written of
                  None \<Rightarrow> (ct_send (ExtConn l) (Some d) c)\<lparr>ct_bytesIn := i64 (ct_bytesIn c + int (length d))\<rparr>
                | Some n \<Rightarrow> client_close_conn connID (ct_send (ExtConn l) (Some (take n d)) c))))"

definition handleConfigUpdate :: "bool \<Rightarrow> bytes \<Rightarrow> MuxClient \<Rightarrow> MuxClient" where
  "handleConfigUpdate ok payload c =
     (case parseConfigUpdate payload of
        None \<Rightarrow> c
      | Some json \<Rightarrow> snd (control_write ok (Some [MsgConfigAck]) c))"

datatype client_turn = TurnOn | TurnReturn | TurnPanic

text \<open>One completed read of \<^verbatim>\<open>controlLoop\<close> into the loop's buffer (\<open>None\<close> is a read error) and the checks
  at the top of the next turn.\<close>

definition client_controlLoop_turn ::
  "nat option \<Rightarrow> bool \<Rightarrow> nat option \<Rightarrow> bytes option \<Rightarrow> MuxClient \<Rightarrow> client_turn \<times> MuxClient" where
  "client_controlLoop_turn dialed ok written arriving c =
     (let go_on = (\<lambda>c'. (if ct_ctxDone c' \<or> ct_controlStream c' = None then TurnReturn else TurnOn, c')) in
      case arriving of
        None \<Rightarrow> (TurnReturn, if ct_ctxDone c then c else triggerReconnect c)
      | Some d \<Rightarrow>
          let c0 = c\<lparr>ct_buf := d @ drop (length d) (ct_buf c)\<rparr> in
          (case parseControlMessage d of
             Ret (ty, payload) \<Rightarrow>
               if ty = MsgNewConn
               then (case handleNewConn dialed ok (payload_view (ct_buf c0) (length d)) c0 of
                       None \<Rightarrow> (TurnPanic, c0)
                     | Some c1 \<Rightarrow> go_on c1)
               else if ty = MsgCloseConn then go_on (client_close_conn payload c0)
               else if ty = MsgData then go_on (handleData written payload c0)
               else if ty = MsgConfigUpdate then go_on (handleConfigUpdate ok payload c0)
               else go_on c0
           | _ \<Rightarrow> go_on c0))"

section \<open>Local connections\<close>

text \<open>One read of \<^verbatim>\<open>forwardLocalToControl\<close>; \<open>paused\<close> is the result of the backpressure check, \<open>q\<close> the
  encoder's pool.\<close>

definition forwardLocalToControl_turn ::
  "bool \<Rightarrow> nat option \<Rightarrow> bool \<Rightarrow> gostr \<Rightarrow> bytes \<Rightarrow> MuxClient \<Rightarrow> BufferPool \<Rightarrow> bool \<times> MuxClient \<times> BufferPool" where
  "forwardLocalToControl_turn paused ch ok connID d c q =
     (if paused then (\<not> ct_ctxDone c, c, q)
      else case DefaultMuxEncoder_EncodeData 10 ch connID d q of
        (Ret b, q0) \<Rightarrow>
          let q1 = DefaultMuxEncoder_Release b q0 in
          (case control_write ok (Some (contents b)) c of
             (False, c1) \<Rightarrow> (False, c1, q1)
           | (True, c1) \<Rightarrow>
               (\<not> ct_ctxDone c1, c1\<lparr>ct_bytesOut := i64 (ct_bytesOut c1 + int (length d))\<rparr>, q1))
      | (_, q0) \<Rightarrow> (False, c, q0))"

definition forwardLocalToControl_end :: "bool \<Rightarrow> gostr \<Rightarrow> nat \<Rightarrow> MuxClient \<Rightarrow> MuxClient" where
  "forwardLocalToControl_end ok connID l c =
     (let c1 = (ct_close {ExtConn l} c)\<lparr>ct_localConns := (ct_localConns c)(connID := None),
                  ct_activeConns := i64 (ct_activeConns c - 1)\<rparr>
      in if \<not> ct_ctxDone c1 \<and> ct_connected c1
         then snd (control_write ok (BuildCloseConnMessage connID) c1) else c1)"

section \<open>Data streams\<close>

text \<open>Which service a data stream is forwarded to.\<close>

datatype stream_route = RouteNone | RouteQUIC gostr gostr bytes | RouteTCP gostr gostr bytes

definition handleQUICDataStream :: "bytes \<Rightarrow> MuxClient \<Rightarrow> stream_route" where
  "handleQUICDataStream arriving c =
     (case client_read_header arriving of
        None \<Rightarrow> RouteNone
      | Some (connID, target, rest) \<Rightarrow>
          let targetAddr = (if target \<noteq> [] then target else cc_LocalAddr (ct_config c));
              pr = cc_Protocol (ct_config c)
          in if pr = ProtocolQUIC then RouteQUIC connID targetAddr rest
             else if pr = ProtocolTCP \<or> pr = ProtocolHTTP then RouteTCP connID targetAddr rest
             else RouteNone)"

definition handleTCPDataStreamForward :: "nat option \<Rightarrow> gostr \<Rightarrow> MuxClient \<Rightarrow> nat option \<times> MuxClient" where
  "handleTCPDataStreamForward dialed connID c =
     (case dialed of
        None \<Rightarrow> (None, c)
      | Some l \<Rightarrow>
          (Some l, c\<lparr>ct_localConns := (ct_localConns c)(connID \<mapsto> l),
                     ct_activeConns := i64 (ct_activeConns c + 1),
                     ct_totalConns := i64 (ct_totalConns c + 1)\<rparr>))"

definition client_stream_in :: "endpoint \<Rightarrow> bytes \<Rightarrow> MuxClient \<Rightarrow> MuxClient" where
  "client_stream_in local d c =
     (ct_send local (Some d) c)\<lparr>ct_bytesIn := i64 (ct_bytesIn c + int (length d))\<rparr>"

definition client_stream_out :: "nat \<Rightarrow> bytes \<Rightarrow> MuxClient \<Rightarrow> MuxClient" where
  "client_stream_out stream d c =
     (ct_send (QStream stream) (Some d) c)\<lparr>ct_bytesOut := i64 (ct_bytesOut c + int (length d))\<rparr>"

text \<open>The deferred calls, with the one of \<^verbatim>\<open>handleQUICDataStream\<close> that closes the stream.\<close>

definition handleTCPDataStreamForward_end :: "gostr \<Rightarrow> nat \<Rightarrow> nat \<Rightarrow> MuxClient \<Rightarrow> MuxClient" where
  "handleTCPDataStreamForward_end connID stream l c =
     (ct_close {ExtConn l, QStream stream} c)\<lparr>ct_localConns := (ct_localConns c)(connID := None),
        ct_activeConns := i64 (ct_activeConns c - 1)\<rparr>"

text \<open>The local stream to forward to, if a local QUIC connection exists or can be dialled and a stream
  can be opened on it.\<close>

definition handleQUICDataStreamForward ::
  "nat option \<Rightarrow> nat option \<Rightarrow> gostr \<Rightarrow> MuxClient \<Rightarrow> nat option \<times> MuxClient" where
  "handleQUICDataStreamForward dialed opened connID c =
     (case ct_localQUICConns c connID of
        Some l \<Rightarrow> (opened, c)
      | None \<Rightarrow>
          (case dialed of
             None \<Rightarrow> (None, c)
           | Some l \<Rightarrow>
               (opened, c\<lparr>ct_localQUICConns := (ct_localQUICConns c)(connID \<mapsto> l),
                          ct_activeConns := i64 (ct_activeConns c + 1),
                          ct_totalConns := i64 (ct_totalConns c + 1)\<rparr>)))"

definition handleQUICDataStreamForward_end :: "nat \<Rightarrow> nat \<Rightarrow> MuxClient \<Rightarrow> MuxClient" where
  "handleQUICDataStreamForward_end stream localStream c = ct_close {QStream localStream, QStream stream} c"

text \<open>A turn of \<^verbatim>\<open>acceptQUICDataStreams\<close>, on the stream that \<^verbatim>\<open>AcceptStream\<close> gives or on its error, together
  with the check at the top of the next turn: whether the loop goes on, and the stream a goroutine is
  started for.\<close>

fun acceptQUICDataStreams_turn :: "nat option \<Rightarrow> MuxClient \<Rightarrow> bool \<times> nat option" where
  "acceptQUICDataStreams_turn (Some stream) c = (\<not> ct_ctxDone c, Some stream)"
| "acceptQUICDataStreams_turn None c = (\<not> ct_ctxDone c, None)"

section \<open>Start, stop and statistics\<close>

text \<open>\<^verbatim>\<open>Start\<close> with the context it is given.\<close>

definition MuxClient_Start :: "bool \<Rightarrow> MuxClient \<Rightarrow> MuxClient" where
  "MuxClient_Start ctxDone c = c\<lparr>ct_ctxDone := ctxDone, ct_started := ct_started c @ [ConnectLoop]\<rparr>"

definition MuxClient_Stop :: "MuxClient \<Rightarrow> MuxClient" where
  "MuxClient_Stop c =
     ct_close (QConn ` (set_option (ct_conn c) \<union> ran (ct_localQUICConns c)) \<union> ExtConn ` ran (ct_localConns c))
       (c\<lparr>ct_ctxDone := True, ct_connected := False\<rparr>)"

record ClientStats =
  cs_TunnelID :: gostr
  cs_PublicURL :: gostr
  cs_Connected :: bool
  cs_ActiveConns :: int
  cs_TotalConns :: int
  cs_BytesIn :: int
  cs_BytesOut :: int

definition MuxClient_GetStats :: "MuxClient \<Rightarrow> ClientStats" where
  "MuxClient_GetStats c =
     \<lparr>cs_TunnelID = ct_tunnelID c, cs_PublicURL = ct_publicURL c, cs_Connected = ct_connected c,
      cs_ActiveConns = ct_activeConns c, cs_TotalConns = ct_totalConns c, cs_BytesIn = ct_bytesIn c,
      cs_BytesOut = ct_bytesOut c\<rparr>"

section \<open>The anti-replay cache\<close>

record AntiReplay =
  ar_cache :: "gostr \<rightharpoonup> int"
  ar_ttl :: int

definition NewAntiReplay :: "int \<Rightarrow> AntiReplay" where
  "NewAntiReplay ttl = \<lparr>ar_cache = Map.empty, ar_ttl = ttl\<rparr>"

definition dec_int :: "int \<Rightarrow> bytes" where
  "dec_int z = (if z < 0 then 45 # dec (nat (- z)) else dec (nat z))"

definition replay_key :: "gostr \<Rightarrow> int \<Rightarrow> gostr" where
  "replay_key clientID timestamp = clientID @ colon # dec_int timestamp"

definition AntiReplay_Check :: "int \<Rightarrow> gostr \<Rightarrow> int \<Rightarrow> AntiReplay \<Rightarrow> bool \<times> AntiReplay" where
  "AntiReplay_Check now clientID timestamp a =
     (let key = replay_key clientID timestamp in
      if ar_cache a key \<noteq> None then (False, a)
      else (True, a\<lparr>ar_cache :=
        (\<lambda>k. case ar_cache a k of
               None \<Rightarrow> None
             | Some v \<Rightarrow> if now - v > ar_ttl a then None else Some v)(key \<mapsto> now)\<rparr>))"

end
