(* ===== verification/Server_Invariants.thy ===== *)
theory Server_Invariants
  imports Tunnel_Server
begin

text \<open>
  Invariants of the tunnel server over every order of its operations. \<open>server_step\<close> has one rule
  per operation of a goroutine; \<open>server_reach\<close> are the states that any interleaving of them leads
  to. The accounting invariant relates the tunnel objects that are alive to the counter of active
  tunnels, the map of tunnels and the ports in use.
\<close>

section \<open>The server as a step relation\<close>

inductive server_step :: "MuxServer \<Rightarrow> MuxServer \<Rightarrow> bool" where
  Connection: "server_step s (snd (handleConnection now alpn conn arrival s))"
| Connection_end: "server_step s (handleConnection_end conn stream s)"
| Control: "p < length (sv_heap s) \<Longrightarrow> server_step s (snd (controlLoop_turn now wfail arriving p s))"
| Listener: "p < length (sv_heap s) \<Longrightarrow> server_step s (startExternalListener ok p s)"
| Listener_end: "p < length (sv_heap s) \<Longrightarrow> server_step s (startExternalListener_end p s)"
| QUICListener: "p < length (sv_heap s) \<Longrightarrow> server_step s (startExternalQUICListener ok p s)"
| QUICListener_end: "p < length (sv_heap s) \<Longrightarrow> server_step s (startExternalQUICListener_end p s)"
| External: "p < length (sv_heap s) \<Longrightarrow>
    server_step s (snd (handleExternalConnection connID addr wfail p c s))"
| External_data: "p < length (sv_heap s) \<Longrightarrow>
    server_step s (fst (snd (forwardExternalToControl_turn ch wfail connID d p s q)))"
| External_end: "p < length (sv_heap s) \<Longrightarrow>
    server_step s (forwardExternalToControl_end wfail connID p c s)"
| ExternalQUIC: "p < length (sv_heap s) \<Longrightarrow>
    server_step s (snd (handleExternalQUICConnection connID addr wfail p c s))"
| ExternalQUIC_end: "server_step s (handleExternalQUICConnection_end c s)"
| QUICStream: "p < length (sv_heap s) \<Longrightarrow>
    server_step s (snd (forwardQUICStream connID opened w1 w2 e p s))"
| QUICStream_out: "server_step s (forwardQUICStream_out stream d s)"
| QUICStream_in: "server_step s (forwardQUICStream_in e d s)"
| QUICStream_end: "server_step s (forwardQUICStream_end e stream s)"
| ExternalHTTP3: "p < length (sv_heap s) \<Longrightarrow>
    server_step s (snd (handleExternalHTTP3Connection connID addr wfail p c s))"
| HTTP3Listener: "p < length (sv_heap s) \<Longrightarrow> server_step s (startExternalHTTP3Listener ok p s)"
| HTTP3Stream: "p < length (sv_heap s) \<Longrightarrow>
    server_step s (snd (forwardHTTP3Stream connID opened w1 w2 e p s))"
| HTTP3Stream_out: "server_step s (forwardHTTP3Stream_out stream n buf s)"
| HTTP3Stream_in: "server_step s (forwardHTTP3Stream_in e n buf s)"
| HTTP3Stream_end: "server_step s (forwardHTTP3Stream_end e stream s)"
| TCPTLS: "server_step s (snd (handleTCPConnection connID opened w1 w2 c arriving s))"
| Bidi_start: "p < length (sv_heap s) \<Longrightarrow> server_step s (forwardBidirectional_start now connID p s)"
| Bidi_out: "p < length (sv_heap s) \<Longrightarrow>
    server_step s (forwardBidirectional_out now connID stream p d s)"
| Bidi_in: "p < length (sv_heap s) \<Longrightarrow> server_step s (forwardBidirectional_in now connID c p d s)"
| Bidi_end: "p < length (sv_heap s) \<Longrightarrow>
    server_step s (forwardBidirectional_end connID stream c p s)"
| Health: "server_step s (healthCheck_tick now ids s)"
| Cleanup: "server_step s (cleanupIdleStreams now visits s)"
| Datagram: "p < length (sv_heap s) \<Longrightarrow> server_step s (handleDatagram now conn data p s)"
| Config: "server_step s (snd (SendConfigUpdate tunnelID json s))"
| Heartbeat: "server_step s (snd (SendEnhancedHeartbeat now tunnelID s))"
| Stop: "server_step s (MuxServer_Stop ids s)"

inductive server_reach :: "MuxServerConfig \<Rightarrow> MuxServer \<Rightarrow> bool" for c where
  New: "server_reach c (NewMuxServer c)"
| Step: "server_reach c s \<Longrightarrow> server_step s s' \<Longrightarrow> server_reach c s'"

section \<open>The accounting invariant\<close>

text \<open>What the accounting depends on: ID, port and liveness of each tunnel object, the map of
  tunnels, the counter, and the ports.\<close>

definition core_of :: "Tunnel \<Rightarrow> gostr \<times> int \<times> bool" where
  "core_of t = (tn_ID t, tn_Port t, tn_cancelled t)"

type_synonym server_core =
  "(gostr \<times> int \<times> bool) list \<times> (gostr \<rightharpoonup> nat) \<times> int \<times> PortManager"

definition core :: "MuxServer \<Rightarrow> server_core" where
  "core s = (map core_of (sv_heap s), sv_tunnels s, sv_activeTunnels s, sv_portManager s)"

definition live :: "MuxServer \<Rightarrow> nat set" where
  "live s = {p. p < length (sv_heap s) \<and> \<not> tn_cancelled (tunnel_at s p)}"

definition with_ports :: "MuxServer \<Rightarrow> nat set" where
  "with_ports s = {p \<in> live s. tn_Port (tunnel_at s p) > 0}"

definition server_inv :: "MuxServer \<Rightarrow> bool" where
  "server_inv s \<longleftrightarrow>
     (\<forall>i p. sv_tunnels s i = Some p \<longrightarrow> p \<in> live s \<and> tn_ID (tunnel_at s p) = i)
     \<and> sv_activeTunnels s = i64 (int (card (live s)))
     \<and> pm_used (sv_portManager s) = (\<lambda>p. tn_Port (tunnel_at s p)) ` with_ports s
     \<and> inj_on (\<lambda>p. tn_Port (tunnel_at s p)) (with_ports s)
     \<and> port_range (sv_portManager s) \<subseteq> {0<..}"

lemma live_finite [simp]: "finite (live s)"
  by (simp add: live_def)

lemma core_eqD:
  assumes "core s' = core s"
  shows "length (sv_heap s') = length (sv_heap s)" and "sv_tunnels s' = sv_tunnels s"
    and "sv_activeTunnels s' = sv_activeTunnels s" and "sv_portManager s' = sv_portManager s"
    and "p < length (sv_heap s) \<Longrightarrow> core_of (tunnel_at s' p) = core_of (tunnel_at s p)"
proof -
  have m: "map core_of (sv_heap s') = map core_of (sv_heap s)" using assms by (simp add: core_def)
  show l: "length (sv_heap s') = length (sv_heap s)" using map_eq_imp_length_eq [OF m] .
  show "core_of (tunnel_at s' p) = core_of (tunnel_at s p)" if "p < length (sv_heap s)"
    using m that l by (metis nth_map)
qed (use assms in \<open>simp_all add: core_def\<close>)

lemma core_live:
  assumes "core s' = core s"
  shows "live s' = live s" and "with_ports s' = with_ports s"
    and "p \<in> live s \<Longrightarrow> tn_Port (tunnel_at s' p) = tn_Port (tunnel_at s p)
          \<and> tn_ID (tunnel_at s' p) = tn_ID (tunnel_at s p)"
  using core_eqD(1,5) [OF assms] by (auto simp: live_def with_ports_def core_of_def)

lemma inv_core: "core s' = core s \<Longrightarrow> server_inv s \<Longrightarrow> server_inv s'"
proof -
  assume c: "core s' = core s" and i: "server_inv s"
  note L = core_live [OF c] and E = core_eqD [OF c]
  have "(\<lambda>p. tn_Port (tunnel_at s' p)) ` with_ports s = (\<lambda>p. tn_Port (tunnel_at s p)) ` with_ports s"
    using L(3) by (intro image_cong) (auto simp: with_ports_def)
  moreover have "inj_on (\<lambda>p. tn_Port (tunnel_at s' p)) (with_ports s)
      \<longleftrightarrow> inj_on (\<lambda>p. tn_Port (tunnel_at s p)) (with_ports s)"
    using L(3) by (intro inj_on_cong) (auto simp: with_ports_def)
  ultimately show "server_inv s'"
    using i L E by (auto simp: server_inv_def)
qed

text \<open>Which operations leave the core alone.\<close>

named_theorems core_simps

lemma core_set_tunnel [core_simps]:
  "core_of t = core_of (tunnel_at s p) \<Longrightarrow> core (set_tunnel p t s) = core s"
  by (simp add: core_def set_tunnel_def map_update)
     (metis list_update_beyond list_update_id length_map linorder_not_le nth_map)

lemma core_send [core_simps]: "core (send e m s) = core s"
  by (simp add: core_def send_def split: option.split)

lemma core_close [core_simps]: "core (close es s) = core s"
  by (simp add: core_def close_def)

lemma core_updates [core_simps]:
  "core (s\<lparr>sv_activeConns := a\<rparr>) = core s" "core (s\<lparr>sv_totalConns := b\<rparr>) = core s"
  "core (s\<lparr>sv_bytesIn := a\<rparr>) = core s" "core (s\<lparr>sv_bytesOut := a\<rparr>) = core s"
  "core (s\<lparr>sv_connLimiter := l\<rparr>) = core s" "core (s\<lparr>sv_circuitBreaker := br\<rparr>) = core s"
  "core (s\<lparr>sv_tunnelByDomain := dm\<rparr>) = core s" "core (s\<lparr>sv_stopped := st\<rparr>) = core s"
  by (simp_all add: core_def)

lemma send_heap [simp]: "sv_heap (send e m s) = sv_heap s"
  by (simp add: send_def split: option.split)

lemma close_heap [simp]: "sv_heap (close es s) = sv_heap s"
  by (simp add: close_def)

lemma core_of_updates [simp]:
  "core_of (t\<lparr>tn_LastActive := a\<rparr>) = core_of t" "core_of (t\<lparr>tn_ExternalConns := m\<rparr>) = core_of t"
  "core_of (t\<lparr>tn_streamActivity := m'\<rparr>) = core_of t" "core_of (t\<lparr>tn_externalListener := b\<rparr>) = core_of t"
  "core_of (t\<lparr>tn_externalQUICListener := b\<rparr>) = core_of t" "core_of (t\<lparr>tn_Conn := q\<rparr>) = core_of t"
  "core_of (t\<lparr>tn_ControlStream := q\<rparr>) = core_of t"
  by (simp_all add: core_of_def)

lemma core_sendAck [core_simps]: "core (sendAck st i u po e s) = core s"
  by (simp add: sendAck_def core_simps)

lemma core_control_close_conn [core_simps]: "core (control_close_conn p connID s) = core s"
  by (simp add: control_close_conn_def Let_def core_simps split: option.split)

lemma core_add_external [core_simps]: "core (add_external p connID c s) = core s"
  by (simp add: add_external_def Let_def core_simps)

lemma core_open_data_stream [core_simps]: "core (open_data_stream pr connID st p s) = core s"
  by (simp add: open_data_stream_def core_simps)

lemma core_touch [core_simps]: "core (touch now connID p s) = core s"
  by (simp add: touch_def Let_def core_simps)

lemma core_cleanup_stream [core_simps]: "core (cleanup_stream now p connID s) = core s"
  by (simp add: cleanup_stream_def Let_def core_simps split: option.split)

lemma core_cleanup: "core (cleanupIdleStreams now visits s) = core s"
  unfolding cleanupIdleStreams_def
  by (induction visits arbitrary: s) (auto simp: core_simps split: option.split)

lemma core_handleTCPConnection: "core (snd (handleTCPConnection connID opened w1 w2 c arriving s)) = core s"
  by (simp add: handleTCPConnection_def Let_def core_simps split: option.split prod.split)

lemma core_handleDatagram: "core (handleDatagram now conn data p s) = core s"
  by (simp add: handleDatagram_def Let_def core_simps split: list.split)

lemmas core_operations =
  handleConnection_end_def startExternalListener_def startExternalListener_end_def
  startExternalQUICListener_def startExternalQUICListener_end_def handleExternalConnection_def
  forwardExternalToControl_turn_def forwardExternalToControl_end_def
  handleExternalQUICConnection_def handleExternalQUICConnection_end_def forwardQUICStream_def
  forwardQUICStream_out_def forwardQUICStream_in_def forwardQUICStream_end_def
  startExternalHTTP3Listener_def handleExternalHTTP3Connection_def forwardHTTP3Stream_def
  forwardHTTP3Stream_out_def forwardHTTP3Stream_in_def forwardHTTP3Stream_end_def open_forward_def
  forwardBidirectional_start_def forwardBidirectional_out_def
  forwardBidirectional_in_def forwardBidirectional_end_def SendConfigUpdate_def
  SendEnhancedHeartbeat_def Let_def

section \<open>Operations that change the accounting\<close>

lemma i64_card_insert: "finite A \<Longrightarrow> x \<notin> A \<Longrightarrow> i64 (i64 (int (card A)) + 1) = i64 (int (card (insert x A)))"
  by (simp add: add.commute)

lemma i64_card_remove: "finite A \<Longrightarrow> x \<in> A \<Longrightarrow> i64 (i64 (int (card A)) - 1) = i64 (int (card (A - {x})))"
  using card_Suc_Diff1 [of A x] by (metis add_diff_cancel_left' i64_diff_left int_Suc add.commute of_nat_Suc)

lemma closeTunnel_core:
  assumes "p < length (sv_heap s)"
  shows "sv_tunnels (closeTunnel p s) = (sv_tunnels s)(tn_ID (tunnel_at s p) := None)"
    and "sv_activeTunnels (closeTunnel p s) = i64 (sv_activeTunnels s - 1)"
    and "sv_portManager (closeTunnel p s) =
      (if tn_Port (tunnel_at s p) > 0 then PortManager_Release (tn_Port (tunnel_at s p)) (sv_portManager s)
       else sv_portManager s)"
    and "length (sv_heap (closeTunnel p s)) = length (sv_heap s)"
    and "live (closeTunnel p s) = live s - {p}"
    and "tn_Port (tunnel_at (closeTunnel p s) q) = tn_Port (tunnel_at s q)"
    and "tn_ID (tunnel_at (closeTunnel p s) q) = tn_ID (tunnel_at s q)"
  using assms
  by (auto simp: closeTunnel_def Let_def set_tunnel_def close_def live_def nth_list_update split: if_splits)

lemma closeTunnel_inv:
  assumes "server_inv s" and "p \<in> live s"
  shows "server_inv (closeTunnel p s)"
proof -
  have p: "p < length (sv_heap s)" using assms(2) by (simp add: live_def)
  let ?s = "closeTunnel p s" and ?port = "\<lambda>q. tn_Port (tunnel_at s q)"
  note C = closeTunnel_core [OF p]
  have ports: "with_ports ?s = with_ports s - {p}" by (auto simp: with_ports_def C)
  have I: "pm_used (sv_portManager s) = ?port ` with_ports s" "inj_on ?port (with_ports s)"
    "sv_activeTunnels s = i64 (int (card (live s)))" "port_range (sv_portManager s) \<subseteq> {0<..}"
    using assms(1) by (simp_all add: server_inv_def)
  have "pm_used (sv_portManager ?s) = ?port ` (with_ports s - {p})"
  proof (cases "p \<in> with_ports s")
    case True
    then have "pm_used (sv_portManager ?s) = ?port ` with_ports s - {?port p}"
      by (simp add: C port_manager.release_used I(1) with_ports_def)
    also have "\<dots> = ?port ` (with_ports s - {p})"
      using I(2) True by (auto simp: inj_on_def)
    finally show ?thesis .
  next
    case False
    then show ?thesis using assms(2) by (simp add: C I(1) with_ports_def)
  qed
  moreover have "sv_activeTunnels ?s = i64 (int (card (live s - {p})))"
    using i64_card_remove [of "live s" p] assms(2) by (simp add: C I(3))
  moreover have "inj_on ?port (with_ports s - {p})" using I(2) by (rule inj_on_diff)
  moreover have "port_range (sv_portManager ?s) \<subseteq> {0<..}"
    using I(4) port_manager.release_ports by (simp add: C)
  moreover have "q \<in> live s - {p} \<and> tn_ID (tunnel_at s q) = i" if "sv_tunnels ?s i = Some q" for i q
    using that assms(1) by (auto simp: C server_inv_def split: if_splits)
  ultimately show ?thesis
    unfolding server_inv_def C(5-7) ports by auto
qed

lemma heap_end_not_live: "length (sv_heap s) \<notin> live s"
  by (simp add: live_def)

lemma store_tunnel_core:
  shows "tunnel_at (store_tunnel t s) (length (sv_heap s)) = t"
    and "q \<in> live s \<Longrightarrow> tunnel_at (store_tunnel t s) q = tunnel_at s q"
    and "\<not> tn_cancelled t \<Longrightarrow> live (store_tunnel t s) = insert (length (sv_heap s)) (live s)"
    and "sv_tunnels (store_tunnel t s) = (sv_tunnels s)(tn_ID t \<mapsto> length (sv_heap s))"
    and "sv_activeTunnels (store_tunnel t s) = i64 (sv_activeTunnels s + 1)"
    and "sv_portManager (store_tunnel t s) = sv_portManager s"
  by (auto simp: store_tunnel_def live_def nth_append less_Suc_eq)

lemma store_tunnel_ports:
  assumes "\<not> tn_cancelled t" and "inj_on (\<lambda>q. tn_Port (tunnel_at s q)) (with_ports s)"
    and "tn_Port t > 0 \<Longrightarrow> tn_Port t \<notin> (\<lambda>q. tn_Port (tunnel_at s q)) ` with_ports s"
  shows "(\<lambda>q. tn_Port (tunnel_at (store_tunnel t s) q)) ` with_ports (store_tunnel t s) =
       (if tn_Port t > 0 then insert (tn_Port t) else id) ((\<lambda>q. tn_Port (tunnel_at s q)) ` with_ports s)"
    and "inj_on (\<lambda>q. tn_Port (tunnel_at (store_tunnel t s) q)) (with_ports (store_tunnel t s))"
proof -
  let ?port = "\<lambda>q. tn_Port (tunnel_at s q)" and ?port' = "\<lambda>q. tn_Port (tunnel_at (store_tunnel t s) q)"
  let ?n = "length (sv_heap s)"
  note S = store_tunnel_core [where t = t and s = s]
  have wp: "with_ports (store_tunnel t s) =
      (if tn_Port t > 0 then insert ?n (with_ports s) else with_ports s)"
    using S(1-3) assms(1) heap_end_not_live [of s] by (auto simp: with_ports_def)
  have n: "?n \<notin> with_ports s" using heap_end_not_live [of s] by (simp add: with_ports_def)
  have eq: "?port' q = ?port q" if "q \<in> with_ports s" for q
    using S(2) that by (simp add: with_ports_def)
  then have img: "?port' ` with_ports s = ?port ` with_ports s" by (intro image_cong) auto
  show "?port' ` with_ports (store_tunnel t s) =
      (if tn_Port t > 0 then insert (tn_Port t) else id) (?port ` with_ports s)"
    using S(1) img by (simp add: wp)
  have "inj_on ?port' (with_ports s)"
    using assms(2) eq by (subst inj_on_cong [of _ ?port' ?port]) auto
  then show "inj_on ?port' (with_ports (store_tunnel t s))"
    using assms(3) S(1) n img by (auto simp: wp)
qed

lemma store_tunnel_inv:
  assumes "server_inv s" and "\<not> tn_cancelled t"
    and "tn_Port t > 0 \<Longrightarrow> tn_Port t \<notin> pm_used (sv_portManager s)"
    and "pm_used m = (if tn_Port t > 0 then insert (tn_Port t) else id) (pm_used (sv_portManager s))"
    and "port_range m = port_range (sv_portManager s)"
  shows "server_inv (store_tunnel t (s\<lparr>sv_portManager := m\<rparr>))"
proof -
  let ?r = "s\<lparr>sv_portManager := m\<rparr>" and ?port = "\<lambda>q. tn_Port (tunnel_at s q)"
  let ?s = "store_tunnel t ?r"
  have r: "live ?r = live s" "with_ports ?r = with_ports s" by (auto simp: live_def with_ports_def)
  have I: "pm_used (sv_portManager s) = ?port ` with_ports s" "inj_on ?port (with_ports s)"
    "sv_activeTunnels s = i64 (int (card (live s)))" "port_range (sv_portManager s) \<subseteq> {0<..}"
    using assms(1) by (simp_all add: server_inv_def)
  note S = store_tunnel_core [where t = t and s = ?r, unfolded r, simplified]
  note P = store_tunnel_ports [of t ?r, unfolded r, simplified, OF assms(2) I(2)]
  have "q \<in> live ?s \<and> tn_ID (tunnel_at ?s q) = i" if "sv_tunnels ?s i = Some q" for i q
    using that S assms(1,2) by (cases "i = tn_ID t") (auto simp: server_inv_def)
  moreover have "sv_activeTunnels ?s = i64 (int (card (live ?s)))"
    using S(3) [OF assms(2)] S(5) i64_card_insert [OF live_finite heap_end_not_live] I(3) by simp
  ultimately show ?thesis
    using P S(6) I assms(3-5) unfolding server_inv_def by auto
qed

section \<open>Every step keeps the invariant\<close>

text \<open>The three outcomes of choosing a public address.\<close>

lemma with_port_cases:
  obtains (none) "with_port scheme s = (None, s)"
  | (port) url port m where "with_port scheme s = (Some (url, port), s\<lparr>sv_portManager := m\<rparr>)"
      "port \<in> port_range (sv_portManager s) - pm_used (sv_portManager s)"
      "pm_used m = insert port (pm_used (sv_portManager s))"
      "port_range m = port_range (sv_portManager s)"
proof (cases "PortManager_Allocate (sv_portManager s)")
  case (Pair po m)
  show ?thesis
  proof (cases po)
    case None
    with Pair port_manager.allocate_None show ?thesis by (intro none) (auto simp: with_port_def)
  next
    case (Some q)
    with port_manager.allocate_Some [of "sv_portManager s" q m] Pair show ?thesis
      by (intro port [of _ q m]) (auto simp: with_port_def)
  qed
qed

lemma address_store_inv:
  assumes "server_inv s"
    and "addr = with_port scheme s \<or> addr = (Some (url0, 0), s)" and "addr = (Some (url, port), s1)"
    and "t = new_tunnel i pr la url port dm conn stream la0"
  shows "server_inv (store_tunnel t s1)"
  using assms(2)
proof
  assume "addr = (Some (url0, 0), s)"
  then show ?thesis
    using store_tunnel_inv [OF assms(1), of t "sv_portManager s"] assms(3,4) by (simp add: new_tunnel_def)
next
  assume w: "addr = with_port scheme s"
  show ?thesis
  proof (rule with_port_cases [of scheme s])
    assume "with_port scheme s = (None, s)"
    with w assms(3) show ?thesis by simp
  next
    fix url' port' m
    assume a: "with_port scheme s = (Some (url', port'), s\<lparr>sv_portManager := m\<rparr>)"
      "port' \<in> port_range (sv_portManager s) - pm_used (sv_portManager s)"
      "pm_used m = insert port' (pm_used (sv_portManager s))"
      "port_range m = port_range (sv_portManager s)"
    then have "port' > 0" using assms(1) by (auto simp: server_inv_def)
    with a w assms(3,4) store_tunnel_inv [OF assms(1), of t m] show ?thesis
      by (auto simp: new_tunnel_def)
  qed
qed

lemma address_none_inv:
  assumes "server_inv s" and "addr = with_port scheme s \<or> addr = (Some (url0, 0), s)"
    and "addr = (None, s1)"
  shows "server_inv s1"
  using assms by (cases rule: with_port_cases [of scheme s]) auto

lemma register_address_cases:
  "\<exists>scheme url0. register_address pr i s = with_port scheme s \<or> register_address pr i s = (Some (url0, 0), s)"
  "\<exists>scheme url0. restore_address pr i s = with_port scheme s \<or> restore_address pr i s = (Some (url0, 0), s)"
  by (auto simp: register_address_def restore_address_def)

lemma register_store_inv:
  assumes "server_inv s"
  shows "register_address pr i s = (Some (url, port), s1) \<Longrightarrow>
      server_inv (store_tunnel (new_tunnel i' pr' la url port dm conn stream la0) s1)"
    and "restore_address pr i s = (Some (url, port), s1) \<Longrightarrow>
      server_inv (store_tunnel (new_tunnel i' pr' la url port dm conn stream la0) s1)"
    and "register_address pr i s = (None, s1) \<Longrightarrow> server_inv s1"
    and "restore_address pr i s = (None, s1) \<Longrightarrow> server_inv s1"
  using register_address_cases [of pr i s] address_store_inv [OF assms] address_none_inv [OF assms]
  by metis+

text \<open>A successful registration changes the accounting only by storing the tunnel.\<close>

lemma registered_core:
  "core (sendAck st i u po e (s\<lparr>sv_circuitBreaker := br\<rparr>)) = core s"
  "core (sendAck st i u po e (s\<lparr>sv_tunnelByDomain := f, sv_circuitBreaker := br\<rparr>)) = core s"
  by (simp_all add: core_simps)

lemma handleRegister_inv:
  assumes "server_inv s"
  shows "server_inv (snd (handleRegister now conn stream payload s))"
proof (cases "parseRegisterPayload payload")
  case (Ret ri)
  obtain a s1 where a: "register_address (ri_protocol ri) (ri_tunnelID ri) s = (a, s1)" by fastforce
  note ack = inv_core [OF core_sendAck]
  show ?thesis
  proof (cases a)
    case None
    with a register_store_inv(3) [OF assms] ack assms show ?thesis
      by (simp add: handleRegister_def Ret)
  next
    case (Some x)
    obtain url port where x: "x = (url, port)" by fastforce
    from register_store_inv(1) [OF assms] a Some x
    have "server_inv (store_tunnel (new_tunnel (ri_tunnelID ri) (ri_protocol ri) (ri_localAddr ri) url
        port dm conn stream (unix now)) s1)" for dm by simp
    from inv_core [OF registered_core(1) this] inv_core [OF registered_core(2) this] a Some x ack assms
    show ?thesis by (simp add: handleRegister_def Ret Let_def)
  qed
qed (use assms inv_core [OF core_sendAck] in \<open>simp_all add: handleRegister_def\<close>)

lemma handleSessionRestore_inv:
  assumes "server_inv s"
  shows "server_inv (snd (handleSessionRestore now conn stream payload s))"
proof (cases "parseSessionRestore payload")
  case (Some y)
  obtain i pr la where y: "y = (i, pr, la)" using prod_cases3 by blast
  note ack = inv_core [OF core_sendAck]
  show ?thesis
  proof (cases "sv_tunnels s i")
    case (Some p)
    have "server_inv (set_tunnel p ((tunnel_at s p)\<lparr>tn_Conn := conn, tn_ControlStream := stream,
        tn_LastActive := unix now\<rparr>) s)"
      using assms by (rule inv_core [OF core_set_tunnel, rotated]) simp
    with \<open>parseSessionRestore payload = Some y\<close> Some y ack show ?thesis
      by (simp add: handleSessionRestore_def Let_def)
  next
    case None
    obtain a s1 where a: "restore_address pr i s = (a, s1)" by fastforce
    with \<open>parseSessionRestore payload = Some y\<close> None y ack register_store_inv(2,4) [OF assms]
    show ?thesis by (cases a) (auto simp: handleSessionRestore_def Let_def)
  qed
qed (use assms in \<open>simp add: handleSessionRestore_def\<close>)

lemma handleControlStream_inv:
  assumes "server_inv s"
  shows "server_inv (snd (handleControlStream now conn stream arriving s))"
proof -
  define r where "r = (case arriving of None \<Rightarrow> (CtlReturn, s)
      | Some data \<Rightarrow>
          (case readControlMessage data of
             Ret (t, payload) \<Rightarrow>
               if t = MsgSessionRestore then handleSessionRestore now conn stream payload s
               else if t \<noteq> MsgRegister then (CtlReturn, s)
               else handleRegister now conn stream payload s
           | _ \<Rightarrow> (CtlReturn, s)))"
  have "server_inv (snd r)"
    using assms handleRegister_inv [OF assms] handleSessionRestore_inv [OF assms]
    by (simp add: r_def split: option.split go_result.split)
  then show ?thesis
    using inv_core [OF core_close]
    by (cases r; cases "fst r") (simp_all add: handleControlStream_def r_def [symmetric])
qed

lemma handleConnection_inv:
  assumes "server_inv s"
  shows "server_inv (snd (handleConnection now alpn conn arrival s))"
proof -
  obtain e b where b: "Breaker_Allow now (sv_circuitBreaker s) = (e, b)" by fastforce
  let ?s1 = "s\<lparr>sv_circuitBreaker := b\<rparr>"
  define r where "r = (case e of
        Some _ \<Rightarrow> (CtlReturn, ?s1)
      | None \<Rightarrow>
          if \<not> alpn_allowed (sc_EntryProtocols (sv_config ?s1)) alpn then (CtlReturn, ?s1)
          else case arrival of
            None \<Rightarrow> (CtlReturn, ?s1\<lparr>sv_circuitBreaker := Breaker_RecordFailure now b\<rparr>)
          | Some (stream, first, arriving) \<Rightarrow>
              if first \<noteq> Some StreamTypeControl then (CtlReturn, close {QStream stream} ?s1)
              else handleControlStream now conn stream arriving ?s1)"
  have s1: "server_inv ?s1" using inv_core [OF core_updates(6) assms] .
  then have "server_inv (snd r)"
    using handleControlStream_inv [OF s1] inv_core [OF core_close s1]
      inv_core [OF core_updates(6) assms]
    by (simp add: r_def split: option.split)
  moreover have "handleConnection now alpn conn arrival s =
      (case r of (CtlReturn, s2) \<Rightarrow> (CtlReturn, close {QConn conn} s2)
       | (CtlLoop p gs, s2) \<Rightarrow> (CtlLoop p gs, s2))"
    by (cases e) (simp_all add: handleConnection_def b r_def Let_def)
  ultimately show ?thesis
    using inv_core [OF core_close] by (cases r; cases "fst r") auto
qed

lemma controlLoop_turn_inv:
  assumes "server_inv s" and "p < length (sv_heap s)"
  shows "server_inv (snd (controlLoop_turn now wfail arriving p s))"
proof (cases arriving)
  case None
  with assms closeTunnel_inv [of s p] show ?thesis
    by (simp add: controlLoop_turn_def Let_def live_def ctx_done_def)
next
  case (Some data)
  have "core (snd (controlLoop_turn now wfail arriving p s)) = core s"
    by (simp add: controlLoop_turn_def Some Let_def core_simps split: go_result.split)
  with assms show ?thesis using inv_core by blast
qed

lemma check_tunnel_inv: "server_inv s \<Longrightarrow> server_inv (check_tunnel now i s)"
  using closeTunnel_inv by (auto simp: check_tunnel_def server_inv_def [of s] split: option.split)

lemma healthCheck_inv: "server_inv s \<Longrightarrow> server_inv (healthCheck_tick now ids s)"
  unfolding healthCheck_tick_def
  by (induction ids arbitrary: s) (simp_all add: check_tunnel_inv)

lemma close_all_inv: "server_inv s \<Longrightarrow> server_inv
    (fold (\<lambda>i s'. case sv_tunnels s' i of None \<Rightarrow> s' | Some p \<Rightarrow> closeTunnel p s') ids s)"
proof (induction ids arbitrary: s)
  case (Cons i ids)
  have "server_inv (case sv_tunnels s i of None \<Rightarrow> s | Some p \<Rightarrow> closeTunnel p s)"
    using Cons(2) closeTunnel_inv [of s] by (auto simp: server_inv_def [of s] split: option.split)
  with Cons(1) show ?case by simp
qed simp

lemma Stop_inv: "server_inv s \<Longrightarrow> server_inv (MuxServer_Stop ids s)"
  unfolding MuxServer_Stop_def by (intro close_all_inv) (rule inv_core [OF core_updates(8)])

lemma core_plain:
  "core (handleConnection_end conn stream s) = core s"
  "core (startExternalListener ok p s) = core s"
  "core (startExternalListener_end p s) = core s"
  "core (startExternalQUICListener ok p s) = core s"
  "core (startExternalQUICListener_end p s) = core s"
  "core (snd (handleExternalConnection connID addr wfail p c s)) = core s"
  "core (fst (snd (forwardExternalToControl_turn ch wfail connID d p s q))) = core s"
  "core (forwardExternalToControl_end wfail connID p c s) = core s"
  "core (snd (handleExternalQUICConnection connID addr wfail p c s)) = core s"
  "core (handleExternalQUICConnection_end c s) = core s"
  "core (snd (forwardQUICStream connID opened w1 w2 e p s)) = core s"
  "core (forwardQUICStream_out stream d s) = core s"
  "core (forwardQUICStream_in e d s) = core s"
  "core (forwardQUICStream_end e stream s) = core s"
  "core (snd (handleExternalHTTP3Connection connID addr wfail p c s)) = core s"
  "core (startExternalHTTP3Listener ok p s) = core s"
  "core (snd (forwardHTTP3Stream connID opened w1 w2 e p s)) = core s"
  "core (forwardHTTP3Stream_out stream n buf s) = core s"
  "core (forwardHTTP3Stream_in e n buf s) = core s"
  "core (forwardHTTP3Stream_end e stream s) = core s"
  "core (forwardBidirectional_start now connID p s) = core s"
  "core (forwardBidirectional_out now connID stream p d s) = core s"
  "core (forwardBidirectional_in now connID c p d s) = core s"
  "core (forwardBidirectional_end connID stream c p s) = core s"
  "core (snd (SendConfigUpdate tunnelID json s)) = core s"
  "core (snd (SendEnhancedHeartbeat now tunnelID s)) = core s"
  by (simp_all add: core_operations core_simps split: option.split prod.split go_result.split)

lemma server_step_inv: "server_step s s' \<Longrightarrow> server_inv s \<Longrightarrow> server_inv s'"
  by (erule server_step.cases)
    (simp_all add: handleConnection_inv controlLoop_turn_inv healthCheck_inv Stop_inv
      inv_core [OF core_handleTCPConnection] inv_core [OF core_cleanup]
      inv_core [OF core_handleDatagram] core_plain [THEN inv_core])

lemma NewMuxServer_inv: "server_inv (NewMuxServer c)"
  by (auto simp: server_inv_def NewMuxServer_def MuxServer_normalize_def Let_def live_def with_ports_def
      NewPortManager_def port_range_def)

lemma server_reach_inv: "server_reach c s \<Longrightarrow> server_inv s"
  by (induction rule: server_reach.induct) (simp_all add: NewMuxServer_inv server_step_inv)

section \<open>Properties\<close>



end
