(* ===== verification/Server_Behaviour.thy ===== *)
theory Server_Behaviour
  imports Server_Invariants
begin

text \<open>
  What the operations of the tunnel server do, end to end with the messages the client and the SDK
  build: registration and its refusals, session restore, closing of replaced tunnels, domain
  routing, the connection limiter, and the circuit breaker in front of it all.
\<close>

section \<open>Vocabulary\<close>

text \<open>A QUIC connection whose control stream brings one message.\<close>

definition control_arrival :: "nat \<Rightarrow> bytes \<Rightarrow> conn_arrival" where
  "control_arrival stream msg = Some (stream, Some StreamTypeControl, Some msg)"

definition admits :: "int \<Rightarrow> gostr \<Rightarrow> MuxServer \<Rightarrow> bool" where
  "admits now alpn s \<longleftrightarrow> fst (Breaker_Allow now (sv_circuitBreaker s)) = None
     \<and> alpn_allowed (sc_EntryProtocols (sv_config s)) alpn"

text \<open>A registration whose fields fit the wire format and the server's read buffer.\<close>

definition wf_register :: "RegisterInfo \<Rightarrow> bool" where
  "wf_register ri \<longleftrightarrow> short (ri_tunnelID ri) \<and> short (ri_localAddr ri) \<and> short (ri_domain ri)
     \<and> short (ri_authToken ri) \<and> valid_protocol (ri_protocol ri)
     \<and> 10 + length (ri_tunnelID ri) + length (ri_localAddr ri) + length (ri_domain ri)
         + length (ri_authToken ri) \<le> 4096"

definition register_msg :: "RegisterInfo \<Rightarrow> bytes option" where
  "register_msg ri = buildRegisterMessage (ri_tunnelID ri) (ri_protocol ri) (ri_localAddr ri)
     (ri_domain ri) (ri_authToken ri)"

definition token_ok :: "MuxServer \<Rightarrow> RegisterInfo \<Rightarrow> bool" where
  "token_ok s ri \<longleftrightarrow> sc_AuthToken (sv_config s) = [] \<or> ri_authToken ri = sc_AuthToken (sv_config s)"

text \<open>The state after a registration was stored, before the acknowledgement.\<close>

definition registered :: "RegisterInfo \<Rightarrow> int \<Rightarrow> nat \<Rightarrow> nat \<Rightarrow> gostr \<Rightarrow> int \<Rightarrow> MuxServer \<Rightarrow> MuxServer" where
  "registered ri now conn stream url port s =
     (let s2 = store_tunnel (new_tunnel (ri_tunnelID ri) (ri_protocol ri) (ri_localAddr ri) url port
                 (ri_domain ri) conn stream (unix now)) s;
          s3 = (if ri_domain ri \<noteq> []
                then s2\<lparr>sv_tunnelByDomain := (sv_tunnelByDomain s2)(ri_domain ri \<mapsto> length (sv_heap s))\<rparr>
                else s2)
      in s3\<lparr>sv_circuitBreaker := Breaker_RecordSuccess (sv_circuitBreaker s3)\<rparr>)"

text \<open>A whole connection through the domain router: opened, forwarded, ended.\<close>

definition tcp_cycle :: "bytes \<Rightarrow> gostr \<times> nat \<times> nat \<Rightarrow> MuxServer \<Rightarrow> MuxServer" where
  "tcp_cycle arriving = (\<lambda>(connID, stream, c) s.
     case handleTCPConnection connID (Some stream) True True c arriving s of
        (None, s1) \<Rightarrow> s1
      | (Some (p, st, payload), s1) \<Rightarrow> forwardBidirectional_end connID st c p s1)"

text \<open>A connection that the breaker may admit but whose first stream is not a control stream.\<close>

fun stray :: "int \<times> gostr \<times> nat \<times> conn_arrival \<Rightarrow> bool" where
  "stray (now, alpn, conn, arrival) =
     (case arrival of None \<Rightarrow> False | Some (stream, first, arriving) \<Rightarrow> first \<noteq> Some StreamTypeControl)"

fun run_connections :: "(int \<times> gostr \<times> nat \<times> conn_arrival) list \<Rightarrow> MuxServer \<Rightarrow> MuxServer" where
  "run_connections [] s = s"
| "run_connections ((now, alpn, conn, arrival) # cs) s =
     run_connections cs (snd (handleConnection now alpn conn arrival s))"

section \<open>Lemmas\<close>

lemma register_msg_read:
  assumes "wf_register ri" and "register_msg ri = Some msg"
  shows "\<exists>payload. readControlMessage msg = Ret (MsgRegister, payload)
     \<and> parseRegisterPayload payload = Ret ri"
proof -
  let ?d = "pstr (ri_tunnelID ri) @ [ri_protocol ri] @ pstr (ri_localAddr ri) @ pstr (ri_domain ri)
      @ pstr (ri_authToken ri)"
  have msg: "msg = MsgRegister # ?d"
    using assms(2) by (simp add: register_msg_def buildRegisterMessage_bytes)
  have "length ?d \<le> 4095" using assms(1) by (simp add: wf_register_def)
  then have "take 4096 msg = msg" by (simp add: msg)
  moreover have "parseRegisterPayload ?d = Ret ri"
    using parseRegisterPayload_bytes [where rest = "[]"] assms(1) by (simp add: wf_register_def)
  ultimately show ?thesis
    by (simp add: readControlMessage_def controlBuffer_def parseControlMessage_def msg)
qed

lemma handleConnection_control:
  assumes "admits now alpn s"
  shows "handleConnection now alpn conn (control_arrival stream msg) s =
     (case handleControlStream now conn stream (Some msg)
             (s\<lparr>sv_circuitBreaker := snd (Breaker_Allow now (sv_circuitBreaker s))\<rparr>) of
        (CtlReturn, s2) \<Rightarrow> (CtlReturn, close {QConn conn} s2)
      | (CtlLoop p gs, s2) \<Rightarrow> (CtlLoop p gs, s2))"
  using assms
  by (cases "Breaker_Allow now (sv_circuitBreaker s)")
    (simp add: handleConnection_def admits_def control_arrival_def)

lemma handleControlStream_register:
  assumes "wf_register ri" and "register_msg ri = Some msg"
  shows "\<exists>payload. parseRegisterPayload payload = Ret ri \<and>
     handleControlStream now conn stream (Some msg) s =
       (case handleRegister now conn stream payload s of
          (CtlReturn, s1) \<Rightarrow> (CtlReturn, close {QStream stream} s1)
        | (CtlLoop p gs, s1) \<Rightarrow> (CtlLoop p gs, s1))"
  using register_msg_read [OF assms] by (auto simp: handleControlStream_def)

lemma send_Some [simp]: "sv_sent (send e (Some b) s) = sv_sent s @ [(e, b)]"
  by (simp add: send_def)

lemma sendAck_sent:
  "sv_sent (sendAck st i u po e s) =
     sv_sent s @ [(QStream st, [MsgRegisterAck] @ pstr i @ pstr u @ be16 (nat (po mod 2 ^ 16)) @ pstr e)]"
  by (simp add: sendAck_def sendRegisterAck_bytes)

lemma send_fields [simp]:
  "sv_tunnels (send e m s) = sv_tunnels s" "sv_tunnelByDomain (send e m s) = sv_tunnelByDomain s"
  "sv_config (send e m s) = sv_config s" "sv_closed (send e m s) = sv_closed s"
  "sv_activeConns (send e m s) = sv_activeConns s" "sv_connLimiter (send e m s) = sv_connLimiter s"
  "sv_circuitBreaker (send e m s) = sv_circuitBreaker s"
  by (simp_all add: send_def split: option.split)

lemma sendAck_fields [simp]:
  "sv_tunnels (sendAck st i u po e s) = sv_tunnels s"
  "sv_tunnelByDomain (sendAck st i u po e s) = sv_tunnelByDomain s"
  "sv_heap (sendAck st i u po e s) = sv_heap s"
  by (simp_all add: sendAck_def)

lemma close_fields [simp]:
  "sv_tunnels (close es s) = sv_tunnels s" "sv_tunnelByDomain (close es s) = sv_tunnelByDomain s"
  "sv_sent (close es s) = sv_sent s" "sv_closed (close es s) = sv_closed s \<union> es"
  "sv_config (close es s) = sv_config s" "sv_activeConns (close es s) = sv_activeConns s"
  "sv_connLimiter (close es s) = sv_connLimiter s"
  "sv_circuitBreaker (close es s) = sv_circuitBreaker s"
  by (simp_all add: close_def)

lemma register_address_Some:
  assumes "pr \<in> {ProtocolTCP, ProtocolQUIC, ProtocolHTTP3} \<longrightarrow>
    \<not> port_range (sv_portManager s) \<subseteq> pm_used (sv_portManager s)"
  shows "\<exists>url port m. register_address pr i s = (Some (url, port), s\<lparr>sv_portManager := m\<rparr>)"
proof (cases "pr \<in> {ProtocolTCP, ProtocolQUIC, ProtocolHTTP3}")
  case True
  with assms port_manager.allocate_free obtain port m where
    "PortManager_Allocate (sv_portManager s) = (Some port, m)" by blast
  with True show ?thesis by (auto simp: register_address_def with_port_def)
next
  case False
  have "s = s\<lparr>sv_portManager := sv_portManager s\<rparr>" by simp
  with False show ?thesis by (auto simp: register_address_def intro: exI [of _ "sv_portManager s"])
qed

lemma handleRegister_ok:
  assumes "parseRegisterPayload payload = Ret ri" and "token_ok s ri"
    and "sv_activeTunnels s < sc_MaxTunnels (sv_config s)"
    and "register_address (ri_protocol ri) (ri_tunnelID ri) s = (Some (url, port), s1)"
  shows "\<exists>gs. handleRegister now conn stream payload s =
     (CtlLoop (length (sv_heap s1)) gs,
      sendAck stream (ri_tunnelID ri) url port [] (registered ri now conn stream url port s1))"
  using assms
  by (auto simp: handleRegister_def token_ok_def constantTimeEqual_eq registered_def Let_def)

subsection \<open>The breaker in front of the server\<close>

lemma handleConnection_refused:
  assumes "fst (Breaker_Allow now (sv_circuitBreaker s)) \<noteq> None"
  shows "handleConnection now alpn conn arrival s = (CtlReturn, close {QConn conn}
     (s\<lparr>sv_circuitBreaker := snd (Breaker_Allow now (sv_circuitBreaker s))\<rparr>))"
  using assms by (auto simp: handleConnection_def split: prod.splits)

lemma handleConnection_stray:
  assumes "stray (now, alpn, conn, arrival)"
  shows "core (snd (handleConnection now alpn conn arrival s)) = core s
     \<and> sv_circuitBreaker (snd (handleConnection now alpn conn arrival s)) =
         snd (Breaker_Allow now (sv_circuitBreaker s))"
  using assms
  by (auto simp: handleConnection_def Let_def core_simps split: option.splits prod.splits)

text \<open>A half-open breaker that has counted all its admissions, with room for \<open>k\<close> more calls before
  its counter overflows.\<close>

definition wedged :: "nat \<Rightarrow> Breaker \<Rightarrow> bool" where
  "wedged k b \<longleftrightarrow> cb_st b = StateHalfOpen \<and> MaxRequests (cb_config b) \<le> requests b
     \<and> 0 \<le> requests b \<and> requests b + int k < 2 ^ 63"

lemma wedged_Allow:
  assumes "wedged (Suc k) b"
  shows "fst (Breaker_Allow now b) = Some ErrTooManyRequests" "wedged k (snd (Breaker_Allow now b))"
  using assms by (simp_all add: wedged_def Breaker_Allow_def Let_def i64_id in_i64_def)

lemma wedged_run:
  "wedged (k + length cs) (sv_circuitBreaker s) \<Longrightarrow>
     core (run_connections cs s) = core s \<and> wedged k (sv_circuitBreaker (run_connections cs s))"
proof (induction cs s rule: run_connections.induct)
  case (2 now alpn conn arrival cs s)
  then have w: "wedged (Suc (k + length cs)) (sv_circuitBreaker s)" by simp
  have "snd (handleConnection now alpn conn arrival s) = close {QConn conn}
      (s\<lparr>sv_circuitBreaker := snd (Breaker_Allow now (sv_circuitBreaker s))\<rparr>)"
    using handleConnection_refused wedged_Allow(1) [OF w] by simp
  with 2 wedged_Allow(2) [OF w] show ?case by (simp add: core_simps)
qed simp

text \<open>A half-open breaker counts each stray connection and records no outcome.\<close>

lemma stray_run:
  assumes "\<forall>x\<in>set cs. stray x" and "cb_st (sv_circuitBreaker s) = StateHalfOpen"
    and "0 \<le> requests (sv_circuitBreaker s)" and "requests (sv_circuitBreaker s) + int (length cs) < 2 ^ 63"
  shows "core (run_connections cs s) = core s \<and>
     sv_circuitBreaker (run_connections cs s) =
       (sv_circuitBreaker s)\<lparr>requests := requests (sv_circuitBreaker s) + int (length cs)\<rparr>"
  using assms
proof (induction cs s rule: run_connections.induct)
  case (2 now alpn conn arrival cs s)
  have "snd (Breaker_Allow now (sv_circuitBreaker s)) =
      (sv_circuitBreaker s)\<lparr>requests := requests (sv_circuitBreaker s) + 1\<rparr>"
    using 2 by (simp add: Breaker_Allow_def Let_def i64_id in_i64_def)
  moreover have "stray (now, alpn, conn, arrival)" using 2 by simp
  ultimately show ?case
    using 2 handleConnection_stray [of now alpn conn arrival s] by (simp add: algebra_simps)
qed simp

lemma run_connections_append:
  "run_connections (xs @ ys) s = run_connections ys (run_connections xs s)"
  by (induction xs s rule: run_connections.induct) simp_all

subsection \<open>The connection limiter of the domain router\<close>

text \<open>The domain is routed to a tunnel object that exists.\<close>

definition routed :: "gostr \<Rightarrow> MuxServer \<Rightarrow> bool" where
  "routed dm s \<longleftrightarrow> (\<exists>p. sv_tunnelByDomain s dm = Some p)"

lemma dial_frame:
  assumes "DialTunnel_header dm = Some frame" and "length dm \<le> 256"
  shows "rd_u16 (frame @ payload) = Some (length dm, dm @ payload)"
    and "rd_n (length dm) (dm @ payload) = Some (dm, payload)"
proof -
  have "frame = be16 (length dm) @ dm" using assms(1) by (simp add: DialTunnel_header_bytes pstr_def)
  with assms(2) show "rd_u16 (frame @ payload) = Some (length dm, dm @ payload)" by simp
qed simp

lemma tcp_cycle_step:
  assumes "DialTunnel_header dm = Some frame" and "0 < length dm" and "length dm \<le> 256" and "routed dm s"
  shows "sv_connLimiter (tcp_cycle frame x s) = snd (ConnectionLimiter_Acquire (sv_connLimiter s))
     \<and> routed dm (tcp_cycle frame x s)"
proof -
  obtain connID stream c where x: "x = (connID, stream, c)" using prod_cases3 by blast
  obtain p where p: "sv_tunnelByDomain s dm = Some p" using assms(4) by (auto simp: routed_def)
  show ?thesis
    using p assms(2,3) dial_frame [OF assms(1,3), of "[]"]
    by (cases "ConnectionLimiter_Acquire (sv_connLimiter s)")
      (auto simp: x tcp_cycle_def handleTCPConnection_def routed_def Let_def add_external_def
        open_data_stream_def forwardBidirectional_end_def set_tunnel_def split: option.split)
qed

subsection \<open>The health check\<close>

definition idle :: "int \<Rightarrow> nat \<Rightarrow> MuxServer \<Rightarrow> bool" where
  "idle now p s \<longleftrightarrow> unix now - tn_LastActive (tunnel_at s p) > sc_TunnelTimeout (sv_config s) div second"

lemma closeTunnel_fields:
  assumes "p < length (sv_heap s)"
  shows "sv_closed s \<subseteq> sv_closed (closeTunnel p s)"
    and "QConn (tn_Conn (tunnel_at s p)) \<in> sv_closed (closeTunnel p s)"
    and "sv_config (closeTunnel p s) = sv_config s"
    and "q \<noteq> p \<Longrightarrow> tunnel_at (closeTunnel p s) q = tunnel_at s q"
  using assms by (auto simp: closeTunnel_def Let_def set_tunnel_def close_def)

lemma check_tunnel_closed:
  assumes "server_inv s"
  shows "live (check_tunnel now j s) \<subseteq> live s" and "sv_closed s \<subseteq> sv_closed (check_tunnel now j s)"
    and "sv_tunnels s i = None \<Longrightarrow> sv_tunnels (check_tunnel now j s) i = None"
proof -
  have "q < length (sv_heap s)" if "sv_tunnels s j = Some q" for q
    using assms that by (auto simp: server_inv_def live_def)
  note C = closeTunnel_core [OF this] closeTunnel_fields [OF this]
  show "live (check_tunnel now j s) \<subseteq> live s"
    by (cases "sv_tunnels s j") (simp_all add: check_tunnel_def C)
  show "sv_closed s \<subseteq> sv_closed (check_tunnel now j s)"
    by (cases "sv_tunnels s j") (simp_all add: check_tunnel_def C)
  show "sv_tunnels (check_tunnel now j s) i = None" if "sv_tunnels s i = None"
    using that by (cases "sv_tunnels s j") (simp_all add: check_tunnel_def C)
qed

lemma tick_keeps_closed:
  "server_inv s \<Longrightarrow> sv_tunnels s i = None \<Longrightarrow> p \<notin> live s \<Longrightarrow> x \<in> sv_closed s \<Longrightarrow>
     sv_tunnels (healthCheck_tick now ids s) i = None \<and> p \<notin> live (healthCheck_tick now ids s)
     \<and> x \<in> sv_closed (healthCheck_tick now ids s)"
  unfolding healthCheck_tick_def
proof (induction ids arbitrary: s)
  case (Cons j ids)
  let ?s = "check_tunnel now j s"
  have "sv_tunnels ?s i = None" "p \<notin> live ?s" "x \<in> sv_closed ?s"
    using check_tunnel_closed [OF Cons(2), where now = now and j = j] Cons(3-5) by auto
  from Cons(1) [OF check_tunnel_inv [OF Cons(2)] this] show ?case by simp
qed simp

lemma check_tunnel_other:
  assumes "server_inv s" and "sv_tunnels s i = Some p" and "j \<noteq> i \<or> \<not> idle now p s"
  shows "let s' = check_tunnel now j s in
     sv_tunnels s' i = Some p \<and> tunnel_at s' p = tunnel_at s p \<and> sv_config s' = sv_config s"
proof (cases "sv_tunnels s j")
  case (Some q)
  have q: "q < length (sv_heap s)" "tn_ID (tunnel_at s q) = j" "tn_ID (tunnel_at s p) = i"
    using assms(1,2) Some by (auto simp: server_inv_def live_def)
  show ?thesis
    using assms(2,3) Some q closeTunnel_core(1) [OF q(1)] closeTunnel_fields(3) [OF q(1)]
      closeTunnel_fields(4) [OF q(1), of p]
    by (cases "j = i") (auto simp: check_tunnel_def Let_def idle_def)
qed (use assms in \<open>simp add: check_tunnel_def\<close>)

lemma check_tunnel_idle:
  assumes "server_inv s" and "sv_tunnels s i = Some p" and "idle now p s"
  shows "let s' = check_tunnel now i s in
     sv_tunnels s' i = None \<and> p \<notin> live s' \<and> QConn (tn_Conn (tunnel_at s p)) \<in> sv_closed s'"
proof -
  have p: "p < length (sv_heap s)" "tn_ID (tunnel_at s p) = i"
    using assms(1,2) by (auto simp: server_inv_def live_def)
  show ?thesis
    using assms(2,3) p(2) closeTunnel_core(1,5) [OF p(1)] closeTunnel_fields(2) [OF p(1)]
    by (simp add: check_tunnel_def idle_def Let_def)
qed

lemma tick_result:
  assumes "server_inv s" and "sv_tunnels s i = Some p"
  shows "let s' = healthCheck_tick now ids s in
     if idle now p s \<and> i \<in> set ids
     then sv_tunnels s' i = None \<and> p \<notin> live s' \<and> QConn (tn_Conn (tunnel_at s p)) \<in> sv_closed s'
     else sv_tunnels s' i = Some p \<and> p \<in> live s'"
  using assms
proof (induction ids arbitrary: s)
  case Nil
  then show ?case by (auto simp: healthCheck_tick_def server_inv_def)
next
  case (Cons j ids)
  let ?s = "check_tunnel now j s"
  have i: "server_inv ?s" using Cons(2) by (rule check_tunnel_inv)
  have t: "healthCheck_tick now (j # ids) s = healthCheck_tick now ids ?s"
    by (simp add: healthCheck_tick_def)
  show ?case
  proof (cases "j \<noteq> i \<or> \<not> idle now p s")
    case True
    with check_tunnel_other [OF Cons(2,3), where now = now] Cons(1) [OF i] show ?thesis
      unfolding t by (auto simp: Let_def idle_def)
  next
    case False
    then have "j = i" "idle now p s" by simp_all
    with check_tunnel_idle [OF Cons(2,3), where now = now]
      tick_keeps_closed [OF i, of i p "QConn (tn_Conn (tunnel_at s p))" now ids] show ?thesis
      unfolding t by (simp add: Let_def)
  qed
qed

subsection \<open>Registration\<close>

lemma registration_ok:
  assumes "admits now alpn s" and "wf_register ri" and "register_msg ri = Some msg"
    and "token_ok s ri" and "sv_activeTunnels s < sc_MaxTunnels (sv_config s)"
    and "ri_protocol ri \<in> {ProtocolTCP, ProtocolQUIC, ProtocolHTTP3} \<longrightarrow>
         \<not> port_range (sv_portManager s) \<subseteq> pm_used (sv_portManager s)"
    and "handleConnection now alpn conn (control_arrival stream msg) s = (out, s')"
  shows "let p = length (sv_heap s); t = tunnel_at s' p in
     (\<exists>gs. out = CtlLoop p gs) \<and> sv_tunnels s' (ri_tunnelID ri) = Some p \<and> p \<in> live s'
     \<and> (ri_domain ri \<noteq> [] \<longrightarrow> sv_tunnelByDomain s' (ri_domain ri) = Some p)
     \<and> tn_LocalAddr t = ri_localAddr ri \<and> tn_Conn t = conn \<and> tn_LastActive t = unix now
     \<and> (\<exists>ack. sv_sent s' = sv_sent s @ [(QStream stream, ack)] \<and>
          (length (ri_tunnelID ri) + length (tn_PublicURL t) \<le> 1015 \<longrightarrow>
           readRegisterAck ack = (Ret (), Some (ri_tunnelID ri, tn_PublicURL t))))"
proof -
  let ?s1 = "s\<lparr>sv_circuitBreaker := snd (Breaker_Allow now (sv_circuitBreaker s))\<rparr>"
  from handleControlStream_register [OF assms(2,3), of now conn stream ?s1] obtain payload where
    p: "parseRegisterPayload payload = Ret ri"
    "handleControlStream now conn stream (Some msg) ?s1 =
       (case handleRegister now conn stream payload ?s1 of
          (CtlReturn, s1) \<Rightarrow> (CtlReturn, close {QStream stream} s1)
        | (CtlLoop p gs, s1) \<Rightarrow> (CtlLoop p gs, s1))" by blast
  obtain url port m where addr: "register_address (ri_protocol ri) (ri_tunnelID ri) ?s1 =
      (Some (url, port), ?s1\<lparr>sv_portManager := m\<rparr>)"
    using register_address_Some [of "ri_protocol ri" ?s1 "ri_tunnelID ri"] assms(6) by auto
  have "token_ok ?s1 ri" "sv_activeTunnels ?s1 < sc_MaxTunnels (sv_config ?s1)"
    using assms(4,5) by (simp_all add: token_ok_def)
  from handleRegister_ok [OF p(1) this addr, of now conn stream] obtain gs where
    "handleRegister now conn stream payload ?s1 = (CtlLoop (length (sv_heap s)) gs,
       sendAck stream (ri_tunnelID ri) url port []
         (registered ri now conn stream url port (?s1\<lparr>sv_portManager := m\<rparr>)))"
    by auto
  then have h: "out = CtlLoop (length (sv_heap s)) gs" "s' = sendAck stream (ri_tunnelID ri) url port []
         (registered ri now conn stream url port (?s1\<lparr>sv_portManager := m\<rparr>))"
    using p(2) handleConnection_control [OF assms(1), of conn stream msg] assms(7) by simp_all
  have ack: "readRegisterAck ([MsgRegisterAck] @ pstr (ri_tunnelID ri) @ pstr url @ be16 n @ pstr [])
      = (Ret (), Some (ri_tunnelID ri, url))" if "length (ri_tunnelID ri) + length url \<le> 1015" for n
    using readRegisterAck_bytes [of "ri_tunnelID ri" url "[]" n] that
    by (simp add: short_def ackBuffer_def)
  show ?thesis
    using ack
    by (auto simp: h Let_def sendAck_sent registered_def store_tunnel_def new_tunnel_def live_def)
qed

section \<open>Properties\<close>

text \<open>C10. A registration with a wrong token is refused: the server keeps its tunnels, domains, ports
  and counters as they were, sends one acknowledgement, closes the connection, and the client's
  \<^verbatim>\<open>readRegisterAck\<close> turns that acknowledgement into the error \<open>authentication failed\<close>.\<close>

theorem wrong_token_refused:
  assumes "admits now alpn s" and "wf_register ri" and "register_msg ri = Some msg"
    and "\<not> token_ok s ri" and "length (ri_tunnelID ri) \<le> 900"
    and "handleConnection now alpn conn (control_arrival stream msg) s = (out, s')"
  shows "out = CtlReturn \<and> core s' = core s \<and> sv_tunnelByDomain s' = sv_tunnelByDomain s
     \<and> QConn conn \<in> sv_closed s' \<and>
     (\<exists>ack. sv_sent s' = sv_sent s @ [(QStream stream, ack)] \<and>
        readRegisterAck ack =
          (Err (ServerError (str ''authentication failed'')), Some (ri_tunnelID ri, [])))"
proof -
  let ?s1 = "s\<lparr>sv_circuitBreaker := snd (Breaker_Allow now (sv_circuitBreaker s))\<rparr>"
  let ?s2 = "sendAck stream (ri_tunnelID ri) [] 0 (str ''authentication failed'') ?s1"
  from handleControlStream_register [OF assms(2,3), of now conn stream ?s1] obtain payload where
    p: "parseRegisterPayload payload = Ret ri"
    "handleControlStream now conn stream (Some msg) ?s1 =
       (case handleRegister now conn stream payload ?s1 of
          (CtlReturn, s1) \<Rightarrow> (CtlReturn, close {QStream stream} s1)
        | (CtlLoop p gs, s1) \<Rightarrow> (CtlLoop p gs, s1))" by blast
  have "handleRegister now conn stream payload ?s1 = (CtlReturn, ?s2)"
    using assms(4) by (simp add: handleRegister_def p(1) token_ok_def constantTimeEqual_eq)
  with p(2) handleConnection_control [OF assms(1), of conn stream msg] assms(6)
  have s': "out = CtlReturn" "s' = close {QConn conn} (close {QStream stream} ?s2)" by simp_all
  have "length (str ''authentication failed'') = 21" by (simp add: str_def)
  with readRegisterAck_bytes [of "ri_tunnelID ri" "[]" "str ''authentication failed''" 0] assms(2,5)
  have "readRegisterAck ([MsgRegisterAck] @ pstr (ri_tunnelID ri) @ pstr [] @ be16 0
      @ pstr (str ''authentication failed'')) =
    (Err (ServerError (str ''authentication failed'')), Some (ri_tunnelID ri, []))"
    by (auto simp: wf_register_def short_def ackBuffer_def)
  then show ?thesis
    by (simp add: s' core_simps sendAck_sent)
qed

theorem wrong_token_refused_witness:
  "let s = NewMuxServer (DefaultMuxServerConfig\<lparr>sc_AuthToken := [1]\<rparr>);
       ri = \<lparr>ri_tunnelID = [97], ri_protocol = 1, ri_localAddr = [108], ri_domain = [], ri_authToken = [2]\<rparr> in
   \<exists>msg s'. register_msg ri = Some msg
     \<and> handleConnection 0 [] 5 (control_arrival 6 msg) s = (CtlReturn, s') \<and> sv_tunnels s' = Map.empty"
proof -
  let ?s = "NewMuxServer (DefaultMuxServerConfig\<lparr>sc_AuthToken := [1]\<rparr>)"
  let ?ri = "\<lparr>ri_tunnelID = [97], ri_protocol = 1, ri_localAddr = [108], ri_domain = [], ri_authToken = [2]\<rparr>"
  obtain msg where m: "register_msg ?ri = Some msg"
    by (simp add: register_msg_def buildRegisterMessage_bytes)
  obtain out s' where h: "handleConnection 0 [] 5 (control_arrival 6 msg) ?s = (out, s')" by fastforce
  have s: "sc_AuthToken (sv_config ?s) = [1]" "ep_EnableQUIC (sc_EntryProtocols (sv_config ?s))"
    "cb_st (sv_circuitBreaker ?s) = StateClosed" "sv_tunnels ?s = Map.empty"
    by (simp_all add: NewMuxServer_def MuxServer_normalize_def DefaultMuxServerConfig_def Let_def
        DefaultEntryProtocolConfig_def NewBreaker_def str_def)
  have "admits 0 [] ?s"
    using s by (simp add: admits_def Breaker_Allow_def alpn_allowed_def str_def)
  moreover have "wf_register ?ri" by (simp add: wf_register_def short_def valid_protocol_def)
  moreover have "\<not> token_ok ?s ?ri" using s by (simp add: token_ok_def)
  ultimately have "out = CtlReturn" "core s' = core ?s"
    using wrong_token_refused [OF _ _ m _ _ h] by auto
  with m h s(4) show ?thesis by (auto simp: core_def)
qed

text \<open>C35. Session restore needs no token: a connection that names a registered tunnel takes the tunnel
  over, whatever token the server is configured with. The tunnel's connection and control stream become
  those of the newcomer, which the server then closes itself when the handler returns; a tunnel ID
  that is not registered is registered, again without a token and beyond the tunnel limit.\<close>

theorem session_restore_unauthenticated:
  assumes "admits now alpn s" and "short i" and "short la" and "5 + length i + length la + 9 \<le> 4096"
    and "handleConnection now alpn conn (control_arrival stream (buildSessionRestore i pr la ts)) s = (out, s')"
  shows "(\<forall>p. sv_tunnels s i = Some p \<and> p < length (sv_heap s) \<longrightarrow>
        out = CtlReturn \<and> tn_Conn (tunnel_at s' p) = conn \<and> tn_ControlStream (tunnel_at s' p) = stream
        \<and> {QConn conn, QStream stream} \<subseteq> sv_closed s')
     \<and> (sv_tunnels s i = None \<and> pr \<notin> {ProtocolTCP, ProtocolQUIC} \<longrightarrow>
        (\<exists>gs. out = CtlLoop (length (sv_heap s)) gs) \<and> sv_tunnels s' i = Some (length (sv_heap s))
        \<and> tn_LastActive (tunnel_at s' (length (sv_heap s))) = 0)"
proof -
  let ?msg = "buildSessionRestore i pr la ts"
  let ?s1 = "s\<lparr>sv_circuitBreaker := snd (Breaker_Allow now (sv_circuitBreaker s))\<rparr>"
  have "?msg = MsgSessionRestore # tl ?msg" "length ?msg \<le> 4096"
    using assms(4) by (simp_all add: buildSessionRestore_def)
  then have "readControlMessage ?msg = Ret (MsgSessionRestore, tl ?msg)"
    by (metis readControlMessage_def controlBuffer_def parseControlMessage_def take_all list.simps(5))
  then have "handleConnection now alpn conn (control_arrival stream ?msg) s =
      (case (case handleSessionRestore now conn stream (tl ?msg) ?s1 of
               (CtlReturn, s1) \<Rightarrow> (CtlReturn, close {QStream stream} s1)
             | (CtlLoop p gs, s1) \<Rightarrow> (CtlLoop p gs, s1)) of
         (CtlReturn, s2) \<Rightarrow> (CtlReturn, close {QConn conn} s2)
       | (CtlLoop p gs, s2) \<Rightarrow> (CtlLoop p gs, s2))"
    by (simp add: handleConnection_control [OF assms(1)] handleControlStream_def)
  then show ?thesis
    using assms(5)
    by (auto simp: handleSessionRestore_def parseSessionRestore_bytes [OF assms(2,3)] Let_def
        set_tunnel_def restore_address_def store_tunnel_def new_tunnel_def)
qed

theorem session_restore_unauthenticated_witness:
  "let s = store_tunnel (new_tunnel [97] 2 [] [] 0 [] 1 2 0)
             (NewMuxServer (DefaultMuxServerConfig\<lparr>sc_AuthToken := [1]\<rparr>));
       s' = snd (handleConnection 0 [] 9 (control_arrival 10 (buildSessionRestore [97] 2 [] 7)) s) in
   sc_AuthToken (sv_config s) = [1] \<and> tn_Conn (tunnel_at s' 0) = 9 \<and> QConn 9 \<in> sv_closed s'"
proof -
  let ?s = "store_tunnel (new_tunnel [97] 2 [] [] 0 [] 1 2 0)
             (NewMuxServer (DefaultMuxServerConfig\<lparr>sc_AuthToken := [1]\<rparr>))"
  obtain out s' where h: "handleConnection 0 [] 9
      (control_arrival 10 (buildSessionRestore [97] 2 [] 7)) ?s = (out, s')" by fastforce
  have s: "sc_AuthToken (sv_config ?s) = [1]" "ep_EnableQUIC (sc_EntryProtocols (sv_config ?s))"
    "cb_st (sv_circuitBreaker ?s) = StateClosed" "sv_tunnels ?s [97] = Some 0" "length (sv_heap ?s) = 1"
    by (simp_all add: NewMuxServer_def MuxServer_normalize_def DefaultMuxServerConfig_def Let_def
        DefaultEntryProtocolConfig_def NewBreaker_def str_def store_tunnel_def new_tunnel_def)
  have "admits 0 [] ?s"
    using s by (simp add: admits_def Breaker_Allow_def alpn_allowed_def str_def)
  from session_restore_unauthenticated [OF this _ _ _ h] s h show ?thesis
    by (simp add: short_def)
qed



text \<open>A tunnel that was replaced takes its successor with it: when two live tunnels were registered
  under one ID and domain (a client that reconnects before its old connection is noticed dead) and
  the old one is closed, the new tunnel stays alive but disappears from the maps, so connections
  for its domain are refused.\<close>

lemma closing_replaced_tunnel_unroutes_new:
  assumes "p \<in> live s" and "q \<in> live s" and "p \<noteq> q"
    and "tn_ID (tunnel_at s p) = i" and "tn_Domain (tunnel_at s p) = dm" and "dm \<noteq> []"
    and "sv_tunnels s i = Some q" and "sv_tunnelByDomain s dm = Some q"
    and "length dm \<le> 256" and "DialTunnel_header dm = Some hdr"
  shows "let s' = closeTunnel p s in
     q \<in> live s' \<and> sv_tunnels s' i = None
     \<and> handleTCPConnection connID opened w1 w2 c (hdr @ payload) s' = (None, close {ExtConn c} s')"
proof -
  have p: "p < length (sv_heap s)" using assms(1) by (simp add: live_def)
  have dom: "sv_tunnelByDomain (closeTunnel p s) dm = None"
    using assms(5,6) by (simp add: closeTunnel_def Let_def set_tunnel_def close_def)
  have "handleTCPConnection connID opened w1 w2 c (hdr @ payload) (closeTunnel p s)
      = (None, close {ExtConn c} (closeTunnel p s))"
    using dial_frame [OF assms(10,9), of payload] assms(6,9) dom by (simp add: handleTCPConnection_def)
  with closeTunnel_core(1,5) [OF p] assms show ?thesis by (simp add: Let_def)
qed

lemma closing_replaced_tunnel_unroutes_new_witness:
  "\<exists>s hdr. DialTunnel_header [100] = Some hdr \<and> 1 \<in> live (closeTunnel 0 s)
     \<and> fst (handleTCPConnection [1] (Some 7) True True 8 (hdr @ []) (closeTunnel 0 s)) = None"
proof -
  let ?t = "new_tunnel [97] 2 [] [] 0 [100] 1 2 0"
  let ?s = "(store_tunnel ?t (store_tunnel ?t (NewMuxServer DefaultMuxServerConfig)))
      \<lparr>sv_tunnelByDomain := [[100] \<mapsto> 1]\<rparr>"
  obtain hdr where hdr: "DialTunnel_header [100] = Some hdr" by (simp add: DialTunnel_header_bytes)
  have "0 \<in> live ?s" "1 \<in> live ?s" "tn_ID (tunnel_at ?s 0) = [97]" "tn_Domain (tunnel_at ?s 0) = [100]"
    "sv_tunnels ?s [97] = Some 1" "sv_tunnelByDomain ?s [100] = Some 1"
    by (simp_all add: store_tunnel_def new_tunnel_def live_def NewMuxServer_def Let_def)
  from closing_replaced_tunnel_unroutes_new [OF this(1,2) _ this(3,4) _ this(5,6) _ hdr,
      of "[1]" "Some 7" True True 8 "[]"] hdr
  show ?thesis by (auto simp: Let_def)
qed

text \<open>Domain routing end to end: a connection that starts with the frame \<^verbatim>\<open>DialTunnelWithPayload\<close>
  sends for a registered domain is accepted while the limiter has room; the data stream it opens
  carries a header from which the client recovers the new connection's ID and the tunnel's local
  address, the connection is filed under that ID, and the payload is what remains to be forwarded.\<close>

lemma dial_reaches_tunnel:
  assumes "DialTunnelWithPayload_header dm payload = Some frame" and "0 < length dm" and "length dm \<le> 256"
    and "sv_tunnelByDomain s dm = Some p" and "p < length (sv_heap s)"
    and "fst (ConnectionLimiter_Acquire (sv_connLimiter s)) = None"
    and "short (tn_LocalAddr (tunnel_at s p))" and "short connID"
  shows "\<exists>s' hdr. handleTCPConnection connID (Some stream) True True c frame s =
       (Some (p, stream, payload), s')
     \<and> sv_sent s' = sv_sent s @ [(QStream stream, [StreamTypeData]), (QStream stream, hdr)]
     \<and> client_read_header ([StreamTypeData] @ hdr @ rest) =
         Some (connID, tn_LocalAddr (tunnel_at s p), rest)
     \<and> tn_ExternalConns (tunnel_at s' p) connID = Some c"
proof -
  let ?h = "stream_header ProtocolTCP connID (tunnel_at s p)"
  have len: "length dm mod 65536 = length dm" using assms(3) by simp
  have frame: "frame = be16 (length dm) @ dm @ payload"
    using assms(1) by (simp add: DialTunnel_header_bytes pstr_def)
  have rd: "rd_u16 frame = Some (length dm, dm @ payload)" using len by (simp add: frame)
  obtain l where l: "ConnectionLimiter_Acquire (sv_connLimiter s) = (None, l)"
    using assms(6) by (metis prod.collapse)
  have "\<not> has_stream_id (sh_Protocol ?h) (sh_Flags ?h)" "is_protocol (sh_Protocol ?h)"
    by (simp_all add: stream_header_def has_stream_id_def is_protocol_def word_le_nat_alt)
  then have "client_read_header (StreamTypeData # header_bytes ?h @ rest) =
      Some (connID, tn_LocalAddr (tunnel_at s p), rest)"
    using client_read_header_bytes [of ?h rest] assms(7,8) by (simp add: stream_header_def)
  moreover have "handleTCPConnection connID (Some stream) True True c frame s =
      (Some (p, stream, payload),
       add_external p connID c (open_data_stream ProtocolTCP connID stream p (s\<lparr>sv_connLimiter := l\<rparr>)))"
    using rd assms(2-4) l by (simp add: handleTCPConnection_def)
  ultimately show ?thesis
    using assms(5)
    by (simp add: add_external_def open_data_stream_def SessionHeader_Encode_bytes set_tunnel_def Let_def)
qed

text \<open>C36. The domain router never gives a limiter slot back: each connection that was routed, forwarded and
  ended leaves the limiter one slot fuller, so once the number of slots that were free has been
  served, the limiter is full with no connection open and every later connection is refused.\<close>

theorem tcp_router_exhausts_limiter:
  assumes "DialTunnel_header dm = Some frame" and "0 < length dm" and "length dm \<le> 256" and "routed dm s"
    and "0 \<le> cl_current (sv_connLimiter s)" and "cl_current (sv_connLimiter s) \<le> cl_max (sv_connLimiter s)"
    and "cl_max (sv_connLimiter s) < 2 ^ 63"
  shows "let l = sv_connLimiter s; s' = fold (tcp_cycle frame) xs s in
     cl_current (sv_connLimiter s') = min (cl_max l) (cl_current l + int (length xs))
     \<and> (cl_max l - cl_current l \<le> int (length xs) \<longrightarrow>
          fst (handleTCPConnection connID opened w1 w2 c frame s') = None)"
proof -
  have run: "cl_current (sv_connLimiter (fold (tcp_cycle frame) xs s)) =
        min (cl_max (sv_connLimiter s)) (cl_current (sv_connLimiter s) + int (length xs))
      \<and> cl_max (sv_connLimiter (fold (tcp_cycle frame) xs s)) = cl_max (sv_connLimiter s)
      \<and> routed dm (fold (tcp_cycle frame) xs s)"
    using assms(4-7)
  proof (induction xs arbitrary: s)
    case (Cons x xs)
    note step = tcp_cycle_step [OF assms(1-3) Cons(2), of x]
    with Cons show ?case
      by (auto simp: ConnectionLimiter_Acquire_def i64_id in_i64_def min_def split: if_splits)
  qed simp
  then obtain p where p: "sv_tunnelByDomain (fold (tcp_cycle frame) xs s) dm = Some p"
    by (auto simp: routed_def)
  with run dial_frame [OF assms(1,3), of "[]"] assms(2,3) show ?thesis
    by (auto simp: Let_def handleTCPConnection_def ConnectionLimiter_Acquire_def)
qed

theorem tcp_router_exhausts_limiter_witness:
  "\<exists>frame. DialTunnel_header [100] = Some frame \<and>
     (let s = (store_tunnel (new_tunnel [97] 2 [108] [] 0 [100] 1 2 0)
                (NewMuxServer (DefaultMuxServerConfig\<lparr>sc_MaxTunnels := 1, sc_MaxConnsPerTunnel := 2\<rparr>)))
              \<lparr>sv_tunnelByDomain := [[100] \<mapsto> 0]\<rparr> in
      cl_current (sv_connLimiter (fold (tcp_cycle frame) [([1], 1, 1), ([2], 2, 2)] s)) = 2)"
proof -
  let ?s = "(store_tunnel (new_tunnel [97] 2 [108] [] 0 [100] 1 2 0)
                (NewMuxServer (DefaultMuxServerConfig\<lparr>sc_MaxTunnels := 1, sc_MaxConnsPerTunnel := 2\<rparr>)))
              \<lparr>sv_tunnelByDomain := [[100] \<mapsto> 0]\<rparr>"
  obtain frame where f: "DialTunnel_header [100] = Some frame" by (simp add: DialTunnel_header_bytes)
  have "routed [100] ?s" by (simp add: routed_def)
  moreover have "sv_connLimiter ?s = \<lparr>cl_max = 2, cl_current = 0\<rparr>"
    by (simp add: store_tunnel_def NewMuxServer_def Let_def MuxServer_normalize_def
        DefaultMuxServerConfig_def NewConnectionLimiter_def i64_id in_i64_def)
  ultimately show ?thesis
    using tcp_router_exhausts_limiter [OF f, of ?s "[([1], 1, 1), ([2], 2, 2)]"] f
    by (simp add: Let_def)
qed

text \<open>Connections that record no outcome wedge the breaker: when the timeout of an open breaker is
  over and the next \<open>MaxRequests + 1\<close> connections open a stream that is not a control stream, the
  breaker stays half-open and every later connection is refused, whatever it brings and whenever
  it comes, for as long as the request counter does not overflow.\<close>

lemma stray_connections_wedge_breaker:
  assumes "cb_st (sv_circuitBreaker s) = StateOpen" and "requests (sv_circuitBreaker s) = 0"
    and "0 < MaxRequests (cb_config (sv_circuitBreaker s))"
    and "cb_Timeout (cb_config (sv_circuitBreaker s)) < t - lastFailureTime (sv_circuitBreaker s)"
    and "\<forall>x\<in>set ((t, al, co, ar) # strays). stray x"
    and "int (length strays) = MaxRequests (cb_config (sv_circuitBreaker s))"
    and "int (length strays + length later) < 2 ^ 63 - 1"
  shows "let s' = run_connections ((t, al, co, ar) # strays @ later) s;
             b' = snd (Breaker_Allow now (sv_circuitBreaker s')) in
     core s' = core s \<and> handleConnection now alpn conn arrival s' =
       (CtlReturn, close {QConn conn} (s'\<lparr>sv_circuitBreaker := b'\<rparr>))"
proof -
  let ?b = "sv_circuitBreaker s" and ?s1 = "snd (handleConnection t al co ar s)"
  let ?s2 = "run_connections strays ?s1"
  have "snd (Breaker_Allow t ?b) = transition StateHalfOpen ?b"
    using assms(1,4) by (simp add: Breaker_Allow_def)
  with handleConnection_stray [of t al co ar s] assms(5)
  have s1: "core ?s1 = core s" "sv_circuitBreaker ?s1 = transition StateHalfOpen ?b" by simp_all
  have half: "cb_st (transition StateHalfOpen ?b) = StateHalfOpen"
    "requests (transition StateHalfOpen ?b) = 0" "cb_config (transition StateHalfOpen ?b) = cb_config ?b"
    using assms(1) by (simp_all add: transition_def)
  with stray_run [of strays ?s1] s1 assms(5,7)
  have s2: "core ?s2 = core s" "sv_circuitBreaker ?s2 =
      (transition StateHalfOpen ?b)\<lparr>requests := int (length strays)\<rparr>" by simp_all
  then have "wedged (1 + length later) (sv_circuitBreaker ?s2)"
    using half assms(6,7) by (simp add: wedged_def)
  from wedged_run [OF this] have "core (run_connections later ?s2) = core s"
    "wedged (Suc 0) (sv_circuitBreaker (run_connections later ?s2))" using s2(1) by simp_all
  with handleConnection_refused wedged_Allow(1) show ?thesis
    by (simp add: Let_def run_connections_append)
qed

lemma stray_connections_wedge_breaker_witness:
  "let b = Breaker_ForceOpen (NewBreaker server_breaker_config);
       s = (NewMuxServer DefaultMuxServerConfig)\<lparr>sv_circuitBreaker := b\<rparr>;
       x = (40000000000, [], 1, Some (1, Some 9, None)) in
   fst (handleConnection 99000000000 [] 5 (Some (2, Some 1, Some []))
     (run_connections (x # replicate 10 x @ []) s)) = CtlReturn"
proof -
  let ?b = "Breaker_ForceOpen (NewBreaker server_breaker_config)"
  let ?s = "(NewMuxServer DefaultMuxServerConfig)\<lparr>sv_circuitBreaker := ?b\<rparr>"
  have "cb_st ?b = StateOpen" "requests ?b = 0" "MaxRequests (cb_config ?b) = 10"
    "cb_Timeout (cb_config ?b) = 30000000000" "lastFailureTime ?b = 0"
    by (simp_all add: Breaker_ForceOpen_def NewBreaker_def transition_def Breaker_normalize_def
        server_breaker_config_def second_def)
  with stray_connections_wedge_breaker [of ?s 40000000000 "[]" 1 "Some (1, Some 9, None)"
      "replicate 10 (40000000000, [], 1, Some (1, Some 9, None))" "[]"
      99000000000 "[]" 5 "Some (2, Some 1, Some [])"]
  show ?thesis by (simp add: Let_def)
qed

text \<open>C12. One tick of the health check, from any reachable state and in whatever order the map is
  visited: a tunnel whose last activity is longer ago than the timeout loses its map entry, is
  cancelled, and its connection is closed; every other tunnel stays registered and alive.\<close>

theorem health_check_closes_exactly_idle:
  assumes "server_reach c s" and "set ids = dom (sv_tunnels s)" and "sv_tunnels s i = Some p"
  shows "let s' = healthCheck_tick now ids s in
     if unix now - tn_LastActive (tunnel_at s p) > sc_TunnelTimeout (sv_config s) div second
     then sv_tunnels s' i = None \<and> p \<notin> live s' \<and> QConn (tn_Conn (tunnel_at s p)) \<in> sv_closed s'
     else sv_tunnels s' i = Some p \<and> p \<in> live s'"
proof -
  have "i \<in> set ids" using assms(2,3) by auto
  with tick_result [OF server_reach_inv [OF assms(1)] assms(3), of now ids] show ?thesis
    by (simp add: idle_def)
qed

theorem health_check_closes_exactly_idle_witness:
  "let s = snd (handleConnection 0 [] 5 (control_arrival 6 (buildSessionRestore [97] 2 [] 7))
             (NewMuxServer DefaultMuxServerConfig)) in
   sv_tunnels s [97] = Some 0 \<and> sv_tunnels (healthCheck_tick 301000000000 [[97]] s) [97] = None
   \<and> sv_tunnels (healthCheck_tick 1000000000 [[97]] s) [97] = Some 0"
proof -
  let ?new = "NewMuxServer DefaultMuxServerConfig"
  let ?h = "handleConnection 0 [] 5 (control_arrival 6 (buildSessionRestore [97] 2 [] 7)) ?new"
  let ?s = "snd ?h"
  have r: "server_reach DefaultMuxServerConfig ?s" using server_reach.New server_step.Connection by (rule server_reach.Step)
  have h: "readControlMessage (buildSessionRestore [97] 2 [] 7) =
      Ret (MsgSessionRestore, tl (buildSessionRestore [97] 2 [] 7))"
    by (simp add: readControlMessage_def controlBuffer_def parseControlMessage_def buildSessionRestore_def)
  have a: "admits 0 [] ?new"
    by (simp add: admits_def Breaker_Allow_def alpn_allowed_def str_def NewMuxServer_def Let_def second_def
        MuxServer_normalize_def DefaultMuxServerConfig_def DefaultEntryProtocolConfig_def NewBreaker_def)
  have n: "sv_tunnels ?new = Map.empty" "sv_heap ?new = []" "sc_TunnelTimeout (sv_config ?new) = 300 * second"
    by (simp_all add: NewMuxServer_def Let_def MuxServer_normalize_def DefaultMuxServerConfig_def second_def)
  have s: "sv_tunnels ?s = [[97] \<mapsto> 0]" "tn_LastActive (tunnel_at ?s 0) = 0"
    "sc_TunnelTimeout (sv_config ?s) = 300 * second"
    using parseSessionRestore_bytes [of "[97]" "[]" 2 7] n
    by (simp_all add: handleConnection_control [OF a] handleControlStream_def h handleSessionRestore_def
        Let_def restore_address_def store_tunnel_def new_tunnel_def short_def sendAck_def)
  have d: "set [[97]] = dom (sv_tunnels ?s)" "sv_tunnels ?s [97] = Some 0" using s(1) by simp_all
  from health_check_closes_exactly_idle [OF r d, of 301000000000]
    health_check_closes_exactly_idle [OF r d, of 1000000000] d(2) s(2,3)
  show ?thesis by (simp add: Let_def unix_def second_def)
qed

text \<open>Closing a tunnel counts an external connection down twice: once in \<^verbatim>\<open>closeTunnel\<close>, which
  closes the connections of the tunnel, and once more when the forwarding goroutine of the connection
  ends because of that. A connection that was accepted and then lost with its tunnel leaves the counter
  of active connections one lower than before it came.\<close>

lemma active_connections_counted_down_twice:
  assumes "p < length (sv_heap s)" and "tn_ExternalConns (tunnel_at s p) = Map.empty"
    and "fst (ConnectionLimiter_Acquire (sv_connLimiter s)) = None"
    and "in_i64 (sv_activeConns s)"
  shows "let s1 = snd (handleExternalConnection connID addr wfail p c s);
             s2 = closeTunnel p s1; s3 = forwardExternalToControl_end wfail' connID p c s2 in
     sv_activeConns s1 = i64 (sv_activeConns s + 1) \<and> sv_activeConns s2 = sv_activeConns s
     \<and> sv_activeConns s3 = i64 (sv_activeConns s - 1)"
proof -
  obtain l where l: "ConnectionLimiter_Acquire (sv_connLimiter s) = (None, l)"
    using assms(3) by (metis prod.collapse)
  let ?s1 = "snd (handleExternalConnection connID addr wfail p c s)"
  have 1: "sv_activeConns ?s1 = i64 (sv_activeConns s + 1)" "tn_ExternalConns (tunnel_at ?s1 p) = [connID \<mapsto> c]"
    using assms(1,2) by (simp_all add: handleExternalConnection_def l add_external_def set_tunnel_def Let_def)
  have "sv_activeConns (closeTunnel p ?s1) = i64 (i64 (sv_activeConns s + 1) - 1)"
    by (simp add: closeTunnel_def set_tunnel_def Let_def 1)
  then have 2: "sv_activeConns (closeTunnel p ?s1) = sv_activeConns s" using assms(4) by simp
  have "sv_activeConns (forwardExternalToControl_end wfail' connID p c (closeTunnel p ?s1)) =
      i64 (sv_activeConns (closeTunnel p ?s1) - 1)"
    by (simp add: forwardExternalToControl_end_def set_tunnel_def Let_def)
  with 1 2 show ?thesis by (simp add: Let_def)
qed

lemma active_connections_counted_down_twice_witness:
  "let s = store_tunnel (new_tunnel [97] 1 [] [] 10000 [] 1 2 0) (NewMuxServer DefaultMuxServerConfig);
       s1 = snd (handleExternalConnection [1] [] False 0 7 s) in
   sv_activeConns (forwardExternalToControl_end False [1] 0 7 (closeTunnel 0 s1)) = -1"
proof -
  let ?s = "store_tunnel (new_tunnel [97] 1 [] [] 10000 [] 1 2 0) (NewMuxServer DefaultMuxServerConfig)"
  have "0 < length (sv_heap ?s)" "tn_ExternalConns (tunnel_at ?s 0) = Map.empty"
    "fst (ConnectionLimiter_Acquire (sv_connLimiter ?s)) = None" "sv_activeConns ?s = 0"
    by (simp_all add: store_tunnel_def new_tunnel_def NewMuxServer_def Let_def MuxServer_normalize_def
        DefaultMuxServerConfig_def NewConnectionLimiter_def ConnectionLimiter_Acquire_def in_i64_def)
  with active_connections_counted_down_twice [of 0 ?s "[1]" "[]" False 7 False] show ?thesis
    by (simp add: Let_def in_i64_def)
qed

text \<open>The two directions of an HTTP/3 stream overwrite each other: without interference the chunk read
  from the external stream is what is written to the tunnel, but when the other direction reads a
  chunk of that length between the read and the write, the tunnel is sent the bytes that came from
  it, the user's bytes are lost, and the counter is advanced as if they had been sent.\<close>

lemma http3_directions_mix:
  assumes "length up = length down" and "length up \<le> length buf"
  shows "let b1 = forwardHTTP3Stream_read up buf; b2 = forwardHTTP3Stream_read down b1;
             alone = forwardHTTP3Stream_out stream (length up) b1 s;
             mixed = forwardHTTP3Stream_out stream (length up) b2 s in
     sv_sent alone = sv_sent s @ [(QStream stream, up)]
     \<and> sv_sent mixed = sv_sent s @ [(QStream stream, down)]
     \<and> sv_bytesIn mixed = sv_bytesIn alone"
  using assms by (simp add: Let_def forwardHTTP3Stream_out_def forwardHTTP3Stream_read_def)

lemma http3_directions_mix_witness:
  "sv_sent (forwardHTTP3Stream_out 3 (length [1, 2 :: byte]) (forwardHTTP3Stream_read [8, 9] (forwardHTTP3Stream_read [1, 2] [0, 0, 0]))
     (NewMuxServer DefaultMuxServerConfig)) = [(QStream 3, [8, 9])]"
proof -
  have "sv_sent (NewMuxServer DefaultMuxServerConfig) = []" by (simp add: NewMuxServer_def Let_def)
  with http3_directions_mix [of "[1, 2]" "[8, 9]" "[0, 0, 0]" 3 "NewMuxServer DefaultMuxServerConfig"]
  show ?thesis unfolding Let_def by (metis append_Nil length_Cons list.size(3) Suc_le_mono le0)
qed

end
