(* ===== verification/Client_Behaviour.thy ===== *)
theory Client_Behaviour
  imports Tunnel_Client Server_Behaviour
begin

text \<open>
  Client and server together: registration, the announcement of a connection, data on the control
  stream; and what the client does alone: reconnecting, and the anti-replay cache.
\<close>

section \<open>Vocabulary\<close>

text \<open>The registration a client asks for.\<close>

definition client_info :: "MuxClient \<Rightarrow> RegisterInfo" where
  "client_info c =
     (let cf = ct_config c in
      \<lparr>ri_tunnelID = cc_TunnelID cf, ri_protocol = cc_Protocol cf, ri_localAddr = cc_LocalAddr cf,
       ri_domain = cc_Domain cf, ri_authToken = cc_AuthToken cf\<rparr>)"

text \<open>An attempt that gets a connection and a stream and can write.\<close>

definition smooth :: "nat \<Rightarrow> connect_env \<Rightarrow> bool" where
  "smooth st v \<longleftrightarrow> ce_conn v \<noteq> None \<and> ce_stream v = Some st \<and> ce_writeType v \<and> ce_writeMsg v"

text \<open>An attempt that fails before the client has written its message.\<close>

definition unreachable :: "connect_env \<Rightarrow> bool" where
  "unreachable v \<longleftrightarrow> ce_conn v = None \<or> ce_stream v = None \<or> \<not> ce_writeType v"

definition running :: "MuxClient \<Rightarrow> bool" where
  "running c \<longleftrightarrow> \<not> ct_ctxDone c \<and> ct_controlStream c \<noteq> None"

fun replay_run :: "(int \<times> gostr \<times> int) list \<Rightarrow> AntiReplay \<Rightarrow> AntiReplay" where
  "replay_run [] a = a"
| "replay_run ((now, i, ts) # cs) a = replay_run cs (snd (AntiReplay_Check now i ts a))"

section \<open>Lemmas\<close>

lemma connect_smooth:
  assumes "smooth st v" and "register_msg (client_info c) = Some msg"
    and "readRegisterAck ack = (Ret (), Some (tid, url))"
  shows "\<exists>c'. connect (v\<lparr>ce_ack := Some ack\<rparr>) c = (Ret (), c')
     \<and> ct_sent c' = ct_sent c @ [(QStream st, [StreamTypeControl]), (QStream st, msg)]
     \<and> ct_tunnelID c' = tid \<and> ct_publicURL c' = url \<and> {HeartbeatLoop, ControlLoop} \<subseteq> set (ct_started c')"
  using assms
  by (auto simp: smooth_def connect_def open_control_def sendRegister_def control_write_def Let_def
      ct_send_def register_msg_def client_info_def finish_connect_def client_readRegisterAck_def start_loops_def)

lemma parseNewConn_bytes:
  assumes "short i" and "short a" and "m = [MsgNewConn] @ pstr i @ pstr a"
  shows "parseNewConn (payload_view (m @ z) (length m)) = Some (i, a)"
proof -
  define p where "p = payload_view (m @ z) (length m)"
  have arr: "arr p = pstr i @ pstr a @ z" and slen: "slen p = 4 + length i + length a"
    by (simp_all add: p_def payload_view_def assms(3))
  note at = v_u16_at [of p "[]" i] v_u16_at [of p "pstr i" a z "2 + length i"]
    v_str_at [of p "[]" i] v_str_at [of p "pstr i" a z "4 + length i"]
  have "v_u16 p 0 = Some (length i)" "v_str p 2 (length i) = Some i"
      "v_u16 p (2 + length i) = Some (length a)" "v_str p (4 + length i) (length a) = Some a"
    using at arr slen assms(1,2) by simp_all
  then show ?thesis unfolding p_def [symmetric] parseNewConn_def by simp
qed

text \<open>The message in which a data chunk travels on the control stream starts with \<^verbatim>\<open>D\<close>, which is not the
  type of any control message.\<close>

lemma text_data_head:
  assumes "txt_pool_ok q" and "length d < 10 ^ 10"
  shows "\<exists>b q'. DefaultMuxEncoder_EncodeData 10 ch connID d q = (Ret b, q')
     \<and> (\<exists>r. contents b = 68 # r)"
  using encodeMessage_frame [OF assms, of ch 10 "str ''DATA:''" connID]
  by (auto simp: DefaultMuxEncoder_EncodeData_def txt_frame_def str_def)

lemma client_ignores:
  assumes "running c"
  shows "client_controlLoop_turn dialed ok w (Some (68 # r)) c =
     (TurnOn, c\<lparr>ct_buf := (68 # r) @ drop (Suc (length r)) (ct_buf c)\<rparr>)"
  using assms by (simp add: client_controlLoop_turn_def parseControlMessage_def running_def Let_def)

subsection \<open>Early data\<close>

lemma connect0RTT_unreachable:
  assumes "unreachable v"
  shows "\<exists>e c'. connect0RTT v c = (Err e, c') \<and> ct_config c' = ct_config c"
  using assms
  by (auto simp: unreachable_def connect0RTT_def open_control_def Let_def ct_close_def ct_send_def
      split: option.split)

lemma unlimited_never_returns:
  assumes "rc_MaxAttempts cfg \<le> 0" and "rc_RetryableError cfg = Some (\<lambda>_. True)" and "uncancelled vs"
    and "\<forall>v\<in>set vs. \<forall>s. \<exists>e s'. fn (re_input v) s = (Err e, s')"
  shows "\<exists>s' ds. DoWithResult_loop cfg fn n d e vs s = (RetryRunning, s', ds)"
  using assms(3,4)
proof (induction vs arbitrary: n d e s)
  case (Cons v vs)
  obtain x s1 where f: "fn (re_input v) s = (Err x, s1)" using Cons(3) by (meson list.set_intros(1))
  let ?d = "if n = 0 then rc_InitialDelay cfg else calculateDelay cfg (re_draws v) d"
  have "uncancelled vs" "\<not> re_ctxTop v" "\<not> re_ctxWait v" using Cons(2) by (simp_all add: uncancelled_def)
  moreover obtain s' ds where "DoWithResult_loop cfg fn (Suc n) ?d (Some x) vs s1 = (RetryRunning, s', ds)"
    using Cons(1) [OF calculation(1), of "Suc n" ?d "Some x" s1] Cons(3) by auto
  ultimately show ?case using f assms(1,2) by (simp add: Let_def)
qed simp

subsection \<open>Anti-replay\<close>

lemma dec_int_colon: "colon \<notin> set (dec_int z)"
  using colon_not_in_dec by (simp add: dec_int_def colon_def)

lemma dec_int_inj: "dec_int y = dec_int z \<Longrightarrow> y = z"
proof -
  have val: "digits_val (dec n) = n" and no: "dec n \<noteq> 45 # r" for n r
    using dec_digits [of n] is_digit_not_special [of 45] by (auto simp: list_all_iff)
  have same: "m = n" if "dec m = dec n" for m n using that val by metis
  assume eq: "dec_int y = dec_int z"
  consider "y < 0" "z < 0" | "y < 0" "0 \<le> z" | "0 \<le> y" "z < 0" | "0 \<le> y" "0 \<le> z" by linarith
  then show "y = z"
  proof cases
    case 1
    with eq same [of "nat (- y)" "nat (- z)"] show ?thesis by (simp add: dec_int_def)
  next
    case 2
    with eq no [of "nat z"] show ?thesis by (simp add: dec_int_def) metis
  next
    case 3
    with eq no [of "nat y"] show ?thesis by (simp add: dec_int_def)
  next
    case 4
    with eq same [of "nat y" "nat z"] show ?thesis by (simp add: dec_int_def)
  qed
qed

lemma split_at_last:
  assumes "c \<notin> set a" and "c \<notin> set b" and "x @ c # a = y @ c # b"
  shows "x = y \<and> a = b"
proof -
  have "rev a @ c # rev x = rev b @ c # rev y" using arg_cong [OF assms(3), of rev] by simp
  moreover have "takeWhile (\<lambda>z. z \<noteq> c) (rev a @ c # rev x) = rev a"
    "takeWhile (\<lambda>z. z \<noteq> c) (rev b @ c # rev y) = rev b"
    using assms(1,2) by (simp_all add: takeWhile_sep)
  ultimately show ?thesis by simp
qed

lemma replay_key_inj: "replay_key i ts = replay_key j us \<longleftrightarrow> i = j \<and> ts = us"
  using split_at_last [OF dec_int_colon dec_int_colon] dec_int_inj
  by (auto simp: replay_key_def)

lemma check_keeps:
  assumes "ar_cache a k = Some v" and "now \<le> v + ar_ttl a"
  shows "\<exists>v'. ar_cache (snd (AntiReplay_Check now i ts a)) k = Some v' \<and> v' = v"
  using assms by (auto simp: AntiReplay_Check_def Let_def)

lemma replay_run_keeps:
  assumes "ar_cache a k = Some v" and "\<forall>(now, x)\<in>set cs. now \<le> v + ar_ttl a"
  shows "ar_cache (replay_run cs a) k = Some v"
  using assms
proof (induction cs a rule: replay_run.induct)
  case (2 now i ts cs a)
  have "ar_cache (snd (AntiReplay_Check now i ts a)) k = Some v" using check_keeps [OF 2(2)] 2(3) by auto
  moreover have "ar_ttl (snd (AntiReplay_Check now i ts a)) = ar_ttl a"
    by (simp add: AntiReplay_Check_def Let_def)
  ultimately show ?case using 2 by auto
qed simp

section \<open>Properties\<close>

text \<open>C6. Registration end to end: a client whose configuration the server accepts and the server
  complete the handshake. The bytes the client writes make the server store a live tunnel; the
  acknowledgement it answers with makes \<^verbatim>\<open>connect\<close> succeed, with the client holding the same tunnel ID
  and the tunnel's public URL and its loops started.\<close>

theorem client_registers:
  assumes "admits now alpn s" and "wf_register (client_info c)" and "token_ok s (client_info c)"
    and "sv_activeTunnels s < sc_MaxTunnels (sv_config s)"
    and "ri_protocol (client_info c) \<in> {ProtocolTCP, ProtocolQUIC, ProtocolHTTP3} \<longrightarrow>
         \<not> port_range (sv_portManager s) \<subseteq> pm_used (sv_portManager s)"
    and "smooth st v"
  shows "\<exists>msg gs s' ack. let p = length (sv_heap s); url = tn_PublicURL (tunnel_at s' p) in
     handleConnection now alpn conn (control_arrival stream msg) s = (CtlLoop p gs, s')
     \<and> p \<in> live s' \<and> sv_tunnels s' (cc_TunnelID (ct_config c)) = Some p
     \<and> sv_sent s' = sv_sent s @ [(QStream stream, ack)]
     \<and> (length (cc_TunnelID (ct_config c)) + length url \<le> 1015 \<longrightarrow>
          (\<exists>c'. connect (v\<lparr>ce_ack := Some ack\<rparr>) c = (Ret (), c')
             \<and> ct_sent c' = ct_sent c @ [(QStream st, [StreamTypeControl]), (QStream st, msg)]
             \<and> ct_tunnelID c' = cc_TunnelID (ct_config c) \<and> ct_publicURL c' = url
             \<and> {HeartbeatLoop, ControlLoop} \<subseteq> set (ct_started c')))"
proof -
  let ?p = "length (sv_heap s)"
  have id: "ri_tunnelID (client_info c) = cc_TunnelID (ct_config c)" by (simp add: client_info_def Let_def)
  obtain msg where m: "register_msg (client_info c) = Some msg"
    by (simp add: register_msg_def buildRegisterMessage_bytes)
  obtain out s' where h: "handleConnection now alpn conn (control_arrival stream msg) s = (out, s')"
    by fastforce
  from registration_ok [OF assms(1,2) m assms(3-5) h] obtain gs ack where
    r: "out = CtlLoop ?p gs" "sv_tunnels s' (cc_TunnelID (ct_config c)) = Some ?p" "?p \<in> live s'"
    "sv_sent s' = sv_sent s @ [(QStream stream, ack)]"
    "length (cc_TunnelID (ct_config c)) + length (tn_PublicURL (tunnel_at s' ?p)) \<le> 1015 \<Longrightarrow>
       readRegisterAck ack = (Ret (), Some (cc_TunnelID (ct_config c), tn_PublicURL (tunnel_at s' ?p)))"
    by (auto simp: Let_def id)
  from h r(1-4) connect_smooth [OF assms(6) m r(5)] show ?thesis
    by (intro exI [of _ msg] exI [of _ gs] exI [of _ s'] exI [of _ ack]) (simp add: Let_def)
qed

theorem client_registers_witness:
  "let s = NewMuxServer (DefaultMuxServerConfig\<lparr>sc_AuthToken := [1]\<rparr>);
       c = NewMuxClient [97] (DefaultMuxClientConfig\<lparr>cc_AuthToken := [1]\<rparr>) in
   \<exists>msg s' gs. handleConnection 0 [] 5 (control_arrival 6 msg) s = (CtlLoop 0 gs, s')
     \<and> sv_tunnels s' [97] = Some 0"
proof -
  let ?s = "NewMuxServer (DefaultMuxServerConfig\<lparr>sc_AuthToken := [1]\<rparr>)"
  let ?c = "NewMuxClient [97] (DefaultMuxClientConfig\<lparr>cc_AuthToken := [1]\<rparr>)"
  let ?v = "\<lparr>ce_conn = Some 1, ce_stream = Some 2, ce_writeType = True, ce_writeMsg = True,
     ce_writeFallback = True, ce_ack = None, ce_datagrams = True, ce_now = 0\<rparr>"
  note defs = NewMuxServer_def MuxServer_normalize_def DefaultMuxServerConfig_def Let_def
    DefaultEntryProtocolConfig_def NewBreaker_def NewPortManager_def
  have c: "client_info ?c = \<lparr>ri_tunnelID = [97], ri_protocol = ProtocolTCP, ri_localAddr = [],
      ri_domain = [], ri_authToken = [1]\<rparr>" "cc_TunnelID (ct_config ?c) = [97]"
    by (simp_all add: client_info_def NewMuxClient_def DefaultMuxClientConfig_def)
  have "admits 0 [] ?s" by (simp add: admits_def Breaker_Allow_def alpn_allowed_def defs str_def)
  moreover have "wf_register (client_info ?c)"
    by (simp add: c wf_register_def short_def valid_protocol_def)
  moreover have "token_ok ?s (client_info ?c)" "sv_activeTunnels ?s < sc_MaxTunnels (sv_config ?s)"
    "\<not> port_range (sv_portManager ?s) \<subseteq> pm_used (sv_portManager ?s)" "sv_heap ?s = []"
    by (simp_all add: token_ok_def c defs port_range_def)
  moreover have "smooth 2 ?v" by (simp add: smooth_def)
  ultimately show ?thesis
    using client_registers [of 0 "[]" ?s ?c 2 ?v 5 6] c(2) unfolding Let_def by fastforce
qed

text \<open>C11. A user connection reaches the local service: the message with which the server announces an
  external connection makes the client's control loop store the local connection it dials under the
  same ID, count it, and start forwarding for it.\<close>

theorem announced_connection_opened:
  assumes "fst (ConnectionLimiter_Acquire (sv_connLimiter s)) = None" and "p < length (sv_heap s)"
    and "short connID" and "short addr" and "5 + length connID + length addr \<le> length (ct_buf c)"
    and "running c" and "cc_Protocol (ct_config c) \<noteq> ProtocolQUIC"
  shows "\<exists>msg. sv_sent (snd (handleExternalConnection connID addr False p k s)) =
       sv_sent s @ [(QStream (tn_ControlStream (tunnel_at s p)), msg)]
     \<and> (\<exists>c'. client_controlLoop_turn (Some l) ok w (Some msg) c = (TurnOn, c')
          \<and> ct_localConns c' = (ct_localConns c)(connID \<mapsto> l)
          \<and> ct_activeConns c' = i64 (ct_activeConns c + 1)
          \<and> ct_started c' = ct_started c @ [LocalForward connID l])"
proof -
  define m where "m = [MsgNewConn] @ pstr connID @ pstr addr"
  obtain li where l: "ConnectionLimiter_Acquire (sv_connLimiter s) = (None, li)"
    using assms(1) by (metis prod.collapse)
  have "sv_sent (snd (handleExternalConnection connID addr False p k s)) =
      sv_sent s @ [(QStream (tn_ControlStream (tunnel_at s p)), m)]"
    using assms(2)
    by (simp add: handleExternalConnection_def l Let_def add_external_def set_tunnel_def
        buildNewConnMessage_bytes m_def)
  moreover have "parseControlMessage m = Ret (MsgNewConn, tl m)" by (simp add: m_def parseControlMessage_def)
  then have "\<exists>c'. client_controlLoop_turn (Some l) ok w (Some m) c = (TurnOn, c')
          \<and> ct_localConns c' = (ct_localConns c)(connID \<mapsto> l)
          \<and> ct_activeConns c' = i64 (ct_activeConns c + 1)
          \<and> ct_started c' = ct_started c @ [LocalForward connID l]"
    using assms(6,7) parseNewConn_bytes [OF assms(3,4) m_def]
    by (simp add: client_controlLoop_turn_def handleNewConn_def running_def Let_def)
  ultimately show ?thesis by blast
qed

theorem announced_connection_opened_witness:
  "\<exists>msg c'. client_controlLoop_turn (Some 3) True None (Some msg)
     ((NewMuxClient [97] DefaultMuxClientConfig)\<lparr>ct_controlStream := Some 1\<rparr>) = (TurnOn, c')
     \<and> ct_localConns c' [7] = Some 3"
proof -
  let ?s = "store_tunnel (new_tunnel [97] 1 [] [] 10000 [] 1 2 0) (NewMuxServer DefaultMuxServerConfig)"
  let ?c = "(NewMuxClient [97] DefaultMuxClientConfig)\<lparr>ct_controlStream := Some 1\<rparr>"
  have "fst (ConnectionLimiter_Acquire (sv_connLimiter ?s)) = None" "0 < length (sv_heap ?s)"
    by (simp_all add: store_tunnel_def NewMuxServer_def Let_def MuxServer_normalize_def
        DefaultMuxServerConfig_def NewConnectionLimiter_def ConnectionLimiter_Acquire_def in_i64_def)
  moreover have "running ?c" "cc_Protocol (ct_config ?c) \<noteq> ProtocolQUIC" "length (ct_buf ?c) = 65536"
    by (simp_all add: running_def NewMuxClient_def DefaultMuxClientConfig_def)
  ultimately obtain msg c' where
    "client_controlLoop_turn (Some 3) True None (Some msg) ?c = (TurnOn, c')"
    "ct_localConns c' = (ct_localConns ?c)([7] \<mapsto> 3)"
    using announced_connection_opened [of ?s 0 "[7]" "[8]" ?c 9 3 True None] by (auto simp: short_def)
  then show ?thesis by (intro exI [of _ msg] exI [of _ c']) simp
qed

text \<open>Data of a connection that was announced on the control stream never arrives: the server sends what
  it reads from the user as a text message, and the client's control loop, which knows binary messages
  only, drops it without a trace; what the client sends back from the local service meets the same fate
  at the server, apart from counting as a sign of life.\<close>

lemma control_stream_data_dropped:
  assumes "txt_pool_ok q" and "length d < 10 ^ 10" and "running c" and "p < length (sv_heap s)"
    and "ct_controlStream c = Some st" and "\<not> ctx_done p s"
  shows "(\<exists>go s1 q1 msg. forwardExternalToControl_turn ch False connID d p s q = (go, s1, q1)
        \<and> sv_sent s1 = sv_sent s @ [(QStream (tn_ControlStream (tunnel_at s p)), msg)]
        \<and> client_controlLoop_turn dialed ok w (Some msg) c =
            (TurnOn, c\<lparr>ct_buf := msg @ drop (length msg) (ct_buf c)\<rparr>))
     \<and> (\<exists>go c1 q1 msg. forwardLocalToControl_turn False ch True connID d c q = (go, c1, q1)
        \<and> ct_sent c1 = ct_sent c @ [(QStream st, msg)]
        \<and> controlLoop_turn now False (Some msg) p s =
            (True, set_tunnel p ((tunnel_at s p)\<lparr>tn_LastActive := unix now\<rparr>) s))"
proof -
  from text_data_head [OF assms(1,2), of ch connID] obtain b q' r where
    e: "DefaultMuxEncoder_EncodeData 10 ch connID d q = (Ret b, q')" "contents b = 68 # r" by blast
  let ?s1 = "send (QStream (tn_ControlStream (tunnel_at s p))) (Some (68 # r)) s"
  have "forwardExternalToControl_turn ch False connID d p s q =
      (\<not> ctx_done p s, ?s1\<lparr>sv_bytesOut := i64 (sv_bytesOut ?s1 + int (length d))\<rparr>, DefaultMuxEncoder_Release b q')"
    by (simp add: forwardExternalToControl_turn_def e Let_def)
  moreover have "ctx_done p (set_tunnel p ((tunnel_at s p)\<lparr>tn_LastActive := unix now\<rparr>) s) = ctx_done p s"
    using assms(4) by (simp add: ctx_done_def set_tunnel_def)
  then have "controlLoop_turn now False (Some (68 # r)) p s =
      (True, set_tunnel p ((tunnel_at s p)\<lparr>tn_LastActive := unix now\<rparr>) s)"
    using assms(6) by (simp add: controlLoop_turn_def parseControlMessage_def Let_def)
  moreover have "forwardLocalToControl_turn False ch True connID d c q =
      (\<not> ct_ctxDone c, (ct_send (QStream st) (Some (68 # r)) c)
         \<lparr>ct_bytesOut := i64 (ct_bytesOut c + int (length d))\<rparr>, DefaultMuxEncoder_Release b q')"
    using assms(5) by (simp add: forwardLocalToControl_turn_def e control_write_def ct_send_def Let_def)
  ultimately show ?thesis
    using client_ignores [OF assms(3), of dialed ok w r] by (auto simp: ct_send_def)
qed

lemma control_stream_data_dropped_witness:
  "let s = store_tunnel (new_tunnel [97] 1 [] [] 10000 [] 1 2 0) (NewMuxServer DefaultMuxServerConfig);
       c = (NewMuxClient [97] DefaultMuxClientConfig)\<lparr>ct_controlStream := Some 1\<rparr> in
   \<exists>msg c'. sv_sent (fst (snd (forwardExternalToControl_turn None False [7] [1, 2] 0 s (snd NewDefaultMuxEncoder)))) =
       sv_sent s @ [(QStream (tn_ControlStream (tunnel_at s 0)), msg)]
     \<and> client_controlLoop_turn (Some 3) True None (Some msg) c = (TurnOn, c') \<and> ct_sent c' = ct_sent c"
proof -
  let ?s = "store_tunnel (new_tunnel [97] 1 [] [] 10000 [] 1 2 0) (NewMuxServer DefaultMuxServerConfig)"
  let ?c = "(NewMuxClient [97] DefaultMuxClientConfig)\<lparr>ct_controlStream := Some 1\<rparr>"
  have p: "txt_pool_ok (snd NewDefaultMuxEncoder)" by (simp add: txt_pool_ok_def NewDefaultMuxEncoder_def NewBufferPool_def)
  have "running ?c" "0 < length (sv_heap ?s)" "ct_controlStream ?c = Some 1" "\<not> ctx_done 0 ?s"
    by (simp_all add: running_def NewMuxClient_def store_tunnel_def ctx_done_def NewMuxServer_def Let_def
        new_tunnel_def)
  with control_stream_data_dropped [OF p, of "[1, 2]" ?c 0 ?s 1 None "[7]" "Some 3" True None 0]
  obtain go s1 q1 msg where "forwardExternalToControl_turn None False [7] [1, 2] 0 ?s (snd NewDefaultMuxEncoder) = (go, s1, q1)"
    "sv_sent s1 = sv_sent ?s @ [(QStream (tn_ControlStream (tunnel_at ?s 0)), msg)]"
    "client_controlLoop_turn (Some 3) True None (Some msg) ?c =
      (TurnOn, ?c\<lparr>ct_buf := msg @ drop (length msg) (ct_buf ?c)\<rparr>)" by auto
  then show ?thesis
    unfolding Let_def
    by (intro exI [of _ msg] exI [of _ "?c\<lparr>ct_buf := msg @ drop (length msg) (ct_buf ?c)\<rparr>"]) simp
qed

text \<open>Early data without end: a client with cached state and the default of unlimited tries that cannot
  complete a connection with early data stays in that retry loop and never tries a regular connection,
  however many attempts fail and whatever a regular attempt would meet; the fallback is never reached.\<close>

lemma early_data_never_falls_back:
  assumes "cc_Enable0RTT (ct_config c)" and "cc_SessionCache (ct_config c)" and "hasCachedState c"
    and "cc_MaxReconnectTries (ct_config c) \<le> 0" and "uncancelled early"
    and "\<forall>v\<in>set early. unreachable (re_input v)"
  shows "fst (connectLoop_turn tries early regular cancelled c) = LoopRunning"
proof -
  let ?cfg = "client_retrier (ct_config c)"
  have cfg: "rc_MaxAttempts ?cfg \<le> 0" "rc_RetryableError ?cfg = Some (\<lambda>_. True)"
    using assms(4) by (simp_all add: client_retrier_def NewRetrier_def)
  have "\<forall>v\<in>set early. \<forall>s. \<exists>e s'. connect0RTT (re_input v) s = (Err e, s')"
    using connect0RTT_unreachable assms(6) by metis
  from unlimited_never_returns [OF cfg assms(5) this, of 0 0 None c] obtain c' ds where
    "DoWithResult_loop ?cfg connect0RTT 0 0 None early c = (RetryRunning, c', ds)" by blast
  then have "retry_connect connect0RTT early c = (RetryRunning, c')"
    by (simp add: retry_connect_def Retrier_Do_def DoWithResult_def)
  with assms(1-3) show ?thesis by (simp add: connectLoop_turn_def Let_def)
qed

lemma early_data_never_falls_back_witness:
  "let c = RestoreFromState \<lparr>ts_TunnelID = [97], ts_Protocol = 1, ts_LocalAddr = [], ts_PublicURL = [98],
             ts_SavedAt = 0\<rparr> (NewMuxClient [97] DefaultMuxClientConfig);
       v = \<lparr>ce_conn = None, ce_stream = None, ce_writeType = True, ce_writeMsg = True,
            ce_writeFallback = True, ce_ack = None, ce_datagrams = True, ce_now = 0\<rparr> in
   fst (connectLoop_turn 0 (replicate 100 \<lparr>re_ctxTop = False, re_input = v, re_draws = (0, 0), re_ctxWait = False\<rparr>)
     [] False c) = LoopRunning"
proof -
  let ?c = "RestoreFromState \<lparr>ts_TunnelID = [97], ts_Protocol = 1, ts_LocalAddr = [], ts_PublicURL = [98],
             ts_SavedAt = 0\<rparr> (NewMuxClient [97] DefaultMuxClientConfig)"
  have "cc_Enable0RTT (ct_config ?c)" "cc_SessionCache (ct_config ?c)" "hasCachedState ?c"
    "cc_MaxReconnectTries (ct_config ?c) \<le> 0"
    by (simp_all add: RestoreFromState_def NewMuxClient_def DefaultMuxClientConfig_def hasCachedState_def Let_def)
  from early_data_never_falls_back [OF this] show ?thesis
    by (simp add: Let_def uncancelled_def unreachable_def list_all_iff)
qed

text \<open>The anti-replay cache refuses a repeated request: once a pair of client ID and timestamp was
  accepted, it is refused after any sequence of other checks within the time to live; a pair that
  is not in the cache is accepted, and different pairs never share an entry.\<close>

lemma replay_refused:
  assumes "AntiReplay_Check now i ts a = (True, a1)"
    and "\<forall>(t, x)\<in>set checks. t \<le> now + ar_ttl a"
  shows "AntiReplay_Check later i ts (replay_run checks a1) = (False, replay_run checks a1)
     \<and> ((j, us) \<noteq> (i, ts) \<and> ar_cache a (replay_key j us) = None \<longrightarrow> fst (AntiReplay_Check now' j us a1))"
proof -
  have "ar_cache a1 (replay_key i ts) = Some now" "ar_ttl a1 = ar_ttl a"
    using assms(1) by (auto simp: AntiReplay_Check_def Let_def split: if_splits)
  with replay_run_keeps [of a1 "replay_key i ts" now checks] assms(2)
  have "ar_cache (replay_run checks a1) (replay_key i ts) = Some now" by auto
  moreover have "ar_cache a1 (replay_key j us) = None"
    if "(j, us) \<noteq> (i, ts)" "ar_cache a (replay_key j us) = None"
    using assms(1) that replay_key_inj [of j us i ts]
    by (auto simp: AntiReplay_Check_def Let_def split: if_splits)
  ultimately show ?thesis by (auto simp: AntiReplay_Check_def Let_def)
qed

lemma replay_refused_witness:
  "let a1 = snd (AntiReplay_Check 0 [97] 5 (NewAntiReplay 100)) in
   \<not> fst (AntiReplay_Check 90 [97] 5 (replay_run [(50, [98], 6)] a1))"
proof -
  have "AntiReplay_Check 0 [97] 5 (NewAntiReplay 100) =
      (True, snd (AntiReplay_Check 0 [97] 5 (NewAntiReplay 100)))"
    by (simp add: AntiReplay_Check_def NewAntiReplay_def Let_def)
  from replay_refused [OF this, of "[(50, [98], 6)]"] show ?thesis
    by (simp add: Let_def NewAntiReplay_def)
qed

section \<open>Data stream acceptors\<close>

text \<open>Attempts that all succeed, one after the other.\<close>

fun connect_all :: "connect_env list \<Rightarrow> MuxClient \<Rightarrow> MuxClient option" where
  "connect_all [] c = Some c"
| "connect_all (v # vs) c = (case connect v c of (Ret u, c1) \<Rightarrow> connect_all vs c1 | _ \<Rightarrow> None)"

text \<open>Every successful attempt starts one more acceptor of data streams, and an acceptor ends only with the
  client: after \<open>n\<close> connections \<open>n\<close> of them run, all on the connection of the moment.\<close>

lemma connect_config: "ct_config (snd (connect v c)) = ct_config c" "ct_ctxDone (snd (connect v c)) = ct_ctxDone c"
  by (auto simp: connect_def open_control_def sendRegister_def control_write_def finish_connect_def
      client_readRegisterAck_def start_loops_def ct_send_def ct_close_def Let_def
      split: option.splits if_splits prod.splits go_result.splits)

lemma connect_starts_acceptor:
  assumes "connect v c = (Ret (), c')" "cc_Protocol (ct_config c) \<in> {ProtocolTCP, ProtocolQUIC}"
  shows "count_list (ct_started c') DataStreamAcceptor = count_list (ct_started c) DataStreamAcceptor + 1"
  using assms
  by (auto simp: connect_def open_control_def sendRegister_def control_write_def finish_connect_def
      client_readRegisterAck_def start_loops_def ct_send_def ct_close_def Let_def
      split: option.splits if_splits prod.splits go_result.splits)

lemma acceptors_accumulate:
  assumes "connect_all vs c = Some c'" "cc_Protocol (ct_config c) \<in> {ProtocolTCP, ProtocolQUIC}" "\<not> ct_ctxDone c"
  shows "count_list (ct_started c') DataStreamAcceptor = count_list (ct_started c) DataStreamAcceptor + length vs
    \<and> fst (acceptQUICDataStreams_turn a c')"
  using assms
proof (induction vs arbitrary: c)
  case (Cons v vs)
  then obtain c1 where c1: "connect v c = (Ret (), c1)" "connect_all vs c1 = Some c'"
    by (auto split: prod.splits go_result.splits)
  then show ?case
    using Cons.IH [OF c1(2)] Cons.prems(2,3) connect_starts_acceptor [OF c1(1) Cons.prems(2)] connect_config [of v c]
    by simp
qed (cases a, auto)

end
