(* ===== verification/Conn_Pool.thy ===== *)
theory Conn_Pool
  imports Go_Prelude
begin

text \<open>
  The pool of reusable client connections of \<^verbatim>\<open>internal/pool/connpool.go\<close>.

  A \<^verbatim>\<open>pooledConn\<close> is an object that callers and the idle list share, so the pool's record has a
  heap of all objects ever created and the idle list holds indices into it. Network connections are
  numbers; \<open>cp_net_closed\<close> lists the calls of \<^verbatim>\<open>Close\<close> on them. The operations are cut at the points where
  the code takes or gives back the mutex or reads the closed flag, and \<open>pool_step\<close> runs these pieces of
  any number of goroutines in any order.
\<close>

section \<open>Data\<close>

datatype pool_error = ErrPoolClosed | ErrPoolExhausted | FactoryError gostr | CtxError gostr

record ConnPoolConfig =
  pl_MaxIdle :: int
  pl_MaxAge :: int
  pl_DialTimeout :: int
  pl_KeepAlive :: int

definition DefaultConnPoolConfig :: ConnPoolConfig where
  "DefaultConnPoolConfig =
     \<lparr>pl_MaxIdle = 10, pl_MaxAge = 0, pl_DialTimeout = 10 * 10 ^ 9, pl_KeepAlive = 30 * 10 ^ 9\<rparr>"

record pooledConn =
  pc_Conn :: nat
  pc_createdAt :: int
  pc_closed :: bool

record ConnPool =
  cp_config :: ConnPoolConfig
  cp_heap :: "pooledConn list"
  cp_conns :: "nat list"
  cp_created :: int
  cp_reused :: int
  cp_closed :: int
  cp_waitCount :: int
  cp_waitTime :: int
  cp_isClosed :: bool
  cp_net_closed :: "nat list"

definition NewConnPool :: "ConnPoolConfig \<Rightarrow> ConnPool" where
  "NewConnPool cfg =
     \<lparr>cp_config = cfg\<lparr>pl_MaxIdle := (if pl_MaxIdle cfg \<le> 0 then 10 else pl_MaxIdle cfg),
        pl_DialTimeout := (if pl_DialTimeout cfg \<le> 0 then 10 * 10 ^ 9 else pl_DialTimeout cfg),
        pl_KeepAlive := (if pl_KeepAlive cfg \<le> 0 then 30 * 10 ^ 9 else pl_KeepAlive cfg)\<rparr>,
      cp_heap = [], cp_conns = [], cp_created = 0, cp_reused = 0, cp_closed = 0, cp_waitCount = 0,
      cp_waitTime = 0, cp_isClosed = False, cp_net_closed = []\<rparr>"

definition set_flag :: "nat \<Rightarrow> bool \<Rightarrow> ConnPool \<Rightarrow> ConnPool" where
  "set_flag pc b p = p\<lparr>cp_heap := (cp_heap p)[pc := (cp_heap p ! pc)\<lparr>pc_closed := b\<rparr>]\<rparr>"

definition net_close :: "nat \<Rightarrow> ConnPool \<Rightarrow> ConnPool" where
  "net_close c p = p\<lparr>cp_net_closed := cp_net_closed p @ [c]\<rparr>"

text \<open>The three statements with which the pool drops a connection it owns.\<close>

definition discard :: "nat \<Rightarrow> ConnPool \<Rightarrow> ConnPool" where
  "discard pc p =
     (let p1 = set_flag pc True (net_close (pc_Conn (cp_heap p ! pc)) p)
      in p1\<lparr>cp_closed := i64 (cp_closed p1 + 1)\<rparr>)"

definition expired :: "int \<Rightarrow> nat \<Rightarrow> ConnPool \<Rightarrow> bool" where
  "expired now pc p \<longleftrightarrow>
     pl_MaxAge (cp_config p) > 0 \<and> now - pc_createdAt (cp_heap p ! pc) > pl_MaxAge (cp_config p)"

section \<open>Getting a connection\<close>

datatype pop_result = PopEmpty | PopExpired | PopReused nat

text \<open>One turn of the loop of \<^verbatim>\<open>Get\<close>: the critical section that pops the last idle connection, and what
  is done with it after the mutex is released.\<close>

definition Get_pop :: "int \<Rightarrow> ConnPool \<Rightarrow> pop_result \<times> ConnPool" where
  "Get_pop now p =
     (if cp_conns p = [] then (PopEmpty, p)
      else let pc = last (cp_conns p);
               p1 = p\<lparr>cp_conns := butlast (cp_conns p)\<rparr>
           in if expired now pc p1 then (PopExpired, discard pc p1)
              else (PopReused pc, p1\<lparr>cp_reused := i64 (cp_reused p1 + 1)\<rparr>))"

lemma cp_conns_discard [simp]: "cp_conns (discard pc p) = cp_conns p"
  by (simp add: discard_def set_flag_def net_close_def Let_def)

function Get_idle :: "int \<Rightarrow> ConnPool \<Rightarrow> nat option \<times> ConnPool" where
  "Get_idle now p =
     (case Get_pop now p of
        (PopEmpty, p1) \<Rightarrow> (None, p1)
      | (PopExpired, p1) \<Rightarrow> Get_idle now p1
      | (PopReused pc, p1) \<Rightarrow> (Some pc, p1))"
  by pat_completeness auto
termination
  by (relation "measure (\<lambda>(now, p). length (cp_conns p))")
    (auto simp: Get_pop_def Let_def split: if_splits)

declare Get_idle.simps [simp del]

text \<open>How the race between the factory and the context ends: a connection, an error of the factory, or a
  cancelled context, after which a connection that still arrives is closed.\<close>

datatype dial_outcome = Dialed nat | DialError gostr | Cancelled "nat option" gostr

definition createConn :: "int \<Rightarrow> dial_outcome \<Rightarrow> ConnPool \<Rightarrow> (pool_error, nat) go_result \<times> ConnPool" where
  "createConn now d p =
     (case d of
        Dialed c \<Rightarrow>
          (Ret (length (cp_heap p)),
           p\<lparr>cp_heap := cp_heap p @ [\<lparr>pc_Conn = c, pc_createdAt = now, pc_closed = False\<rparr>]\<rparr>)
      | DialError e \<Rightarrow> (Err (FactoryError e), p)
      | Cancelled late e \<Rightarrow>
          (Err (CtxError e), case late of None \<Rightarrow> p | Some c \<Rightarrow> net_close c p))"

definition Get_create :: "int \<Rightarrow> dial_outcome \<Rightarrow> ConnPool \<Rightarrow> (pool_error, nat) go_result \<times> ConnPool" where
  "Get_create now d p =
     (case createConn now d p of
        (Ret pc, p1) \<Rightarrow> (Ret pc, p1\<lparr>cp_created := i64 (cp_created p1 + 1)\<rparr>)
      | r \<Rightarrow> r)"

definition ConnPool_Get :: "int \<Rightarrow> dial_outcome \<Rightarrow> ConnPool \<Rightarrow> (pool_error, nat) go_result \<times> ConnPool" where
  "ConnPool_Get now d p =
     (if cp_isClosed p then (Err ErrPoolClosed, p)
      else case Get_idle now p of
             (Some pc, p1) \<Rightarrow> (Ret pc, p1)
           | (None, p1) \<Rightarrow> Get_create now d p1)"

section \<open>Giving a connection back\<close>

datatype conn_arg = NilConn | PooledArg nat | OtherConn nat

text \<open>\<^verbatim>\<open>pooledConn.Close\<close> once the pool is closed.\<close>

definition Close_direct :: "nat \<Rightarrow> ConnPool \<Rightarrow> ConnPool" where
  "Close_direct pc p =
     (if pc_closed (cp_heap p ! pc) then p
      else net_close (pc_Conn (cp_heap p ! pc)) (set_flag pc True p))"

text \<open>The critical section of \<^verbatim>\<open>Put\<close>.\<close>

definition Put_locked :: "nat \<Rightarrow> ConnPool \<Rightarrow> ConnPool" where
  "Put_locked pc p =
     (if int (length (cp_conns p)) \<ge> pl_MaxIdle (cp_config p) then discard pc p
      else p\<lparr>cp_conns := cp_conns p @ [pc]\<rparr>)"

definition Put_closed :: "conn_arg \<Rightarrow> ConnPool \<Rightarrow> ConnPool" where
  "Put_closed conn p =
     (let p1 = (case conn of NilConn \<Rightarrow> p | PooledArg pc \<Rightarrow> Close_direct pc p | OtherConn c \<Rightarrow> net_close c p)
      in p1\<lparr>cp_closed := i64 (cp_closed p1 + 1)\<rparr>)"

definition ConnPool_Put :: "conn_arg \<Rightarrow> ConnPool \<Rightarrow> ConnPool" where
  "ConnPool_Put conn p =
     (if conn = NilConn then p
      else if cp_isClosed p then Put_closed conn p
      else case conn of
             PooledArg pc \<Rightarrow> Put_locked pc p
           | OtherConn c \<Rightarrow> net_close c p
           | NilConn \<Rightarrow> p)"

definition pooledConn_Close :: "nat \<Rightarrow> ConnPool \<Rightarrow> ConnPool" where
  "pooledConn_Close pc p =
     (if \<not> cp_isClosed p then ConnPool_Put (PooledArg pc) (set_flag pc False p)
      else Close_direct pc p)"

definition pooledConn_ForceClose :: "nat \<Rightarrow> ConnPool \<Rightarrow> ConnPool" where
  "pooledConn_ForceClose pc p = net_close (pc_Conn (cp_heap p ! pc)) (set_flag pc True p)"

definition pooledConn_Age :: "int \<Rightarrow> nat \<Rightarrow> ConnPool \<Rightarrow> int" where
  "pooledConn_Age now pc p = now - pc_createdAt (cp_heap p ! pc)"

section \<open>Closing and pruning\<close>

definition Close_sweep :: "ConnPool \<Rightarrow> ConnPool" where
  "Close_sweep p = (fold discard (cp_conns p) p)\<lparr>cp_conns := []\<rparr>"

definition ConnPool_Close :: "ConnPool \<Rightarrow> ConnPool" where
  "ConnPool_Close p = (if cp_isClosed p then p else Close_sweep (p\<lparr>cp_isClosed := True\<rparr>))"

definition ConnPool_Prune :: "int \<Rightarrow> ConnPool \<Rightarrow> nat \<times> ConnPool" where
  "ConnPool_Prune now p =
     (if pl_MaxAge (cp_config p) \<le> 0 then (0, p)
      else let old = filter (\<lambda>pc. expired now pc p) (cp_conns p)
           in (length old,
               (fold discard old p)\<lparr>cp_conns := filter (\<lambda>pc. \<not> expired now pc p) (cp_conns p)\<rparr>))"

record Pool_Stats =
  ps_Created :: int
  ps_Reused :: int
  ps_Closed :: int
  ps_Idle :: int
  ps_MaxIdle :: int
  ps_WaitCount :: int
  ps_WaitTime :: int

definition ConnPool_GetStats :: "ConnPool \<Rightarrow> Pool_Stats" where
  "ConnPool_GetStats p =
     \<lparr>ps_Created = cp_created p, ps_Reused = cp_reused p, ps_Closed = cp_closed p,
      ps_Idle = int (length (cp_conns p)), ps_MaxIdle = pl_MaxIdle (cp_config p),
      ps_WaitCount = cp_waitCount p, ps_WaitTime = cp_waitTime p\<rparr>"

section \<open>Callers and interleaving\<close>

text \<open>Where a caller is with a connection it was given: it holds it, it is between the checks of
  \<^verbatim>\<open>pooledConn.Close\<close> and of \<^verbatim>\<open>Put\<close>, or it is about to lock the mutex in \<^verbatim>\<open>Put\<close>.\<close>

datatype holder = Held | Closing | Putting

text \<open>A network connection the factory did not deliver before.\<close>

definition fresh_conn :: "nat \<Rightarrow> ConnPool \<Rightarrow> bool" where
  "fresh_conn c p \<longleftrightarrow> c \<notin> pc_Conn ` set (cp_heap p) \<and> c \<notin> set (cp_net_closed p)"

text \<open>The pool, what callers do with connections, and whether \<^verbatim>\<open>Close\<close> still has to sweep the idle list.
  A caller closes each connection it was given once, with \<^verbatim>\<open>Close\<close> or \<^verbatim>\<open>ForceClose\<close>.\<close>

type_synonym pool_sys = "ConnPool \<times> (nat \<rightharpoonup> holder) \<times> bool"

inductive pool_step :: "pool_sys \<Rightarrow> pool_sys \<Rightarrow> bool" where
  pop_expired: "Get_pop now p = (PopExpired, p') \<Longrightarrow> pool_step (p, h, sw) (p', h, sw)"
| pop_reused: "Get_pop now p = (PopReused pc, p') \<Longrightarrow> pool_step (p, h, sw) (p', h(pc \<mapsto> Held), sw)"
| create: "fresh_conn c p \<Longrightarrow> Get_create now (Dialed c) p = (Ret pc, p') \<Longrightarrow>
    pool_step (p, h, sw) (p', h(pc \<mapsto> Held), sw)"
| create_cancelled: "fresh_conn c p \<Longrightarrow> Get_create now (Cancelled (Some c) e) p = (r, p') \<Longrightarrow>
    pool_step (p, h, sw) (p', h, sw)"
| close_check: "h pc = Some Held \<Longrightarrow> \<not> cp_isClosed p \<Longrightarrow>
    pool_step (p, h, sw) (set_flag pc False p, h(pc \<mapsto> Closing), sw)"
| close_direct: "h pc = Some Held \<Longrightarrow> cp_isClosed p \<Longrightarrow>
    pool_step (p, h, sw) (Close_direct pc p, h(pc := None), sw)"
| force_close: "h pc = Some Held \<Longrightarrow>
    pool_step (p, h, sw) (pooledConn_ForceClose pc p, h(pc := None), sw)"
| put_refused: "h pc = Some Closing \<Longrightarrow> cp_isClosed p \<Longrightarrow>
    pool_step (p, h, sw) (Put_closed (PooledArg pc) p, h(pc := None), sw)"
| put_check: "h pc = Some Closing \<Longrightarrow> \<not> cp_isClosed p \<Longrightarrow>
    pool_step (p, h, sw) (p, h(pc \<mapsto> Putting), sw)"
| put_locked: "h pc = Some Putting \<Longrightarrow>
    pool_step (p, h, sw) (Put_locked pc p, h(pc := None), sw)"
| prune: "ConnPool_Prune now p = (n, p') \<Longrightarrow> pool_step (p, h, sw) (p', h, sw)"
| pool_close: "\<not> cp_isClosed p \<Longrightarrow> pool_step (p, h, sw) (p\<lparr>cp_isClosed := True\<rparr>, h, True)"
| sweep: "pool_step (p, h, True) (Close_sweep p, h, False)"

abbreviation pool_steps :: "pool_sys \<Rightarrow> pool_sys \<Rightarrow> bool" where
  "pool_steps \<equiv> pool_step\<^sup>*\<^sup>*"

definition pool_start :: "ConnPoolConfig \<Rightarrow> pool_sys" where
  "pool_start cfg = (NewConnPool cfg, Map.empty, False)"

section \<open>The ownership invariant\<close>

text \<open>Of all connections ever created exactly those with an owner are open, and no connection was
  closed twice.\<close>

definition conn_pool_ok :: "pooledConn list \<Rightarrow> nat set \<Rightarrow> nat list \<Rightarrow> bool" where
  "conn_pool_ok hp own cl \<longleftrightarrow>
     distinct (map pc_Conn hp) \<and> own \<subseteq> {..<length hp} \<and> distinct cl
     \<and> (\<forall>pc < length hp. pc_Conn (hp ! pc) \<in> set cl \<longleftrightarrow> pc \<notin> own)
     \<and> (\<forall>pc \<in> own. \<not> pc_closed (hp ! pc))"

definition pool_inv :: "ConnPool \<Rightarrow> (nat \<rightharpoonup> holder) \<Rightarrow> bool" where
  "pool_inv p h \<longleftrightarrow>
     distinct (cp_conns p) \<and> set (cp_conns p) \<inter> dom h = {}
     \<and> 0 < pl_MaxIdle (cp_config p) \<and> int (length (cp_conns p)) \<le> pl_MaxIdle (cp_config p)
     \<and> conn_pool_ok (cp_heap p) (set (cp_conns p) \<union> dom h) (cp_net_closed p)"

lemma distinct_conn_eq:
  "distinct (map pc_Conn hp) \<Longrightarrow> i < length hp \<Longrightarrow> j < length hp \<Longrightarrow>
   pc_Conn (hp ! i) = pc_Conn (hp ! j) \<longleftrightarrow> i = j"
  by (auto simp: distinct_conv_nth)

lemma pool_ok_drop:
  assumes "conn_pool_ok hp own cl" "pc \<in> own"
  shows "conn_pool_ok (hp[pc := (hp ! pc)\<lparr>pc_closed := b\<rparr>]) (own - {pc}) (cl @ [pc_Conn (hp ! pc)])"
proof -
  let ?hp = "hp[pc := (hp ! pc)\<lparr>pc_closed := b\<rparr>]"
  have lt: "pc < length hp" using assms by (auto simp: conn_pool_ok_def)
  have conn: "map pc_Conn ?hp = map pc_Conn hp"
    by (rule nth_equalityI) (auto simp: nth_list_update lt)
  then have nth: "pc_Conn (?hp ! i) = pc_Conn (hp ! i)" if "i < length hp" for i
    using that by (metis length_list_update nth_map)
  show ?thesis
    using assms lt nth conn distinct_conn_eq [of hp]
    by (auto simp: conn_pool_ok_def nth_list_update)
qed

lemma pool_ok_flag:
  assumes "conn_pool_ok hp own cl" "pc \<in> own"
  shows "conn_pool_ok (hp[pc := (hp ! pc)\<lparr>pc_closed := False\<rparr>]) own cl"
proof -
  have "hp[pc := (hp ! pc)\<lparr>pc_closed := False\<rparr>] = hp"
    using assms by (intro list_update_same_conv [THEN iffD2]) (auto simp: conn_pool_ok_def)
  with assms show ?thesis by simp
qed

lemma pool_ok_new:
  assumes "conn_pool_ok hp own cl" "c \<notin> pc_Conn ` set hp" "c \<notin> set cl"
  shows "conn_pool_ok (hp @ [\<lparr>pc_Conn = c, pc_createdAt = now, pc_closed = False\<rparr>])
           (insert (length hp) own) cl"
  using assms by (auto simp: conn_pool_ok_def nth_append less_Suc_eq)

lemma pool_ok_late:
  "conn_pool_ok hp own cl \<Longrightarrow> c \<notin> pc_Conn ` set hp \<Longrightarrow> c \<notin> set cl \<Longrightarrow> conn_pool_ok hp own (cl @ [c])"
  by (auto simp: conn_pool_ok_def)

subsection \<open>Frame lemmas\<close>

lemma discard_simps [simp]:
  "cp_config (discard pc p) = cp_config p" "cp_isClosed (discard pc p) = cp_isClosed p"
  "cp_heap (discard pc p) = (cp_heap p)[pc := (cp_heap p ! pc)\<lparr>pc_closed := True\<rparr>]"
  "cp_net_closed (discard pc p) = cp_net_closed p @ [pc_Conn (cp_heap p ! pc)]"
  by (simp_all add: discard_def set_flag_def net_close_def Let_def)

lemma fold_discard_simps [simp]:
  "cp_config (fold discard pcs p) = cp_config p" "cp_isClosed (fold discard pcs p) = cp_isClosed p"
  "cp_conns (fold discard pcs p) = cp_conns p"
  by (induction pcs arbitrary: p) simp_all

lemma pool_ok_fold_discard:
  "conn_pool_ok (cp_heap p) own (cp_net_closed p) \<Longrightarrow> distinct pcs \<Longrightarrow> set pcs \<subseteq> own \<Longrightarrow>
   conn_pool_ok (cp_heap (fold discard pcs p)) (own - set pcs) (cp_net_closed (fold discard pcs p))"
proof (induction pcs arbitrary: p own)
  case (Cons pc pcs)
  have "conn_pool_ok (cp_heap (discard pc p)) (own - {pc}) (cp_net_closed (discard pc p))"
    using pool_ok_drop [OF Cons(2)] Cons(4) by simp
  from Cons.IH [OF this] Cons(3,4) have
    "conn_pool_ok (cp_heap (fold discard pcs (discard pc p))) (own - {pc} - set pcs)
       (cp_net_closed (fold discard pcs (discard pc p)))" by auto
  then show ?case by (simp add: Diff_insert2 [symmetric])
qed simp

lemma last_not_in_butlast: "distinct xs \<Longrightarrow> xs \<noteq> [] \<Longrightarrow> last xs \<notin> set (butlast xs)"
  by (metis append_butlast_last_id distinct.simps(2) distinct1_rotate rotate1.simps(2))

lemma set_butlast_distinct: "distinct xs \<Longrightarrow> xs \<noteq> [] \<Longrightarrow> set (butlast xs) = set xs - {last xs}"
  using last_not_in_butlast [of xs] append_butlast_last_id [of xs]
  by (metis Diff_insert_absorb Un_insert_right list.simps(15) set_append set_empty2
      sup_bot.right_neutral list.set(1))

subsection \<open>Every step keeps the invariant\<close>

lemma Get_pop_keeps:
  assumes inv: "pool_inv p h" and pop: "Get_pop now p = (r, p')"
  shows "case r of PopEmpty \<Rightarrow> p' = p | PopExpired \<Rightarrow> pool_inv p' h
         | PopReused pc \<Rightarrow> pool_inv p' (h(pc \<mapsto> Held)) \<and> pc \<notin> dom h \<and> pc \<notin> set (cp_conns p')"
proof (cases "cp_conns p = []")
  case True
  with pop show ?thesis by (auto simp: Get_pop_def)
next
  case False
  let ?pc = "last (cp_conns p)"
  have but: "set (butlast (cp_conns p)) = set (cp_conns p) - {?pc}"
    using inv False by (simp add: pool_inv_def set_butlast_distinct)
  have own: "?pc \<in> set (cp_conns p) \<union> dom h" "?pc \<notin> dom h"
    using inv last_in_set [OF False] by (auto simp only: pool_inv_def)
  have rest: "set (butlast (cp_conns p)) \<union> dom h = set (cp_conns p) \<union> dom h - {?pc}"
    "insert ?pc (set (butlast (cp_conns p)) \<union> dom h) = set (cp_conns p) \<union> dom h"
    using but own by auto
  have small: "int (length (butlast (cp_conns p))) \<le> pl_MaxIdle (cp_config p)"
    using inv by (simp only: pool_inv_def length_butlast) linarith
  have base: "0 < pl_MaxIdle (cp_config p)" "distinct (butlast (cp_conns p))" "set (butlast (cp_conns p)) \<inter> dom h = {}"
    "?pc \<notin> set (butlast (cp_conns p))"
    "conn_pool_ok (cp_heap p) (set (cp_conns p) \<union> dom h) (cp_net_closed p)"
    using inv but by (auto simp: pool_inv_def distinct_butlast)
  show ?thesis
  proof (cases "expired now ?pc (p\<lparr>cp_conns := butlast (cp_conns p)\<rparr>)")
    case True
    with pop False have "r = PopExpired" "p' = discard ?pc (p\<lparr>cp_conns := butlast (cp_conns p)\<rparr>)"
      by (auto simp: Get_pop_def Let_def)
    with base small pool_ok_drop [OF base(5) own(1), of True] rest show ?thesis
      by (simp add: pool_inv_def)
  next
    case ne: False
    with pop False have "r = PopReused ?pc"
      "p' = p\<lparr>cp_conns := butlast (cp_conns p), cp_reused := i64 (cp_reused p + 1)\<rparr>"
      by (auto simp: Get_pop_def Let_def)
    with base small rest own show ?thesis by (auto simp: pool_inv_def)
  qed
qed

lemma Get_create_keeps:
  assumes "pool_inv p h" "fresh_conn c p" "Get_create now (Dialed c) p = (Ret pc, p')"
  shows "pool_inv p' (h(pc \<mapsto> Held)) \<and> pc \<notin> dom h \<and> pc \<notin> set (cp_conns p')"
proof -
  have pc: "pc = length (cp_heap p)" and conns: "cp_conns p' = cp_conns p"
    and p': "cp_heap p' = cp_heap p @ [\<lparr>pc_Conn = c, pc_createdAt = now, pc_closed = False\<rparr>]"
      "cp_net_closed p' = cp_net_closed p" "cp_config p' = cp_config p"
    using assms(3) by (auto simp: Get_create_def createConn_def)
  have "pc \<notin> set (cp_conns p) \<union> dom h"
    using assms(1) pc by (auto simp: pool_inv_def conn_pool_ok_def)
  with assms pc conns p' pool_ok_new [of "cp_heap p" _ "cp_net_closed p" c now] show ?thesis
    by (auto simp: pool_inv_def fresh_conn_def)
qed

lemma give_up_keeps:
  assumes "pool_inv p h" "pc \<in> dom h"
    and "cp_conns p' = cp_conns p" "cp_config p' = cp_config p"
    and "cp_heap p' = (cp_heap p)[pc := (cp_heap p ! pc)\<lparr>pc_closed := b\<rparr>]"
    and "cp_net_closed p' = cp_net_closed p @ [pc_Conn (cp_heap p ! pc)]"
  shows "pool_inv p' (h(pc := None))"
proof -
  have "set (cp_conns p) \<union> (dom h - {pc}) = set (cp_conns p) \<union> dom h - {pc}"
    using assms(1,2) by (auto simp: pool_inv_def)
  with assms pool_ok_drop [of "cp_heap p" "set (cp_conns p) \<union> dom h" "cp_net_closed p" pc b]
  show ?thesis by (auto simp: pool_inv_def)
qed

lemma held_flag: "pool_inv p h \<Longrightarrow> h pc = Some x \<Longrightarrow> \<not> pc_closed (cp_heap p ! pc)"
  by (auto simp: pool_inv_def conn_pool_ok_def)

lemma Close_direct_keeps: "pool_inv p h \<Longrightarrow> h pc = Some x \<Longrightarrow> pool_inv (Close_direct pc p) (h(pc := None))"
  using held_flag [of p h pc x] give_up_keeps [of p h pc "Close_direct pc p" True]
  by (auto simp: Close_direct_def set_flag_def net_close_def)

lemma Put_closed_keeps:
  "pool_inv p h \<Longrightarrow> h pc = Some x \<Longrightarrow> pool_inv (Put_closed (PooledArg pc) p) (h(pc := None))"
  using Close_direct_keeps [of p h pc x] by (simp add: Put_closed_def Let_def pool_inv_def)

lemma ForceClose_keeps:
  "pool_inv p h \<Longrightarrow> h pc = Some x \<Longrightarrow> pool_inv (pooledConn_ForceClose pc p) (h(pc := None))"
  using give_up_keeps [of p h pc "pooledConn_ForceClose pc p" True]
  by (auto simp: pooledConn_ForceClose_def set_flag_def net_close_def)

lemma set_flag_keeps:
  assumes "pool_inv p h" "h pc = Some x"
  shows "pool_inv (set_flag pc False p) (h(pc \<mapsto> y))"
proof -
  have "dom (h(pc \<mapsto> y)) = dom h" using assms(2) by auto
  with assms pool_ok_flag [of "cp_heap p" "set (cp_conns p) \<union> dom h" "cp_net_closed p" pc]
  show ?thesis by (auto simp: pool_inv_def set_flag_def)
qed

lemma Put_locked_keeps:
  assumes "pool_inv p h" "h pc = Some x"
  shows "pool_inv (Put_locked pc p) (h(pc := None))"
proof (cases "int (length (cp_conns p)) \<ge> pl_MaxIdle (cp_config p)")
  case True
  then show ?thesis
    using assms give_up_keeps [of p h pc "discard pc p" True] by (auto simp: Put_locked_def)
next
  case False
  have "insert pc (set (cp_conns p) \<union> (dom h - {pc})) = set (cp_conns p) \<union> dom h"
    using assms(2) by auto
  with assms False show ?thesis by (auto simp: Put_locked_def pool_inv_def)
qed

lemma drop_idle_keeps:
  assumes "pool_inv p h"
  shows "pool_inv ((fold discard (filter P (cp_conns p)) p)\<lparr>cp_conns := filter (\<lambda>x. \<not> P x) (cp_conns p)\<rparr>) h"
    (is "pool_inv (_\<lparr>cp_conns := ?keep\<rparr>) h")
proof -
  let ?gone = "filter P (cp_conns p)"
  have "set ?keep \<union> dom h = set (cp_conns p) \<union> dom h - set ?gone"
    using assms by (auto simp: pool_inv_def)
  moreover have "length ?keep \<le> length (cp_conns p)" by simp
  then have "int (length ?keep) \<le> pl_MaxIdle (cp_config p)"
    using assms by (simp only: pool_inv_def) linarith
  moreover have "distinct ?gone" "set ?gone \<subseteq> set (cp_conns p) \<union> dom h"
    using assms by (auto simp: pool_inv_def)
  ultimately show ?thesis
    using assms pool_ok_fold_discard [of p "set (cp_conns p) \<union> dom h" ?gone]
    by (auto simp: pool_inv_def)
qed

lemma Close_sweep_keeps: "pool_inv p h \<Longrightarrow> pool_inv (Close_sweep p) h"
  using drop_idle_keeps [of p h "\<lambda>_. True"] by (simp add: Close_sweep_def)

lemma Prune_keeps: "pool_inv p h \<Longrightarrow> ConnPool_Prune now p = (n, p') \<Longrightarrow> pool_inv p' h"
  using drop_idle_keeps [of p h "\<lambda>pc. expired now pc p"]
  by (auto simp: ConnPool_Prune_def Let_def split: if_splits)

lemma create_cancelled_keeps:
  "pool_inv p h \<Longrightarrow> fresh_conn c p \<Longrightarrow> Get_create now (Cancelled (Some c) e) p = (r, p') \<Longrightarrow> pool_inv p' h"
  by (auto simp: Get_create_def createConn_def net_close_def pool_inv_def fresh_conn_def
      intro: pool_ok_late)

lemmas pool_keeps = Close_direct_keeps Put_closed_keeps ForceClose_keeps set_flag_keeps
  Put_locked_keeps Close_sweep_keeps Prune_keeps create_cancelled_keeps

lemmas pool_step_induct = pool_step.induct [split_format (complete)]

lemma pool_step_keeps: "pool_step (p, h, sw) (p', h', sw') \<Longrightarrow> pool_inv p h \<Longrightarrow> pool_inv p' h'"
proof (induction rule: pool_step_induct)
  case (pop_expired now p p' h sw)
  then show ?case using Get_pop_keeps [of p h now PopExpired p'] by simp
next
  case (pop_reused now p pc p' h sw)
  then show ?case using Get_pop_keeps [of p h now "PopReused pc" p'] by (simp del: fun_upd_apply)
next
  case (create c p now pc p' h sw)
  then show ?case using Get_create_keeps [of p h c now pc p'] by (simp del: fun_upd_apply)
next
  case (put_check h pc p sw)
  moreover have "dom (h(pc \<mapsto> Putting)) = dom h" using put_check(1) by auto
  ultimately show ?case by (simp del: fun_upd_apply add: pool_inv_def)
next
  case (pool_close p h sw)
  then show ?case by (simp add: pool_inv_def)
qed (auto intro: pool_keeps)

lemma pool_steps_keep: "pool_steps (p, h, sw) (p', h', sw') \<Longrightarrow> pool_inv p h \<Longrightarrow> pool_inv p' h'"
  by (induction "(p', h', sw')" arbitrary: p' h' sw' rule: rtranclp_induct) (auto intro: pool_step_keeps)

lemma pool_start_inv: "pool_inv (NewConnPool cfg) Map.empty"
  by (simp add: NewConnPool_def pool_inv_def conn_pool_ok_def)

lemma pool_reachable_inv: "pool_steps (pool_start cfg) (p, h, sw) \<Longrightarrow> pool_inv p h"
  using pool_steps_keep [OF _ pool_start_inv] by (simp add: pool_start_def)

subsection \<open>The whole operations are sequences of steps\<close>

lemma Get_idle_steps:
  "Get_idle now p = (r, p') \<Longrightarrow>
   pool_steps (p, h, sw) (p', case r of None \<Rightarrow> h | Some pc \<Rightarrow> h(pc \<mapsto> Held), sw)"
proof (induction now p arbitrary: r p' rule: Get_idle.induct)
  case (1 now p)
  obtain x q where pop: "Get_pop now p = (x, q)" by fastforce
  show ?case
  proof (cases x)
    case PopEmpty
    with pop have "q = p" by (auto simp: Get_pop_def Let_def split: if_splits)
    with 1(2) pop PopEmpty show ?thesis by (simp add: Get_idle.simps [of now p])
  next
    case PopExpired
    with pop 1(2) have "Get_idle now q = (r, p')" by (simp add: Get_idle.simps [of now p])
    with 1(1) [OF pop [symmetric] PopExpired] pop PopExpired show ?thesis
      by (blast intro: converse_rtranclp_into_rtranclp pool_step.pop_expired)
  next
    case (PopReused pc)
    with pop 1(2) have "r = Some pc" "p' = q" by (simp_all add: Get_idle.simps [of now p])
    with pop PopReused show ?thesis 
      by (auto simp del: fun_upd_apply intro!: r_into_rtranclp pool_step.pop_reused)
  qed
qed

lemma Get_steps:
  assumes get: "ConnPool_Get now (Dialed c) p = (Ret pc, p')"
    and fresh: "\<And>q. Get_idle now p = (None, q) \<Longrightarrow> fresh_conn c q"
  shows "pool_steps (p, h, sw) (p', h(pc \<mapsto> Held), sw)"
proof -
  obtain r q where idle: "Get_idle now p = (r, q)" by fastforce
  show ?thesis
  proof (cases r)
    case None
    with get idle have "Get_create now (Dialed c) q = (Ret pc, p')"
      by (auto simp: ConnPool_Get_def split: if_splits)
    with Get_idle_steps [OF idle, of h sw] fresh [of q] None idle show ?thesis
      by (auto intro: rtranclp.rtrancl_into_rtrancl pool_step.create)
  next
    case (Some pc')
    with get idle have "pc' = pc" "q = p'" by (auto simp: ConnPool_Get_def split: if_splits)
    with Get_idle_steps [OF idle, of h sw] Some show ?thesis by simp
  qed
qed

lemma Close_steps:
  assumes "h pc = Some Held"
  shows "pool_steps (p, h, sw) (pooledConn_Close pc p, h(pc := None), sw)"
proof (cases "cp_isClosed p")
  case True
  with assms show ?thesis
    by (auto simp: pooledConn_Close_def intro!: r_into_rtranclp pool_step.close_direct)
next
  case False
  let ?q = "set_flag pc False p"
  have open_q: "\<not> cp_isClosed ?q" using False by (simp add: set_flag_def)
  have "pool_step (p, h, sw) (?q, h(pc \<mapsto> Closing), sw)"
    using assms False by (rule pool_step.close_check)
  moreover have "pool_step (?q, h(pc \<mapsto> Closing), sw) (?q, h(pc \<mapsto> Putting), sw)"
    using pool_step.put_check [of "h(pc \<mapsto> Closing)" pc ?q sw] open_q by simp
  moreover have "pool_step (?q, h(pc \<mapsto> Putting), sw) (Put_locked pc ?q, h(pc := None), sw)"
    using pool_step.put_locked [of "h(pc \<mapsto> Putting)" pc ?q sw] by simp
  moreover have "pooledConn_Close pc p = Put_locked pc ?q"
    using False open_q by (simp add: pooledConn_Close_def ConnPool_Put_def)
  ultimately show ?thesis
    by (metis (no_types, lifting) converse_rtranclp_into_rtranclp r_into_rtranclp)
qed

lemma Get_pop_fresh:
  assumes "pool_inv p h" "fresh_conn c p" "Get_pop now p = (r, q)"
  shows "fresh_conn c q"
proof (cases "r = PopExpired")
  case True
  let ?pc = "last (cp_conns p)"
  have q: "cp_heap q = (cp_heap p)[?pc := (cp_heap p ! ?pc)\<lparr>pc_closed := True\<rparr>]"
    "cp_net_closed q = cp_net_closed p @ [pc_Conn (cp_heap p ! ?pc)]" and ne: "cp_conns p \<noteq> []"
    using assms(3) True by (auto simp: Get_pop_def Let_def split: if_splits)
  have "?pc < length (cp_heap p)"
    using assms(1) last_in_set [OF ne] by (auto simp only: pool_inv_def conn_pool_ok_def)
  then have "pc_Conn ` set (cp_heap q) \<subseteq> pc_Conn ` set (cp_heap p)"
    using q(1) set_update_subset_insert [of "cp_heap p" ?pc] by fastforce
  with assms(2) q \<open>?pc < length (cp_heap p)\<close> show ?thesis by (auto simp: fresh_conn_def)
next
  case False
  with assms show ?thesis by (auto simp: Get_pop_def Let_def fresh_conn_def split: if_splits)
qed

lemma Get_idle_keeps:
  "pool_inv p h \<Longrightarrow> fresh_conn c p \<Longrightarrow> Get_idle now p = (r, q) \<Longrightarrow>
   fresh_conn c q \<and> (case r of None \<Rightarrow> pool_inv q h | Some pc \<Rightarrow> pool_inv q (h(pc \<mapsto> Held)) \<and> pc \<notin> dom h)"
proof (induction now p arbitrary: r q rule: Get_idle.induct)
  case (1 now p)
  obtain x p1 where pop: "Get_pop now p = (x, p1)" by fastforce
  note fresh = Get_pop_fresh [OF 1(2,3) pop] and keeps = Get_pop_keeps [OF 1(2) pop]
  show ?case
  proof (cases x)
    case PopExpired
    with pop 1(4) have "Get_idle now p1 = (r, q)" by (simp add: Get_idle.simps [of now p])
    with 1(1) [OF pop [symmetric] PopExpired _ fresh] keeps PopExpired show ?thesis by simp
  qed (use pop 1(2,4) fresh keeps in \<open>auto simp: Get_idle.simps [of now p] simp del: fun_upd_apply\<close>)
qed

lemma Get_keeps:
  assumes inv: "pool_inv p h" and fresh: "fresh_conn c p"
    and get: "ConnPool_Get now (Dialed c) p = (Ret pc, p')"
  shows "pool_inv p' (h(pc \<mapsto> Held)) \<and> pc \<notin> dom h"
proof -
  obtain r q where idle: "Get_idle now p = (r, q)" by fastforce
  note keeps = Get_idle_keeps [OF inv fresh idle]
  show ?thesis
  proof (cases r)
    case None
    with get idle have "Get_create now (Dialed c) q = (Ret pc, p')"
      by (auto simp: ConnPool_Get_def split: if_splits)
    with keeps None Get_create_keeps [of q h c now pc p'] show ?thesis by (simp del: fun_upd_apply)
  next
    case (Some pc')
    with get idle have "pc' = pc" "q = p'" by (auto simp: ConnPool_Get_def split: if_splits)
    with keeps Some show ?thesis by (simp del: fun_upd_apply)
  qed
qed

section \<open>Properties\<close>

text \<open>C14. Whatever the interleaving of callers that close each connection once, the pool keeps connections
  exclusive: an idle connection has no holder and is listed once, at most \<^verbatim>\<open>MaxIdle\<close> are idle, no
  network connection is closed twice, and a created connection is open exactly as long as it is idle or
  held. \<^verbatim>\<open>Get\<close> hands out an open connection that nobody else holds and that is idle no longer.\<close>

theorem pooled_connections_exclusive:
  assumes "pool_steps (pool_start cfg) (p, h, sw)"
  shows "distinct (cp_conns p) \<and> set (cp_conns p) \<inter> dom h = {}
    \<and> int (length (cp_conns p)) \<le> pl_MaxIdle (cp_config p) \<and> distinct (cp_net_closed p)
    \<and> (\<forall>pc < length (cp_heap p).
         pc_Conn (cp_heap p ! pc) \<notin> set (cp_net_closed p) \<longleftrightarrow> pc \<in> set (cp_conns p) \<union> dom h)
    \<and> (\<forall>now c pc p'. fresh_conn c p \<and> ConnPool_Get now (Dialed c) p = (Ret pc, p') \<longrightarrow>
         pc \<notin> dom h \<and> pc \<notin> set (cp_conns p')
         \<and> pc_Conn (cp_heap p' ! pc) \<notin> set (cp_net_closed p'))"
proof -
  note inv = pool_reachable_inv [OF assms]
  have "pc \<notin> dom h \<and> pc \<notin> set (cp_conns p') \<and> pc_Conn (cp_heap p' ! pc) \<notin> set (cp_net_closed p')"
    if fresh: "fresh_conn c p" and get: "ConnPool_Get now (Dialed c) p = (Ret pc, p')" for now c pc p'
    using Get_keeps [OF inv fresh get] by (auto simp: pool_inv_def conn_pool_ok_def)
  then show ?thesis using inv by (simp add: pool_inv_def conn_pool_ok_def) blast
qed

theorem pooled_connections_exclusive_witness:
  "let p = snd (ConnPool_Get 0 (Dialed 7) (NewConnPool DefaultConnPoolConfig));
       q = pooledConn_Close 0 p
   in pool_steps (pool_start DefaultConnPoolConfig) (q, Map.empty, False)
      \<and> cp_conns q = [0] \<and> distinct (cp_conns q)"
proof -
  let ?s = "NewConnPool DefaultConnPoolConfig"
  let ?p = "snd (ConnPool_Get 0 (Dialed 7) ?s)" and ?q = "pooledConn_Close 0 (snd (ConnPool_Get 0 (Dialed 7) ?s))"
  have get: "ConnPool_Get 0 (Dialed 7) ?s = (Ret 0, ?p)" and q: "cp_conns ?q = [0]"
    by (simp_all add: ConnPool_Get_def NewConnPool_def Get_idle.simps Get_pop_def Get_create_def
        createConn_def pooledConn_Close_def ConnPool_Put_def Put_locked_def set_flag_def
        DefaultConnPoolConfig_def)
  have "pool_steps (?s, Map.empty, False) (?p, [0 \<mapsto> Held], False)"
    using get by (rule Get_steps) (auto simp: NewConnPool_def Get_idle.simps Get_pop_def fresh_conn_def)
  moreover have "pool_steps (?p, [0 \<mapsto> Held], False) (?q, Map.empty, False)"
    using Close_steps [of "[0 \<mapsto> Held]" 0 ?p False] by simp
  ultimately have "pool_steps (pool_start DefaultConnPoolConfig) (?q, Map.empty, False)"
    unfolding pool_start_def by (rule rtranclp_trans)
  with pooled_connections_exclusive [OF this] q show ?thesis by (simp add: Let_def)
qed

text \<open>A connection closed twice by its holder is listed as idle twice: the next two callers of \<^verbatim>\<open>Get\<close>
  are given the same connection.\<close>

lemma double_close_shares_connection:
  assumes "\<not> cp_isClosed p" "pl_MaxAge (cp_config p) = 0"
    and "int (length (cp_conns p)) + 2 \<le> pl_MaxIdle (cp_config p)"
  shows "\<exists>p1 p2. ConnPool_Get now d (pooledConn_Close pc (pooledConn_Close pc p)) = (Ret pc, p1)
           \<and> ConnPool_Get now' d' p1 = (Ret pc, p2)"
proof -
  let ?q = "pooledConn_Close pc (pooledConn_Close pc p)"
  have q: "cp_conns ?q = cp_conns p @ [pc, pc]" "\<not> cp_isClosed ?q" "cp_config ?q = cp_config p"
    using assms by (simp_all add: pooledConn_Close_def ConnPool_Put_def Put_locked_def set_flag_def)
  have pop: "ConnPool_Get t e r = (Ret x, r\<lparr>cp_conns := butlast (cp_conns r), cp_reused := i64 (cp_reused r + 1)\<rparr>)"
    if "\<not> cp_isClosed r" "pl_MaxAge (cp_config r) = 0" "cp_conns r \<noteq> []" "last (cp_conns r) = x" for r t e x
    using that by (simp add: ConnPool_Get_def Get_idle.simps Get_pop_def expired_def Let_def)
  show ?thesis
    using pop [of ?q pc now d] pop [of "?q\<lparr>cp_conns := butlast (cp_conns ?q), cp_reused := i64 (cp_reused ?q + 1)\<rparr>" pc now' d']
      q assms by (simp add: butlast_append)
qed

lemma double_close_shares_connection_witness:
  "\<exists>p1 p2. ConnPool_Get 1 (DialError []) (pooledConn_Close 0 (pooledConn_Close 0
      (snd (ConnPool_Get 0 (Dialed 7) (NewConnPool DefaultConnPoolConfig))))) = (Ret 0, p1)
    \<and> ConnPool_Get 2 (DialError []) p1 = (Ret 0, p2)"
  by (rule double_close_shares_connection)
    (simp_all add: ConnPool_Get_def NewConnPool_def Get_idle.simps Get_pop_def Get_create_def
      createConn_def DefaultConnPoolConfig_def)

text \<open>A \<^verbatim>\<open>Put\<close> that read the closed flag before \<^verbatim>\<open>Close\<close> ran appends its connection to the list of the
  closed pool: it stays open, is never handed out, and a second \<^verbatim>\<open>Close\<close> does not reach it.\<close>

lemma put_after_close_leaks:
  assumes reach: "pool_steps (pool_start cfg) (p, h, sw)"
    and "\<not> cp_isClosed p" and put: "h pc = Some Putting"
  shows "\<exists>q. pool_steps (p, h, sw) (q, h(pc := None), False) \<and> cp_isClosed q \<and> cp_conns q = [pc]
     \<and> pc_Conn (cp_heap q ! pc) \<notin> set (cp_net_closed q)
     \<and> ConnPool_Close q = q \<and> ConnPool_Get now d q = (Err ErrPoolClosed, q)"
proof -
  let ?p1 = "Close_sweep (p\<lparr>cp_isClosed := True\<rparr>)"
  let ?q = "Put_locked pc ?p1"
  note inv = pool_reachable_inv [OF reach]
  have steps: "pool_steps (p, h, sw) (?q, h(pc := None), False)"
    by (rule converse_rtranclp_into_rtranclp, rule pool_step.pool_close [OF assms(2)],
        rule converse_rtranclp_into_rtranclp, rule pool_step.sweep,
        rule r_into_rtranclp, rule pool_step.put_locked, rule put)
  have q: "cp_isClosed ?q" "cp_conns ?q = [pc]"
    using inv by (simp_all add: Put_locked_def Close_sweep_def pool_inv_def)
  have "pool_inv ?q (h(pc := None))" by (rule pool_steps_keep [OF steps inv])
  with q have "pc_Conn (cp_heap ?q ! pc) \<notin> set (cp_net_closed ?q)"
    by (auto simp: pool_inv_def conn_pool_ok_def)
  with steps q show ?thesis by (auto simp: ConnPool_Close_def ConnPool_Get_def)
qed

end
