(* ===== verification/Conn_Manager.thy ===== *)
theory Conn_Manager
  imports Complex_Main Go_Prelude
begin

text \<open>
  The server's connection manager of \<^verbatim>\<open>internal/connmgr/connmgr.go\<close>: admission against a limit, tracking of
  activity and traffic, release through the wrapped connection, shutdown.

  \<^verbatim>\<open>ConnInfo\<close> objects are shared between the map, the wrapper and the caller: \<open>mg_infos\<close> is the heap of
  all of them and pointers are indices. The semaphore is a buffered channel: the number of values in it
  and the number of goroutines blocked on receiving from it. Identifiers, times and addresses are
  arguments.
\<close>

section \<open>Connection information\<close>

datatype connmgr_error = ErrConnectionLimit | ErrManagerClosed

record ConnMgr_Config =
  cm_MaxConnections :: int
  cm_ConnectionTimeout :: int
  cm_AcceptTimeout :: int

record ConnInfo =
  ci_ID :: gostr
  ci_RemoteAddr :: gostr
  ci_StartTime :: int
  ci_lastActive :: int
  ci_bytesIn :: int
  ci_bytesOut :: int
  ci_closed :: bool

definition ConnInfo_UpdateActive :: "int \<Rightarrow> ConnInfo \<Rightarrow> ConnInfo" where
  "ConnInfo_UpdateActive now c = c\<lparr>ci_lastActive := now\<rparr>"

definition ConnInfo_AddBytesIn :: "int \<Rightarrow> ConnInfo \<Rightarrow> ConnInfo" where
  "ConnInfo_AddBytesIn n c = c\<lparr>ci_bytesIn := i64 (ci_bytesIn c + n)\<rparr>"

definition ConnInfo_AddBytesOut :: "int \<Rightarrow> ConnInfo \<Rightarrow> ConnInfo" where
  "ConnInfo_AddBytesOut n c = c\<lparr>ci_bytesOut := i64 (ci_bytesOut c + n)\<rparr>"

definition ConnInfo_Duration :: "int \<Rightarrow> ConnInfo \<Rightarrow> int" where
  "ConnInfo_Duration now c = now - ci_StartTime c"

definition ConnInfo_Close :: "ConnInfo \<Rightarrow> ConnInfo" where
  "ConnInfo_Close c = c\<lparr>ci_closed := True\<rparr>"

section \<open>The manager\<close>

record ConnMgr =
  mg_config :: ConnMgr_Config
  mg_active :: int
  mg_total :: int
  mg_rejected :: int
  mg_connections :: "gostr \<rightharpoonup> nat"
  mg_infos :: "ConnInfo list"
  mg_sem_count :: nat
  mg_sem_waiting :: nat
  mg_ctx_done :: bool

definition NewConnMgr :: "ConnMgr_Config \<Rightarrow> ConnMgr" where
  "NewConnMgr cfg =
     \<lparr>mg_config = cfg, mg_active = 0, mg_total = 0, mg_rejected = 0, mg_connections = Map.empty,
      mg_infos = [], mg_sem_count = 0, mg_sem_waiting = 0, mg_ctx_done = False\<rparr>"

text \<open>The channel exists only with a positive limit.\<close>

definition has_semaphore :: "ConnMgr \<Rightarrow> bool" where
  "has_semaphore m \<longleftrightarrow> cm_MaxConnections (mg_config m) > 0"

text \<open>A non-blocking send: to a waiting receiver, else into the buffer, else not at all.\<close>

definition sem_try_send :: "ConnMgr \<Rightarrow> ConnMgr option" where
  "sem_try_send m =
     (if \<not> has_semaphore m then Some m
      else if mg_sem_waiting m > 0 then Some (m\<lparr>mg_sem_waiting := mg_sem_waiting m - 1\<rparr>)
      else if int (mg_sem_count m) < cm_MaxConnections (mg_config m)
      then Some (m\<lparr>mg_sem_count := mg_sem_count m + 1\<rparr>)
      else None)"

text \<open>A receive: \<open>False\<close> when the caller stays blocked.\<close>

definition sem_receive :: "ConnMgr \<Rightarrow> bool \<times> ConnMgr" where
  "sem_receive m =
     (if \<not> has_semaphore m then (True, m)
      else if mg_sem_count m > 0 then (True, m\<lparr>mg_sem_count := mg_sem_count m - 1\<rparr>)
      else (False, m\<lparr>mg_sem_waiting := mg_sem_waiting m + 1\<rparr>))"

definition new_info :: "gostr \<Rightarrow> gostr \<Rightarrow> int \<Rightarrow> ConnInfo" where
  "new_info ident addr now =
     ConnInfo_UpdateActive now
       \<lparr>ci_ID = ident, ci_RemoteAddr = addr, ci_StartTime = now, ci_lastActive = 0, ci_bytesIn = 0,
        ci_bytesOut = 0, ci_closed = False\<rparr>"

definition ConnMgr_Accept ::
  "gostr \<Rightarrow> gostr \<Rightarrow> int \<Rightarrow> ConnMgr \<Rightarrow> (connmgr_error, nat) go_result \<times> ConnMgr" where
  "ConnMgr_Accept ident addr now m =
     (if mg_ctx_done m then (Err ErrManagerClosed, m)
      else case sem_try_send m of
             None \<Rightarrow> (Err ErrConnectionLimit, m\<lparr>mg_rejected := i64 (mg_rejected m + 1)\<rparr>)
           | Some m1 \<Rightarrow>
               (Ret (length (mg_infos m1)),
                m1\<lparr>mg_active := i64 (mg_active m1 + 1), mg_total := i64 (mg_total m1 + 1),
                   mg_infos := mg_infos m1 @ [new_info ident addr now],
                   mg_connections := (mg_connections m1)(ident \<mapsto> length (mg_infos m1))\<rparr>))"

definition upd_info :: "nat \<Rightarrow> (ConnInfo \<Rightarrow> ConnInfo) \<Rightarrow> ConnMgr \<Rightarrow> ConnMgr" where
  "upd_info i f m = m\<lparr>mg_infos := (mg_infos m)[i := f (mg_infos m ! i)]\<rparr>"

definition ConnMgr_Release :: "nat option \<Rightarrow> ConnMgr \<Rightarrow> bool \<times> ConnMgr" where
  "ConnMgr_Release info m =
     (case info of
        None \<Rightarrow> (True, m)
      | Some i \<Rightarrow>
          let m1 = upd_info i ConnInfo_Close m
          in sem_receive (m1\<lparr>mg_active := i64 (mg_active m1 - 1),
                             mg_connections := (mg_connections m1)(ci_ID (mg_infos m1 ! i) := None)\<rparr>))"

definition ConnMgr_GetInfo :: "gostr \<Rightarrow> ConnMgr \<Rightarrow> ConnInfo option" where
  "ConnMgr_GetInfo ident m = map_option (\<lambda>i. mg_infos m ! i) (mg_connections m ident)"

text \<open>\<^verbatim>\<open>CloseIdle\<close>, over the identifiers in the order in which \<^verbatim>\<open>Range\<close> visits them: it reports the idle
  connections; nothing of the manager changes.\<close>

definition ConnMgr_CloseIdle :: "int \<Rightarrow> int \<Rightarrow> gostr list \<Rightarrow> ConnMgr \<Rightarrow> gostr list" where
  "ConnMgr_CloseIdle now timeout visits m =
     (if timeout \<le> 0 then []
      else List.map_filter (\<lambda>ident. case mg_connections m ident of
               None \<Rightarrow> None
             | Some i \<Rightarrow> if now - ci_lastActive (mg_infos m ! i) > timeout
                         then Some (ci_ID (mg_infos m ! i)) else None) visits)"

text \<open>Statistics. The utilization, a \<^verbatim>\<open>float64\<close>, is a rational number here: the code rounds it.\<close>

record ConnMgr_Stats =
  ms_Active :: int
  ms_Total :: int
  ms_Rejected :: int
  ms_Limit :: int
  ms_Utilization :: rat

definition ConnMgr_GetStats :: "ConnMgr \<Rightarrow> ConnMgr_Stats" where
  "ConnMgr_GetStats m =
     (let active = mg_active m; limit = cm_MaxConnections (mg_config m)
      in \<lparr>ms_Active = active, ms_Total = mg_total m, ms_Rejected = mg_rejected m, ms_Limit = limit,
          ms_Utilization = (if limit > 0 then of_int active / of_int limit * 100 else 0)\<rparr>)"

text \<open>\<^verbatim>\<open>Shutdown\<close>: the wait group counts nothing, so the waiting goroutine is done at once; when the caller's
  context is done too, \<^verbatim>\<open>select\<close> may take either case.\<close>

definition ConnMgr_Shutdown :: "bool \<Rightarrow> bool \<Rightarrow> ConnMgr \<Rightarrow> bool \<times> ConnMgr" where
  "ConnMgr_Shutdown caller_done pick_ctx m =
     (\<not> (caller_done \<and> pick_ctx), m\<lparr>mg_ctx_done := True\<rparr>)"

section \<open>Wrapped connections\<close>

record WrappedConn =
  wc_Conn :: nat
  wc_info :: nat
  wc_closed :: bool

definition ConnMgr_WrapConn :: "nat \<Rightarrow> nat \<Rightarrow> WrappedConn" where
  "ConnMgr_WrapConn conn info = \<lparr>wc_Conn = conn, wc_info = info, wc_closed = False\<rparr>"

text \<open>Reads and writes, given how many bytes the network connection moved.\<close>

definition WrappedConn_Read :: "int \<Rightarrow> nat \<Rightarrow> WrappedConn \<Rightarrow> ConnMgr \<Rightarrow> ConnMgr" where
  "WrappedConn_Read now n w m =
     (if n > 0
      then upd_info (wc_info w) (ConnInfo_UpdateActive now \<circ> ConnInfo_AddBytesIn (int n)) m else m)"

definition WrappedConn_Write :: "int \<Rightarrow> nat \<Rightarrow> WrappedConn \<Rightarrow> ConnMgr \<Rightarrow> ConnMgr" where
  "WrappedConn_Write now n w m =
     (if n > 0
      then upd_info (wc_info w) (ConnInfo_UpdateActive now \<circ> ConnInfo_AddBytesOut (int n)) m else m)"

text \<open>\<^verbatim>\<open>Close\<close>: whether it returned, the wrapper and the manager.\<close>

definition WrappedConn_Close :: "WrappedConn \<Rightarrow> ConnMgr \<Rightarrow> bool \<times> WrappedConn \<times> ConnMgr" where
  "WrappedConn_Close w m =
     (if wc_closed w then (True, w, m)
      else case ConnMgr_Release (Some (wc_info w)) m of (ok, m1) \<Rightarrow> (ok, w\<lparr>wc_closed := True\<rparr>, m1))"

section \<open>A server that uses the manager\<close>

text \<open>Every accepted connection is wrapped; wrappers may be read, written and closed, any number of
  times and in any order. Identifiers of live connections differ (they are 64 random bits).\<close>

inductive mgr_step :: "ConnMgr \<times> WrappedConn list \<Rightarrow> ConnMgr \<times> WrappedConn list \<Rightarrow> bool" where
  accept: "mg_connections m ident = None \<Longrightarrow> ConnMgr_Accept ident addr now m = (Ret i, m') \<Longrightarrow>
    mgr_step (m, ws) (m', ws @ [ConnMgr_WrapConn conn i])"
| refuse: "ConnMgr_Accept ident addr now m = (Err e, m') \<Longrightarrow> mgr_step (m, ws) (m', ws)"
| read_conn: "k < length ws \<Longrightarrow> mgr_step (m, ws) (WrappedConn_Read now n (ws ! k) m, ws)"
| write_conn: "k < length ws \<Longrightarrow> mgr_step (m, ws) (WrappedConn_Write now n (ws ! k) m, ws)"
| close_conn: "k < length ws \<Longrightarrow> WrappedConn_Close (ws ! k) m = (ok, w, m') \<Longrightarrow>
    mgr_step (m, ws) (m', ws[k := w])"
| shutdown: "mgr_step (m, ws) (snd (ConnMgr_Shutdown cd pk m), ws)"

definition open_conns :: "WrappedConn list \<Rightarrow> nat set" where
  "open_conns ws = {k. k < length ws \<and> \<not> wc_closed (ws ! k)}"

abbreviation mgr_steps :: "ConnMgr \<times> WrappedConn list \<Rightarrow> ConnMgr \<times> WrappedConn list \<Rightarrow> bool" where
  "mgr_steps \<equiv> mgr_step\<^sup>*\<^sup>*"

lemmas mgr_step_induct = mgr_step.induct [split_format (complete)]

section \<open>The accounting invariant\<close>

definition mgr_tracks :: "ConnInfo list \<Rightarrow> (gostr \<rightharpoonup> nat) \<Rightarrow> WrappedConn list \<Rightarrow> bool" where
  "mgr_tracks infos conns ws \<longleftrightarrow>
     length infos = length ws \<and> (\<forall>k < length ws. wc_info (ws ! k) = k)
     \<and> (\<forall>k < length ws. ci_closed (infos ! k) = wc_closed (ws ! k))
     \<and> (\<forall>ident k. conns ident = Some k \<longleftrightarrow> k \<in> open_conns ws \<and> ci_ID (infos ! k) = ident)"

definition mgr_counts :: "ConnMgr \<Rightarrow> WrappedConn list \<Rightarrow> bool" where
  "mgr_counts m ws \<longleftrightarrow>
     mg_active m = i64 (int (card (open_conns ws))) \<and> mg_total m = i64 (int (length ws))
     \<and> mg_sem_waiting m = 0
     \<and> (has_semaphore m \<longrightarrow> mg_sem_count m = card (open_conns ws)
          \<and> int (card (open_conns ws)) \<le> cm_MaxConnections (mg_config m))"

definition mgr_inv :: "ConnMgr \<Rightarrow> WrappedConn list \<Rightarrow> bool" where
  "mgr_inv m ws \<longleftrightarrow> mgr_tracks (mg_infos m) (mg_connections m) ws \<and> mgr_counts m ws"

lemma WrapConn_simps [simp]:
  "wc_info (ConnMgr_WrapConn conn i) = i" "\<not> wc_closed (ConnMgr_WrapConn conn i)"
  by (simp_all add: ConnMgr_WrapConn_def)

lemma finite_open [simp]: "finite (open_conns ws)"
  by (rule finite_subset [of _ "{..<length ws}"]) (auto simp: open_conns_def)

lemma open_conns_append [simp]:
  "open_conns (ws @ [ConnMgr_WrapConn conn i]) = insert (length ws) (open_conns ws)"
  by (auto simp: open_conns_def ConnMgr_WrapConn_def nth_append less_Suc_eq)

lemma card_open_append [simp]: "card (insert (length ws) (open_conns ws)) = Suc (card (open_conns ws))"
  by (subst card_insert_disjoint) (auto simp: open_conns_def)

lemma open_conns_close:
  "k < length ws \<Longrightarrow> wc_closed w \<Longrightarrow> open_conns (ws[k := w]) = open_conns ws - {k}"
  by (auto simp: open_conns_def nth_list_update)

lemma sem_try_send_frame:
  "sem_try_send m = Some m1 \<Longrightarrow>
   mg_infos m1 = mg_infos m \<and> mg_connections m1 = mg_connections m \<and> mg_active m1 = mg_active m
   \<and> mg_total m1 = mg_total m \<and> mg_config m1 = mg_config m \<and> mg_ctx_done m1 = mg_ctx_done m
   \<and> mg_rejected m1 = mg_rejected m"
  by (auto simp: sem_try_send_def split: if_splits)

lemma sem_receive_frame:
  "sem_receive m = (ok, m1) \<Longrightarrow>
   mg_infos m1 = mg_infos m \<and> mg_connections m1 = mg_connections m \<and> mg_active m1 = mg_active m
   \<and> mg_total m1 = mg_total m \<and> mg_config m1 = mg_config m"
  by (auto simp: sem_receive_def split: if_splits)

lemma tracks_conn:
  "mgr_tracks infos conns ws \<Longrightarrow> k \<in> open_conns ws \<Longrightarrow> conns (ci_ID (infos ! k)) = Some k"
  by (simp add: mgr_tracks_def)

lemma tracks_accept:
  assumes "mgr_tracks infos conns ws" "conns ident = None"
    and "ci_ID info = ident" "\<not> ci_closed info"
  shows "mgr_tracks (infos @ [info]) (conns(ident \<mapsto> length infos))
           (ws @ [ConnMgr_WrapConn conn (length infos)])"
proof -
  have "k < length ws" if "k \<in> open_conns ws" for k using that by (simp add: open_conns_def)
  moreover have "ci_ID (infos ! k) \<noteq> ident" if "k \<in> open_conns ws" for k
    using assms(2) tracks_conn [OF assms(1) that] by auto
  ultimately show ?thesis
    using assms by (auto simp: mgr_tracks_def nth_append less_Suc_eq)
qed

lemma accept_keeps:
  assumes inv: "mgr_inv m ws" and id: "mg_connections m ident = None"
    and acc: "ConnMgr_Accept ident addr now m = (Ret i, m')"
  shows "mgr_inv m' (ws @ [ConnMgr_WrapConn conn i])"
proof -
  from acc obtain m1 where send: "sem_try_send m = Some m1"
    by (auto simp: ConnMgr_Accept_def split: if_splits option.splits)
  note frame = sem_try_send_frame [OF send]
  from acc send frame have i: "i = length (mg_infos m)"
    and m': "m' = m1\<lparr>mg_active := i64 (mg_active m + 1), mg_total := i64 (mg_total m + 1),
        mg_infos := mg_infos m @ [new_info ident addr now],
        mg_connections := (mg_connections m)(ident \<mapsto> length (mg_infos m))\<rparr>"
    by (auto simp: ConnMgr_Accept_def split: if_splits)
  have "mgr_tracks (mg_infos m') (mg_connections m') (ws @ [ConnMgr_WrapConn conn i])"
    using inv id tracks_accept [of "mg_infos m" "mg_connections m" ws ident]
    by (simp add: mgr_inv_def m' i new_info_def ConnInfo_UpdateActive_def)
  moreover have "mg_sem_waiting m1 = 0 \<and> (has_semaphore m \<longrightarrow> mg_sem_count m1 = Suc (mg_sem_count m)
      \<and> int (mg_sem_count m) < cm_MaxConnections (mg_config m))"
    using send inv by (auto simp: sem_try_send_def mgr_inv_def mgr_counts_def split: if_splits)
  then have "mgr_counts m' (ws @ [ConnMgr_WrapConn conn i])"
    using inv frame by (auto simp: mgr_inv_def mgr_counts_def m' has_semaphore_def add.commute [of 1])
  ultimately show ?thesis by (simp add: mgr_inv_def)
qed

lemma upd_info_simps [simp]:
  "mg_connections (upd_info k f m) = mg_connections m" "mg_active (upd_info k f m) = mg_active m"
  "mg_total (upd_info k f m) = mg_total m" "mg_config (upd_info k f m) = mg_config m"
  "mg_sem_count (upd_info k f m) = mg_sem_count m" "mg_sem_waiting (upd_info k f m) = mg_sem_waiting m"
  "mg_infos (upd_info k f m) = (mg_infos m)[k := f (mg_infos m ! k)]"
  by (simp_all add: upd_info_def)

lemma upd_info_keeps:
  assumes "mgr_inv m ws" "\<And>c. ci_ID (f c) = ci_ID c" "\<And>c. ci_closed (f c) = ci_closed c"
  shows "mgr_inv (upd_info k f m) ws"
proof -
  have "ci_ID (xs[k := f (xs ! k)] ! j) = ci_ID (xs ! j)
      \<and> ci_closed (xs[k := f (xs ! k)] ! j) = ci_closed (xs ! j)" for j xs
    by (cases "k = j"; cases "k < length xs"; simp add: list_update_beyond assms(2,3))
  then have "mgr_tracks (mg_infos (upd_info k f m)) (mg_connections m) ws"
    using assms(1) by (simp only: mgr_inv_def mgr_tracks_def upd_info_simps length_list_update) blast
  with assms(1) show ?thesis by (simp add: mgr_inv_def mgr_counts_def has_semaphore_def)
qed

lemma tracks_close:
  assumes tr: "mgr_tracks infos conns ws" and k: "k \<in> open_conns ws"
  shows "mgr_tracks (infos[k := ConnInfo_Close (infos ! k)]) (conns(ci_ID (infos ! k) := None))
           (ws[k := (ws ! k)\<lparr>wc_closed := True\<rparr>])"
proof -
  have len: "k < length ws" "k < length infos"
    using assms by (auto simp: mgr_tracks_def open_conns_def)
  have ids: "ci_ID (infos[k := ConnInfo_Close (infos ! k)] ! j) = ci_ID (infos ! j)" for j
    using len by (simp add: nth_list_update ConnInfo_Close_def)
  have "ident = ci_ID (infos ! k) \<longleftrightarrow> j = k" if "conns ident = Some j" for ident j
    using that tracks_conn [OF tr k] tr by (metis mgr_tracks_def option.inject)
  then have "(conns(ci_ID (infos ! k) := None)) ident = Some j \<longleftrightarrow> conns ident = Some j \<and> j \<noteq> k" for ident j
    by auto
  with tr len ids show ?thesis
    by (auto simp: mgr_tracks_def open_conns_close nth_list_update ConnInfo_Close_def)
qed

lemma close_keeps:
  assumes inv: "mgr_inv m ws" and k: "k < length ws"
    and cl: "WrappedConn_Close (ws ! k) m = (ok, w, m')"
  shows "ok \<and> mgr_inv m' (ws[k := w])"
proof (cases "wc_closed (ws ! k)")
  case True
  with inv k cl show ?thesis by (auto simp: WrappedConn_Close_def)
next
  case False
  let ?m2 = "(upd_info k ConnInfo_Close m)\<lparr>mg_active := i64 (mg_active m - 1),
      mg_connections := (mg_connections m)(ci_ID (mg_infos m ! k) := None)\<rparr>"
  have op: "k \<in> open_conns ws" using k False by (simp add: open_conns_def)
  have card: "0 < card (open_conns ws)" "card (open_conns ws - {k}) = card (open_conns ws) - 1"
    using op by (auto simp: card_gt_0_iff)
  have info: "wc_info (ws ! k) = k" "k < length (mg_infos m)"
    using inv k by (auto simp: mgr_inv_def mgr_tracks_def)
  have rc: "sem_receive ?m2 = (ok, m')" and w: "w = (ws ! k)\<lparr>wc_closed := True\<rparr>"
    using cl False info by (auto simp: WrappedConn_Close_def ConnMgr_Release_def Let_def
        ConnInfo_Close_def split: prod.splits)
  note frame = sem_receive_frame [OF rc]
  have "mgr_tracks (mg_infos m') (mg_connections m') (ws[k := w])"
    using tracks_close [OF _ op] inv frame by (simp add: mgr_inv_def w)
  moreover have "ok \<and> mgr_counts m' (ws[k := w])"
    using inv rc card k
    by (auto simp: mgr_inv_def mgr_counts_def sem_receive_def has_semaphore_def w of_nat_diff
        open_conns_close split: if_splits)
  ultimately show ?thesis by (simp add: mgr_inv_def)
qed

lemma mgr_step_keeps: "mgr_step (m, ws) (m', ws') \<Longrightarrow> mgr_inv m ws \<Longrightarrow> mgr_inv m' ws'"
proof (induction rule: mgr_step_induct)
  case (refuse ident addr now m e m' ws)
  then show ?case
    by (auto simp: ConnMgr_Accept_def mgr_inv_def mgr_counts_def has_semaphore_def
        split: if_splits option.splits)
next
  case (shutdown m ws cd pk)
  then show ?case by (simp add: ConnMgr_Shutdown_def mgr_inv_def mgr_counts_def has_semaphore_def)
qed (auto intro: accept_keeps upd_info_keeps close_keeps [THEN conjunct2]
    simp: WrappedConn_Read_def WrappedConn_Write_def ConnInfo_UpdateActive_def
      ConnInfo_AddBytesIn_def ConnInfo_AddBytesOut_def)

lemma mgr_reachable_inv:
  "mgr_steps (NewConnMgr cfg, []) (m, ws) \<Longrightarrow> mgr_inv m ws"
proof (induction "(m, ws)" arbitrary: m ws rule: rtranclp_induct)
  case base
  then show ?case 
    by (auto simp: NewConnMgr_def mgr_inv_def mgr_tracks_def mgr_counts_def open_conns_def has_semaphore_def)
next
  case (step s)
  then show ?case by (cases s) (auto intro: mgr_step_keeps)
qed

section \<open>Properties\<close>

lemma inv_accepts_iff:
  assumes "mgr_inv m ws"
  shows "(\<exists>i. fst (ConnMgr_Accept ident addr now m) = Ret i) \<longleftrightarrow>
    \<not> mg_ctx_done m \<and> (has_semaphore m \<longrightarrow> int (card (open_conns ws)) < cm_MaxConnections (mg_config m))"
  using assms by (auto simp: ConnMgr_Accept_def sem_try_send_def mgr_inv_def mgr_counts_def)

lemma inv_GetInfo:
  assumes "mgr_inv m ws"
  shows "ConnMgr_GetInfo ident m = Some c \<longleftrightarrow>
    (\<exists>k \<in> open_conns ws. mg_infos m ! k = c \<and> ci_ID c = ident)"
  using assms by (auto simp: ConnMgr_GetInfo_def mgr_inv_def mgr_tracks_def)

text \<open>The utilization is a percentage, and 100 exactly when the manager turns connections away.\<close>

lemma inv_utilization:
  assumes "mgr_inv m ws" and "has_semaphore m" and "in_i64 (cm_MaxConnections (mg_config m))"
  shows "0 \<le> ms_Utilization (ConnMgr_GetStats m)" "ms_Utilization (ConnMgr_GetStats m) \<le> 100"
    "ms_Utilization (ConnMgr_GetStats m) = 100 \<longleftrightarrow> sem_try_send m = None"
proof -
  define n where "n = int (card (open_conns ws))"
  define k where "k = cm_MaxConnections (mg_config m)"
  have n: "0 \<le> n" "n \<le> k" "0 < k" and sem: "int (mg_sem_count m) = n" "mg_sem_waiting m = 0"
    using assms by (simp_all add: n_def k_def mgr_inv_def mgr_counts_def has_semaphore_def)
  have "mg_active m = n"
    using assms n by (simp add: n_def k_def mgr_inv_def mgr_counts_def in_i64_def)
  with n have u: "ms_Utilization (ConnMgr_GetStats m) = of_int n / of_int k * 100"
    by (simp add: ConnMgr_GetStats_def Let_def k_def)
  then show "0 \<le> ms_Utilization (ConnMgr_GetStats m)" using n by simp
  show "ms_Utilization (ConnMgr_GetStats m) \<le> 100" using n u by (simp add: divide_le_eq)
  have "ms_Utilization (ConnMgr_GetStats m) = 100 \<longleftrightarrow> of_int n = (of_int k :: rat)"
    using n u by (simp add: divide_eq_eq)
  then show "ms_Utilization (ConnMgr_GetStats m) = 100 \<longleftrightarrow> sem_try_send m = None"
    using n sem assms(2) by (auto simp: sem_try_send_def k_def [symmetric])
qed

text \<open>C16. A server that accepts connections through the manager and wraps them, and closes the wrappers in
  any order and any number of times, never has more than \<^verbatim>\<open>MaxConnections\<close> open; the counters and the
  map agree with the open connections; a new connection is admitted exactly when the manager is not shut
  down and the limit is not reached; and no \<^verbatim>\<open>Close\<close> blocks on the semaphore.\<close>

theorem connection_limit_respected:
  assumes "mgr_steps (NewConnMgr cfg, []) (m, ws)"
  shows "mg_active m = i64 (int (card (open_conns ws))) \<and> mg_total m = i64 (int (length ws))
    \<and> (has_semaphore m \<longrightarrow> int (card (open_conns ws)) \<le> cm_MaxConnections (mg_config m))
    \<and> (\<forall>ident c. ConnMgr_GetInfo ident m = Some c \<longleftrightarrow>
         (\<exists>k \<in> open_conns ws. mg_infos m ! k = c \<and> ci_ID c = ident))
    \<and> (\<forall>ident addr now. (\<exists>i. fst (ConnMgr_Accept ident addr now m) = Ret i) \<longleftrightarrow>
         \<not> mg_ctx_done m
         \<and> (has_semaphore m \<longrightarrow> int (card (open_conns ws)) < cm_MaxConnections (mg_config m)))
    \<and> (\<forall>k < length ws. fst (WrappedConn_Close (ws ! k) m))"
proof -
  note inv = mgr_reachable_inv [OF assms]
  have "fst (WrappedConn_Close (ws ! k) m)" if "k < length ws" for k
    using close_keeps [OF inv that] by (metis prod.exhaust_sel)
  then show ?thesis
    using inv inv_accepts_iff [OF inv] inv_GetInfo [OF inv] by (simp add: mgr_inv_def mgr_counts_def)
qed

definition one_conn_config :: ConnMgr_Config where
  "one_conn_config = \<lparr>cm_MaxConnections = 1, cm_ConnectionTimeout = 0, cm_AcceptTimeout = 0\<rparr>"

theorem connection_limit_respected_witness:
  "let m = snd (ConnMgr_Accept (str ''a'') (str ''x'') 5 (NewConnMgr one_conn_config))
   in mgr_steps (NewConnMgr one_conn_config, []) (m, [ConnMgr_WrapConn 9 0])
      \<and> (\<nexists>i. fst (ConnMgr_Accept (str ''b'') (str ''y'') 6 m) = Ret i)"
proof -
  let ?m = "snd (ConnMgr_Accept (str ''a'') (str ''x'') 5 (NewConnMgr one_conn_config))"
  have "mgr_step (NewConnMgr one_conn_config, []) (?m, [] @ [ConnMgr_WrapConn 9 0])"
    by (rule mgr_step.accept [of _ "str ''a''"])
      (simp_all add: NewConnMgr_def ConnMgr_Accept_def sem_try_send_def has_semaphore_def one_conn_config_def)
  then have steps: "mgr_steps (NewConnMgr one_conn_config, []) (?m, [ConnMgr_WrapConn 9 0])" by simp
  have "open_conns [ConnMgr_WrapConn 9 0] = {0}" by (auto simp: open_conns_def)
  moreover have "cm_MaxConnections (mg_config ?m) = 1" "has_semaphore ?m"
    by (simp_all add: NewConnMgr_def ConnMgr_Accept_def sem_try_send_def has_semaphore_def one_conn_config_def)
  ultimately show ?thesis
    using steps connection_limit_respected [OF steps] by (simp add: Let_def)
qed

text \<open>Released twice, one connection gives back two permits: one more connection than the limit is
  admitted.\<close>

lemma double_release_exceeds_limit:
  assumes inv: "mgr_inv m ws" and k: "k \<in> open_conns ws"
    and full: "int (card (open_conns ws)) = cm_MaxConnections (mg_config m)" "2 \<le> card (open_conns ws)"
    and "\<not> mg_ctx_done m"
  shows "\<exists>m1 m2 m3 m4 a b. ConnMgr_Release (Some k) m = (True, m1) \<and> ConnMgr_Release (Some k) m1 = (True, m2)
     \<and> ConnMgr_Accept ida aa ta m2 = (Ret a, m3) \<and> ConnMgr_Accept idb ab tb m3 = (Ret b, m4)"
  using assms
  by (auto simp: mgr_inv_def mgr_counts_def ConnMgr_Release_def sem_receive_def has_semaphore_def
      upd_info_def ConnMgr_Accept_def sem_try_send_def Let_def of_nat_diff)

text \<open>\<^verbatim>\<open>Shutdown\<close> reports success although connections are open: nothing adds to its wait group.\<close>

lemma shutdown_does_not_wait:
  "\<exists>m'. ConnMgr_Shutdown False pk m = (True, m') \<and> mg_active m' = mg_active m
     \<and> mg_connections m' = mg_connections m"
  by (simp add: ConnMgr_Shutdown_def)

end
