(* ===== verification/Stats_Handlers.thy ===== *)
theory Stats_Handlers
  imports Go_Prelude "HOL-Library.Multiset"
begin

text \<open>
  The statistics handlers of \<^verbatim>\<open>quic/stats.go\<close>. A handler holds pointers to atomic counters, some of which
  may be nil; the records hold the values of the counters, \<open>None\<close> for nil. The locale \<open>stats_sink\<close> is the
  contract of the interface \<^verbatim>\<open>StatsHandler\<close>: updates of a counter add up and commute, so the
  totals do not depend on the order in which goroutines report. It is interpreted on the server's and
  the client's handler and carries over to the interface value, of which the third implementation does
  nothing.
\<close>

section \<open>Counters\<close>

datatype counter = ActiveConnection | TotalConnection | BytesIn | BytesOut | ActiveTunnel | TotalTunnel

text \<open>\<^verbatim>\<open>if c != nil { c.Add(delta) }\<close>\<close>

definition add_counter :: "int \<Rightarrow> int option \<Rightarrow> int option" where
  "add_counter delta c = map_option (\<lambda>v. i64 (v + delta)) c"

section \<open>Server statistics\<close>

record ServerStatsHandler =
  sst_activeConns :: "int option"
  sst_totalConns :: "int option"
  sst_bytesIn :: "int option"
  sst_bytesOut :: "int option"
  sst_activeTunnels :: "int option"
  sst_totalTunnels :: "int option"

definition NewServerStatsHandler ::
  "int option \<Rightarrow> int option \<Rightarrow> int option \<Rightarrow> int option \<Rightarrow> int option \<Rightarrow> int option \<Rightarrow> ServerStatsHandler" where
  "NewServerStatsHandler activeConns totalConns bytesIn bytesOut activeTunnels totalTunnels =
     \<lparr>sst_activeConns = activeConns, sst_totalConns = totalConns, sst_bytesIn = bytesIn,
      sst_bytesOut = bytesOut, sst_activeTunnels = activeTunnels, sst_totalTunnels = totalTunnels\<rparr>"

definition Server_AddActiveConnection :: "int \<Rightarrow> ServerStatsHandler \<Rightarrow> ServerStatsHandler" where
  "Server_AddActiveConnection delta h = h\<lparr>sst_activeConns := add_counter delta (sst_activeConns h)\<rparr>"

definition Server_AddTotalConnection :: "int \<Rightarrow> ServerStatsHandler \<Rightarrow> ServerStatsHandler" where
  "Server_AddTotalConnection delta h = h\<lparr>sst_totalConns := add_counter delta (sst_totalConns h)\<rparr>"

definition Server_AddBytesIn :: "int \<Rightarrow> ServerStatsHandler \<Rightarrow> ServerStatsHandler" where
  "Server_AddBytesIn n h = h\<lparr>sst_bytesIn := add_counter n (sst_bytesIn h)\<rparr>"

definition Server_AddBytesOut :: "int \<Rightarrow> ServerStatsHandler \<Rightarrow> ServerStatsHandler" where
  "Server_AddBytesOut n h = h\<lparr>sst_bytesOut := add_counter n (sst_bytesOut h)\<rparr>"

definition Server_AddActiveTunnel :: "int \<Rightarrow> ServerStatsHandler \<Rightarrow> ServerStatsHandler" where
  "Server_AddActiveTunnel delta h = h\<lparr>sst_activeTunnels := add_counter delta (sst_activeTunnels h)\<rparr>"

definition Server_AddTotalTunnel :: "int \<Rightarrow> ServerStatsHandler \<Rightarrow> ServerStatsHandler" where
  "Server_AddTotalTunnel delta h = h\<lparr>sst_totalTunnels := add_counter delta (sst_totalTunnels h)\<rparr>"

fun server_update :: "counter \<Rightarrow> int \<Rightarrow> ServerStatsHandler \<Rightarrow> ServerStatsHandler" where
  "server_update ActiveConnection = Server_AddActiveConnection"
| "server_update TotalConnection = Server_AddTotalConnection"
| "server_update BytesIn = Server_AddBytesIn"
| "server_update BytesOut = Server_AddBytesOut"
| "server_update ActiveTunnel = Server_AddActiveTunnel"
| "server_update TotalTunnel = Server_AddTotalTunnel"

section \<open>Client statistics\<close>

record ClientStatsHandler =
  cst_activeConns :: "int option"
  cst_totalConns :: "int option"
  cst_bytesIn :: "int option"
  cst_bytesOut :: "int option"

definition NewClientStatsHandler ::
  "int option \<Rightarrow> int option \<Rightarrow> int option \<Rightarrow> int option \<Rightarrow> ClientStatsHandler" where
  "NewClientStatsHandler activeConns totalConns bytesIn bytesOut =
     \<lparr>cst_activeConns = activeConns, cst_totalConns = totalConns, cst_bytesIn = bytesIn,
      cst_bytesOut = bytesOut\<rparr>"

definition Client_AddActiveConnection :: "int \<Rightarrow> ClientStatsHandler \<Rightarrow> ClientStatsHandler" where
  "Client_AddActiveConnection delta h = h\<lparr>cst_activeConns := add_counter delta (cst_activeConns h)\<rparr>"

definition Client_AddTotalConnection :: "int \<Rightarrow> ClientStatsHandler \<Rightarrow> ClientStatsHandler" where
  "Client_AddTotalConnection delta h = h\<lparr>cst_totalConns := add_counter delta (cst_totalConns h)\<rparr>"

definition Client_AddBytesIn :: "int \<Rightarrow> ClientStatsHandler \<Rightarrow> ClientStatsHandler" where
  "Client_AddBytesIn n h = h\<lparr>cst_bytesIn := add_counter n (cst_bytesIn h)\<rparr>"

definition Client_AddBytesOut :: "int \<Rightarrow> ClientStatsHandler \<Rightarrow> ClientStatsHandler" where
  "Client_AddBytesOut n h = h\<lparr>cst_bytesOut := add_counter n (cst_bytesOut h)\<rparr>"

text \<open>A client has a single tunnel and does not count tunnels.\<close>

definition Client_AddActiveTunnel :: "int \<Rightarrow> ClientStatsHandler \<Rightarrow> ClientStatsHandler" where
  "Client_AddActiveTunnel delta h = h"

definition Client_AddTotalTunnel :: "int \<Rightarrow> ClientStatsHandler \<Rightarrow> ClientStatsHandler" where
  "Client_AddTotalTunnel delta h = h"

fun client_update :: "counter \<Rightarrow> int \<Rightarrow> ClientStatsHandler \<Rightarrow> ClientStatsHandler" where
  "client_update ActiveConnection = Client_AddActiveConnection"
| "client_update TotalConnection = Client_AddTotalConnection"
| "client_update BytesIn = Client_AddBytesIn"
| "client_update BytesOut = Client_AddBytesOut"
| "client_update ActiveTunnel = Client_AddActiveTunnel"
| "client_update TotalTunnel = Client_AddTotalTunnel"

section \<open>The interface value\<close>

datatype StatsHandler = ServerStats ServerStatsHandler | ClientStats ClientStatsHandler | NoopStats

definition stats_update :: "counter \<Rightarrow> int \<Rightarrow> StatsHandler \<Rightarrow> StatsHandler" where
  "stats_update c delta h =
     (case h of
        ServerStats s \<Rightarrow> ServerStats (server_update c delta s)
      | ClientStats s \<Rightarrow> ClientStats (client_update c delta s)
      | NoopStats \<Rightarrow> NoopStats)"

lemmas stats_defs [state_defs] =
  Server_AddActiveConnection_def Server_AddTotalConnection_def Server_AddBytesIn_def
  Server_AddBytesOut_def Server_AddActiveTunnel_def Server_AddTotalTunnel_def
  Client_AddActiveConnection_def Client_AddTotalConnection_def Client_AddBytesIn_def
  Client_AddBytesOut_def Client_AddActiveTunnel_def Client_AddTotalTunnel_def

section \<open>The contract of the interface\<close>

fun report :: "('c \<Rightarrow> int \<Rightarrow> 's \<Rightarrow> 's) \<Rightarrow> 'c \<times> int \<Rightarrow> 's \<Rightarrow> 's" where
  "report upd (c, d) s = upd c d s"

definition total_of :: "'c \<Rightarrow> ('c \<times> int) list \<Rightarrow> int" where
  "total_of c us = sum_list (map snd (filter (\<lambda>u. fst u = c) us))"

locale stats_sink =
  fixes upd :: "'c \<Rightarrow> int \<Rightarrow> 's \<Rightarrow> 's"
    and observe :: "'c \<Rightarrow> 's \<Rightarrow> int option"
  assumes observe_same: "observe c (upd c d s) = add_counter d (observe c s)"
    and observe_other: "c \<noteq> c' \<Longrightarrow> observe c (upd c' d s) = observe c s"
    and observe_ext: "(\<And>c. observe c s = observe c s') \<Longrightarrow> s = s'"
begin

lemma add_counter_add: "add_counter d (add_counter d' x) = add_counter (d' + d) x"
  by (cases x) (simp_all add: add_counter_def ac_simps)

lemma updates_commute: "report upd u \<circ> report upd v = report upd v \<circ> report upd u"
proof
  obtain c d c' d' where uv: "u = (c, d)" "v = (c', d')" by (metis surj_pair)
  show "(report upd u \<circ> report upd v) s = (report upd v \<circ> report upd u) s" for s
  proof (rule observe_ext)
    show "observe x ((report upd u \<circ> report upd v) s) = observe x ((report upd v \<circ> report upd u) s)" for x
      by (cases "x = c"; cases "x = c'")
        (simp_all add: uv observe_same observe_other add_counter_add add.commute)
  qed
qed

text \<open>However the reports of concurrent goroutines interleave, the statistics end up the same.\<close>

lemma report_order_irrelevant: "mset us = mset vs \<Longrightarrow> fold (report upd) us s = fold (report upd) vs s"
  using fold_multiset_equiv [of us "report upd" vs] updates_commute by metis

lemma observe_total:
  "observe c s = Some v \<Longrightarrow> in_i64 v \<Longrightarrow>
   observe c (fold (report upd) us s) = Some (i64 (v + total_of c us))"
proof (induction us arbitrary: s v)
  case Nil
  then show ?case by (simp add: total_of_def)
next
  case (Cons u us)
  obtain c' d where u: "u = (c', d)" by (metis surj_pair)
  show ?case
  proof (cases "c' = c")
    case True
    with Cons(2) u have "observe c (report upd u s) = Some (i64 (v + d))"
      by (simp add: observe_same add_counter_def)
    from Cons.IH [OF this] True u show ?thesis by (simp add: total_of_def add.assoc)
  next
    case False
    with Cons(2) u have "observe c (report upd u s) = Some v" by (simp add: observe_other)
    from Cons.IH [OF this Cons(3)] False u show ?thesis by (simp add: total_of_def)
  qed
qed

end

section \<open>The handlers meet it\<close>

fun server_observe :: "counter \<Rightarrow> ServerStatsHandler \<Rightarrow> int option" where
  "server_observe ActiveConnection h = sst_activeConns h"
| "server_observe TotalConnection h = sst_totalConns h"
| "server_observe BytesIn h = sst_bytesIn h"
| "server_observe BytesOut h = sst_bytesOut h"
| "server_observe ActiveTunnel h = sst_activeTunnels h"
| "server_observe TotalTunnel h = sst_totalTunnels h"

fun client_observe :: "counter \<Rightarrow> ClientStatsHandler \<Rightarrow> int option" where
  "client_observe ActiveConnection h = cst_activeConns h"
| "client_observe TotalConnection h = cst_totalConns h"
| "client_observe BytesIn h = cst_bytesIn h"
| "client_observe BytesOut h = cst_bytesOut h"
| "client_observe ActiveTunnel h = None"
| "client_observe TotalTunnel h = None"

interpretation server_stats: stats_sink server_update server_observe
proof
  fix c c' :: counter and d :: int and h h' :: ServerStatsHandler
  show "server_observe c (server_update c d h) = add_counter d (server_observe c h)"
    by (cases c) (simp_all add: stats_defs)
  show "c \<noteq> c' \<Longrightarrow> server_observe c (server_update c' d h) = server_observe c h"
    by (cases c; cases c') (simp_all add: stats_defs)
  show "(\<And>c. server_observe c h = server_observe c h') \<Longrightarrow> h = h'"
    by (metis (full_types) ServerStatsHandler.equality old.unit.exhaust server_observe.simps)
qed

interpretation client_stats: stats_sink client_update client_observe
proof
  fix c c' :: counter and d :: int and h h' :: ClientStatsHandler
  show "client_observe c (client_update c d h) = add_counter d (client_observe c h)"
    by (cases c) (simp_all add: stats_defs add_counter_def)
  show "c \<noteq> c' \<Longrightarrow> client_observe c (client_update c' d h) = client_observe c h"
    by (cases c; cases c') (simp_all add: stats_defs)
  show "(\<And>c. client_observe c h = client_observe c h') \<Longrightarrow> h = h'"
    by (metis (full_types) ClientStatsHandler.equality old.unit.exhaust client_observe.simps)
qed

lemma fold_report_server:
  "fold (report stats_update) us (ServerStats h) = ServerStats (fold (report server_update) us h)"
  by (induction us arbitrary: h) (auto simp: stats_update_def)

lemma fold_report_client:
  "fold (report stats_update) us (ClientStats h) = ClientStats (fold (report client_update) us h)"
  by (induction us arbitrary: h) (auto simp: stats_update_def)

lemma fold_report_noop: "fold (report stats_update) us NoopStats = NoopStats"
  by (induction us) (auto simp: stats_update_def)

lemma stats_report_order:
  "mset us = mset vs \<Longrightarrow> fold (report stats_update) us h = fold (report stats_update) vs h"
  using server_stats.report_order_irrelevant client_stats.report_order_irrelevant
  by (cases h) (metis fold_report_server fold_report_client fold_report_noop)+

end
