(* ===== verification/Tunnel_Registry.thy ===== *)
theory Tunnel_Registry
  imports Server_Invariants Stats_Handlers
begin

text \<open>
  The tunnel registry of \<^verbatim>\<open>quic/tunnel_registry.go\<close>, the bookkeeping of \<^verbatim>\<open>MuxServer\<close> as a component of
  its own. It works on the same tunnel objects: \<open>rg_heap\<close> is the heap of tunnels, and the maps hold
  pointers into it. Shown: the counter of active tunnels is the number of registered tunnels under every
  sequence of operations, and on the states a server reaches its health check does what the server's does.
\<close>

section \<open>State\<close>

record TunnelRegistry =
  rg_heap :: "Tunnel list"
  rg_tunnels :: "gostr \<rightharpoonup> nat"
  rg_tunnelByDomain :: "gostr \<rightharpoonup> nat"
  rg_activeTunnels :: int
  rg_totalTunnels :: int
  rg_onTunnelClose :: bool
  rg_close_calls :: "nat list"
  rg_portManager :: "PortManager option"
  rg_statsHandler :: "StatsHandler option"
  rg_closed :: "endpoint set"

definition NewTunnelRegistry :: "PortManager option \<Rightarrow> StatsHandler option \<Rightarrow> TunnelRegistry" where
  "NewTunnelRegistry portManager statsHandler =
     \<lparr>rg_heap = [], rg_tunnels = Map.empty, rg_tunnelByDomain = Map.empty, rg_activeTunnels = 0,
      rg_totalTunnels = 0, rg_onTunnelClose = False, rg_close_calls = [], rg_portManager = portManager,
      rg_statsHandler = statsHandler, rg_closed = {}\<rparr>"

section \<open>Operations\<close>

definition rg_stat :: "counter \<Rightarrow> int \<Rightarrow> TunnelRegistry \<Rightarrow> TunnelRegistry" where
  "rg_stat c delta r = r\<lparr>rg_statsHandler := map_option (stats_update c delta) (rg_statsHandler r)\<rparr>"

definition Registry_Register :: "nat \<Rightarrow> TunnelRegistry \<Rightarrow> TunnelRegistry" where
  "Registry_Register p r =
     (let t = rg_heap r ! p;
          r1 = r\<lparr>rg_tunnels := (rg_tunnels r)(tn_ID t \<mapsto> p),
                 rg_activeTunnels := i64 (rg_activeTunnels r + 1),
                 rg_totalTunnels := i64 (rg_totalTunnels r + 1)\<rparr>;
          r2 = rg_stat TotalTunnel 1 (rg_stat ActiveTunnel 1 r1)
      in if tn_Domain t \<noteq> []
         then r2\<lparr>rg_tunnelByDomain := (rg_tunnelByDomain r2)(tn_Domain t \<mapsto> p)\<rparr> else r2)"

text \<open>The part that \<^verbatim>\<open>Unregister\<close> and \<^verbatim>\<open>Delete\<close> share: the tunnel found under the ID is taken out of the
  maps, and its port is released.\<close>

definition Registry_Delete :: "gostr \<Rightarrow> TunnelRegistry \<Rightarrow> nat option \<times> TunnelRegistry" where
  "Registry_Delete tunnelID r =
     (case rg_tunnels r tunnelID of
        None \<Rightarrow> (None, r)
      | Some p \<Rightarrow>
          let t = rg_heap r ! p;
              r1 = rg_stat ActiveTunnel (- 1)
                     (r\<lparr>rg_tunnels := (rg_tunnels r)(tunnelID := None),
                        rg_activeTunnels := i64 (rg_activeTunnels r - 1)\<rparr>);
              r2 = (if tn_Domain t \<noteq> []
                    then r1\<lparr>rg_tunnelByDomain := (rg_tunnelByDomain r1)(tn_Domain t := None)\<rparr> else r1);
              r3 = (if tn_Port t > 0
                    then r2\<lparr>rg_portManager := map_option (PortManager_Release (tn_Port t)) (rg_portManager r2)\<rparr>
                    else r2)
          in (Some p, r3))"

definition Registry_Unregister :: "gostr \<Rightarrow> TunnelRegistry \<Rightarrow> TunnelRegistry" where
  "Registry_Unregister tunnelID r = snd (Registry_Delete tunnelID r)"

definition Registry_Get :: "gostr \<Rightarrow> TunnelRegistry \<Rightarrow> nat option" where
  "Registry_Get tunnelID r = rg_tunnels r tunnelID"

definition Registry_GetByDomain :: "gostr \<Rightarrow> TunnelRegistry \<Rightarrow> nat option" where
  "Registry_GetByDomain domain r = rg_tunnelByDomain r domain"

definition Registry_Count :: "TunnelRegistry \<Rightarrow> nat" where
  "Registry_Count r = card (dom (rg_tunnels r))"

definition Registry_SetOnTunnelClose :: "bool \<Rightarrow> TunnelRegistry \<Rightarrow> TunnelRegistry" where
  "Registry_SetOnTunnelClose fn r = r\<lparr>rg_onTunnelClose := fn\<rparr>"

text \<open>\<^verbatim>\<open>CloseTunnel\<close>; the counter of active connections is the caller's and may be nil.\<close>

definition Registry_CloseTunnel ::
  "nat \<Rightarrow> int option \<Rightarrow> TunnelRegistry \<Rightarrow> int option \<times> TunnelRegistry" where
  "Registry_CloseTunnel p activeConns r =
     (let t = rg_heap r ! p;
          r1 = r\<lparr>rg_heap := (rg_heap r)[p := t\<lparr>tn_cancelled := True, tn_externalListener := False,
                              tn_externalQUICListener := False, tn_ExternalConns := Map.empty\<rparr>],
                 rg_closed := rg_closed r \<union> insert (QConn (tn_Conn t)) (ExtConn ` ran (tn_ExternalConns t))\<rparr>;
          r2 = snd (Registry_Delete (tn_ID t) r1)
      in (map_option (\<lambda>v. i64 (v - int (card (dom (tn_ExternalConns t))))) activeConns,
          if rg_onTunnelClose r2 then r2\<lparr>rg_close_calls := rg_close_calls r2 @ [p]\<rparr> else r2))"

text \<open>\<^verbatim>\<open>CheckTimeouts\<close>, over the IDs in the order in which \<^verbatim>\<open>Range\<close> visits them: the number of tunnels
  closed, the counter of active connections, the registry.\<close>

definition Registry_check ::
  "int \<Rightarrow> int \<Rightarrow> gostr \<Rightarrow> nat \<times> int option \<times> TunnelRegistry \<Rightarrow> nat \<times> int option \<times> TunnelRegistry" where
  "Registry_check now timeout i st =
     (case st of (n, ac, r) \<Rightarrow>
        case rg_tunnels r i of
          None \<Rightarrow> (n, ac, r)
        | Some p \<Rightarrow>
            if unix now - tn_LastActive (rg_heap r ! p) > timeout div second
            then (n + 1, Registry_CloseTunnel p ac r) else (n, ac, r))"

definition Registry_CheckTimeouts ::
  "int \<Rightarrow> int \<Rightarrow> gostr list \<Rightarrow> int option \<Rightarrow> TunnelRegistry \<Rightarrow> nat \<times> int option \<times> TunnelRegistry" where
  "Registry_CheckTimeouts now timeout visits activeConns r =
     fold (Registry_check now timeout) visits (0, activeConns, r)"

record TunnelRegistryStats =
  trs_ActiveTunnels :: int
  trs_TotalTunnels :: int

definition Registry_GetStats :: "TunnelRegistry \<Rightarrow> TunnelRegistryStats" where
  "Registry_GetStats r =
     \<lparr>trs_ActiveTunnels = rg_activeTunnels r, trs_TotalTunnels = rg_totalTunnels r\<rparr>"

section \<open>Sequences of operations\<close>

text \<open>Tunnels are created (allocated on the heap) and registered under an ID not in use; they may be
  removed by ID and closed in any order, also when they are no longer registered. \<open>reg_other\<close> is what the
  rest of the server does with a tunnel object: it keeps the ID.\<close>

inductive reg_step :: "TunnelRegistry \<Rightarrow> TunnelRegistry \<Rightarrow> bool" where
  reg_alloc: "reg_step r (r\<lparr>rg_heap := rg_heap r @ [t]\<rparr>)"
| reg_other: "tn_ID t = tn_ID (rg_heap r ! p) \<Longrightarrow> reg_step r (r\<lparr>rg_heap := (rg_heap r)[p := t]\<rparr>)"
| reg_register: "p < length (rg_heap r) \<Longrightarrow> rg_tunnels r (tn_ID (rg_heap r ! p)) = None \<Longrightarrow>
    reg_step r (Registry_Register p r)"
| reg_delete: "reg_step r (snd (Registry_Delete i r))"
| reg_close: "p < length (rg_heap r) \<Longrightarrow> reg_step r (snd (Registry_CloseTunnel p ac r))"
| reg_check: "reg_step r (snd (snd (Registry_CheckTimeouts now timeout visits ac r)))"
| reg_callback: "reg_step r (Registry_SetOnTunnelClose fn r)"

abbreviation reg_steps :: "TunnelRegistry \<Rightarrow> TunnelRegistry \<Rightarrow> bool" where
  "reg_steps \<equiv> reg_step\<^sup>*\<^sup>*"

section \<open>The counter is the number of tunnels\<close>

text \<open>The active-tunnel counter of the statistics handler, if it has one.\<close>

definition stat_active :: "TunnelRegistry \<Rightarrow> int option" where
  "stat_active r = (case rg_statsHandler r of Some (ServerStats h) \<Rightarrow> sst_activeTunnels h | _ \<Rightarrow> None)"

definition reg_inv :: "TunnelRegistry \<Rightarrow> bool" where
  "reg_inv r \<longleftrightarrow>
     finite (dom (rg_tunnels r)) \<and> rg_activeTunnels r = i64 (int (Registry_Count r))
     \<and> (\<forall>i p. rg_tunnels r i = Some p \<longrightarrow> p < length (rg_heap r) \<and> tn_ID (rg_heap r ! p) = i)
     \<and> (\<forall>v. stat_active r = Some v \<longrightarrow> v = rg_activeTunnels r)"

lemma rg_stat_simps [simp]:
  "rg_heap (rg_stat c d r) = rg_heap r" "rg_tunnels (rg_stat c d r) = rg_tunnels r"
  "rg_tunnelByDomain (rg_stat c d r) = rg_tunnelByDomain r"
  "rg_activeTunnels (rg_stat c d r) = rg_activeTunnels r" "rg_portManager (rg_stat c d r) = rg_portManager r"
  "rg_onTunnelClose (rg_stat c d r) = rg_onTunnelClose r" "rg_closed (rg_stat c d r) = rg_closed r"
  "rg_close_calls (rg_stat c d r) = rg_close_calls r" "rg_totalTunnels (rg_stat c d r) = rg_totalTunnels r"
  by (simp_all add: rg_stat_def)

lemma stat_active_rg_stat [simp]:
  "stat_active (rg_stat ActiveTunnel d r) = add_counter d (stat_active r)"
  "stat_active (rg_stat TotalTunnel d r) = stat_active r"
  by (auto simp: stat_active_def rg_stat_def stats_update_def add_counter_def stats_defs
      split: option.splits StatsHandler.splits)

lemma stat_active_update [simp]:
  "stat_active (r\<lparr>rg_heap := h\<rparr>) = stat_active r" "stat_active (r\<lparr>rg_tunnels := m\<rparr>) = stat_active r"
  "stat_active (r\<lparr>rg_tunnelByDomain := m\<rparr>) = stat_active r"
  "stat_active (r\<lparr>rg_activeTunnels := n\<rparr>) = stat_active r"
  "stat_active (r\<lparr>rg_totalTunnels := n\<rparr>) = stat_active r"
  "stat_active (r\<lparr>rg_portManager := pm\<rparr>) = stat_active r"
  "stat_active (r\<lparr>rg_closed := cl\<rparr>) = stat_active r"
  "stat_active (r\<lparr>rg_onTunnelClose := b\<rparr>) = stat_active r"
  "stat_active (r\<lparr>rg_close_calls := cs\<rparr>) = stat_active r"
  by (simp_all add: stat_active_def)

lemma Register_keeps:
  assumes "reg_inv r" "p < length (rg_heap r)" "rg_tunnels r (tn_ID (rg_heap r ! p)) = None"
  shows "reg_inv (Registry_Register p r)"
  using assms
  by (auto simp: reg_inv_def Registry_Register_def Registry_Count_def Let_def add_counter_def
      domIff add.commute)

lemma Delete_keeps:
  assumes "reg_inv r"
  shows "reg_inv (snd (Registry_Delete i r))"
proof (cases "rg_tunnels r i")
  case None
  with assms show ?thesis by (simp add: Registry_Delete_def)
next
  case (Some p)
  with assms show ?thesis
    by (auto simp: reg_inv_def Registry_Delete_def Registry_Count_def Let_def add_counter_def
        card_dom_remove)
qed

lemma heap_update_keeps:
  "reg_inv r \<Longrightarrow> tn_ID t = tn_ID (rg_heap r ! p) \<Longrightarrow> reg_inv (r\<lparr>rg_heap := (rg_heap r)[p := t]\<rparr>)"
  by (cases "p < length (rg_heap r)") 
    (auto simp: reg_inv_def Registry_Count_def nth_list_update list_update_beyond)

lemma reg_inv_irrelevant [simp]:
  "reg_inv (r\<lparr>rg_closed := cl\<rparr>) = reg_inv r" "reg_inv (r\<lparr>rg_onTunnelClose := b\<rparr>) = reg_inv r"
  "reg_inv (r\<lparr>rg_close_calls := cs\<rparr>) = reg_inv r"
  by (simp_all add: reg_inv_def Registry_Count_def)

lemma CloseTunnel_keeps:
  assumes "reg_inv r"
  shows "reg_inv (snd (Registry_CloseTunnel p ac r))"
proof -
  let ?t = "(rg_heap r ! p)\<lparr>tn_cancelled := True, tn_externalListener := False,
      tn_externalQUICListener := False, tn_ExternalConns := Map.empty\<rparr>"
  have "reg_inv (r\<lparr>rg_heap := (rg_heap r)[p := ?t]\<rparr>)" using assms by (rule heap_update_keeps) simp
  then have "reg_inv (r\<lparr>rg_heap := (rg_heap r)[p := ?t], rg_closed := cl\<rparr>)" for cl by simp
  from Delete_keeps [OF this] show ?thesis by (simp add: Registry_CloseTunnel_def Let_def)
qed

lemma registry_check_keeps: "reg_inv (snd (snd st)) \<Longrightarrow> reg_inv (snd (snd (Registry_check now timeout i st)))"
  using CloseTunnel_keeps by (auto simp: Registry_check_def split: prod.splits option.splits)

lemma CheckTimeouts_keeps:
  "reg_inv (snd (snd st)) \<Longrightarrow> reg_inv (snd (snd (fold (Registry_check now timeout) visits st)))"
  by (induction visits arbitrary: st) (simp_all add: registry_check_keeps)

lemma reg_step_keeps: "reg_step r r' \<Longrightarrow> reg_inv r \<Longrightarrow> reg_inv r'"
proof (induction rule: reg_step.induct)
  case (reg_alloc r t)
  then show ?case 
    by (auto simp: reg_inv_def Registry_Count_def nth_append less_Suc_eq)
next
  case (reg_check r now timeout visits ac)
  then show ?case using CheckTimeouts_keeps [of "(0, ac, r)"] by (simp add: Registry_CheckTimeouts_def)
qed (auto simp: Registry_SetOnTunnelClose_def
    intro: heap_update_keeps Register_keeps Delete_keeps CloseTunnel_keeps)

lemma reg_steps_keep: "reg_steps r r' \<Longrightarrow> reg_inv r \<Longrightarrow> reg_inv r'"
  by (induction rule: rtranclp_induct) (auto intro: reg_step_keeps)

text \<open>A handler whose counter of active tunnels is zero, or that has none.\<close>

definition fresh_stats :: "StatsHandler option \<Rightarrow> bool" where
  "fresh_stats st \<longleftrightarrow> (\<forall>h. st = Some (ServerStats h) \<longrightarrow> sst_activeTunnels h \<in> {None, Some 0})"

lemma New_reg_inv: "fresh_stats st \<Longrightarrow> reg_inv (NewTunnelRegistry pm st)"
  by (auto simp: fresh_stats_def reg_inv_def NewTunnelRegistry_def Registry_Count_def stat_active_def
      split: option.splits StatsHandler.splits)

section \<open>Agreement with the server\<close>

text \<open>The bookkeeping inside a server's state.\<close>

definition reg_of :: "MuxServer \<Rightarrow> TunnelRegistry" where
  "reg_of s =
     \<lparr>rg_heap = sv_heap s, rg_tunnels = sv_tunnels s, rg_tunnelByDomain = sv_tunnelByDomain s,
      rg_activeTunnels = sv_activeTunnels s, rg_totalTunnels = sv_totalTunnels s,
      rg_onTunnelClose = False, rg_close_calls = [], rg_portManager = Some (sv_portManager s),
      rg_statsHandler = None, rg_closed = sv_closed s\<rparr>"

lemma close_agrees:
  assumes "sv_tunnels s (tn_ID (tunnel_at s p)) = Some p" "p < length (sv_heap s)"
  shows "Registry_CloseTunnel p (Some (sv_activeConns s)) (reg_of s)
           = (Some (sv_activeConns (closeTunnel p s)), reg_of (closeTunnel p s))"
  using assms
  by (simp add: Registry_CloseTunnel_def Registry_Delete_def reg_of_def closeTunnel_def set_tunnel_def
      close_def Let_def rg_stat_def)

lemma store_agrees:
  "Registry_Register (length (sv_heap s)) (reg_of s\<lparr>rg_heap := sv_heap s @ [t]\<rparr>)
     = reg_of (let s1 = store_tunnel t s in
               if tn_Domain t \<noteq> []
               then s1\<lparr>sv_tunnelByDomain := (sv_tunnelByDomain s1)(tn_Domain t \<mapsto> length (sv_heap s))\<rparr>
               else s1)"
  by (simp add: Registry_Register_def reg_of_def store_tunnel_def Let_def rg_stat_def)

lemma check_agrees:
  assumes "server_inv s"
  shows "snd (Registry_check now (sc_TunnelTimeout (sv_config s)) i (n, Some (sv_activeConns s), reg_of s))
    = (Some (sv_activeConns (check_tunnel now i s)), reg_of (check_tunnel now i s))"
proof (cases "sv_tunnels s i")
  case None
  then show ?thesis by (simp add: Registry_check_def check_tunnel_def reg_of_def)
next
  case (Some p)
  then have "sv_tunnels s (tn_ID (tunnel_at s p)) = Some p" "p < length (sv_heap s)"
    using assms by (auto simp: server_inv_def live_def)
  from close_agrees [OF this] Some show ?thesis
    by (simp add: Registry_check_def check_tunnel_def) (simp add: reg_of_def)
qed

lemma config_check_tunnel [simp]: "sv_config (check_tunnel now i s) = sv_config s"
  by (simp add: check_tunnel_def closeTunnel_def set_tunnel_def close_def Let_def split: option.split)

lemma CheckTimeouts_agrees:
  assumes "server_inv s"
  shows "snd (fold (Registry_check now (sc_TunnelTimeout (sv_config s))) ids
             (n, Some (sv_activeConns s), reg_of s))
    = (Some (sv_activeConns (healthCheck_tick now ids s)), reg_of (healthCheck_tick now ids s))"
  using assms
proof (induction ids arbitrary: n s)
  case (Cons i ids)
  let ?s = "check_tunnel now i s"
  obtain m where "Registry_check now (sc_TunnelTimeout (sv_config s)) i (n, Some (sv_activeConns s), reg_of s)
      = (m, Some (sv_activeConns ?s), reg_of ?s)"
    using check_agrees [OF Cons(2), of now i n] by (metis prod.exhaust_sel snd_conv)
  with Cons.IH [of ?s m] Cons(2) show ?case by (simp add: healthCheck_tick_def check_tunnel_inv)
qed (simp add: healthCheck_tick_def)

section \<open>Properties\<close>

text \<open>Whatever sequence of registrations under unused IDs, removals, closes (also repeated ones) and
  timeout checks a registry goes through, its counter of active tunnels, and that of its statistics
  handler if it has one, is the number of registered tunnels.\<close>

lemma registry_counts_tunnels:
  assumes "fresh_stats st" "reg_steps (NewTunnelRegistry pm st) r"
  shows "rg_activeTunnels r = i64 (int (Registry_Count r))
    \<and> (\<forall>v. stat_active r = Some v \<longrightarrow> v = i64 (int (Registry_Count r)))
    \<and> (\<forall>i p. Registry_Get i r = Some p \<longrightarrow> tn_ID (rg_heap r ! p) = i)"
  using reg_steps_keep [OF assms(2) New_reg_inv [OF assms(1)]]
  by (auto simp: reg_inv_def Registry_Get_def)

definition example_tunnel :: Tunnel where
  "example_tunnel = new_tunnel (str ''a'') ProtocolTCP [] [] 10000 [] 1 2 0"

lemma registry_counts_tunnels_witness:
  "let st = Some (ServerStats (NewServerStatsHandler None None None None (Some 0) None));
       r = Registry_Register 0 (NewTunnelRegistry None st\<lparr>rg_heap := [example_tunnel]\<rparr>);
       r' = snd (Registry_CloseTunnel 0 None (snd (Registry_CloseTunnel 0 None r)))
   in stat_active r = Some 1 \<and> rg_activeTunnels r' = 0 \<and> stat_active r' = Some 0"
proof -
  let ?st = "Some (ServerStats (NewServerStatsHandler None None None None (Some 0) None))"
  let ?n = "NewTunnelRegistry None ?st\<lparr>rg_heap := [example_tunnel]\<rparr>"
  let ?r = "Registry_Register 0 ?n"
  let ?c = "snd (Registry_CloseTunnel 0 None ?r)"
  have "reg_step (NewTunnelRegistry None ?st) ?n"
    using reg_step.reg_alloc [of "NewTunnelRegistry None ?st" example_tunnel]
    by (simp add: NewTunnelRegistry_def)
  moreover have "reg_step ?n ?r" by (rule reg_step.reg_register) (simp_all add: NewTunnelRegistry_def)
  moreover have "reg_step ?r ?c" "reg_step ?c (snd (Registry_CloseTunnel 0 None ?c))"
    by (rule reg_step.reg_close, simp add: Registry_Register_def Registry_CloseTunnel_def
        Registry_Delete_def NewTunnelRegistry_def Let_def rg_stat_def example_tunnel_def new_tunnel_def)+
  ultimately have "reg_steps (NewTunnelRegistry None ?st) ?r"
    "reg_steps (NewTunnelRegistry None ?st) (snd (Registry_CloseTunnel 0 None ?c))"
    by (blast intro: converse_rtranclp_into_rtranclp)+
  note this [THEN registry_counts_tunnels [rotated]]
  moreover have "fresh_stats ?st" by (simp add: fresh_stats_def NewServerStatsHandler_def)
  moreover have "stat_active ?r = Some 1" "rg_tunnels (snd (Registry_CloseTunnel 0 None ?c)) = Map.empty"
    "stat_active (snd (Registry_CloseTunnel 0 None ?c)) = Some 0"
    by (simp_all add: Registry_Register_def Registry_CloseTunnel_def Registry_Delete_def
        NewTunnelRegistry_def Let_def add_counter_def stat_active_def rg_stat_def stats_update_def
        NewServerStatsHandler_def stats_defs example_tunnel_def new_tunnel_def)
  ultimately show ?thesis by (simp add: Let_def Registry_Count_def)
qed



text \<open>Closing a tunnel whose ID was taken over by another removes the other one from the registry and
  releases the other one's port while it is alive; the closed tunnel's own port stays allocated.\<close>

lemma closing_stale_tunnel_releases_successor_port:
  assumes "p < length (rg_heap r)" "p \<noteq> q" "tn_ID (rg_heap r ! p) = i" "rg_tunnels r i = Some q"
    and "\<not> tn_cancelled (rg_heap r ! q)" "tn_Port (rg_heap r ! q) > 0"
    and "rg_portManager r = Some pm" "tn_Port (rg_heap r ! p) \<in> pm_used pm"
    and "tn_Port (rg_heap r ! p) \<noteq> tn_Port (rg_heap r ! q)"
  shows "let r' = snd (Registry_CloseTunnel p ac r) in
     Registry_Get i r' = None \<and> \<not> tn_cancelled (rg_heap r' ! q)
     \<and> (\<exists>pm'. rg_portManager r' = Some pm' \<and> tn_Port (rg_heap r ! q) \<notin> pm_used pm'
              \<and> tn_Port (rg_heap r ! p) \<in> pm_used pm')"
  using assms
  by (simp add: Registry_CloseTunnel_def Registry_Delete_def Registry_Get_def Let_def rg_stat_def
      PortManager_Release_def)

end
