(* ===== verification/Quic_Connect.thy ===== *)
theory Quic_Connect
  imports Retry
begin

text \<open>
  The client's connection manager, \<^verbatim>\<open>quic/conn_manager.go\<close>: dialling with and without early data, the
  connection it keeps, and the loop that connects, waits and reconnects. What the network does in an
  attempt is an input of the attempt (\<open>dial_env\<close>); a turn of the loop gets what happens in it as
  \<open>turn_env\<close>, and a list of these is what has happened so far, so the loop may still be running after it.
  UDP sockets and QUIC connections are numbers; the manager's record notes which are open.
\<close>

section \<open>Configuration\<close>

record tls_config =
  tls_InsecureSkipVerify :: bool
  tls_NextProtos :: "gostr list"
  tls_ClientSessionCache :: bool

record CM_Config =
  cmc_ServerAddr :: gostr
  cmc_TLSConfig :: "tls_config option"
  cmc_Enable0RTT :: bool
  cmc_SessionCache :: bool
  cmc_MaxReconnectTries :: int
  cmc_ReconnectInterval :: int
  cmc_Protocol :: byte

definition base_tls :: "CM_Config \<Rightarrow> tls_config" where
  "base_tls config =
     (let t = (case cmc_TLSConfig config of
                 None \<Rightarrow> \<lparr>tls_InsecureSkipVerify = True, tls_NextProtos = [str ''quic-tunnel''],
                          tls_ClientSessionCache = False\<rparr>
               | Some t \<Rightarrow> t)
      in if tls_NextProtos t = [] then t\<lparr>tls_NextProtos := [str ''quic-tunnel'']\<rparr> else t)"

text \<open>The TLS configuration of a regular connection and of one with early data.\<close>

definition Connect_tls :: "CM_Config \<Rightarrow> tls_config" where
  "Connect_tls config =
     (if cmc_Enable0RTT config \<and> cmc_SessionCache config
      then base_tls config\<lparr>tls_ClientSessionCache := True\<rparr> else base_tls config)"

definition Connect0RTT_tls :: "CM_Config \<Rightarrow> tls_config" where
  "Connect0RTT_tls config =
     (if cmc_SessionCache config then base_tls config\<lparr>tls_ClientSessionCache := True\<rparr> else base_tls config)"

section \<open>State\<close>

datatype dial_error = ResolveFailed | ListenFailed | DialFailed | DialCtxDone | OnConnectFailed

record ConnectionManager =
  cmg_conn :: "nat option"
  cmg_connected :: bool
  cmg_reconnectCh :: bool
  cmg_retrier :: "dial_error Retry_Config"
  cmg_onConnected :: bool
  cmg_connectedCalls :: nat
  cmg_sockets :: "nat set"
  cmg_open :: "nat set"
  cmg_dialled :: "tls_config list"

definition NewConnectionManager :: "CM_Config \<Rightarrow> ConnectionManager" where
  "NewConnectionManager config =
     \<lparr>cmg_conn = None, cmg_connected = False, cmg_reconnectCh = False,
      cmg_retrier = NewRetrier
        \<lparr>rc_MaxAttempts = cmc_MaxReconnectTries config, rc_InitialDelay = cmc_ReconnectInterval config,
         rc_MaxDelay = 300000000000, rc_Multiplier = 2, rc_Jitter = 1 / 10,
         rc_RetryableError = Some (\<lambda>_. True)\<rparr>,
      cmg_onConnected = False, cmg_connectedCalls = 0, cmg_sockets = {}, cmg_open = {}, cmg_dialled = []\<rparr>"

section \<open>Dialling\<close>

record dial_env =
  de_resolve :: bool
  de_socket :: "nat option"
  de_conn :: "nat option"
  de_ctxDone :: bool
  de_onConnect :: bool

definition dial_with ::
  "tls_config \<Rightarrow> dial_error \<Rightarrow> dial_env \<Rightarrow> ConnectionManager \<Rightarrow> (dial_error, nat) go_result \<times> ConnectionManager" where
  "dial_with tls fail v cm =
     (if \<not> de_resolve v then (Err ResolveFailed, cm)
      else case de_socket v of
             None \<Rightarrow> (Err ListenFailed, cm)
           | Some u \<Rightarrow>
               let cm1 = cm\<lparr>cmg_dialled := cmg_dialled cm @ [tls]\<rparr> in
               (case de_conn v of
                  None \<Rightarrow> (Err fail, cm1)
                | Some c \<Rightarrow> (Ret c, cm1\<lparr>cmg_sockets := insert u (cmg_sockets cm1),
                                        cmg_open := insert c (cmg_open cm1)\<rparr>)))"

definition CM_Connect ::
  "CM_Config \<Rightarrow> dial_env \<Rightarrow> ConnectionManager \<Rightarrow> (dial_error, nat) go_result \<times> ConnectionManager" where
  "CM_Connect config v cm =
     dial_with (Connect_tls config) (if de_ctxDone v then DialCtxDone else DialFailed) v cm"

definition CM_Connect0RTT ::
  "CM_Config \<Rightarrow> dial_env \<Rightarrow> ConnectionManager \<Rightarrow> (dial_error, nat) go_result \<times> ConnectionManager" where
  "CM_Connect0RTT config v cm = dial_with (Connect0RTT_tls config) DialFailed v cm"

section \<open>The connection kept by the manager\<close>

definition CM_SetConnection :: "nat \<Rightarrow> ConnectionManager \<Rightarrow> ConnectionManager" where
  "CM_SetConnection c cm = cm\<lparr>cmg_conn := Some c\<rparr>"

definition CM_SetConnected :: "bool \<Rightarrow> ConnectionManager \<Rightarrow> ConnectionManager" where
  "CM_SetConnected b cm = cm\<lparr>cmg_connected := b\<rparr>"

definition CM_TriggerReconnect :: "ConnectionManager \<Rightarrow> ConnectionManager" where
  "CM_TriggerReconnect cm = cm\<lparr>cmg_reconnectCh := True\<rparr>"

definition CM_Close :: "ConnectionManager \<Rightarrow> ConnectionManager" where
  "CM_Close cm =
     (case cmg_conn cm of
        None \<Rightarrow> cm
      | Some c \<Rightarrow> cm\<lparr>cmg_open := cmg_open cm - {c}, cmg_conn := None\<rparr>)\<lparr>cmg_connected := False\<rparr>"

definition CM_SetOnConnected :: "ConnectionManager \<Rightarrow> ConnectionManager" where
  "CM_SetOnConnected cm = cm\<lparr>cmg_onConnected := True\<rparr>"

text \<open>Which connections support datagrams is known to the network only.\<close>

definition CM_SupportsDatagrams :: "(nat \<Rightarrow> bool) \<Rightarrow> ConnectionManager \<Rightarrow> bool" where
  "CM_SupportsDatagrams supports cm = (case cmg_conn cm of None \<Rightarrow> False | Some c \<Rightarrow> supports c)"

section \<open>The connect loop\<close>

text \<open>What the retrier runs: dial, keep the connection, call \<^verbatim>\<open>onConnect\<close>.\<close>

definition connect_once ::
  "(dial_env \<Rightarrow> ConnectionManager \<Rightarrow> (dial_error, nat) go_result \<times> ConnectionManager) \<Rightarrow> dial_env
     \<Rightarrow> ConnectionManager \<Rightarrow> (dial_error, unit) go_result \<times> ConnectionManager" where
  "connect_once dial v cm =
     (case dial v cm of
        (Ret c, cm1) \<Rightarrow>
          (if de_onConnect v then Ret () else Err OnConnectFailed, CM_SetConnection c cm1)
      | (Err e, cm1) \<Rightarrow> (Err e, cm1)
      | (Panic, cm1) \<Rightarrow> (Panic, cm1))"

definition retry_with ::
  "(dial_env \<Rightarrow> ConnectionManager \<Rightarrow> (dial_error, nat) go_result \<times> ConnectionManager) \<Rightarrow> dial_env retry_env list
     \<Rightarrow> ConnectionManager \<Rightarrow> (dial_error, unit) retry_outcome \<times> ConnectionManager" where
  "retry_with dial vs cm =
     (case Retrier_Do (cmg_retrier cm) (connect_once dial) vs cm of (out, cm1, _) \<Rightarrow> (out, cm1))"

datatype wait_result = WaitCtx | WaitReconnect

record turn_env =
  te_ctxTop :: bool
  te_cached :: bool
  te_early :: "dial_env retry_env list"
  te_regular :: "dial_env retry_env list"
  te_ctxErr :: bool
  te_wait :: "wait_result option"

definition turn_connect ::
  "CM_Config \<Rightarrow> turn_env \<Rightarrow> ConnectionManager \<Rightarrow> (dial_error, unit) retry_outcome \<times> ConnectionManager" where
  "turn_connect config t cm =
     (if cmc_Enable0RTT config \<and> cmc_SessionCache config \<and> te_cached t
      then (case retry_with (CM_Connect0RTT config) (te_early t) cm of
              (RetryErr e, cm1) \<Rightarrow> retry_with (CM_Connect config) (te_regular t) cm1
            | r \<Rightarrow> r)
      else retry_with (CM_Connect config) (te_regular t) cm)"

datatype loop_outcome = StillRunning | LoopPanicked | LoopCtxErr | LoopMaxTries

definition after_connect :: "ConnectionManager \<Rightarrow> ConnectionManager" where
  "after_connect cm =
     cm\<lparr>cmg_connected := True,
        cmg_connectedCalls := (if cmg_onConnected cm then cmg_connectedCalls cm + 1 else cmg_connectedCalls cm)\<rparr>"

fun RunConnectLoop ::
  "CM_Config \<Rightarrow> nat \<Rightarrow> turn_env list \<Rightarrow> ConnectionManager \<Rightarrow> loop_outcome \<times> ConnectionManager" where
  "RunConnectLoop config tries [] cm = (StillRunning, cm)"
| "RunConnectLoop config tries (t # ts) cm =
     (if te_ctxTop t then (LoopCtxErr, cm)
      else case turn_connect config t cm of
        (RetryRunning, cm1) \<Rightarrow> (StillRunning, cm1)
      | (RetryPanic, cm1) \<Rightarrow> (LoopPanicked, cm1)
      | (RetryErr e, cm1) \<Rightarrow>
          if te_ctxErr t then (LoopCtxErr, cm1)
          else if cmc_MaxReconnectTries config > 0 \<and> int tries \<ge> cmc_MaxReconnectTries config
          then (LoopMaxTries, cm1)
          else RunConnectLoop config (tries + 1) ts cm1
      | (RetryOk _, cm1) \<Rightarrow>
          let cm2 = after_connect cm1 in
          (case te_wait t of
             None \<Rightarrow> (StillRunning, cm2)
           | Some WaitCtx \<Rightarrow> (LoopCtxErr, cm2)
           | Some WaitReconnect \<Rightarrow>
               RunConnectLoop config 0 ts (cm2\<lparr>cmg_reconnectCh := False, cmg_connected := False\<rparr>)))"

section \<open>Attempts that fail\<close>

text \<open>A dial that reaches the network and gets no connection.\<close>

definition no_answer :: "dial_env \<Rightarrow> bool" where
  "no_answer v \<longleftrightarrow> de_resolve v \<and> de_socket v \<noteq> None \<and> de_conn v = None"

definition all_fail :: "nat \<Rightarrow> turn_env \<Rightarrow> bool" where
  "all_fail n t \<longleftrightarrow> \<not> te_ctxTop t \<and> \<not> te_ctxErr t \<and> uncancelled (te_regular t) \<and> n < length (te_regular t)
     \<and> (\<forall>v \<in> set (te_regular t). no_answer (re_input v))"

lemma connect_once_no_answer:
  "no_answer v \<Longrightarrow> \<exists>e. connect_once (CM_Connect config) v cm =
     (Err e, cm\<lparr>cmg_dialled := cmg_dialled cm @ [Connect_tls config]\<rparr>)"
  by (auto simp: connect_once_def CM_Connect_def dial_with_def no_answer_def Let_def)

lemma try_each_no_answer:
  "\<forall>v \<in> set vs. no_answer v \<Longrightarrow> \<exists>e. try_each (connect_once (CM_Connect config)) le vs cm =
     (RetryErr e, cm\<lparr>cmg_dialled := cmg_dialled cm @ replicate (length vs) (Connect_tls config)\<rparr>)"
proof (induction vs arbitrary: le cm)
  case (Cons v vs)
  let ?cm = "cm\<lparr>cmg_dialled := cmg_dialled cm @ [Connect_tls config]\<rparr>"
  obtain x where x: "connect_once (CM_Connect config) v cm = (Err x, ?cm)"
    using Cons(2) connect_once_no_answer by (metis list.set_intros(1))
  obtain e where "try_each (connect_once (CM_Connect config)) (FnError x) vs ?cm =
      (RetryErr e, ?cm\<lparr>cmg_dialled := cmg_dialled ?cm @ replicate (length vs) (Connect_tls config)\<rparr>)"
    using Cons.IH [of "FnError x" ?cm] Cons(2) by auto
  then show ?case by (simp add: x)
qed auto

definition retrier_for :: "CM_Config \<Rightarrow> dial_error Retry_Config" where
  "retrier_for config = cmg_retrier (NewConnectionManager config)"

lemma retrier_for_facts:
  "retries_all (retrier_for config)" "0 < cmc_MaxReconnectTries config \<Longrightarrow>
   rc_MaxAttempts (retrier_for config) = cmc_MaxReconnectTries config"
  by (simp_all add: retrier_for_def NewConnectionManager_def NewRetrier_def retries_all_def)

lemma turn_fails:
  assumes n: "cmc_MaxReconnectTries config = int n" "0 < n" and t: "all_fail n t"
    and early: "\<not> (cmc_Enable0RTT config \<and> cmc_SessionCache config)"
    and cm: "cmg_retrier cm = retrier_for config"
  shows "\<exists>e. turn_connect config t cm =
     (RetryErr e, cm\<lparr>cmg_dialled := cmg_dialled cm @ replicate n (Connect_tls config)\<rparr>)"
proof -
  let ?fn = "connect_once (CM_Connect config)" and ?vs = "te_regular t"
  let ?xs = "map re_input (take n ?vs)"
  have facts: "retries_all (cmg_retrier cm)" "rc_MaxAttempts (cmg_retrier cm) = int n" "length ?xs = n"
    using retrier_for_facts [of config] n cm t by (auto simp: all_fail_def)
  have "\<forall>v \<in> set ?xs. no_answer v" using t set_take_subset by (fastforce simp: all_fail_def)
  from try_each_no_answer [OF this, of config ErrMaxAttemptsExceeded cm] facts(3) obtain e where
    e: "try_each ?fn ErrMaxAttemptsExceeded ?xs cm =
      (RetryErr e, cm\<lparr>cmg_dialled := cmg_dialled cm @ replicate n (Connect_tls config)\<rparr>)" by auto
  have vs: "uncancelled ?vs" "nat (rc_MaxAttempts (cmg_retrier cm)) - 0 < length ?vs"
    using t facts(2) by (auto simp: all_fail_def)
  from loop_tries [OF vs(1) facts(1) _ _ vs(2), of ?fn 0 None cm] facts(2) n e
  have "retry_with (CM_Connect config) ?vs cm =
      (RetryErr e, cm\<lparr>cmg_dialled := cmg_dialled cm @ replicate n (Connect_tls config)\<rparr>)"
    by (auto simp: retry_with_def Retrier_Do_def DoWithResult_def)
  with early show ?thesis by (auto simp: turn_connect_def)
qed

lemma loop_gives_up:
  assumes n: "cmc_MaxReconnectTries config = int n" "0 < n" and early: "\<not> (cmc_Enable0RTT config \<and> cmc_SessionCache config)"
    and "k \<le> n" "length ts = Suc (n - k)" "\<forall>t \<in> set ts. all_fail n t"
    and "cmg_retrier cm = retrier_for config"
  shows "RunConnectLoop config k ts cm =
     (LoopMaxTries, cm\<lparr>cmg_dialled := cmg_dialled cm @ replicate (n * Suc (n - k)) (Connect_tls config)\<rparr>)"
  using assms(4-)
proof (induction ts arbitrary: k cm)
  case (Cons t ts)
  let ?cm = "cm\<lparr>cmg_dialled := cmg_dialled cm @ replicate n (Connect_tls config)\<rparr>"
  have t: "all_fail n t" using Cons(4) by simp
  obtain e where e: "turn_connect config t cm = (RetryErr e, ?cm)"
    using turn_fails [OF n t early Cons(5)] by blast
  show ?case
  proof (cases "k = n")
    case True
    with e t n Cons(3) show ?thesis by (simp add: all_fail_def)
  next
    case False
    then have k: "Suc k \<le> n" "length ts = Suc (n - Suc k)" "n - k = Suc (n - Suc k)"
      using Cons(2,3) by auto
    from Cons.IH [OF k(1,2), of ?cm] Cons(4,5) have
      "RunConnectLoop config (Suc k) ts ?cm = (LoopMaxTries,
         ?cm\<lparr>cmg_dialled := cmg_dialled ?cm @ replicate (n * Suc (n - Suc k)) (Connect_tls config)\<rparr>)" by simp
    with e t n False Cons(2) k(3) show ?thesis by (simp add: all_fail_def replicate_add)
  qed
qed simp

section \<open>Connections whose registration fails\<close>

definition refused_after_dial :: "dial_env \<Rightarrow> bool" where
  "refused_after_dial v \<longleftrightarrow> de_resolve v \<and> de_socket v \<noteq> None \<and> de_conn v \<noteq> None \<and> \<not> de_onConnect v"

lemma try_each_refused:
  "\<forall>v \<in> set vs. refused_after_dial v \<Longrightarrow> \<exists>e cm'. try_each (connect_once (CM_Connect config)) le vs cm = (RetryErr e, cm')
     \<and> cmg_open cm' = cmg_open cm \<union> (the \<circ> de_conn) ` set vs
     \<and> cmg_conn cm' = (if vs = [] then cmg_conn cm else de_conn (last vs))"
proof (induction vs arbitrary: le cm)
  case (Cons v vs)
  obtain x cm1 where x: "connect_once (CM_Connect config) v cm = (Err x, cm1)"
    "cmg_open cm1 = insert (the (de_conn v)) (cmg_open cm)" "cmg_conn cm1 = de_conn v"
    using Cons(2) by (auto simp: connect_once_def CM_Connect_def dial_with_def refused_after_dial_def
        CM_SetConnection_def Let_def)
  obtain e cm' where "try_each (connect_once (CM_Connect config)) (FnError x) vs cm1 = (RetryErr e, cm')"
    "cmg_open cm' = cmg_open cm1 \<union> (the \<circ> de_conn) ` set vs"
    "cmg_conn cm' = (if vs = [] then cmg_conn cm1 else de_conn (last vs))"
    using Cons.IH [of "FnError x" cm1] Cons(2) by auto
  then show ?case by (simp add: x)
qed simp

section \<open>Properties\<close>


definition example_cm :: CM_Config where
  "example_cm = \<lparr>cmc_ServerAddr = str ''s:443'', cmc_TLSConfig = None, cmc_Enable0RTT = False,
     cmc_SessionCache = False, cmc_MaxReconnectTries = 3, cmc_ReconnectInterval = 0, cmc_Protocol = 1\<rparr>"

definition example_turn :: "dial_env \<Rightarrow> turn_env" where
  "example_turn v = \<lparr>te_ctxTop = False, te_cached = False, te_early = [],
     te_regular = replicate 4 \<lparr>re_ctxTop = False, re_input = v, re_draws = (0, 0), re_ctxWait = False\<rparr>,
     te_ctxErr = False, te_wait = None\<rparr>"


text \<open>A connection whose registration fails is not closed: a retrier with limit n whose dials succeed and
  whose \<^verbatim>\<open>onConnect\<close> fails each time leaves all n connections open, and \<^verbatim>\<open>Close\<close> of the manager closes
  only the last one.\<close>

lemma failed_registration_leaks_connections:
  assumes "cmc_MaxReconnectTries config = int n" "0 < n" "uncancelled vs" "n < length vs"
    and "\<forall>v \<in> set vs. refused_after_dial (re_input v)"
  shows "\<exists>e cm. retry_with (CM_Connect config) vs (NewConnectionManager config) = (RetryErr e, cm)
     \<and> cmg_open cm = (\<lambda>v. the (de_conn (re_input v))) ` set (take n vs)
     \<and> cmg_open (CM_Close cm) = cmg_open cm - {the (de_conn (re_input (vs ! (n - 1))))}"
proof -
  let ?cm = "NewConnectionManager config" and ?fn = "connect_once (CM_Connect config)"
  let ?xs = "map re_input (take n vs)"
  have facts: "retries_all (cmg_retrier ?cm)" "rc_MaxAttempts (cmg_retrier ?cm) = int n"
    using retrier_for_facts [of config] assms(1,2) by (auto simp: retrier_for_def)
  have refused: "\<forall>v \<in> set ?xs. refused_after_dial v" using assms(5) set_take_subset by fastforce
  have ne: "?xs \<noteq> []" using assms(2,4) by auto
  have open0: "cmg_open ?cm = {}" by (simp add: NewConnectionManager_def)
  from try_each_refused [OF refused, of config ErrMaxAttemptsExceeded ?cm] obtain e cm where
    e: "try_each ?fn ErrMaxAttemptsExceeded ?xs ?cm = (RetryErr e, cm)"
      "cmg_open cm = (the \<circ> de_conn) ` set ?xs" "cmg_conn cm = de_conn (last ?xs)"
    by (simp only: ne open0 if_False Un_empty_left) blast
  have last: "last ?xs = re_input (vs ! (n - 1))"
    using assms(2,4) by (simp only: last_conv_nth [OF ne]) (simp add: min_def)
  have "nat (rc_MaxAttempts (cmg_retrier ?cm)) - 0 < length vs" using facts(2) assms(4) by simp
  from loop_tries [OF assms(3) facts(1) _ _ this, of ?fn 0 None ?cm] facts(2) assms(2) e(1)
  have r: "retry_with (CM_Connect config) vs ?cm = (RetryErr e, cm)"
    by (auto simp: retry_with_def Retrier_Do_def DoWithResult_def)
  have "refused_after_dial (re_input (vs ! (n - 1)))" using assms(4,5) by simp
  then obtain c where "de_conn (re_input (vs ! (n - 1))) = Some c"
    by (auto simp: refused_after_dial_def)
  with e(3) last have "cmg_open (CM_Close cm) = cmg_open cm - {the (de_conn (re_input (vs ! (n - 1))))}"
    by (simp add: CM_Close_def)
  with r e(2) show ?thesis by (auto simp: image_image comp_def)
qed

lemma failed_registration_leaks_connections_witness:
  "\<exists>e cm. retry_with (CM_Connect example_cm)
      (map (\<lambda>c. \<lparr>re_ctxTop = False, re_input = \<lparr>de_resolve = True, de_socket = Some c, de_conn = Some c,
           de_ctxDone = False, de_onConnect = False\<rparr>, re_draws = (0, 0), re_ctxWait = False\<rparr>) [7, 8, 9, 10])
      (NewConnectionManager example_cm) = (RetryErr e, cm) \<and> cmg_open (CM_Close cm) = {7, 8}"
proof -
  let ?vs = "map (\<lambda>c. \<lparr>re_ctxTop = False, re_input = \<lparr>de_resolve = True, de_socket = Some c, de_conn = Some c,
           de_ctxDone = False, de_onConnect = False\<rparr>, re_draws = (0, 0), re_ctxWait = False\<rparr>) [7, 8, 9, 10 :: nat]"
  have "cmc_MaxReconnectTries example_cm = int 3" "uncancelled ?vs" "3 < length ?vs"
    "\<forall>v \<in> set ?vs. refused_after_dial (re_input v)"
    by (simp_all add: example_cm_def uncancelled_def refused_after_dial_def)
  from failed_registration_leaks_connections [OF this(1) _ this(2-4)] obtain e cm where
    "retry_with (CM_Connect example_cm) ?vs (NewConnectionManager example_cm) = (RetryErr e, cm)"
    "cmg_open cm = (\<lambda>v. the (de_conn (re_input v))) ` set (take 3 ?vs)"
    "cmg_open (CM_Close cm) = cmg_open cm - {the (de_conn (re_input (?vs ! (3 - 1))))}" by auto
  moreover have "take 3 ?vs = map (\<lambda>c. \<lparr>re_ctxTop = False, re_input = \<lparr>de_resolve = True, de_socket = Some c,
      de_conn = Some c, de_ctxDone = False, de_onConnect = False\<rparr>, re_draws = (0, 0), re_ctxWait = False\<rparr>) [7, 8, 9]"
    by (simp add: numeral_eq_Suc)
  ultimately show ?thesis by (intro exI [of _ e] exI [of _ cm]) (auto simp: numeral_eq_Suc)
qed

text \<open>Every dial offers an application protocol; early data is only ever offered with the session cache.\<close>

lemma dial_tls_offers_protocol:
  "tls_NextProtos (Connect_tls config) \<noteq> [] \<and> tls_NextProtos (Connect0RTT_tls config) \<noteq> []
   \<and> (cmc_SessionCache config \<longrightarrow> tls_ClientSessionCache (Connect0RTT_tls config))"
  by (auto simp: Connect_tls_def Connect0RTT_tls_def base_tls_def Let_def split: option.split)

end
