(* ===== verification/Stream_Forwarder.thy ===== *)
theory Stream_Forwarder
  imports Buffer_Pool QuicWire "HOL-Library.Sublist"
begin

text \<open>
  The bidirectional forwarder of \<^verbatim>\<open>quic/forwarder.go\<close> and the client's stream handler of
  \<^verbatim>\<open>quic/stream_handler.go\<close> that uses it.

  The two directions of a forwarder are goroutines that read into a buffer and write it out. Buffers are
  cells of a memory, because without a buffer pool both directions are given the same one: a read of one
  direction may overwrite what the other has not written yet. Endpoints are numbers. \<open>fw_step\<close> lets the
  two goroutines run in any order, one statement at a time; reads, writes and cancellation do
  whatever the environment decides. The record keeps what each direction read and what it wrote.
\<close>

section \<open>The forwarder\<close>

datatype direction = Dir1 | Dir2

datatype dir_state = AtTop | Reading | Writing nat | Ended

record forwarder =
  fw_mem :: "nat \<Rightarrow> bytes"
  fw_buf :: "direction \<Rightarrow> nat"
  fw_pool :: "BufferPool option"
  fw_simple :: bool
  fw_ctxDone :: bool
  fw_activity :: "int option"
  fw_reader :: "direction \<Rightarrow> nat"
  fw_writer :: "direction \<Rightarrow> nat"
  fw_state :: "direction \<Rightarrow> dir_state"
  fw_read :: "direction \<Rightarrow> bytes"
  fw_out :: "direction \<Rightarrow> bytes"
  fw_onRead :: nat
  fw_onWrite :: nat
  fw_done :: bool

definition default_buf_size :: nat where "default_buf_size = 32 * 1024"

text \<open>The buffers: \<^verbatim>\<open>bufIn\<close> is cell 0 and \<^verbatim>\<open>bufOut\<close> cell 1, or both are cell 0.\<close>

definition allocate_buffers ::
  "nat option \<Rightarrow> nat option \<Rightarrow> BufferPool option \<Rightarrow> (nat \<Rightarrow> bytes) \<times> nat \<times> nat \<times> BufferPool option" where
  "allocate_buffers ch1 ch2 pool =
     (case pool of
        Some p \<Rightarrow>
          let (b0, p1) = BufferPool_Get ch1 p; (b1, p2) = BufferPool_Get ch2 p1
          in ((\<lambda>_. [])(0 := contents b0, 1 := contents b1), 0, 1, Some p2)
      | None \<Rightarrow> ((\<lambda>_. [])(0 := replicate default_buf_size 0), 0, 0, None))"

definition NewBidirectionalForwarder ::
  "nat option \<Rightarrow> nat option \<Rightarrow> BufferPool option \<Rightarrow> int option \<Rightarrow> bool \<Rightarrow> forwarder" where
  "NewBidirectionalForwarder ch1 ch2 pool activity ctxDone =
     (case allocate_buffers ch1 ch2 pool of
        (mem, bufIn, bufOut, pool1) \<Rightarrow>
          \<lparr>fw_mem = mem, fw_buf = (\<lambda>d. case d of Dir1 \<Rightarrow> bufOut | Dir2 \<Rightarrow> bufIn), fw_pool = pool1,
           fw_simple = False, fw_ctxDone = ctxDone, fw_activity = activity, fw_reader = (\<lambda>_. 0),
           fw_writer = (\<lambda>_. 0), fw_state = (\<lambda>_. Ended), fw_read = (\<lambda>_. []), fw_out = (\<lambda>_. []),
           fw_onRead = 0, fw_onWrite = 0, fw_done = False\<rparr>)"

text \<open>\<^verbatim>\<open>Forward\<close> starts both goroutines.\<close>

definition Forward_start :: "nat \<Rightarrow> nat \<Rightarrow> nat \<Rightarrow> nat \<Rightarrow> forwarder \<Rightarrow> forwarder" where
  "Forward_start reader1 writer1 reader2 writer2 f =
     f\<lparr>fw_reader := (\<lambda>d. case d of Dir1 \<Rightarrow> reader1 | Dir2 \<Rightarrow> reader2),
       fw_writer := (\<lambda>d. case d of Dir1 \<Rightarrow> writer1 | Dir2 \<Rightarrow> writer2), fw_state := (\<lambda>_. AtTop)\<rparr>"

text \<open>\<^verbatim>\<open>ForwardSingle\<close> starts one, which uses \<^verbatim>\<open>bufIn\<close>.\<close>

definition ForwardSingle_start :: "nat \<Rightarrow> nat \<Rightarrow> forwarder \<Rightarrow> forwarder" where
  "ForwardSingle_start reader writer f =
     f\<lparr>fw_reader := (\<lambda>_. reader), fw_writer := (\<lambda>_. writer),
       fw_buf := (\<lambda>_. fw_buf f Dir2), fw_state := (\<lambda>d. case d of Dir1 \<Rightarrow> AtTop | Dir2 \<Rightarrow> Ended)\<rparr>"

section \<open>One direction\<close>

text \<open>A goroutine ends: outside the simple variant its deferred cancel stops the other one.\<close>

definition dir_end :: "direction \<Rightarrow> forwarder \<Rightarrow> forwarder" where
  "dir_end d f = f\<lparr>fw_state := (fw_state f)(d := Ended), fw_ctxDone := (fw_ctxDone f \<or> \<not> fw_simple f)\<rparr>"

definition dir_check :: "direction \<Rightarrow> forwarder \<Rightarrow> forwarder" where
  "dir_check d f = (if fw_ctxDone f then dir_end d f else f\<lparr>fw_state := (fw_state f)(d := Reading)\<rparr>)"

text \<open>A read: an error, or data that fits the buffer. An empty read starts the next turn, except in the
  simple variant, which writes it.\<close>

definition dir_read :: "direction \<Rightarrow> bytes option \<Rightarrow> forwarder \<Rightarrow> forwarder" where
  "dir_read d result f =
     (case result of
        None \<Rightarrow> dir_end d f
      | Some data \<Rightarrow>
          let mem = fw_mem f (fw_buf f d)
          in f\<lparr>fw_mem := (fw_mem f)(fw_buf f d := data @ drop (length data) mem),
               fw_read := (fw_read f)(d := fw_read f d @ data),
               fw_state := (fw_state f)(d := if data = [] \<and> \<not> fw_simple f then AtTop else Writing (length data))\<rparr>)"

definition dir_write :: "direction \<Rightarrow> int \<Rightarrow> bool \<Rightarrow> nat \<Rightarrow> forwarder \<Rightarrow> forwarder" where
  "dir_write d now ok n f =
     (if \<not> ok then dir_end d f
      else f\<lparr>fw_out := (fw_out f)(d := fw_out f d @ take n (fw_mem f (fw_buf f d))),
             fw_onWrite := (case d of Dir1 \<Rightarrow> fw_onWrite f + n | Dir2 \<Rightarrow> fw_onWrite f),
             fw_onRead := (case d of Dir1 \<Rightarrow> fw_onRead f | Dir2 \<Rightarrow> fw_onRead f + n),
             fw_activity := map_option (\<lambda>_. now div 1000000000) (fw_activity f),
             fw_state := (fw_state f)(d := AtTop)\<rparr>)"

inductive fw_step :: "forwarder \<Rightarrow> forwarder \<Rightarrow> bool" where
  fw_check: "fw_state f d = AtTop \<Longrightarrow> fw_step f (dir_check d f)"
| fw_read_data: "fw_state f d = Reading \<Longrightarrow> length data \<le> length (fw_mem f (fw_buf f d)) \<Longrightarrow>
    fw_step f (dir_read d (Some data) f)"
| fw_read_error: "fw_state f d = Reading \<Longrightarrow> fw_step f (dir_read d None f)"
| fw_write: "fw_state f d = Writing n \<Longrightarrow> fw_step f (dir_write d now ok n f)"
| fw_cancel: "fw_step f (f\<lparr>fw_ctxDone := True\<rparr>)"

abbreviation fw_steps :: "forwarder \<Rightarrow> forwarder \<Rightarrow> bool" where
  "fw_steps \<equiv> fw_step\<^sup>*\<^sup>*"

section \<open>Closing and the ready-made combinations\<close>

definition buffer_of :: "nat \<Rightarrow> forwarder \<Rightarrow> gslice" where
  "buffer_of i f = \<lparr>arr = fw_mem f i, slen = length (fw_mem f i)\<rparr>"

definition Forwarder_Close :: "forwarder \<Rightarrow> forwarder" where
  "Forwarder_Close f =
     f\<lparr>fw_ctxDone := True,
       fw_pool := map_option (\<lambda>p. BufferPool_Put (buffer_of 1 f) (BufferPool_Put (buffer_of 0 f) p)) (fw_pool f),
       fw_done := True\<rparr>"

text \<open>Both helpers start a forwarder whose directions read and write the same endpoint.\<close>

definition RunBidirectionalForward_start ::
  "nat option \<Rightarrow> nat option \<Rightarrow> BufferPool option \<Rightarrow> int option \<Rightarrow> bool \<Rightarrow> nat \<Rightarrow> nat \<Rightarrow> forwarder" where
  "RunBidirectionalForward_start ch1 ch2 pool activity ctxDone endpoint1 endpoint2 =
     Forward_start endpoint1 endpoint1 endpoint2 endpoint2
       (NewBidirectionalForwarder ch1 ch2 pool activity ctxDone)"

definition StreamForwarder_Forward_start ::
  "nat option \<Rightarrow> nat option \<Rightarrow> BufferPool option \<Rightarrow> bool \<Rightarrow> nat \<Rightarrow> nat \<Rightarrow> forwarder" where
  "StreamForwarder_Forward_start ch1 ch2 pool ctxDone stream endpoint =
     Forward_start stream stream endpoint endpoint (NewBidirectionalForwarder ch1 ch2 pool None ctxDone)"

text \<open>\<^verbatim>\<open>forwardBidirectionalSimple\<close>: direction 1 uses \<^verbatim>\<open>bufIn\<close>, no direction cancels the other.\<close>

definition forwardBidirectionalSimple_start ::
  "nat option \<Rightarrow> nat option \<Rightarrow> BufferPool option \<Rightarrow> bool \<Rightarrow> nat \<Rightarrow> nat \<Rightarrow> forwarder" where
  "forwardBidirectionalSimple_start ch1 ch2 pool ctxDone conn1 conn2 =
     (case allocate_buffers ch1 ch2 pool of
        (mem, bufIn, bufOut, pool1) \<Rightarrow>
          (NewBidirectionalForwarder ch1 ch2 pool None ctxDone)
            \<lparr>fw_buf := (\<lambda>d. case d of Dir1 \<Rightarrow> bufIn | Dir2 \<Rightarrow> bufOut), fw_simple := True,
             fw_reader := (\<lambda>d. case d of Dir1 \<Rightarrow> conn1 | Dir2 \<Rightarrow> conn2),
             fw_writer := (\<lambda>d. case d of Dir1 \<Rightarrow> conn2 | Dir2 \<Rightarrow> conn1), fw_state := (\<lambda>_. AtTop)\<rparr>)"

definition forwardBidirectionalSimple_end :: "forwarder \<Rightarrow> forwarder" where
  "forwardBidirectionalSimple_end f =
     f\<lparr>fw_pool := map_option (\<lambda>p. BufferPool_Put (buffer_of 0 f) (BufferPool_Put (buffer_of 1 f) p)) (fw_pool f)\<rparr>"

section \<open>The stream handler\<close>

record StreamHandler =
  sth_localConns :: "(gostr \<rightharpoonup> nat) option"
  sth_localQUICConns :: "(gostr \<rightharpoonup> nat) option"
  sth_bufferPool :: "BufferPool option"
  sth_localAddr :: gostr
  sth_protocol :: byte
  sth_ctxDone :: bool
  sth_closed :: "nat set"

text \<open>One turn of \<^verbatim>\<open>AcceptLoop\<close>: whether it goes on, and the stream a goroutine is started for. The
  connection may be gone, and accepting may fail.\<close>

datatype accept_stream = NoConn | StreamError bool | GotStream nat

definition StreamHandler_AcceptLoop_turn :: "accept_stream \<Rightarrow> StreamHandler \<Rightarrow> bool \<times> nat option" where
  "StreamHandler_AcceptLoop_turn r h =
     (if sth_ctxDone h then (False, None)
      else case r of
             NoConn \<Rightarrow> (False, None)
           | StreamError ctxErr \<Rightarrow> (\<not> ctxErr, None)
           | GotStream s \<Rightarrow> (True, Some s))"

text \<open>\<^verbatim>\<open>forwardTCPStream\<close>: the forwarder that runs, if dialling succeeds, and what happens at its end.\<close>

definition forwardTCPStream_start ::
  "nat option \<Rightarrow> nat option \<Rightarrow> nat \<Rightarrow> gostr \<Rightarrow> nat option \<Rightarrow> StreamHandler \<Rightarrow> forwarder option \<times> StreamHandler" where
  "forwardTCPStream_start ch1 ch2 stream connID dialed h =
     (case dialed of
        None \<Rightarrow> (None, h)
      | Some l \<Rightarrow>
          (Some (forwardBidirectionalSimple_start ch1 ch2 (sth_bufferPool h) (sth_ctxDone h) stream l),
           h\<lparr>sth_localConns := map_option (\<lambda>m. m(connID \<mapsto> l)) (sth_localConns h)\<rparr>))"

definition forwardTCPStream_end :: "gostr \<Rightarrow> nat \<Rightarrow> StreamHandler \<Rightarrow> StreamHandler" where
  "forwardTCPStream_end connID l h =
     h\<lparr>sth_localConns := map_option (\<lambda>m. m(connID := None)) (sth_localConns h),
       sth_closed := insert l (sth_closed h)\<rparr>"

text \<open>\<^verbatim>\<open>HandleDataStream\<close>, given the bytes that arrive on the stream and what dialling an address gives. QUIC
  forwarding does nothing yet.\<close>

definition HandleDataStream_dispatch ::
  "nat option \<Rightarrow> nat option \<Rightarrow> nat \<Rightarrow> gostr \<Rightarrow> nat option \<Rightarrow> StreamHandler \<Rightarrow> forwarder option \<times> StreamHandler" where
  "HandleDataStream_dispatch ch1 ch2 stream connID dialed h =
     (if sth_protocol h = ProtocolQUIC then (None, h)
      else if sth_protocol h \<in> {ProtocolTCP, ProtocolHTTP}
      then forwardTCPStream_start ch1 ch2 stream connID dialed h
      else (None, h))"

definition HandleDataStream ::
  "nat option \<Rightarrow> nat option \<Rightarrow> (gostr \<Rightarrow> nat option) \<Rightarrow> nat \<Rightarrow> bytes \<Rightarrow> StreamHandler \<Rightarrow> forwarder option \<times> StreamHandler"
where
  "HandleDataStream ch1 ch2 dial stream arrived h =
     (case StreamHandler_HandleDataStream (sth_localAddr h) arrived of
        None \<Rightarrow> (None, h)
      | Some (header, targetAddr, _) \<Rightarrow>
          HandleDataStream_dispatch ch1 ch2 stream (sh_ConnID header) (dial targetAddr) h)"

definition StreamHandler_Close :: "StreamHandler \<Rightarrow> StreamHandler" where
  "StreamHandler_Close h =
     h\<lparr>sth_closed := sth_closed h
         \<union> (case sth_localConns h of None \<Rightarrow> {} | Some m \<Rightarrow> ran m)
         \<union> (case sth_localQUICConns h of None \<Rightarrow> {} | Some m \<Rightarrow> ran m)\<rparr>"

section \<open>Separate buffers: every byte in order\<close>

text \<open>What a direction still holds in its buffer.\<close>

definition pending :: "direction \<Rightarrow> forwarder \<Rightarrow> bytes" where
  "pending d f = (case fw_state f d of Writing n \<Rightarrow> take n (fw_mem f (fw_buf f d)) | _ \<Rightarrow> [])"

definition delivers :: "direction \<Rightarrow> forwarder \<Rightarrow> bool" where
  "delivers d f \<longleftrightarrow>
     (if fw_state f d = Ended then prefix (fw_out f d) (fw_read f d)
      else fw_out f d @ pending d f = fw_read f d)
     \<and> (\<forall>n. fw_state f d = Writing n \<longrightarrow> n \<le> length (fw_mem f (fw_buf f d)))"

definition fw_inv :: "forwarder \<Rightarrow> bool" where
  "fw_inv f \<longleftrightarrow> fw_buf f Dir1 \<noteq> fw_buf f Dir2 \<and> delivers Dir1 f \<and> delivers Dir2 f
     \<and> fw_onWrite f = length (fw_out f Dir1) \<and> fw_onRead f = length (fw_out f Dir2)"

lemma delivers_prefix: "delivers d f \<Longrightarrow> prefix (fw_out f d) (fw_read f d)"
  by (auto simp: delivers_def split: if_splits) (metis prefixI)

lemma delivers_all:
  "fw_inv f \<Longrightarrow> delivers d f" by (cases d) (simp_all add: fw_inv_def)

text \<open>A step of one direction that leaves the other's buffer alone keeps what the other has.\<close>

lemma delivers_other:
  assumes "delivers e f" "fw_state f' e = fw_state f e" "fw_out f' e = fw_out f e"
    "fw_read f' e = fw_read f e" "fw_buf f' e = fw_buf f e" "fw_mem f' (fw_buf f e) = fw_mem f (fw_buf f e)"
  shows "delivers e f'"
proof -
  have "pending e f' = pending e f" using assms by (simp add: pending_def split: dir_state.split)
  with assms show ?thesis by (simp add: delivers_def)
qed

lemma inv_from_delivers:
  assumes "fw_inv f" "fw_buf f' = fw_buf f" "delivers d f'"
    and "\<And>e. e \<noteq> d \<Longrightarrow> delivers e f'"
    and "fw_onWrite f' = length (fw_out f' Dir1)" "fw_onRead f' = length (fw_out f' Dir2)"
  shows "fw_inv f'"
  using assms by (cases d) (auto simp: fw_inv_def)

lemma dir_end_keeps:
  assumes "fw_inv f" shows "fw_inv (dir_end d f)"
proof -
  have "prefix (fw_out f d) (fw_read f d)" using delivers_prefix [OF delivers_all [OF assms]] .
  then have "delivers d (dir_end d f)" by (simp add: delivers_def dir_end_def)
  moreover have "delivers e (dir_end d f)" if "e \<noteq> d" for e
    using delivers_all [OF assms, of e] that by (auto intro!: delivers_other [of e f] simp: dir_end_def)
  ultimately show ?thesis
    using assms by (intro inv_from_delivers [OF assms]) (auto simp: dir_end_def fw_inv_def)
qed

lemma fw_step_keeps: "fw_step f f' \<Longrightarrow> fw_inv f \<Longrightarrow> fw_inv f'"
proof (induction rule: fw_step.induct)
  case (fw_check f d)
  show ?case
  proof (cases "fw_ctxDone f")
    case True
    with fw_check dir_end_keeps show ?thesis by (simp add: dir_check_def)
  next
    case False
    have "delivers d (dir_check d f)"
      using fw_check delivers_all [of f d] False by (simp add: delivers_def pending_def dir_check_def)
    moreover have "delivers e (dir_check d f)" if "e \<noteq> d" for e
      using delivers_all [OF fw_check(2), of e] that False
      by (auto intro!: delivers_other [of e f] simp: dir_check_def)
    ultimately show ?thesis
      using fw_check(2) False
      by (intro inv_from_delivers [OF fw_check(2)]) (auto simp: dir_check_def fw_inv_def)
  qed
next
  case (fw_read_data f d data)
  let ?f = "dir_read d (Some data) f"
  have sep: "fw_buf f e \<noteq> fw_buf f d" if "e \<noteq> d" for e
    using fw_read_data(3) that by (cases d; cases e) (auto simp: fw_inv_def)
  have "fw_out f d = fw_read f d"
    using delivers_all [OF fw_read_data(3), of d] fw_read_data(1) by (simp add: delivers_def pending_def)
  then have "delivers d ?f" by (auto simp: delivers_def pending_def dir_read_def Let_def)
  moreover have "delivers e ?f" if "e \<noteq> d" for e
    using delivers_all [OF fw_read_data(3), of e] that sep [OF that]
    by (auto intro!: delivers_other [of e f] simp: dir_read_def Let_def)
  ultimately show ?case
    using fw_read_data(3)
    by (intro inv_from_delivers [OF fw_read_data(3)]) (auto simp: dir_read_def fw_inv_def Let_def)
next
  case (fw_read_error f d)
  then show ?case by (simp add: dir_read_def dir_end_keeps)
next
  case (fw_write f d n now ok)
  show ?case
  proof (cases ok)
    case True
    let ?f = "dir_write d now ok n f"
    have all: "fw_out f d @ take n (fw_mem f (fw_buf f d)) = fw_read f d"
      "n \<le> length (fw_mem f (fw_buf f d))"
      using delivers_all [OF fw_write(2), of d] fw_write(1) by (simp_all add: delivers_def pending_def)
    then have "delivers d ?f" using True by (simp add: delivers_def pending_def dir_write_def)
    moreover have "delivers e ?f" if "e \<noteq> d" for e
      using delivers_all [OF fw_write(2), of e] that True
      by (auto intro!: delivers_other [of e f] simp: dir_write_def)
    ultimately show ?thesis
      using fw_write(2) True all(2)
      by (intro inv_from_delivers [OF fw_write(2)])
        (auto simp: dir_write_def fw_inv_def split: direction.split)
  qed (simp add: dir_write_def dir_end_keeps fw_write)
next
  case (fw_cancel f)
  then show ?case
    by (auto simp: fw_inv_def intro: delivers_other [of Dir1 f] delivers_other [of Dir2 f])
qed

interpretation forwarder_run: step_invariant fw_step fw_inv
  by unfold_locales (rule fw_step_keeps)

lemmas fw_steps_keep = forwarder_run.steps_keep

lemma fw_step_endpoints:
  "fw_step f f' \<Longrightarrow> fw_reader f' = fw_reader f \<and> fw_writer f' = fw_writer f \<and> fw_buf f' = fw_buf f"
  by (induction rule: fw_step.induct)
    (auto simp: dir_check_def dir_end_def dir_read_def dir_write_def Let_def)

lemma fw_steps_endpoints:
  "fw_steps f f' \<Longrightarrow> fw_reader f' = fw_reader f \<and> fw_writer f' = fw_writer f \<and> fw_buf f' = fw_buf f"
  by (induction rule: rtranclp_induct) (auto dest: fw_step_endpoints)

lemma Forward_start_inv:
  "fw_inv (Forward_start r1 w1 r2 w2 (NewBidirectionalForwarder ch1 ch2 (Some p) act cd))"
  by (simp add: fw_inv_def delivers_def pending_def Forward_start_def NewBidirectionalForwarder_def
      allocate_buffers_def case_prod_beta Let_def)

lemma Simple_start_inv: "fw_inv (forwardBidirectionalSimple_start ch1 ch2 (Some p) cd c1 c2)"
  by (simp add: fw_inv_def delivers_def pending_def forwardBidirectionalSimple_start_def
      NewBidirectionalForwarder_def allocate_buffers_def case_prod_beta Let_def)

section \<open>Properties\<close>

text \<open>With a buffer pool the simple forwarder, which the client's stream handler uses, is transparent in
  both directions under every interleaving: what has been written to one end is a prefix of what was read
  from the other, it is all of it as soon as the direction waits for its next read, and the numbers
  reported to the statistics are the numbers of bytes written.\<close>

lemma simple_forwarder_transparent:
  assumes "fw_steps (forwardBidirectionalSimple_start ch1 ch2 (Some p) ctxDone conn1 conn2) f"
  shows "fw_reader f Dir1 = conn1 \<and> fw_writer f Dir1 = conn2 \<and> fw_reader f Dir2 = conn2 \<and> fw_writer f Dir2 = conn1
    \<and> (\<forall>d. prefix (fw_out f d) (fw_read f d)
          \<and> (fw_state f d \<in> {AtTop, Reading} \<longrightarrow> fw_out f d = fw_read f d))
    \<and> fw_onWrite f = length (fw_out f Dir1) \<and> fw_onRead f = length (fw_out f Dir2)"
proof -
  have inv: "fw_inv f" using fw_steps_keep [OF assms Simple_start_inv] .
  have "prefix (fw_out f d) (fw_read f d) \<and> (fw_state f d \<in> {AtTop, Reading} \<longrightarrow> fw_out f d = fw_read f d)" for d
    using delivers_all [OF inv, of d] delivers_prefix [of d f]
    by (auto simp: delivers_def pending_def split: if_splits)
  moreover have "fw_reader f Dir1 = conn1 \<and> fw_writer f Dir1 = conn2 \<and> fw_reader f Dir2 = conn2 \<and> fw_writer f Dir2 = conn1"
    using fw_steps_endpoints [OF assms]
    by (simp add: forwardBidirectionalSimple_start_def case_prod_beta)
  ultimately show ?thesis using inv by (simp add: fw_inv_def)
qed

definition example_pool :: BufferPool where
  "example_pool = NewBufferPool 4"

definition one_chunk :: "direction \<Rightarrow> bytes \<Rightarrow> forwarder \<Rightarrow> forwarder" where
  "one_chunk d data f = dir_write d 0 True (length data) (dir_read d (Some data) (dir_check d f))"

lemma one_chunk_steps:
  assumes "fw_state f d = AtTop" "\<not> fw_ctxDone f" "data \<noteq> []" "length data \<le> length (fw_mem f (fw_buf f d))"
  shows "fw_steps f (one_chunk d data f)"
proof -
  have c: "fw_step f (dir_check d f)" using assms(1) by (rule fw_step.fw_check)
  have "fw_state (dir_check d f) d = Reading" "fw_mem (dir_check d f) (fw_buf (dir_check d f) d) = fw_mem f (fw_buf f d)"
    using assms(2) by (simp_all add: dir_check_def)
  then have r: "fw_step (dir_check d f) (dir_read d (Some data) (dir_check d f))"
    using assms(4) by (intro fw_step.fw_read_data) simp_all
  have "fw_state (dir_read d (Some data) (dir_check d f)) d = Writing (length data)"
    using assms(3) by (simp add: dir_read_def Let_def)
  then have "fw_step (dir_read d (Some data) (dir_check d f)) (one_chunk d data f)"
    unfolding one_chunk_def by (rule fw_step.fw_write)
  with c r show ?thesis by (meson converse_rtranclp_into_rtranclp r_into_rtranclp)
qed

lemma simple_forwarder_transparent_witness:
  "let f = forwardBidirectionalSimple_start None None (Some example_pool) False 1 2;
       g = one_chunk Dir1 [7, 8] f
   in fw_steps f g \<and> fw_out g Dir1 = [7, 8] \<and> fw_onWrite g = 2"
proof -
  let ?f = "forwardBidirectionalSimple_start None None (Some example_pool) False 1 2"
  have f: "fw_state ?f Dir1 = AtTop" "\<not> fw_ctxDone ?f" "length (fw_mem ?f (fw_buf ?f Dir1)) = 4"
    by (simp_all add: forwardBidirectionalSimple_start_def NewBidirectionalForwarder_def allocate_buffers_def
        BufferPool_Get_def example_pool_def NewBufferPool_def contents_def make_slice_def Let_def)
  then have s: "fw_steps ?f (one_chunk Dir1 [7, 8] ?f)" by (intro one_chunk_steps) simp_all
  have "fw_read (one_chunk Dir1 [7, 8] ?f) Dir1 = [7, 8]" "fw_state (one_chunk Dir1 [7, 8] ?f) Dir1 = AtTop"
    using f by (simp_all add: one_chunk_def dir_check_def dir_read_def dir_write_def Let_def)
      (simp_all add: forwardBidirectionalSimple_start_def NewBidirectionalForwarder_def case_prod_beta)
  with simple_forwarder_transparent [OF s] s show ?thesis by (simp add: Let_def)
qed

text \<open>Without a buffer pool both directions share one buffer, and they corrupt each other: for any two
  chunks of the same length there is a run in which direction 1 reads the first chunk and writes the
  second one, which direction 2 read meanwhile.\<close>

lemma shared_buffer_mixes_directions:
  assumes "a \<noteq> []" "length a = length b" "length a \<le> default_buf_size"
  shows "\<exists>f. fw_steps (Forward_start r1 w1 r2 w2 (NewBidirectionalForwarder ch1 ch2 None act False)) f
     \<and> fw_read f Dir1 = a \<and> fw_read f Dir2 = b \<and> fw_out f Dir1 = b"
proof -
  let ?s = "Forward_start r1 w1 r2 w2 (NewBidirectionalForwarder ch1 ch2 None act False)"
  let ?c1 = "dir_check Dir1 ?s" and ?c2 = "dir_check Dir2 (dir_check Dir1 ?s)"
  let ?r1 = "dir_read Dir1 (Some a) (dir_check Dir2 (dir_check Dir1 ?s))"
  let ?r2 = "dir_read Dir2 (Some b) (dir_read Dir1 (Some a) (dir_check Dir2 (dir_check Dir1 ?s)))"
  let ?w = "dir_write Dir1 0 True (length a) ?r2"
  note defs = Forward_start_def NewBidirectionalForwarder_def allocate_buffers_def dir_check_def
    dir_read_def dir_write_def Let_def
  have "fw_step ?s ?c1" "fw_step ?c1 ?c2"
    by (rule fw_step.fw_check, simp add: defs)+
  moreover have "fw_step ?c2 ?r1" using assms by (intro fw_step.fw_read_data) (simp_all add: defs)
  moreover have "fw_step ?r1 ?r2" using assms by (intro fw_step.fw_read_data) (simp_all add: defs)
  moreover have "fw_step ?r2 ?w" using assms by (intro fw_step.fw_write) (simp add: defs)
  ultimately have "fw_steps ?s ?w" by (meson converse_rtranclp_into_rtranclp r_into_rtranclp)
  moreover have "fw_read ?w Dir1 = a" "fw_read ?w Dir2 = b" "fw_out ?w Dir1 = b"
    using assms by (simp_all add: defs)
  ultimately show ?thesis by blast
qed

lemma shared_buffer_mixes_directions_witness:
  "\<exists>f. fw_steps (Forward_start 1 2 2 1 (NewBidirectionalForwarder None None None None False)) f
     \<and> fw_read f Dir1 = [1] \<and> fw_read f Dir2 = [9] \<and> fw_out f Dir1 = [9]"
  by (rule shared_buffer_mixes_directions) (simp_all add: default_buf_size_def)

text \<open>The two helpers \<^verbatim>\<open>RunBidirectionalForward\<close> and \<^verbatim>\<open>StreamForwarder.Forward\<close> connect each end to
  itself: under every interleaving what is written to an end is a prefix of what that same end sent,
  so nothing one end sends ever reaches the other.\<close>

lemma forward_helpers_echo:
  assumes "f0 = RunBidirectionalForward_start ch1 ch2 (Some p) act cd e1 e2
    \<or> f0 = StreamForwarder_Forward_start ch1 ch2 (Some p) cd e1 e2"
    and "fw_steps f0 f"
  shows "fw_reader f d = fw_writer f d \<and> prefix (fw_out f d) (fw_read f d)"
proof -
  have inv: "fw_inv f0" and same: "fw_reader f0 d = fw_writer f0 d"
    using assms(1) Forward_start_inv
    by (auto simp: RunBidirectionalForward_start_def StreamForwarder_Forward_start_def)
      (cases d; simp add: Forward_start_def)+
  from fw_steps_keep [OF assms(2) inv] have "delivers d f" by (rule delivers_all)
  with same fw_steps_endpoints [OF assms(2)] show ?thesis by (simp add: delivers_prefix)
qed

lemma forward_helpers_echo_witness:
  "let f = RunBidirectionalForward_start None None (Some example_pool) None False 1 2;
       g = one_chunk Dir1 [7] f
   in fw_writer g Dir1 = fw_reader g Dir1 \<and> fw_reader g Dir1 = 1 \<and> fw_out g Dir1 = [7]"
proof -
  let ?f = "RunBidirectionalForward_start None None (Some example_pool) None False 1 2"
  have f: "fw_state ?f Dir1 = AtTop" "\<not> fw_ctxDone ?f" "length (fw_mem ?f (fw_buf ?f Dir1)) = 4"
    "fw_reader ?f Dir1 = 1" "fw_out ?f Dir1 = []"
    by (simp_all add: RunBidirectionalForward_start_def Forward_start_def NewBidirectionalForwarder_def
        allocate_buffers_def BufferPool_Get_def example_pool_def NewBufferPool_def contents_def make_slice_def Let_def)
  then have s: "fw_steps ?f (one_chunk Dir1 [7] ?f)" by (intro one_chunk_steps) simp_all
  have "fw_reader (one_chunk Dir1 [7] ?f) Dir1 = 1" "fw_out (one_chunk Dir1 [7] ?f) Dir1 = [7]"
    using f by (simp_all add: one_chunk_def dir_check_def dir_read_def dir_write_def Let_def)
  with forward_helpers_echo [OF _ s, of None None example_pool None False 1 2 Dir1] show ?thesis
    by (simp add: Let_def)
qed

text \<open>A TCP stream that the server opens with an encoded session header ends up at the target named in it,
  under its connection ID.\<close>

lemma data_stream_reaches_target:
  assumes "short (sh_Target hdr)" "short (sh_ConnID hdr)" "is_protocol (sh_Protocol hdr)"
    and "\<not> has_stream_id (sh_Protocol hdr) (sh_Flags hdr)" "SessionHeader_Encode hdr = Some b"
    and "sth_protocol h = ProtocolTCP" "sth_localConns h = Some m"
    and "dial (if sh_Target hdr \<noteq> [] then sh_Target hdr else sth_localAddr h) = Some l"
  shows "\<exists>f. fst (HandleDataStream ch1 ch2 dial stream (StreamTypeData # b @ payload) h) = Some f
    \<and> fw_reader f Dir1 = stream \<and> fw_writer f Dir1 = l \<and> fw_reader f Dir2 = l \<and> fw_writer f Dir2 = stream
    \<and> sth_localConns (snd (HandleDataStream ch1 ch2 dial stream (StreamTypeData # b @ payload) h)) = Some (m(sh_ConnID hdr \<mapsto> l))"
proof -
  have "client_read_header (StreamTypeData # b @ payload) = Some (sh_ConnID hdr, sh_Target hdr, payload)"
    using client_read_header_bytes [OF assms(1-3), of payload] assms(4,5) by (simp add: SessionHeader_Encode_bytes)
  then obtain h' where "StreamHandler_parseSessionHeader (b @ payload) = Some (h', payload)"
    "sh_ConnID h' = sh_ConnID hdr" "sh_Target h' = sh_Target hdr"
    by (auto simp: StreamHandler_same)
  then show ?thesis
    using assms(6-8)
    by (auto simp: HandleDataStream_def StreamHandler_HandleDataStream_def HandleDataStream_dispatch_def forwardTCPStream_start_def Let_def
        forwardBidirectionalSimple_start_def split: prod.splits)
qed

end
