(* ===== verification/Protocol_Router.thy ===== *)
theory Protocol_Router
  imports Tunnel_Server
begin

text \<open>
  The protocol handlers of \<^verbatim>\<open>quic/protocol.go\<close> with their registry, and the router of
  \<^verbatim>\<open>quic/protocol_router.go\<close> that opens and closes the external listener of a tunnel. They work on the
  tunnel objects of the server. What the operating system answers when a socket is opened or a listener is
  closed is an argument. Shown: which protocols the router serves, that its listeners are those of the
  server, that a stopped tunnel has no listener left, and where the handlers differ.
\<close>

section \<open>Protocol handlers\<close>

datatype ProtocolHandler = TCPProtocolHandler | QUICProtocolHandler | HTTP3ProtocolHandler

definition TCPHandler_Protocol :: byte where "TCPHandler_Protocol = ProtocolTCP"

definition QUICHandler_Protocol :: byte where "QUICHandler_Protocol = ProtocolQUIC"

definition HTTP3Handler_Protocol :: byte where "HTTP3Handler_Protocol = ProtocolHTTP3"

text \<open>Starting a listener does nothing yet and reports success; there is no address.\<close>

definition TCPHandler_StartExternalListener :: "int \<Rightarrow> Tunnel \<Rightarrow> gostr option \<times> Tunnel" where
  "TCPHandler_StartExternalListener port t = (None, t)"

definition QUICHandler_StartExternalListener :: "int \<Rightarrow> Tunnel \<Rightarrow> gostr option \<times> Tunnel" where
  "QUICHandler_StartExternalListener port t = (None, t)"

definition HTTP3Handler_StartExternalListener :: "int \<Rightarrow> Tunnel \<Rightarrow> gostr option \<times> Tunnel" where
  "HTTP3Handler_StartExternalListener port t = (None, t)"

text \<open>Stopping: the error of closing the listener, if any, and the tunnel.\<close>

definition TCPHandler_StopExternalListener :: "gostr option \<Rightarrow> Tunnel \<Rightarrow> gostr option \<times> Tunnel" where
  "TCPHandler_StopExternalListener err t =
     (if tn_externalListener t then (err, t\<lparr>tn_externalListener := False\<rparr>) else (None, t))"

definition QUICHandler_StopExternalListener :: "gostr option \<Rightarrow> Tunnel \<Rightarrow> gostr option \<times> Tunnel" where
  "QUICHandler_StopExternalListener err t =
     (if tn_externalQUICListener t then (err, t\<lparr>tn_externalQUICListener := False\<rparr>) else (None, t))"

definition HTTP3Handler_StopExternalListener :: "gostr option \<Rightarrow> Tunnel \<Rightarrow> gostr option \<times> Tunnel" where
  "HTTP3Handler_StopExternalListener err t = (None, t)"

text \<open>A call through the interface.\<close>

fun Handler_Protocol :: "ProtocolHandler \<Rightarrow> byte" where
  "Handler_Protocol TCPProtocolHandler = TCPHandler_Protocol"
| "Handler_Protocol QUICProtocolHandler = QUICHandler_Protocol"
| "Handler_Protocol HTTP3ProtocolHandler = HTTP3Handler_Protocol"

fun Handler_StartExternalListener :: "ProtocolHandler \<Rightarrow> int \<Rightarrow> Tunnel \<Rightarrow> gostr option \<times> Tunnel" where
  "Handler_StartExternalListener TCPProtocolHandler = TCPHandler_StartExternalListener"
| "Handler_StartExternalListener QUICProtocolHandler = QUICHandler_StartExternalListener"
| "Handler_StartExternalListener HTTP3ProtocolHandler = HTTP3Handler_StartExternalListener"

fun Handler_StopExternalListener :: "gostr option \<Rightarrow> ProtocolHandler \<Rightarrow> Tunnel \<Rightarrow> gostr option \<times> Tunnel" where
  "Handler_StopExternalListener err TCPProtocolHandler = TCPHandler_StopExternalListener err"
| "Handler_StopExternalListener err QUICProtocolHandler = QUICHandler_StopExternalListener err"
| "Handler_StopExternalListener err HTTP3ProtocolHandler = HTTP3Handler_StopExternalListener err"

lemmas handler_defs [simp] = TCPHandler_Protocol_def QUICHandler_Protocol_def HTTP3Handler_Protocol_def
  TCPHandler_StartExternalListener_def QUICHandler_StartExternalListener_def HTTP3Handler_StartExternalListener_def
  TCPHandler_StopExternalListener_def QUICHandler_StopExternalListener_def HTTP3Handler_StopExternalListener_def

record ProtocolHandlerRegistry =
  phr_handlers :: "byte \<rightharpoonup> ProtocolHandler"

definition HandlerRegistry_Register :: "byte \<Rightarrow> ProtocolHandler \<Rightarrow> ProtocolHandlerRegistry \<Rightarrow> ProtocolHandlerRegistry" where
  "HandlerRegistry_Register protocol h r = r\<lparr>phr_handlers := (phr_handlers r)(protocol \<mapsto> h)\<rparr>"

definition NewProtocolHandlerRegistry :: ProtocolHandlerRegistry where
  "NewProtocolHandlerRegistry =
     HandlerRegistry_Register ProtocolHTTP3 HTTP3ProtocolHandler
       (HandlerRegistry_Register ProtocolQUIC QUICProtocolHandler
         (HandlerRegistry_Register ProtocolTCP TCPProtocolHandler \<lparr>phr_handlers = Map.empty\<rparr>))"

definition HandlerRegistry_Get :: "byte \<Rightarrow> ProtocolHandlerRegistry \<Rightarrow> ProtocolHandler option" where
  "HandlerRegistry_Get protocol r = phr_handlers r protocol"

section \<open>The router\<close>

record ProtocolRouter =
  pr_tlsConfig :: bool
  pr_portMgr :: "PortManager option"
  pr_ctxDone :: bool
  pr_wg :: "int option"

definition NewProtocolRouter :: "bool \<Rightarrow> PortManager option \<Rightarrow> ProtocolRouter" where
  "NewProtocolRouter tlsConfig portMgr =
     \<lparr>pr_tlsConfig = tlsConfig, pr_portMgr = portMgr, pr_ctxDone = False, pr_wg = None\<rparr>"

definition Router_SetContext :: "bool \<Rightarrow> int option \<Rightarrow> ProtocolRouter \<Rightarrow> ProtocolRouter" where
  "Router_SetContext ctxDone wg r = r\<lparr>pr_ctxDone := ctxDone, pr_wg := wg\<rparr>"

datatype router_error = ListenPortFailed int | ResolveUDPFailed | ListenUDPFailed int | NoTLSConfig
  | ListenQUICFailed | UnsupportedProtocol byte | StopErrors "gostr list" | NoPortManager | NoFreePort

text \<open>What opening a socket meets.\<close>

record listen_env =
  le_resolve :: bool
  le_socket :: bool
  le_quic :: bool

definition startTCPListener :: "listen_env \<Rightarrow> Tunnel \<Rightarrow> (router_error, Tunnel) go_result" where
  "startTCPListener v t =
     (if \<not> le_socket v then Err (ListenPortFailed (tn_Port t)) else Ret (t\<lparr>tn_externalListener := True\<rparr>))"

definition startQUICListener :: "listen_env \<Rightarrow> ProtocolRouter \<Rightarrow> Tunnel \<Rightarrow> (router_error, Tunnel) go_result" where
  "startQUICListener v r t =
     (if \<not> le_resolve v then Err ResolveUDPFailed
      else if \<not> le_socket v then Err (ListenUDPFailed (tn_Port t))
      else if \<not> pr_tlsConfig r then Err NoTLSConfig
      else if \<not> le_quic v then Err ListenQUICFailed
      else Ret (t\<lparr>tn_externalQUICListener := True\<rparr>))"

text \<open>The HTTP/3 listener differs in the application protocol it offers only.\<close>

definition startHTTP3Listener :: "listen_env \<Rightarrow> ProtocolRouter \<Rightarrow> Tunnel \<Rightarrow> (router_error, Tunnel) go_result" where
  "startHTTP3Listener v r t =
     (if \<not> le_resolve v then Err ResolveUDPFailed
      else if \<not> le_socket v then Err (ListenUDPFailed (tn_Port t))
      else if \<not> pr_tlsConfig r then Err NoTLSConfig
      else if \<not> le_quic v then Err ListenQUICFailed
      else Ret (t\<lparr>tn_externalQUICListener := True\<rparr>))"

definition Router_StartExternalListener ::
  "listen_env \<Rightarrow> ProtocolRouter \<Rightarrow> Tunnel \<Rightarrow> (router_error, Tunnel) go_result" where
  "Router_StartExternalListener v r t =
     (if tn_Protocol t = ProtocolTCP \<or> tn_Protocol t = ProtocolHTTP then startTCPListener v t
      else if tn_Protocol t = ProtocolQUIC then startQUICListener v r t
      else if tn_Protocol t = ProtocolHTTP3 then startHTTP3Listener v r t
      else Err (UnsupportedProtocol (tn_Protocol t)))"

text \<open>A turn of the accept loops, judged when \<^verbatim>\<open>Accept\<close> returns together with the check at the top of the
  next turn: whether the loop goes on, the connection handed to \<^verbatim>\<open>onConnection\<close>, and the wait group. The
  TCP loop looks at the tunnel's context when \<^verbatim>\<open>Accept\<close> fails, the QUIC loops at the router's.\<close>

definition wg_add :: "ProtocolRouter \<Rightarrow> ProtocolRouter" where
  "wg_add r = r\<lparr>pr_wg := map_option (\<lambda>n. n + 1) (pr_wg r)\<rparr>"

fun TCPListener_turn :: "accept_result \<Rightarrow> bool \<Rightarrow> ProtocolRouter \<Rightarrow> bool \<times> nat option \<times> ProtocolRouter" where
  "TCPListener_turn (Accepted c) tunnelDone r = (\<not> tunnelDone, Some c, wg_add r)"
| "TCPListener_turn AcceptClosed tunnelDone r = (False, None, r)"
| "TCPListener_turn AcceptFailed tunnelDone r = (\<not> tunnelDone, None, r)"

fun QUICListener_turn :: "accept_result \<Rightarrow> bool \<Rightarrow> ProtocolRouter \<Rightarrow> bool \<times> nat option \<times> ProtocolRouter" where
  "QUICListener_turn (Accepted c) tunnelDone r = (\<not> tunnelDone, Some c, wg_add r)"
| "QUICListener_turn AcceptClosed tunnelDone r = (False, None, r)"
| "QUICListener_turn AcceptFailed tunnelDone r = (\<not> pr_ctxDone r \<and> \<not> tunnelDone, None, r)"

text \<open>The deferred calls at the end of an accept loop, and at the end of \<^verbatim>\<open>onConnection\<close>.\<close>

definition TCPListener_end :: "Tunnel \<Rightarrow> Tunnel" where
  "TCPListener_end t = t\<lparr>tn_externalListener := False\<rparr>"

definition QUICListener_end :: "Tunnel \<Rightarrow> Tunnel" where
  "QUICListener_end t = t\<lparr>tn_externalQUICListener := False\<rparr>"

definition onConnection_end :: "ProtocolRouter \<Rightarrow> ProtocolRouter" where
  "onConnection_end r = r\<lparr>pr_wg := map_option (\<lambda>n. n - 1) (pr_wg r)\<rparr>"

text \<open>\<^verbatim>\<open>StopExternalListener\<close> with the errors of the two \<^verbatim>\<open>Close\<close> calls.\<close>

definition Router_StopExternalListener ::
  "gostr option \<Rightarrow> gostr option \<Rightarrow> Tunnel \<Rightarrow> router_error option \<times> Tunnel" where
  "Router_StopExternalListener err1 err2 t =
     (let errs = (if tn_externalListener t then (case err1 of None \<Rightarrow> [] | Some e \<Rightarrow> [e]) else [])
               @ (if tn_externalQUICListener t then (case err2 of None \<Rightarrow> [] | Some e \<Rightarrow> [e]) else [])
      in (if errs \<noteq> [] then Some (StopErrors errs) else None,
          t\<lparr>tn_externalListener := False, tn_externalQUICListener := False\<rparr>))"

definition Router_AllocatePort :: "ProtocolRouter \<Rightarrow> (router_error, int) go_result \<times> ProtocolRouter" where
  "Router_AllocatePort r =
     (case pr_portMgr r of
        None \<Rightarrow> (Err NoPortManager, r)
      | Some m \<Rightarrow>
          (case PortManager_Allocate m of
             (None, m1) \<Rightarrow> (Err NoFreePort, r\<lparr>pr_portMgr := Some m1\<rparr>)
           | (Some p, m1) \<Rightarrow> (Ret p, r\<lparr>pr_portMgr := Some m1\<rparr>)))"

definition Router_ReleasePort :: "int \<Rightarrow> ProtocolRouter \<Rightarrow> ProtocolRouter" where
  "Router_ReleasePort port r = r\<lparr>pr_portMgr := map_option (PortManager_Release port) (pr_portMgr r)\<rparr>"

section \<open>Lemmas\<close>

definition all_well :: "listen_env \<Rightarrow> ProtocolRouter \<Rightarrow> bool" where
  "all_well v r \<longleftrightarrow> le_resolve v \<and> le_socket v \<and> le_quic v \<and> pr_tlsConfig r"

definition listening :: "Tunnel \<Rightarrow> bool" where
  "listening t \<longleftrightarrow> tn_externalListener t \<or> tn_externalQUICListener t"

lemmas router_defs [state_defs] = Router_StartExternalListener_def startTCPListener_def startQUICListener_def
  startHTTP3Listener_def Router_StopExternalListener_def

text \<open>The registry knows three protocols; of the five that a registration may ask for, HTTP and HTTP/2 have
  no handler.\<close>

lemma handler_registry_lookup:
  "HandlerRegistry_Get b NewProtocolHandlerRegistry = Some h \<longleftrightarrow> b = Handler_Protocol h"
  by (cases h) (auto simp: HandlerRegistry_Get_def NewProtocolHandlerRegistry_def HandlerRegistry_Register_def)

lemma handler_registry_gaps:
  "HandlerRegistry_Get ProtocolHTTP NewProtocolHandlerRegistry = None
   \<and> HandlerRegistry_Get ProtocolHTTP2 NewProtocolHandlerRegistry = None"
  by (simp add: HandlerRegistry_Get_def NewProtocolHandlerRegistry_def HandlerRegistry_Register_def)

text \<open>The router starts for a tunnel the listener that the server itself would start.\<close>

definition router_effect :: "listen_env \<Rightarrow> ProtocolRouter \<Rightarrow> Tunnel \<Rightarrow> Tunnel" where
  "router_effect v r t = (case Router_StartExternalListener v r t of Ret t' \<Rightarrow> t' | _ \<Rightarrow> t)"

lemma set_tunnel_same: "set_tunnel p (tunnel_at s p) s = s"
  by (simp add: set_tunnel_def)

lemma router_agrees_with_server:
  "tn_Protocol (tunnel_at s p) = ProtocolTCP \<Longrightarrow>
     set_tunnel p (router_effect v r (tunnel_at s p)) s = startExternalListener (le_socket v) p s"
  "tn_Protocol (tunnel_at s p) = ProtocolQUIC \<Longrightarrow>
     set_tunnel p (router_effect v r (tunnel_at s p)) s = startExternalQUICListener (all_well v r) p s"
  "tn_Protocol (tunnel_at s p) = ProtocolHTTP3 \<Longrightarrow>
     set_tunnel p (router_effect v r (tunnel_at s p)) s = startExternalHTTP3Listener (all_well v r) p s"
  by (auto simp: router_effect_def router_defs startExternalListener_def startExternalQUICListener_def
      startExternalHTTP3Listener_def all_well_def set_tunnel_same)

text \<open>A port taken from the router is free again once it is released.\<close>

lemma allocate_release:
  assumes "Router_AllocatePort r = (Ret p, r1)" "pr_portMgr r = Some m"
  shows "\<exists>m1. pr_portMgr (Router_ReleasePort p r1) = Some m1 \<and> pm_used m1 = pm_used m"
proof -
  obtain m2 where a: "PortManager_Allocate m = (Some p, m2)" and r1: "r1 = r\<lparr>pr_portMgr := Some m2\<rparr>"
    using assms by (auto simp: Router_AllocatePort_def split: prod.splits option.splits)
  have "pm_used m2 = insert p (pm_used m)" "p \<notin> pm_used m"
    using port_manager.allocate_Some [OF a] by auto
  then show ?thesis
    by (simp add: r1 Router_ReleasePort_def port_manager.release_used)
qed

section \<open>Properties\<close>

text \<open>Life of an external listener at the router: it refuses exactly the protocols other than TCP, HTTP,
  QUIC and HTTP/3; for those, when the sockets can be opened and there is a TLS configuration, the tunnel
  is listening afterwards; stopping the router's listener leaves none, whatever errors closing gives,
  and changes nothing else of the tunnel; but stopping an HTTP/3 tunnel through its protocol handler
  reports success and leaves the listener open.\<close>

lemma router_listener_lifecycle:
  "((\<exists>b. Router_StartExternalListener v r t = Err (UnsupportedProtocol b)) \<longleftrightarrow>
      tn_Protocol t \<notin> {ProtocolTCP, ProtocolHTTP, ProtocolQUIC, ProtocolHTTP3})
   \<and> (all_well v r \<and> tn_Protocol t \<in> {ProtocolTCP, ProtocolHTTP, ProtocolQUIC, ProtocolHTTP3} \<longrightarrow>
      (\<exists>t'. Router_StartExternalListener v r t = Ret t' \<and> listening t'
         \<and> (let t'' = snd (Router_StopExternalListener e1 e2 t') in
            \<not> listening t'' \<and> t'' = t\<lparr>tn_externalListener := False, tn_externalQUICListener := False\<rparr>)))
   \<and> (all_well v r \<and> tn_Protocol t = ProtocolHTTP3 \<longrightarrow>
      (\<exists>t'. Router_StartExternalListener v r t = Ret t'
         \<and> fst (Handler_StopExternalListener e1 HTTP3ProtocolHandler t') = None
         \<and> listening (snd (Handler_StopExternalListener e1 HTTP3ProtocolHandler t'))))"
  by (auto simp: router_defs all_well_def listening_def Let_def)

lemma router_listener_lifecycle_witness:
  "let v = \<lparr>le_resolve = True, le_socket = True, le_quic = True\<rparr>;
       r = NewProtocolRouter True None;
       t = new_tunnel [97] ProtocolHTTP3 [] [] 10000 [] 1 2 0
   in \<exists>t'. Router_StartExternalListener v r t = Ret t' \<and> listening t'
        \<and> listening (snd (Handler_StopExternalListener None HTTP3ProtocolHandler t'))"
proof -
  let ?v = "\<lparr>le_resolve = True, le_socket = True, le_quic = True\<rparr>"
  let ?r = "NewProtocolRouter True None"
  let ?t = "new_tunnel [97] ProtocolHTTP3 [] [] 10000 [] 1 2 0"
  have "all_well ?v ?r" "tn_Protocol ?t = ProtocolHTTP3"
    by (simp_all add: all_well_def NewProtocolRouter_def new_tunnel_def)
  with router_listener_lifecycle [of ?v ?r ?t None None] show ?thesis by (auto simp: Let_def)
qed

end
