(* ===== verification/Copy_Forward.thy ===== *)
theory Copy_Forward
  imports Backpressure Buffer_Pool
begin

text \<open>
  The copying forwarders of \<^verbatim>\<open>forward/forward.go\<close> and of the platform files \<^verbatim>\<open>forward_linux.go\<close>,
  \<^verbatim>\<open>forward_darwin.go\<close> and \<^verbatim>\<open>forward_windows.go\<close>, and the classification of errors.

  A loop runs on the list of what its turns meet: what the read of a turn delivers and whether the write of
  it succeeds. The loops may run forever; \<open>CopyRunning\<close> says that a loop is still going after the list.
  A turn in which the flow is paused reads nothing; bytes a failing write may still have passed on are not
  counted. The locale \<open>copying_loop\<close> is what a forwarder has to
  do: pass on the data of the reads up to the first error. It is interpreted on the loops that do.
\<close>

section \<open>Errors\<close>

datatype io_err = EOF | EPIPE | ECONNRESET | ECONNABORTED | EAGAIN | EINVAL | UseOfClosed
  | OpErrorOf io_err | OtherErr gostr

text \<open>\<^verbatim>\<open>IsClosedErr\<close>; \<open>UseOfClosed\<close> is the error with the text that the code compares with.\<close>

fun IsClosedErr :: "io_err option \<Rightarrow> bool" where
  "IsClosedErr None = False"
| "IsClosedErr (Some EOF) = True"
| "IsClosedErr (Some EPIPE) = True"
| "IsClosedErr (Some ECONNRESET) = True"
| "IsClosedErr (Some ECONNABORTED) = True"
| "IsClosedErr (Some (OpErrorOf e)) = (e \<in> {UseOfClosed, EPIPE, ECONNRESET, ECONNABORTED})"
| "IsClosedErr (Some _) = False"

section \<open>Turns\<close>

record copy_turn =
  tu_data :: bytes
  tu_err :: "io_err option"
  tu_werr :: "io_err option"

datatype copy_end = CopyRunning | CopyReturn "io_err option"

text \<open>The write of a turn happens only when the read delivered something.\<close>

definition write_fails :: "copy_turn \<Rightarrow> bool" where
  "write_fails t \<longleftrightarrow> tu_data t \<noteq> [] \<and> tu_werr t \<noteq> None"

section \<open>The loops of \<^verbatim>\<open>forward.go\<close>\<close>

text \<open>How a loop ended, what it wrote, and the controller.\<close>

fun CopyForward_loop :: "copy_turn list \<Rightarrow> Controller \<Rightarrow> copy_end \<times> bytes \<times> Controller" where
  "CopyForward_loop [] bp = (CopyRunning, [], bp)"
| "CopyForward_loop (t # ts) bp =
     (if Controller_CheckAndYield bp then CopyForward_loop ts bp
      else if write_fails t then (CopyReturn (tu_werr t), [], Controller_Pause bp)
      else case tu_err t of
        Some EOF \<Rightarrow> (CopyReturn None, tu_data t, bp)
      | Some e \<Rightarrow> (CopyReturn (Some e), tu_data t, bp)
      | None \<Rightarrow> (case CopyForward_loop ts bp of (r, out, bp1) \<Rightarrow> (r, tu_data t @ out, bp1)))"

text \<open>\<^verbatim>\<open>CopyForward\<close> with a buffer of the default pool; \<^verbatim>\<open>BufferForward\<close> chooses between two pools; the
  buffer only bounds how much one read delivers.\<close>

definition CopyForward :: "copy_turn list \<Rightarrow> Controller \<Rightarrow> copy_end \<times> bytes \<times> Controller" where
  "CopyForward ts bp = CopyForward_loop ts bp"

definition BufferForward_pool :: "int \<Rightarrow> pool_id" where
  "BufferForward_pool bufSize = (if bufSize \<ge> int LargeBufferSize then LargePool else DefaultPool)"

definition BufferForward :: "int \<Rightarrow> copy_turn list \<Rightarrow> Controller \<Rightarrow> copy_end \<times> bytes \<times> Controller" where
  "BufferForward bufSize ts bp = CopyForward_loop ts bp"

text \<open>\<^verbatim>\<open>HandlePair\<close>: each direction that returns an error signals it to the pair; both connections are
  closed once both directions have returned.\<close>

definition HandlePair ::
  "(copy_turn list \<Rightarrow> copy_end \<times> bytes) \<Rightarrow> copy_turn list \<Rightarrow> copy_turn list \<Rightarrow> Bp_Pair option \<times> bytes \<times> bytes" where
  "HandlePair fwd ab ba =
     (case (fwd ab, fwd ba) of
        ((CopyReturn e1, out1), (CopyReturn e2, out2)) \<Rightarrow>
          (Some ((if e2 \<noteq> None then Pair_SignalErrorB else id)
                 ((if e1 \<noteq> None then Pair_SignalErrorA else id) NewPair)), out1, out2)
      | ((_, out1), (_, out2)) \<Rightarrow> (None, out1, out2))"

section \<open>Linux\<close>

text \<open>What one call of \<^verbatim>\<open>splice\<close> does: it moves some bytes, no byte at the end of the data, or fails.\<close>

datatype splice_result = Moved bytes | SpliceErr io_err

fun spliceForward_loop :: "splice_result list \<Rightarrow> Controller \<Rightarrow> copy_end \<times> bytes \<times> Controller" where
  "spliceForward_loop [] bp = (CopyRunning, [], bp)"
| "spliceForward_loop (r # rs) bp =
     (if Controller_CheckAndYield bp then spliceForward_loop rs bp
      else case r of
        Moved d \<Rightarrow>
          if d \<noteq> [] then (case spliceForward_loop rs bp of (e, out, bp1) \<Rightarrow> (e, d @ out, bp1))
          else (CopyReturn None, [], bp)
      | SpliceErr e \<Rightarrow>
          if e = EAGAIN then spliceForward_loop rs (Controller_Pause bp)
          else if e \<in> {EOF, EPIPE, ECONNRESET} then (CopyReturn None, [], bp)
          else (CopyReturn (Some e), [], bp))"

definition spliceForward :: "splice_result list \<Rightarrow> copy_end \<times> bytes" where
  "spliceForward rs = (case spliceForward_loop rs NewController of (e, out, _) \<Rightarrow> (e, out))"

text \<open>\<^verbatim>\<open>Forward\<close>: splice when both ends have a file descriptor, else the buffered copy.\<close>

definition Linux_Forward :: "bool \<Rightarrow> bool \<Rightarrow> splice_result list \<Rightarrow> copy_turn list \<Rightarrow> copy_end \<times> bytes" where
  "Linux_Forward srcFd dstFd rs ts =
     (if srcFd \<and> dstFd then spliceForward rs
      else case BufferForward (int DefaultBufferSize) ts NewController of (e, out, _) \<Rightarrow> (e, out))"

text \<open>\<^verbatim>\<open>SpliceFileToFile\<close>: how many bytes were moved, with the error if any. A call asks for at most a
  chunk and at most what is missing, and moves no more than it asked for; \<open>None\<close>: still running.\<close>

definition splice_chunk :: "int \<Rightarrow> int \<Rightarrow> int" where
  "splice_chunk sz moved = (if sz - moved < 65536 then sz - moved else 65536)"

datatype splice_n = SpN nat | SpErr io_err

fun SpliceFileToFile_loop :: "int \<Rightarrow> int \<Rightarrow> splice_n list \<Rightarrow> (int \<times> io_err option) option" where
  "SpliceFileToFile_loop sz moved [] = (if moved < sz then None else Some (moved, None))"
| "SpliceFileToFile_loop sz moved (r # rs) =
     (if \<not> moved < sz then Some (moved, None)
      else case r of
        SpN n \<Rightarrow>
          if n = 0 then Some (moved, None)
          else SpliceFileToFile_loop sz (i64 (moved + min (int n) (splice_chunk sz moved))) rs
      | SpErr e \<Rightarrow> if e = EAGAIN then SpliceFileToFile_loop sz moved rs else Some (moved, Some e))"

definition SpliceFileToFile :: "int \<Rightarrow> splice_n list \<Rightarrow> (int \<times> io_err option) option" where
  "SpliceFileToFile sz rs = SpliceFileToFile_loop sz 0 rs"

text \<open>One turn of \<^verbatim>\<open>Tee\<close> on the data waiting at the source: \<open>n\<close> bytes are duplicated to the second
  target without being consumed, then \<open>m\<close> of them are moved to the first. The result: what is left, and
  what the two targets got.\<close>

definition Tee_turn :: "nat \<Rightarrow> nat \<Rightarrow> bytes \<times> bytes \<times> bytes \<Rightarrow> bytes \<times> bytes \<times> bytes" where
  "Tee_turn n m st =
     (case st of (src, out1, out2) \<Rightarrow>
        (drop (min m n) src, out1 @ take (min m n) src, out2 @ take n src))"

text \<open>The loop of \<^verbatim>\<open>Tee\<close>: each turn duplicates \<open>n\<close> bytes, at most a chunk and at most what is missing, and
  then moves \<open>m\<close> of them, or fails; the result is the total with the error if any, \<open>None\<close> while it runs.\<close>

datatype tee_result = TeeErr io_err | TeeN nat nat "io_err option"

fun Tee_loop ::
  "int \<Rightarrow> int \<Rightarrow> tee_result list \<Rightarrow> bytes \<times> bytes \<times> bytes \<Rightarrow> (int \<times> io_err option) option \<times> bytes \<times> bytes \<times> bytes"
where
  "Tee_loop sz moved [] st = (if moved < sz then None else Some (moved, None), st)"
| "Tee_loop sz moved (r # rs) st =
     (if \<not> moved < sz then (Some (moved, None), st)
      else case r of
        TeeErr e \<Rightarrow> if e = EAGAIN then Tee_loop sz moved rs st else (Some (moved, Some e), st)
      | TeeN n m err \<Rightarrow>
          if n = 0 then (Some (moved, None), st)
          else
            let n = min n (nat (splice_chunk sz moved)); m = min m n;
                moved = i64 (moved + int m); st = Tee_turn n m st
            in (case err of Some e \<Rightarrow> (Some (moved, Some e), st) | None \<Rightarrow> Tee_loop sz moved rs st))"

definition Tee :: "int \<Rightarrow> tee_result list \<Rightarrow> bytes \<Rightarrow> (int \<times> io_err option) option \<times> bytes \<times> bytes \<times> bytes" where
  "Tee sz rs src = Tee_loop sz 0 rs (src, [], [])"

section \<open>macOS and FreeBSD\<close>

definition Darwin_Forward :: "copy_turn list \<Rightarrow> copy_end \<times> bytes" where
  "Darwin_Forward ts = (case CopyForward ts NewController of (e, out, _) \<Rightarrow> (e, out))"

fun ScatterReadForward :: "copy_turn list \<Rightarrow> Controller \<Rightarrow> copy_end \<times> bytes \<times> Controller" where
  "ScatterReadForward [] bp = (CopyRunning, [], bp)"
| "ScatterReadForward (t # ts) bp =
     (if Controller_CheckAndYield bp then ScatterReadForward ts bp
      else if write_fails t then (CopyReturn (tu_werr t), [], Controller_Pause bp)
      else case tu_err t of
        Some EOF \<Rightarrow> (CopyReturn None, tu_data t, bp)
      | Some EAGAIN \<Rightarrow>
          (case ScatterReadForward ts (Controller_Pause bp) of (r, out, bp1) \<Rightarrow> (r, tu_data t @ out, bp1))
      | Some e \<Rightarrow> (CopyReturn (Some e), tu_data t, bp)
      | None \<Rightarrow> (case ScatterReadForward ts bp of (r, out, bp1) \<Rightarrow> (r, tu_data t @ out, bp1)))"

definition LargeBufferForward :: "copy_turn list \<Rightarrow> Controller \<Rightarrow> copy_end \<times> bytes \<times> Controller" where
  "LargeBufferForward ts bp = CopyForward_loop ts bp"

section \<open>Windows\<close>

definition Windows_Forward :: "copy_turn list \<Rightarrow> copy_end \<times> bytes" where
  "Windows_Forward ts =
     (case BufferForward (int LargeBufferSize) ts NewController of (e, out, _) \<Rightarrow> (e, out))"

text \<open>\<^verbatim>\<open>IOCPForward\<close> alternates between two buffers. The state of its loop: the buffers, the index, and
  how many bytes of the last read are still to be written.\<close>

record iocp =
  io_buf0 :: bytes
  io_buf1 :: bytes
  io_idx :: nat
  io_pending :: "nat option"

definition io_buf :: "nat \<Rightarrow> iocp \<Rightarrow> bytes" where
  "io_buf i s = (if i = 0 then io_buf0 s else io_buf1 s)"

definition io_fill :: "bytes \<Rightarrow> iocp \<Rightarrow> iocp" where
  "io_fill d s =
     (let b = d @ drop (length d) (io_buf (io_idx s) s)
      in if io_idx s = 0 then s\<lparr>io_buf0 := b\<rparr> else s\<lparr>io_buf1 := b\<rparr>)"

definition io_start :: iocp where
  "io_start = \<lparr>io_buf0 = replicate LargeBufferSize 0, io_buf1 = replicate LargeBufferSize 0, io_idx = 0,
               io_pending = None\<rparr>"

text \<open>A turn: first the pending write, from the buffer the index points to, then the read.\<close>

fun IOCPForward_loop :: "copy_turn list \<Rightarrow> iocp \<Rightarrow> Controller \<Rightarrow> copy_end \<times> bytes \<times> Controller" where
  "IOCPForward_loop [] s bp = (CopyRunning, [], bp)"
| "IOCPForward_loop (t # ts) s bp =
     (if Controller_CheckAndYield bp then IOCPForward_loop ts s bp
      else
        let i = io_idx s;
            out1 = (case io_pending s of None \<Rightarrow> [] | Some n \<Rightarrow> take n (io_buf i s))
        in if io_pending s \<noteq> None \<and> tu_werr t \<noteq> None then (CopyReturn (tu_werr t), [], Controller_Pause bp)
           else
             let s1 = s\<lparr>io_pending := None\<rparr>;
                 d = tu_data t;
                 s2 = (if d \<noteq> [] then (io_fill d s1)\<lparr>io_pending := Some (length d), io_idx := (i + 1) mod 2\<rparr> else s1)
             in case tu_err t of
                  Some EOF \<Rightarrow>
                    (CopyReturn None,
                     out1 @ (case io_pending s2 of None \<Rightarrow> []
                             | Some n \<Rightarrow> take n (io_buf ((io_idx s2 + 1) mod 2) s2)), bp)
                | Some e \<Rightarrow> (CopyReturn (Some e), out1, bp)
                | None \<Rightarrow> (case IOCPForward_loop ts s2 bp of (r, out, bp1) \<Rightarrow> (r, out1 @ out, bp1)))"

definition IOCPForward :: "copy_turn list \<Rightarrow> Controller \<Rightarrow> copy_end \<times> bytes \<times> Controller" where
  "IOCPForward ts bp = IOCPForward_loop ts io_start bp"

text \<open>\<^verbatim>\<open>ScatterGatherForward\<close> collects the chunk in a list of buffers, writes the list and empties it.\<close>

fun ScatterGatherForward_loop :: "bytes list \<Rightarrow> copy_turn list \<Rightarrow> Controller \<Rightarrow> copy_end \<times> bytes \<times> Controller" where
  "ScatterGatherForward_loop bufs [] bp = (CopyRunning, [], bp)"
| "ScatterGatherForward_loop bufs (t # ts) bp =
     (if Controller_CheckAndYield bp then ScatterGatherForward_loop bufs ts bp
      else
        let bufs1 = (if tu_data t \<noteq> [] then bufs @ [tu_data t] else bufs);
            out1 = (if tu_data t \<noteq> [] then concat bufs1 else []);
            bufs2 = (if tu_data t \<noteq> [] then [] else bufs)
        in if write_fails t then (CopyReturn (tu_werr t), [], Controller_Pause bp)
           else case tu_err t of
             Some EOF \<Rightarrow> (CopyReturn None, out1, bp)
           | Some e \<Rightarrow> (CopyReturn (Some e), out1, bp)
           | None \<Rightarrow> (case ScatterGatherForward_loop bufs2 ts bp of (r, out, bp1) \<Rightarrow> (r, out1 @ out, bp1)))"

definition ScatterGatherForward :: "copy_turn list \<Rightarrow> Controller \<Rightarrow> copy_end \<times> bytes \<times> Controller" where
  "ScatterGatherForward ts bp = ScatterGatherForward_loop [] ts bp"

section \<open>What a forwarder has to do\<close>

fun copy_spec :: "copy_turn list \<Rightarrow> copy_end \<times> bytes" where
  "copy_spec [] = (CopyRunning, [])"
| "copy_spec (t # ts) =
     (if write_fails t then (CopyReturn (tu_werr t), [])
      else case tu_err t of
        None \<Rightarrow> map_prod id ((@) (tu_data t)) (copy_spec ts)
      | Some e \<Rightarrow> (CopyReturn (if e = EOF then None else Some e), tu_data t))"

text \<open>A turn that moves data and goes on.\<close>

definition clean :: "copy_turn \<Rightarrow> bool" where
  "clean t \<longleftrightarrow> \<not> write_fails t \<and> tu_err t = None"

locale copying_loop =
  fixes run :: "copy_turn list \<Rightarrow> copy_end \<times> bytes"
  assumes run_nil: "run [] = (CopyRunning, [])"
    and run_write_error: "write_fails t \<Longrightarrow> run (t # ts) = (CopyReturn (tu_werr t), [])"
    and run_end: "\<not> write_fails t \<Longrightarrow> tu_err t = Some e \<Longrightarrow>
      run (t # ts) = (CopyReturn (if e = EOF then None else Some e), tu_data t)"
    and run_more: "clean t \<Longrightarrow> run (t # ts) = map_prod id ((@) (tu_data t)) (run ts)"
begin

lemma run_spec: "run ts = copy_spec ts"
proof (induction ts)
  case Nil
  show ?case by (simp add: run_nil)
next
  case (Cons t ts)
  then show ?case
    using run_write_error [of t ts] run_end [of t _ ts] run_more [of t ts]
    by (cases "tu_err t") (auto simp: clean_def)
qed

text \<open>Everything that was read before the end arrives, in order.\<close>

lemma run_delivers:
  "list_all clean ts \<Longrightarrow> \<not> write_fails t \<Longrightarrow> tu_err t = Some EOF \<Longrightarrow>
   run (ts @ t # us) = (CopyReturn None, concat (map tu_data ts) @ tu_data t)"
  by (induction ts) (simp_all add: run_end run_more)

end

subsection \<open>The loops that do\<close>

lemma CopyForward_loop_spec:
  "\<not> bp_paused bp \<Longrightarrow> \<exists>bp1. CopyForward_loop ts bp = (fst (copy_spec ts), snd (copy_spec ts), bp1)"
proof (induction ts)
  case (Cons t ts)
  then obtain bp1 where "CopyForward_loop ts bp = (fst (copy_spec ts), snd (copy_spec ts), bp1)" by blast
  with Cons(2) show ?case
    by (auto simp: Controller_CheckAndYield_def split: option.splits io_err.splits)
qed simp

lemma ScatterGather_loop_spec:
  "\<not> bp_paused bp \<Longrightarrow> \<exists>bp1. ScatterGatherForward_loop [] ts bp = (fst (copy_spec ts), snd (copy_spec ts), bp1)"
proof (induction ts)
  case (Cons t ts)
  then obtain bp1 where "ScatterGatherForward_loop [] ts bp = (fst (copy_spec ts), snd (copy_spec ts), bp1)" by blast
  with Cons(2) show ?case
    by (auto simp: Controller_CheckAndYield_def write_fails_def Let_def split: option.splits io_err.splits)
qed simp

lemma not_paused_new [simp]: "\<not> bp_paused NewController"
  by (simp add: NewController_def)

definition without_bp :: "copy_end \<times> bytes \<times> Controller \<Rightarrow> copy_end \<times> bytes" where
  "without_bp r = (fst r, fst (snd r))"

lemma copying_loopI: "(\<And>ts. run ts = copy_spec ts) \<Longrightarrow> copying_loop run"
  by unfold_locales (simp_all add: clean_def)

interpretation darwin: copying_loop Darwin_Forward
proof (rule copying_loopI)
  show "Darwin_Forward ts = copy_spec ts" for ts
    using CopyForward_loop_spec [OF not_paused_new, of ts] by (auto simp: Darwin_Forward_def CopyForward_def)
qed

interpretation windows: copying_loop Windows_Forward
proof (rule copying_loopI)
  show "Windows_Forward ts = copy_spec ts" for ts
    using CopyForward_loop_spec [OF not_paused_new, of ts] by (auto simp: Windows_Forward_def BufferForward_def)
qed

interpretation linux_buffered: copying_loop "Linux_Forward False d rs" for d rs
proof (rule copying_loopI)
  show "Linux_Forward False d rs ts = copy_spec ts" for ts
    using CopyForward_loop_spec [OF not_paused_new, of ts] by (auto simp: Linux_Forward_def BufferForward_def)
qed

interpretation scatter_gather: copying_loop "\<lambda>ts. without_bp (ScatterGatherForward ts NewController)"
proof (rule copying_loopI)
  show "without_bp (ScatterGatherForward ts NewController) = copy_spec ts" for ts
    using ScatterGather_loop_spec [OF not_paused_new, of ts] by (auto simp: ScatterGatherForward_def without_bp_def)
qed

interpretation large_buffer: copying_loop "\<lambda>ts. without_bp (LargeBufferForward ts NewController)"
proof (rule copying_loopI)
  show "without_bp (LargeBufferForward ts NewController) = copy_spec ts" for ts
    using CopyForward_loop_spec [OF not_paused_new, of ts] by (auto simp: LargeBufferForward_def without_bp_def)
qed

subsection \<open>The loops that stop\<close>

lemma paused_loops_forever:
  "bp_paused bp \<Longrightarrow> spliceForward_loop rs bp = (CopyRunning, [], bp)"
  "bp_paused bp \<Longrightarrow> ScatterReadForward ts bp = (CopyRunning, [], bp)"
  by (induction rs, simp_all add: Controller_CheckAndYield_def) (induction ts, simp_all add: Controller_CheckAndYield_def)

lemma splice_until_full:
  "\<not> bp_paused bp \<Longrightarrow> [] \<notin> set ds \<Longrightarrow> spliceForward_loop (map Moved ds @ SpliceErr EAGAIN # rs) bp
     = (CopyRunning, concat ds, Controller_Pause bp)"
proof (induction ds)
  case Nil
  then show ?case
    by (simp add: Controller_CheckAndYield_def paused_loops_forever Controller_Pause_def)
next
  case (Cons d ds)
  then show ?case by (auto simp: Controller_CheckAndYield_def)
qed

section \<open>Properties\<close>


text \<open>The pipelined forwarder of Windows writes the wrong one of its two buffers: of two chunks followed by
  the end of the data, it sends as many zero bytes as the first has, then the first bytes of the
  first chunk in place of the second; the reference sends both chunks.\<close>

lemma iocp_forward_sends_wrong_buffer:
  assumes "a \<noteq> []" "b \<noteq> []" "length a \<le> LargeBufferSize" "length b \<le> LargeBufferSize"
  shows "let ts = [\<lparr>tu_data = a, tu_err = None, tu_werr = None\<rparr>, \<lparr>tu_data = b, tu_err = None, tu_werr = None\<rparr>,
               \<lparr>tu_data = [], tu_err = Some EOF, tu_werr = None\<rparr>]
     in without_bp (IOCPForward ts NewController) =
          (CopyReturn None, replicate (length a) 0 @ take (length b) (a @ replicate (LargeBufferSize - length a) 0))
        \<and> copy_spec ts = (CopyReturn None, a @ b)"
  using assms
  by (simp add: Let_def IOCPForward_def io_start_def io_fill_def io_buf_def without_bp_def min_absorb1
      Controller_CheckAndYield_def write_fails_def)

lemma iocp_forward_sends_wrong_buffer_witness:
  "snd (without_bp (IOCPForward [\<lparr>tu_data = [1, 2], tu_err = None, tu_werr = None\<rparr>,
      \<lparr>tu_data = [3, 4], tu_err = None, tu_werr = None\<rparr>, \<lparr>tu_data = [], tu_err = Some EOF, tu_werr = None\<rparr>]
      NewController)) = [0, 0, 1, 2]"
proof -
  have "length [1, 2 :: byte] \<le> LargeBufferSize" "length [3, 4 :: byte] \<le> LargeBufferSize"
    by (simp_all add: LargeBufferSize_def)
  from iocp_forward_sends_wrong_buffer [OF _ _ this] show ?thesis by (simp add: Let_def)
qed

text \<open>The splicing forwarder of Linux never recovers from a full kernel buffer: it pauses its own
  controller, which nothing resumes, so whatever happens later it moves no further byte and never
  returns, neither at the end of the data nor on an error.\<close>

lemma splice_pauses_forever:
  assumes "[] \<notin> set ds"
  shows "Linux_Forward True True (map Moved ds @ SpliceErr EAGAIN # rs) ts = (CopyRunning, concat ds)"
  using assms by (simp add: Linux_Forward_def spliceForward_def splice_until_full)

lemma splice_pauses_forever_witness:
  "Linux_Forward True True [Moved [1, 2], SpliceErr EAGAIN, Moved [3], Moved []] [] = (CopyRunning, [1, 2])
   \<and> Linux_Forward True True [Moved [1, 2], Moved [3], Moved []] [] = (CopyReturn None, [1, 2, 3])"
  using splice_pauses_forever [of "[[1, 2]]" "[Moved [3], Moved []]" "[]"]
  by (simp add: Linux_Forward_def spliceForward_def Controller_CheckAndYield_def)

text \<open>The scattered read of macOS has the same fault.\<close>

lemma scatter_read_pauses_forever:
  "tu_err t = Some EAGAIN \<Longrightarrow> \<not> write_fails t \<Longrightarrow>
   without_bp (ScatterReadForward (t # ts) NewController) = (CopyRunning, tu_data t)"
  by (simp add: Controller_CheckAndYield_def paused_loops_forever Controller_Pause_def without_bp_def)

text \<open>\<^verbatim>\<open>SpliceFileToFile\<close> never reports more than it was asked for.\<close>

lemma splice_file_bounded:
  "SpliceFileToFile_loop sz moved rs = Some (n, e) \<Longrightarrow> 0 \<le> moved \<Longrightarrow> moved \<le> sz \<Longrightarrow> in_i64 sz \<Longrightarrow>
   moved \<le> n \<and> n \<le> sz"
proof (induction rs arbitrary: moved)
  case (Cons r rs)
  show ?case
  proof (cases "moved < sz \<and> (\<exists>k. r = SpN k \<and> k \<noteq> 0)")
    case True
    then obtain k where k: "r = SpN k" "k \<noteq> 0" by blast
    let ?m = "moved + min (int k) (splice_chunk sz moved)"
    have b: "moved \<le> ?m" "?m \<le> sz" using True by (auto simp: splice_chunk_def)
    then have "in_i64 ?m" using Cons(3,5) by (simp add: in_i64_def)
    then have "SpliceFileToFile_loop sz ?m rs = Some (n, e)" using Cons(2) True k by simp
    from Cons.IH [OF this] b Cons(3,5) show ?thesis by linarith
  next
    case False
    with Cons(2-5) Cons.IH [of moved] show ?thesis
      by (auto split: if_splits splice_n.splits)
  qed
qed (auto split: if_splits)

lemma splice_file_to_file_bounded:
  "SpliceFileToFile sz rs = Some (n, e) \<Longrightarrow> 0 \<le> sz \<Longrightarrow> in_i64 sz \<Longrightarrow> 0 \<le> n \<and> n \<le> sz"
  using splice_file_bounded [of sz 0 rs n e] by (simp add: SpliceFileToFile_def)

text \<open>\<^verbatim>\<open>Tee\<close> gives both targets the same when every call moves what it duplicated; when fewer bytes are
  moved than were duplicated, the second target gets the rest twice.\<close>

lemma tee_duplicates:
  "Tee_turn n n (src, out1, out2) = (drop n src, out1 @ take n src, out2 @ take n src)"
  "m \<le> n \<Longrightarrow> Tee_turn n n (Tee_turn n m (a @ b, [], [])) = (drop n (drop m (a @ b)),
     take m (a @ b) @ take n (drop m (a @ b)), take n (a @ b) @ take n (drop m (a @ b)))"
  by (simp_all add: Tee_turn_def)

text \<open>The second target gets bytes twice: on four waiting bytes, a turn that duplicates four and moves two
  leaves two, which the next turn duplicates again.\<close>

lemma tee_duplicates_example:
  "Tee 4 [TeeN 4 2 None, TeeN 2 2 None] [1, 2, 3, 4] = (Some (4, None), [], [1, 2, 3, 4], [1, 2, 3, 4, 3, 4])"
  by (simp add: Tee_def Tee_turn_def splice_chunk_def Let_def i64_def)

end
