(* ===== verification/Transport_Adapters.thy ===== *)
theory Transport_Adapters
  imports Copy_Forward
begin

text \<open>
  The transports a tunnel can run on: \<^verbatim>\<open>tcp/tcp.go\<close>, \<^verbatim>\<open>http2/http2.go\<close> and \<^verbatim>\<open>http3/http3.go\<close>, with the
  classification of close errors of \<^verbatim>\<open>http3/http3.go\<close> and \<^verbatim>\<open>quic/quic.go\<close>. What the network library answers
  is an argument; the sockets, connections and streams that are open are the state, so that it can be said
  what each operation leaves open. Closing a QUIC connection does not close the socket it was given, as
  the library documents. Shown: failed operations leave nothing open, with one exception; closing is
  idempotent and reaches every resource but two kinds.
\<close>

section \<open>Resources\<close>

datatype resource = UDPSocket nat | TCPSocket nat | QUICConn nat | QUICStream nat | QUICListen nat

record net_state =
  ns_open :: "resource set"
  ns_closes :: "resource list"

definition net_open :: "resource \<Rightarrow> net_state \<Rightarrow> net_state" where
  "net_open x n = n\<lparr>ns_open := insert x (ns_open n)\<rparr>"

definition net_closed :: "resource \<Rightarrow> net_state \<Rightarrow> net_state" where
  "net_closed x n = n\<lparr>ns_open := ns_open n - {x}, ns_closes := ns_closes n @ [x]\<rparr>"

datatype transport_error = ResolveError | SocketError | QUICError | StreamFailed | HandshakeError | ErrNetClosed

section \<open>TCP and HTTP/2\<close>

text \<open>Both listen with plain TCP.\<close>

definition TCP_Listen :: "nat option \<Rightarrow> net_state \<Rightarrow> (transport_error, nat) go_result \<times> net_state" where
  "TCP_Listen sock n = (case sock of None \<Rightarrow> (Err SocketError, n) | Some s \<Rightarrow> (Ret s, net_open (TCPSocket s) n))"

definition TCP_Dial :: "nat option \<Rightarrow> net_state \<Rightarrow> (transport_error, nat) go_result \<times> net_state" where
  "TCP_Dial sock n = (case sock of None \<Rightarrow> (Err SocketError, n) | Some s \<Rightarrow> (Ret s, net_open (TCPSocket s) n))"

definition HTTP2_Listen :: "nat option \<Rightarrow> net_state \<Rightarrow> (transport_error, nat) go_result \<times> net_state" where
  "HTTP2_Listen sock n = (case sock of None \<Rightarrow> (Err SocketError, n) | Some s \<Rightarrow> (Ret s, net_open (TCPSocket s) n))"

definition HTTP2_Dial :: "bool \<Rightarrow> nat option \<Rightarrow> bool \<Rightarrow> net_state \<Rightarrow> (transport_error, nat) go_result \<times> net_state" where
  "HTTP2_Dial tlsConfig sock handshake n =
     (case sock of
        None \<Rightarrow> (Err SocketError, n)
      | Some s \<Rightarrow>
          let n1 = net_open (TCPSocket s) n in
          if tlsConfig \<and> \<not> handshake then (Err HandshakeError, net_closed (TCPSocket s) n1) else (Ret s, n1))"

definition Stream_IsServerInitiated :: "nat \<Rightarrow> bool" where
  "Stream_IsServerInitiated streamID \<longleftrightarrow> streamID mod 2 = 0"

section \<open>HTTP/3\<close>

text \<open>What the library answers, in the order in which it is called.\<close>

record h3_env =
  h3_resolve :: bool
  h3_udp :: "nat option"
  h3_quic :: "nat option"
  h3_stream :: "nat option"

record http3Listener =
  hl_listener :: nat
  hl_udpConn :: nat
  hl_closed :: bool

record http3Conn =
  hc_conn :: nat
  hc_stream :: nat
  hc_closed :: bool

definition HTTP3_Listen :: "h3_env \<Rightarrow> net_state \<Rightarrow> (transport_error, http3Listener) go_result \<times> net_state" where
  "HTTP3_Listen v n =
     (if \<not> h3_resolve v then (Err ResolveError, n)
      else case h3_udp v of
        None \<Rightarrow> (Err SocketError, n)
      | Some u \<Rightarrow>
          let n1 = net_open (UDPSocket u) n in
          (case h3_quic v of
             None \<Rightarrow> (Err QUICError, net_closed (UDPSocket u) n1)
           | Some q \<Rightarrow> (Ret \<lparr>hl_listener = q, hl_udpConn = u, hl_closed = False\<rparr>, net_open (QUICListen q) n1)))"

text \<open>The protocols \<^verbatim>\<open>Dial\<close> offers.\<close>

definition HTTP3_Dial_alpn :: "gostr list \<Rightarrow> gostr list" where
  "HTTP3_Dial_alpn nextProtos = (if nextProtos = [] then [str ''h3''] else nextProtos)"

definition HTTP3_Dial :: "h3_env \<Rightarrow> net_state \<Rightarrow> (transport_error, http3Conn) go_result \<times> net_state" where
  "HTTP3_Dial v n =
     (if \<not> h3_resolve v then (Err ResolveError, n)
      else case h3_udp v of
        None \<Rightarrow> (Err SocketError, n)
      | Some u \<Rightarrow>
          let n1 = net_open (UDPSocket u) n in
          (case h3_quic v of
             None \<Rightarrow> (Err QUICError, net_closed (UDPSocket u) n1)
           | Some q \<Rightarrow>
               let n2 = net_open (QUICConn q) n1 in
               (case h3_stream v of
                  None \<Rightarrow> (Err StreamFailed, net_closed (QUICConn q) n2)
                | Some st \<Rightarrow> (Ret \<lparr>hc_conn = q, hc_stream = st, hc_closed = False\<rparr>, net_open (QUICStream st) n2))))"

text \<open>\<^verbatim>\<open>Accept\<close>, given the connection and its first stream, if they come.\<close>

definition http3Listener_Accept ::
  "nat option \<Rightarrow> nat option \<Rightarrow> http3Listener \<Rightarrow> net_state \<Rightarrow> (transport_error, http3Conn) go_result \<times> net_state" where
  "http3Listener_Accept conn stream l n =
     (if hl_closed l then (Err ErrNetClosed, n)
      else case conn of
        None \<Rightarrow> (Err QUICError, n)
      | Some q \<Rightarrow>
          let n1 = net_open (QUICConn q) n in
          (case stream of
             None \<Rightarrow> (Err StreamFailed, net_closed (QUICConn q) n1)
           | Some st \<Rightarrow> (Ret \<lparr>hc_conn = q, hc_stream = st, hc_closed = False\<rparr>, net_open (QUICStream st) n1)))"

definition http3Listener_Close :: "http3Listener \<Rightarrow> net_state \<Rightarrow> http3Listener \<times> net_state" where
  "http3Listener_Close l n =
     (if hl_closed l then (l, n)
      else (l\<lparr>hl_closed := True\<rparr>, net_closed (UDPSocket (hl_udpConn l)) (net_closed (QUICListen (hl_listener l)) n)))"

text \<open>The two wrappers differ in \<^verbatim>\<open>Close\<close>: on the side that dialled, stream and connection are closed; on the
  side that accepted, only the stream.\<close>

definition http3Conn_Close :: "http3Conn \<Rightarrow> net_state \<Rightarrow> http3Conn \<times> net_state" where
  "http3Conn_Close c n =
     (if hc_closed c then (c, n)
      else (c\<lparr>hc_closed := True\<rparr>, net_closed (QUICConn (hc_conn c)) (net_closed (QUICStream (hc_stream c)) n)))"

definition http3StreamConn_Close :: "http3Conn \<Rightarrow> net_state \<Rightarrow> http3Conn \<times> net_state" where
  "http3StreamConn_Close c n =
     (if hc_closed c then (c, n) else (c\<lparr>hc_closed := True\<rparr>, net_closed (QUICStream (hc_stream c)) n))"

section \<open>Close errors\<close>

text \<open>An error of the QUIC library may be wrapped; \<^verbatim>\<open>errors.As\<close> looks for the first error of a type along the
  chain.\<close>

datatype quic_err = ApplicationError nat | TransportError | IdleTimeout | WrappedErr quic_err

fun as_application :: "quic_err \<Rightarrow> nat option" where
  "as_application (ApplicationError code) = Some code"
| "as_application (WrappedErr e) = as_application e"
| "as_application _ = None"

fun as_transport :: "quic_err \<Rightarrow> bool" where
  "as_transport TransportError = True"
| "as_transport (WrappedErr e) = as_transport e"
| "as_transport _ = False"

definition IsHTTP3ClosedErr :: "quic_err option \<Rightarrow> bool" where
  "IsHTTP3ClosedErr err =
     (case err of
        None \<Rightarrow> True
      | Some e \<Rightarrow> (case as_application e of Some code \<Rightarrow> code = 0 | None \<Rightarrow> if as_transport e then False else False))"

definition IsQUICClosedErr :: "quic_err option \<Rightarrow> bool" where
  "IsQUICClosedErr err =
     (case err of
        None \<Rightarrow> True
      | Some e \<Rightarrow> (case as_application e of Some code \<Rightarrow> code = 0 | None \<Rightarrow> if as_transport e then False else False))"

section \<open>Lemmas\<close>

lemmas transport_defs = HTTP3_Listen_def HTTP3_Dial_def http3Listener_Accept_def http3Listener_Close_def
  http3Conn_Close_def http3StreamConn_Close_def net_open_def net_closed_def Let_def

text \<open>The two classifiers agree: exactly a missing error or an application error with code 0, however wrapped,
  is a normal close. The classifier of the forwarders does not take a missing error for a close.\<close>

fun wrapped :: "nat \<Rightarrow> quic_err \<Rightarrow> quic_err" where
  "wrapped 0 e = e"
| "wrapped (Suc n) e = WrappedErr (wrapped n e)"

lemma wrapped_eq [simp]:
  "ApplicationError x = wrapped n e \<longleftrightarrow> n = 0 \<and> e = ApplicationError x"
  "TransportError = wrapped n e \<longleftrightarrow> n = 0 \<and> e = TransportError"
  "IdleTimeout = wrapped n e \<longleftrightarrow> n = 0 \<and> e = IdleTimeout"
  "WrappedErr e' = wrapped n (ApplicationError c) \<longleftrightarrow> (\<exists>m. n = Suc m \<and> e' = wrapped m (ApplicationError c))"
  by (cases n; auto)+

lemma as_application_iff: "as_application e = Some c \<longleftrightarrow> (\<exists>n. e = wrapped n (ApplicationError c))"
  by (induction e) auto

lemma closed_error_classifiers_agree:
  "IsHTTP3ClosedErr = IsQUICClosedErr"
  "IsQUICClosedErr (Some e) \<longleftrightarrow> (\<exists>n. e = wrapped n (ApplicationError 0))"
  "IsQUICClosedErr None \<and> \<not> IsClosedErr None"
  by (auto simp: IsHTTP3ClosedErr_def IsQUICClosedErr_def fun_eq_iff as_application_iff [symmetric] split: option.split)

text \<open>Closing a second time does nothing.\<close>

lemma close_idempotent:
  "case http3Conn_Close c n of (c', n') \<Rightarrow> http3Conn_Close c' n' = (c', n')"
  "case http3StreamConn_Close c n of (c', n') \<Rightarrow> http3StreamConn_Close c' n' = (c', n')"
  "case http3Listener_Close l n of (l', n') \<Rightarrow> http3Listener_Close l' n' = (l', n')"
  by (simp_all add: transport_defs)

text \<open>A fresh answer of the library: nothing it hands out is open already.\<close>

definition fresh_env :: "h3_env \<Rightarrow> net_state \<Rightarrow> bool" where
  "fresh_env v n \<longleftrightarrow>
     (\<forall>x \<in> ns_open n. (\<forall>u. h3_udp v = Some u \<longrightarrow> x \<noteq> UDPSocket u)
        \<and> (\<forall>q. h3_quic v = Some q \<longrightarrow> x \<noteq> QUICConn q \<and> x \<noteq> QUICListen q)
        \<and> (\<forall>st. h3_stream v = Some st \<longrightarrow> x \<noteq> QUICStream st))"

section \<open>Properties\<close>

text \<open>What the HTTP/3 transport leaves open. Listening that fails leaves nothing open, and a listener that is
  closed gives back its two resources. A dialled connection that is closed gives back its stream and its
  QUIC connection but not the UDP socket made for it, which also stays open when no stream can be opened.
  An accepted connection that is closed gives back its stream and leaves the QUIC connection open.\<close>

lemma http3_resources:
  assumes "fresh_env v n"
  shows "(\<forall>e n'. HTTP3_Listen v n = (Err e, n') \<longrightarrow> ns_open n' = ns_open n)
    \<and> (\<forall>l n'. HTTP3_Listen v n = (Ret l, n') \<longrightarrow> ns_open (snd (http3Listener_Close l n')) = ns_open n)
    \<and> (\<forall>c n'. HTTP3_Dial v n = (Ret c, n') \<longrightarrow>
         (\<exists>u. h3_udp v = Some u \<and> ns_open (snd (http3Conn_Close c n')) = insert (UDPSocket u) (ns_open n)))
    \<and> (\<forall>e n'. HTTP3_Dial v n = (Err e, n') \<longrightarrow>
         ns_open n' = (if e = StreamFailed then insert (UDPSocket (the (h3_udp v))) (ns_open n) else ns_open n))
    \<and> (\<forall>l c n'. http3Listener_Accept (h3_quic v) (h3_stream v) l n = (Ret c, n') \<longrightarrow>
         (\<exists>q. h3_quic v = Some q \<and> ns_open (snd (http3StreamConn_Close c n')) = insert (QUICConn q) (ns_open n)))"
  using assms
  by (auto simp: transport_defs fresh_env_def split: option.splits if_splits)

definition h3_example :: h3_env where
  "h3_example = \<lparr>h3_resolve = True, h3_udp = Some 1, h3_quic = Some 2, h3_stream = Some 3\<rparr>"

definition nothing_open :: net_state where
  "nothing_open = \<lparr>ns_open = {}, ns_closes = []\<rparr>"

lemma http3_resources_witness:
  "case HTTP3_Dial h3_example nothing_open of
     (Ret c, n) \<Rightarrow> ns_open (snd (http3Conn_Close c n)) = {UDPSocket 1} | _ \<Rightarrow> False"
proof -
  have fresh: "fresh_env h3_example nothing_open" by (simp add: fresh_env_def nothing_open_def)
  obtain c n where dial: "HTTP3_Dial h3_example nothing_open = (Ret c, n)"
    by (simp add: HTTP3_Dial_def h3_example_def Let_def)
  then show ?thesis
    using http3_resources [OF fresh] by (auto simp: h3_example_def nothing_open_def)
qed

end
