(* ===== verification/Tunnel_Facade.thy ===== *)
theory Tunnel_Facade
  imports Copy_Forward
begin

text \<open>
  The facade of the library, \<^verbatim>\<open>tunnel.go\<close>: configuration with validation and presets, the \<^verbatim>\<open>Tunnel\<close> with
  its accept loop and connection handler, its statistics, and the one-call \<^verbatim>\<open>Forward\<close>. Protocols,
  listeners and connections are numbers; what listening, accepting, dialling and forwarding give is an
  argument. \<open>tf_active\<close> holds the handlers that are running, each with its source and, once dialled, its
  destination; the code keeps no record of them.
\<close>

section \<open>Configuration\<close>

datatype Mode = ModeAuto | ModeServer | ModeClient

fun Mode_String :: "Mode \<Rightarrow> gostr" where
  "Mode_String ModeServer = str ''server''"
| "Mode_String ModeClient = str ''client''"
| "Mode_String ModeAuto = str ''auto''"

record Tunnel_Config =
  tc_Protocol :: gostr
  tc_ListenAddr :: gostr
  tc_TargetAddr :: gostr
  tc_TLSConfig :: bool
  tc_BufferSize :: int
  tc_EnableBackpressure :: bool
  tc_Mode :: Mode
  tc_MaxConnections :: int
  tc_ConnectionTimeout :: int
  tc_AcceptTimeout :: int
  tc_ReadBufferSize :: int
  tc_WriteBufferSize :: int
  tc_WriteBufferPool :: bool
  tc_HighWatermark :: int
  tc_LowWatermark :: int
  tc_YieldMin :: int
  tc_YieldMax :: int
  tc_TCPNoDelay :: bool
  tc_TCPQuickAck :: bool
  tc_TCPFastOpen :: bool
  tc_SendBufferSize :: int
  tc_RecvBufferSize :: int
  tc_EnableMetrics :: bool
  tc_MetricsPrefix :: gostr

text \<open>The zero value of the struct.\<close>

definition zero_config :: Tunnel_Config where
  "zero_config =
     \<lparr>tc_Protocol = [], tc_ListenAddr = [], tc_TargetAddr = [], tc_TLSConfig = False, tc_BufferSize = 0,
      tc_EnableBackpressure = False, tc_Mode = ModeAuto, tc_MaxConnections = 0, tc_ConnectionTimeout = 0,
      tc_AcceptTimeout = 0, tc_ReadBufferSize = 0, tc_WriteBufferSize = 0, tc_WriteBufferPool = False,
      tc_HighWatermark = 0, tc_LowWatermark = 0, tc_YieldMin = 0, tc_YieldMax = 0, tc_TCPNoDelay = False,
      tc_TCPQuickAck = False, tc_TCPFastOpen = False, tc_SendBufferSize = 0, tc_RecvBufferSize = 0,
      tc_EnableMetrics = False, tc_MetricsPrefix = []\<rparr>"

definition ServerPreset :: Tunnel_Config where
  "ServerPreset = zero_config\<lparr>tc_Mode := ModeServer, tc_BufferSize := 64 * 1024, tc_MaxConnections := 10000,
     tc_ConnectionTimeout := 300 * 10 ^ 9, tc_EnableBackpressure := True,
     tc_HighWatermark := 2 * 1024 * 1024, tc_LowWatermark := 1 * 1024 * 1024, tc_YieldMin := 50000,
     tc_YieldMax := 10000000, tc_TCPNoDelay := True, tc_SendBufferSize := 256 * 1024,
     tc_RecvBufferSize := 256 * 1024\<rparr>"

definition ClientPreset :: Tunnel_Config where
  "ClientPreset = zero_config\<lparr>tc_Mode := ModeClient, tc_BufferSize := 32 * 1024, tc_MaxConnections := 0,
     tc_ConnectionTimeout := 0, tc_EnableBackpressure := True, tc_HighWatermark := 512 * 1024,
     tc_LowWatermark := 256 * 1024, tc_YieldMin := 50000, tc_YieldMax := 5000000, tc_TCPNoDelay := True,
     tc_TCPQuickAck := True, tc_TCPFastOpen := True, tc_SendBufferSize := 128 * 1024,
     tc_RecvBufferSize := 128 * 1024\<rparr>"

definition HighThroughputPreset :: Tunnel_Config where
  "HighThroughputPreset = zero_config\<lparr>tc_Mode := ModeClient, tc_BufferSize := 128 * 1024,
     tc_WriteBufferSize := 256 * 1024, tc_EnableBackpressure := True, tc_HighWatermark := 4 * 1024 * 1024,
     tc_LowWatermark := 2 * 1024 * 1024, tc_YieldMin := 50000, tc_YieldMax := 10000000,
     tc_TCPNoDelay := True, tc_SendBufferSize := 512 * 1024, tc_RecvBufferSize := 512 * 1024\<rparr>"

section \<open>Validation\<close>

datatype cfg_field = F_BufferSize | F_MaxConnections | F_ReadBufferSize | F_WriteBufferSize
  | F_HighWatermark | F_LowWatermark

datatype facade_error = MustBeNonNegative cfg_field int | TooLarge cfg_field int int
  | LowNotBelowHigh int int | ErrUnknownProtocol | ListenError gostr

definition maxBufferSize :: int where "maxBufferSize = 10 * 1024 * 1024"
definition maxBackpressureWatermark :: int where "maxBackpressureWatermark = 100 * 1024 * 1024"
definition maxConnections :: int where "maxConnections = 1000000"

definition range_check :: "cfg_field \<Rightarrow> int \<Rightarrow> int \<Rightarrow> facade_error option" where
  "range_check f v m =
     (if v < 0 then Some (MustBeNonNegative f v) else if v > m then Some (TooLarge f v m) else None)"

fun first_error :: "'e option list \<Rightarrow> 'e option" where
  "first_error [] = None"
| "first_error (Some e # es) = Some e"
| "first_error (None # es) = first_error es"

definition validateConfig :: "Tunnel_Config \<Rightarrow> (facade_error, Tunnel_Config) go_result" where
  "validateConfig cfg =
     (case first_error
        [range_check F_BufferSize (tc_BufferSize cfg) maxBufferSize,
         range_check F_MaxConnections (tc_MaxConnections cfg) maxConnections,
         range_check F_ReadBufferSize (tc_ReadBufferSize cfg) maxBufferSize,
         range_check F_WriteBufferSize (tc_WriteBufferSize cfg) maxBufferSize,
         range_check F_HighWatermark (tc_HighWatermark cfg) maxBackpressureWatermark,
         range_check F_LowWatermark (tc_LowWatermark cfg) maxBackpressureWatermark,
         (if tc_HighWatermark cfg > 0 \<and> tc_LowWatermark cfg > 0 \<and> tc_LowWatermark cfg \<ge> tc_HighWatermark cfg
          then Some (LowNotBelowHigh (tc_LowWatermark cfg) (tc_HighWatermark cfg)) else None)] of
        Some e \<Rightarrow> Err e
      | None \<Rightarrow> Ret (cfg\<lparr>tc_BufferSize := (if tc_BufferSize cfg = 0 then int DefaultBufferSize else tc_BufferSize cfg),
                       tc_Protocol := (if tc_Protocol cfg = [] then str ''tcp'' else tc_Protocol cfg)\<rparr>))"

section \<open>The tunnel\<close>

record Tunnel_Stats =
  st_connections :: int
  st_bytesSent :: int
  st_bytesRecv :: int
  st_errors :: int
  st_startTime :: int

definition Stats_Reset :: "int \<Rightarrow> Tunnel_Stats \<Rightarrow> Tunnel_Stats" where
  "Stats_Reset now s =
     \<lparr>st_connections = 0, st_bytesSent = 0, st_bytesRecv = 0, st_errors = 0, st_startTime = now\<rparr>"

definition Stats_Uptime :: "int \<Rightarrow> Tunnel_Stats \<Rightarrow> int" where
  "Stats_Uptime now s = now - st_startTime s"

record Facade =
  tf_config :: Tunnel_Config
  tf_protocol :: "nat option"
  tf_listener :: "nat option"
  tf_listenerClosed :: bool
  tf_cancel :: bool
  tf_ctxDone :: bool
  tf_wg :: int
  tf_stats :: Tunnel_Stats
  tf_active :: "nat \<rightharpoonup> nat option"
  tf_deadlines :: "(nat \<times> int) list"
  tf_closed :: "nat list"

definition New :: "int \<Rightarrow> Tunnel_Config \<Rightarrow> (facade_error, Facade) go_result" where
  "New now cfg =
     (case validateConfig cfg of
        Ret c \<Rightarrow> Ret \<lparr>tf_config = c, tf_protocol = None, tf_listener = None, tf_listenerClosed = False,
                     tf_cancel = False, tf_ctxDone = False, tf_wg = 0,
                     tf_stats = \<lparr>st_connections = 0, st_bytesSent = 0, st_bytesRecv = 0, st_errors = 0,
                                 st_startTime = now\<rparr>, tf_active = Map.empty,
                     tf_deadlines = [], tf_closed = []\<rparr>
      | Err e \<Rightarrow> Err e
      | Panic \<Rightarrow> Panic)"

definition SetProtocol :: "nat \<Rightarrow> Facade \<Rightarrow> Facade" where
  "SetProtocol p t = t\<lparr>tf_protocol := Some p\<rparr>"

text \<open>\<^verbatim>\<open>Start\<close>, given what listening gives.\<close>

definition Start :: "gostr + nat \<Rightarrow> Facade \<Rightarrow> facade_error option \<times> Facade" where
  "Start listen t =
     (let t1 = t\<lparr>tf_cancel := True, tf_ctxDone := False\<rparr> in
      case tf_protocol t1 of
        None \<Rightarrow> (Some ErrUnknownProtocol, t1)
      | Some p \<Rightarrow>
          (case listen of
             Inl e \<Rightarrow> (Some (ListenError e), t1)
           | Inr l \<Rightarrow> (None, t1\<lparr>tf_listener := Some l, tf_listenerClosed := False, tf_wg := tf_wg t1 + 1\<rparr>)))"

text \<open>\<^verbatim>\<open>Stop\<close> up to the point where it waits, and whether the wait is over.\<close>

definition Stop :: "Facade \<Rightarrow> Facade" where
  "Stop t =
     (let t1 = (if tf_cancel t then t\<lparr>tf_ctxDone := True\<rparr> else t)
      in if tf_listener t1 \<noteq> None then t1\<lparr>tf_listenerClosed := True\<rparr> else t1)"

definition Stop_returns :: "Facade \<Rightarrow> bool" where
  "Stop_returns t \<longleftrightarrow> tf_wg t = 0"

definition Tunnel_Addr :: "Facade \<Rightarrow> nat option" where
  "Tunnel_Addr t = tf_listener t"

definition add_errors :: "Facade \<Rightarrow> Facade" where
  "add_errors t = t\<lparr>tf_stats := (tf_stats t)\<lparr>st_errors := i64 (st_errors (tf_stats t) + 1)\<rparr>\<rparr>"

text \<open>A turn of the accept loop: the context is looked at, then \<^verbatim>\<open>Accept\<close> fails or gives a connection, for
  which a handler is started; the results say whether the loop goes on. At its end the wait group goes
  down.\<close>

definition acceptLoop_check :: "Facade \<Rightarrow> bool" where
  "acceptLoop_check t \<longleftrightarrow> \<not> tf_ctxDone t"

definition acceptLoop_turn :: "nat option \<Rightarrow> Facade \<Rightarrow> bool \<times> Facade" where
  "acceptLoop_turn accepted t =
     (case accepted of
        None \<Rightarrow> if tf_ctxDone t then (False, t) else (True, add_errors t)
      | Some src \<Rightarrow>
          (True, t\<lparr>tf_stats := (tf_stats t)\<lparr>st_connections := i64 (st_connections (tf_stats t) + 1)\<rparr>,
                   tf_active := (tf_active t)(src \<mapsto> None)\<rparr>))"

definition acceptLoop_end :: "Facade \<Rightarrow> Facade" where
  "acceptLoop_end t = t\<lparr>tf_wg := tf_wg t - 1\<rparr>"

text \<open>\<^verbatim>\<open>handleConnection\<close>: dialling fails and the source is closed, or both directions run; each reports an
  error that is not a normal close; the first direction to end, or the context, closes both.\<close>

definition set_deadline :: "int \<Rightarrow> nat \<Rightarrow> Facade \<Rightarrow> Facade" where
  "set_deadline now conn t =
     (if tc_ConnectionTimeout (tf_config t) > 0
      then t\<lparr>tf_deadlines := tf_deadlines t @ [(conn, now + tc_ConnectionTimeout (tf_config t))]\<rparr> else t)"

definition handleConnection_dial :: "int \<Rightarrow> int \<Rightarrow> nat \<Rightarrow> nat option \<Rightarrow> Facade \<Rightarrow> Facade" where
  "handleConnection_dial now now' src dst t =
     (let t1 = set_deadline now src t in
      case dst of
        None \<Rightarrow> add_errors (t1\<lparr>tf_closed := tf_closed t1 @ [src], tf_active := (tf_active t1)(src := None)\<rparr>)
      | Some d \<Rightarrow> (set_deadline now' d t1)\<lparr>tf_active := (tf_active t1)(src \<mapsto> Some d)\<rparr>)"

definition direction_done :: "io_err option \<Rightarrow> Facade \<Rightarrow> Facade" where
  "direction_done err t = (if err \<noteq> None \<and> \<not> IsClosedErr err then add_errors t else t)"

definition Tunnel_handleConnection_end :: "nat \<Rightarrow> nat \<Rightarrow> Facade \<Rightarrow> Facade" where
  "Tunnel_handleConnection_end src dst t =
     t\<lparr>tf_closed := tf_closed t @ [src, dst], tf_active := (tf_active t)(src := None)\<rparr>"

text \<open>The one-call \<^verbatim>\<open>Forward\<close>: the error of the first direction that is not a normal close, else the
  second's.\<close>

definition Forward :: "io_err option \<Rightarrow> io_err option \<Rightarrow> io_err option" where
  "Forward err1 err2 =
     (if err1 \<noteq> None \<and> \<not> IsClosedErr err1 then err1
      else if err2 \<noteq> None \<and> \<not> IsClosedErr err2 then err2 else None)"

text \<open>The interleavings: the accept loop takes turns while it runs, the handlers dial and end on their own,
  directions report their errors, and \<^verbatim>\<open>Stop\<close> may be called at any time. A connection handed out by the
  listener or by a dial is new. \<open>Running\<close> is the accept loop between \<^verbatim>\<open>Start\<close> and its return.\<close>

definition facade_conns :: "Facade \<Rightarrow> nat set" where
  "facade_conns t =
     dom (tf_active t) \<union> {d. \<exists>src. tf_active t src = Some (Some d)} \<union> set (tf_closed t)"

inductive facade_step :: "bool \<times> Facade \<Rightarrow> bool \<times> Facade \<Rightarrow> bool" where
  fs_accept: "acceptLoop_check t \<Longrightarrow> src \<notin> facade_conns t \<Longrightarrow> acceptLoop_turn (Some src) t = (True, t')
    \<Longrightarrow> facade_step (True, t) (True, t')"
| fs_accept_error: "acceptLoop_turn None t = (go, t') \<Longrightarrow>
    facade_step (True, t) (go, if go then t' else acceptLoop_end t')"
| fs_loop_end: "\<not> acceptLoop_check t \<Longrightarrow> facade_step (True, t) (False, acceptLoop_end t)"
| fs_dial_error: "tf_active t src = Some None \<Longrightarrow> facade_step (r, t) (r, handleConnection_dial now now' src None t)"
| fs_dial: "tf_active t src = Some None \<Longrightarrow> dst \<notin> facade_conns t \<Longrightarrow>
    facade_step (r, t) (r, handleConnection_dial now now' src (Some dst) t)"
| fs_direction: "facade_step (r, t) (r, direction_done err t)"
| fs_end: "tf_active t src = Some (Some dst) \<Longrightarrow> facade_step (r, t) (r, Tunnel_handleConnection_end src dst t)"
| fs_stop: "facade_step (r, t) (r, Stop t)"

section \<open>Lemmas\<close>

definition in_range :: "Tunnel_Config \<Rightarrow> bool" where
  "in_range c \<longleftrightarrow>
     tc_BufferSize c \<in> {0..maxBufferSize} \<and> tc_MaxConnections c \<in> {0..maxConnections}
     \<and> tc_ReadBufferSize c \<in> {0..maxBufferSize} \<and> tc_WriteBufferSize c \<in> {0..maxBufferSize}
     \<and> tc_HighWatermark c \<in> {0..maxBackpressureWatermark} \<and> tc_LowWatermark c \<in> {0..maxBackpressureWatermark}
     \<and> (0 < tc_HighWatermark c \<and> 0 < tc_LowWatermark c \<longrightarrow> tc_LowWatermark c < tc_HighWatermark c)"

definition with_defaults :: "Tunnel_Config \<Rightarrow> Tunnel_Config" where
  "with_defaults cfg =
     cfg\<lparr>tc_BufferSize := (if tc_BufferSize cfg = 0 then 65536 else tc_BufferSize cfg),
         tc_Protocol := (if tc_Protocol cfg = [] then str ''tcp'' else tc_Protocol cfg)\<rparr>"

lemma range_check_None: "range_check f v m = None \<longleftrightarrow> v \<in> {0..m}"
  by (auto simp: range_check_def)

lemma first_error_None: "first_error es = None \<longleftrightarrow> list_all (\<lambda>e. e = None) es"
  by (induction es rule: first_error.induct) auto

lemma validateConfig_ok: "validateConfig c = Ret c' \<longleftrightarrow> in_range c \<and> c' = with_defaults c"
proof -
  define es where "es = [range_check F_BufferSize (tc_BufferSize c) maxBufferSize,
         range_check F_MaxConnections (tc_MaxConnections c) maxConnections,
         range_check F_ReadBufferSize (tc_ReadBufferSize c) maxBufferSize,
         range_check F_WriteBufferSize (tc_WriteBufferSize c) maxBufferSize,
         range_check F_HighWatermark (tc_HighWatermark c) maxBackpressureWatermark,
         range_check F_LowWatermark (tc_LowWatermark c) maxBackpressureWatermark,
         (if tc_HighWatermark c > 0 \<and> tc_LowWatermark c > 0 \<and> tc_LowWatermark c \<ge> tc_HighWatermark c
          then Some (LowNotBelowHigh (tc_LowWatermark c) (tc_HighWatermark c)) else None)]"
  have "first_error es = None \<longleftrightarrow> in_range c"
    by (auto simp: first_error_None es_def range_check_None in_range_def)
  then show ?thesis
    by (auto simp: validateConfig_def es_def [symmetric] with_defaults_def DefaultBufferSize_def
        split: option.split)
qed

lemma validateConfig_no_panic: "validateConfig c \<noteq> Panic"
  unfolding validateConfig_def by (rule option.exhaust) (auto split: option.split)

lemma in_range_defaults: "in_range c \<Longrightarrow> in_range (with_defaults c)"
  by (auto simp: in_range_def with_defaults_def maxBufferSize_def)

lemma presets_in_range: "in_range ServerPreset" "in_range ClientPreset" "in_range HighThroughputPreset" "in_range zero_config"
  by (simp_all add: in_range_def ServerPreset_def ClientPreset_def HighThroughputPreset_def zero_config_def
      maxBufferSize_def maxConnections_def maxBackpressureWatermark_def)

text \<open>What the interleavings keep: a connection is in the hands of one handler or was closed once, and the
  wait group counts the accept loop alone.\<close>

definition facade_dsts :: "Facade \<Rightarrow> nat set" where
  "facade_dsts t = {d. \<exists>src. tf_active t src = Some (Some d)}"

definition facade_ok :: "bool \<times> Facade \<Rightarrow> bool" where
  "facade_ok s \<longleftrightarrow>
     (let t = snd s in
      distinct (tf_closed t) \<and> dom (tf_active t) \<inter> set (tf_closed t) = {} \<and> facade_dsts t \<inter> set (tf_closed t) = {}
      \<and> dom (tf_active t) \<inter> facade_dsts t = {}
      \<and> (\<forall>a b d. tf_active t a = Some (Some d) \<and> tf_active t b = Some (Some d) \<longrightarrow> a = b)
      \<and> tf_wg t = (if fst s then 1 else 0))"

lemma add_errors_frame [simp]:
  "tf_active (add_errors t) = tf_active t" "tf_closed (add_errors t) = tf_closed t" "tf_wg (add_errors t) = tf_wg t"
  by (simp_all add: add_errors_def)

lemma set_deadline_frame [simp]:
  "tf_active (set_deadline now c t) = tf_active t" "tf_closed (set_deadline now c t) = tf_closed t"
  "tf_wg (set_deadline now c t) = tf_wg t"
  by (simp_all add: set_deadline_def)

lemma direction_done_frame [simp]:
  "tf_active (direction_done e t) = tf_active t" "tf_closed (direction_done e t) = tf_closed t"
  "tf_wg (direction_done e t) = tf_wg t"
  by (simp_all add: direction_done_def)

lemma Stop_frame [simp]:
  "tf_active (Stop t) = tf_active t" "tf_closed (Stop t) = tf_closed t" "tf_wg (Stop t) = tf_wg t"
  by (simp_all add: Stop_def Let_def)

lemma acceptLoop_end_frame [simp]:
  "tf_active (acceptLoop_end t) = tf_active t" "tf_closed (acceptLoop_end t) = tf_closed t"
  "tf_wg (acceptLoop_end t) = tf_wg t - 1"
  by (simp_all add: acceptLoop_end_def)

lemma acceptLoop_turn_error:
  "acceptLoop_turn None t = (go, t') \<Longrightarrow> tf_active t' = tf_active t \<and> tf_closed t' = tf_closed t \<and> tf_wg t' = tf_wg t"
  by (auto simp: acceptLoop_turn_def split: if_splits)

lemma facade_step_ok: "facade_step s s' \<Longrightarrow> facade_ok s \<Longrightarrow> facade_ok s'"
proof (induction rule: facade_step.induct)
  case (fs_accept t src t')
  then have "tf_active t' = (tf_active t)(src \<mapsto> None)" "tf_closed t' = tf_closed t" "tf_wg t' = tf_wg t"
    by (auto simp: acceptLoop_turn_def)
  with fs_accept show ?case
    unfolding facade_ok_def facade_dsts_def facade_conns_def Let_def by (auto split: if_splits)
next
  case (fs_accept_error t go t')
  then show ?case
    using acceptLoop_turn_error [OF fs_accept_error(1)]
    by (auto simp: facade_ok_def facade_dsts_def Let_def)
next
  case (fs_dial_error t src r now now')
  then show ?case
    unfolding facade_ok_def facade_dsts_def Let_def
    by (auto simp: handleConnection_dial_def Let_def split: if_splits)
next
  case (fs_dial t src dst r now now')
  then show ?case
    unfolding facade_ok_def facade_dsts_def facade_conns_def Let_def
    by (auto simp: handleConnection_dial_def Let_def split: if_splits)
next
  case (fs_end t src dst r)
  then show ?case
    unfolding facade_ok_def facade_dsts_def Let_def
    by (auto simp: Tunnel_handleConnection_end_def split: if_splits)
qed (auto simp: facade_ok_def facade_dsts_def Let_def)

interpretation facade_run: step_invariant facade_step facade_ok
  by unfold_locales (rule facade_step_ok)

lemmas facade_steps_ok = facade_run.steps_keep

lemma New_Start_ok:
  "New now c = Ret t \<Longrightarrow> Start (Inr l) (SetProtocol p t) = (None, t') \<Longrightarrow> facade_ok (True, t')
    \<and> tf_active t' = Map.empty \<and> tf_closed t' = [] \<and> \<not> tf_ctxDone t' \<and> tf_cancel t'"
  by (auto simp: New_def Start_def SetProtocol_def facade_ok_def facade_dsts_def Let_def split: go_result.splits)

text \<open>Accepting \<open>n\<close> connections in a row, whatever the limit in the configuration says.\<close>

lemma accept_many:
  assumes "\<not> tf_ctxDone t" "tf_active t = Map.empty" "tf_closed t = []" "tf_cancel t"
  shows "\<exists>t'. facade_step\<^sup>*\<^sup>* (True, t) (True, t') \<and> tf_active t' = (\<lambda>i. if i < n then Some None else None)
    \<and> \<not> tf_ctxDone t' \<and> tf_closed t' = [] \<and> tf_wg t' = tf_wg t \<and> tf_cancel t'"
proof (induction n)
  case 0
  show ?case using assms by (intro exI [of _ t]) auto
next
  case (Suc n)
  then obtain t' where t': "facade_step\<^sup>*\<^sup>* (True, t) (True, t')"
    "tf_active t' = (\<lambda>i. if i < n then Some None else None)"
    "\<not> tf_ctxDone t'" "tf_closed t' = []" "tf_wg t' = tf_wg t" "tf_cancel t'" by blast
  define t2 where "t2 = snd (acceptLoop_turn (Some n) t')"
  have "facade_step (True, t') (True, t2)"
    by (rule fs_accept [where src = n])
       (auto simp: acceptLoop_check_def facade_conns_def acceptLoop_turn_def t2_def t' dom_def split: if_splits)
  moreover have "tf_active t2 = (\<lambda>i. if i < Suc n then Some None else None)"
    by (auto simp: t2_def acceptLoop_turn_def t' fun_eq_iff)
  ultimately show ?case
    using t' by (intro exI [of _ t2]) (auto simp: t2_def acceptLoop_turn_def intro: rtranclp.rtrancl_into_rtrancl)
qed

section \<open>Properties\<close>




definition example_facade :: Facade where
  "example_facade = (case New 0 ServerPreset of Ret t \<Rightarrow> snd (Start (Inr 1) (SetProtocol 0 t)))"

lemma example_New: "\<exists>t. New 0 ServerPreset = Ret t \<and> Start (Inr 1) (SetProtocol 0 t) = (None, example_facade)"
  using validateConfig_ok [of ServerPreset "with_defaults ServerPreset"] presets_in_range(1)
  by (auto simp: New_def Start_def SetProtocol_def Let_def example_facade_def)


text \<open>\<^verbatim>\<open>Stop\<close> does not wait for the connections: from any started tunnel, whatever \<^verbatim>\<open>MaxConnections\<close> says, any
  number of connections can be accepted and still be in the hands of their handlers, none of them closed,
  when \<^verbatim>\<open>Stop\<close> returns. A tunnel for which \<^verbatim>\<open>SetProtocol\<close> was not called does not start at all.\<close>

lemma stop_abandons_connections:
  assumes "New now c = Ret t" "Start (Inr l) (SetProtocol p t) = (None, t')"
  shows "(\<exists>u. facade_step\<^sup>*\<^sup>* (True, t') (False, u) \<and> tf_ctxDone u \<and> Stop_returns u \<and> card (dom (tf_active u)) = n
      \<and> tf_closed u = [])
    \<and> fst (Start (Inr l) t) = Some ErrUnknownProtocol"
proof (rule conjI)
  note start = New_Start_ok [OF assms]
  then obtain v where v: "facade_step\<^sup>*\<^sup>* (True, t') (True, v)" "tf_active v = (\<lambda>i. if i < n then Some None else None)"
    "\<not> tf_ctxDone v" "tf_closed v = []" "tf_wg v = tf_wg t'" "tf_cancel v"
    using accept_many [of t' n] by blast
  have "\<not> acceptLoop_check (Stop v)" using v(6) by (simp add: acceptLoop_check_def Stop_def Let_def)
  then have "facade_step\<^sup>*\<^sup>* (True, t') (False, acceptLoop_end (Stop v))"
    by (rule rtranclp.rtrancl_into_rtrancl [OF rtranclp.rtrancl_into_rtrancl [OF v(1) fs_stop] fs_loop_end])
  moreover have "dom (tf_active v) = {..<n}" by (auto simp: v(2) split: if_splits)
  moreover have "tf_ctxDone (acceptLoop_end (Stop v))"
    using v(6) by (simp add: acceptLoop_end_def Stop_def Let_def)
  ultimately show "\<exists>u. facade_step\<^sup>*\<^sup>* (True, t') (False, u) \<and> tf_ctxDone u \<and> Stop_returns u
      \<and> card (dom (tf_active u)) = n \<and> tf_closed u = []"
    using v(4,5) start by (intro exI [of _ "acceptLoop_end (Stop v)"]) (auto simp: Stop_returns_def facade_ok_def Let_def)
  show "fst (Start (Inr l) t) = Some ErrUnknownProtocol"
    using assms(1) by (auto simp: New_def Start_def Let_def split: go_result.splits)
qed

lemma stop_abandons_connections_witness:
  "\<exists>u. facade_step\<^sup>*\<^sup>* (True, example_facade) (False, u) \<and> Stop_returns u \<and> card (dom (tf_active u)) = 10001"
proof -
  obtain t where t: "New 0 ServerPreset = Ret t" "Start (Inr 1) (SetProtocol 0 t) = (None, example_facade)"
    using example_New by blast
  obtain u where "facade_step\<^sup>*\<^sup>* (True, example_facade) (False, u)" "Stop_returns u"
    "card (dom (tf_active u)) = 10001"
    using stop_abandons_connections [OF t, of 10001] by (elim exE conjE)
  then show ?thesis by (intro exI [of _ u] conjI)
qed

end
