(* ===== verification/Server_Lifecycle.thy ===== *)
theory Server_Lifecycle
  imports Server_Invariants "HOL-Library.Multiset"
begin

text \<open>
  The running server of \<^verbatim>\<open>quic/quic.go\<close>: \<^verbatim>\<open>Start\<close> with its listeners, the accept loops, the loops that
  accept streams, and the goroutines with the wait group that \<^verbatim>\<open>Stop\<close> waits for. A run is the server of
  \<open>Tunnel_Server\<close> together with the goroutines that are running; every goroutine takes its turns in any
  order. Shown: the wait group counts exactly the goroutines, the accept loop and the health check run until
  \<^verbatim>\<open>Stop\<close>, every run keeps the accounting of the server, and what \<^verbatim>\<open>Start\<close> offers is what connections are
  admitted for.
\<close>

section \<open>State\<close>

text \<open>The goroutines. A connection is handled first as a new one and, once registered, by the control loop of
  its tunnel.\<close>

datatype server_task =
    AcceptQUIC | AcceptTCPTLS | HealthCheck
  | HandleConnection nat | ControlTask nat nat nat | HandleTCPConnection nat
  | TunnelTask goroutine nat | HandleExternal nat nat | HandleStream nat nat

record server_run =
  ru_server :: MuxServer
  ru_listener :: bool
  ru_tcpTLSListener :: bool
  ru_alpn :: "gostr list option"
  ru_udpClosed :: "nat set"
  ru_tasks :: "server_task multiset"
  ru_wg :: int

definition NewServerRun :: "MuxServerConfig \<Rightarrow> server_run" where
  "NewServerRun config =
     \<lparr>ru_server = NewMuxServer config, ru_listener = False, ru_tcpTLSListener = False, ru_alpn = None,
      ru_udpClosed = {}, ru_tasks = {#}, ru_wg = 0\<rparr>"

text \<open>\<^verbatim>\<open>s.wg.Add(1); go ...\<close> and the deferred \<^verbatim>\<open>s.wg.Done()\<close>.\<close>

definition spawn :: "server_task \<Rightarrow> server_run \<Rightarrow> server_run" where
  "spawn t r = r\<lparr>ru_tasks := add_mset t (ru_tasks r), ru_wg := ru_wg r + 1\<rparr>"

definition task_done :: "server_task \<Rightarrow> server_run \<Rightarrow> server_run" where
  "task_done t r = r\<lparr>ru_tasks := ru_tasks r - {#t#}, ru_wg := ru_wg r - 1\<rparr>"

section \<open>Start\<close>

datatype start_error = ResolveFailed | ListenUDPFailed | ListenQUICFailed

record start_env =
  se_resolve :: bool
  se_udp :: "nat option"
  se_quic :: bool
  se_hostPort :: bool
  se_tcp :: bool

text \<open>The protocols offered in the TLS handshake, given those of the configured TLS settings (\<open>None\<close>: no TLS
  settings).\<close>

definition Start_alpn :: "EntryProtocolConfig \<Rightarrow> gostr list option \<Rightarrow> gostr list option" where
  "Start_alpn ep tls =
     map_option (\<lambda>nextProtos.
       let alpnProtos = (if ep_EnableHTTP3 ep then [str ''h3''] else [])
                        @ (if ep_EnableQUIC ep then [ep_QUICALPN ep] else [])
       in if alpnProtos \<noteq> [] then alpnProtos else nextProtos) tls"

definition MuxServer_Start :: "start_env \<Rightarrow> gostr list option \<Rightarrow> server_run \<Rightarrow> start_error option \<times> server_run" where
  "MuxServer_Start v tls r =
     (let ep = sc_EntryProtocols (sv_config (ru_server r)) in
      if \<not> se_resolve v then (Some ResolveFailed, r)
      else case se_udp v of
        None \<Rightarrow> (Some ListenUDPFailed, r)
      | Some sock \<Rightarrow>
          if \<not> se_quic v then (Some ListenQUICFailed, r\<lparr>ru_udpClosed := insert sock (ru_udpClosed r)\<rparr>)
          else
            let r1 = r\<lparr>ru_listener := True, ru_alpn := Start_alpn ep tls\<rparr>;
                r2 = (if se_hostPort v \<and> ep_EnableTCPTLS ep \<and> tls \<noteq> None \<and> se_tcp v
                      then spawn AcceptTCPTLS (r1\<lparr>ru_tcpTLSListener := True\<rparr>) else r1)
            in (None, spawn HealthCheck (spawn AcceptQUIC r2)))"

section \<open>The loops\<close>

text \<open>A turn is judged when \<^verbatim>\<open>Accept\<close> returns, together with the check at the top of the next turn; the result
  says whether the loop goes on.\<close>

fun MuxServer_acceptLoop_turn :: "accept_result \<Rightarrow> server_run \<Rightarrow> bool \<times> server_run" where
  "MuxServer_acceptLoop_turn (Accepted c) r = (\<not> sv_stopped (ru_server r), spawn (HandleConnection c) r)"
| "MuxServer_acceptLoop_turn AcceptClosed r = (\<not> sv_stopped (ru_server r), r)"
| "MuxServer_acceptLoop_turn AcceptFailed r = (\<not> sv_stopped (ru_server r), r)"

fun acceptTCPTLSLoop_turn :: "accept_result \<Rightarrow> server_run \<Rightarrow> bool \<times> server_run" where
  "acceptTCPTLSLoop_turn (Accepted c) r = (\<not> sv_stopped (ru_server r), spawn (HandleTCPConnection c) r)"
| "acceptTCPTLSLoop_turn AcceptClosed r = (False, r)"
| "acceptTCPTLSLoop_turn AcceptFailed r = (\<not> sv_stopped (ru_server r), r)"

fun acceptDataStreams_turn :: "nat option \<Rightarrow> nat \<Rightarrow> server_run \<Rightarrow> bool \<times> server_run" where
  "acceptDataStreams_turn (Some stream) p r = (\<not> ctx_done p (ru_server r), spawn (HandleStream p stream) r)"
| "acceptDataStreams_turn None p r = (False, r)"

text \<open>The accept loops of the external listeners for TCP and QUIC, which treat errors alike, and the one for HTTP/3.\<close>

definition external_listener_turn :: "accept_result \<Rightarrow> nat \<Rightarrow> server_run \<Rightarrow> bool \<times> server_run" where
  "external_listener_turn a p r =
     (case startExternalListener_turn a p (ru_server r) of
        (go, None) \<Rightarrow> (go, r)
      | (go, Some c) \<Rightarrow> (go, spawn (HandleExternal p c) r))"

fun http3_listener_turn :: "accept_result \<Rightarrow> nat \<Rightarrow> server_run \<Rightarrow> bool \<times> server_run" where
  "http3_listener_turn (Accepted c) p r = (\<not> ctx_done p (ru_server r), spawn (HandleExternal p c) r)"
| "http3_listener_turn AcceptClosed p r = (False, r)"
| "http3_listener_turn AcceptFailed p r = (\<not> ctx_done p (ru_server r), r)"

text \<open>The loops that accept the streams of an external QUIC or HTTP/3 connection.\<close>

fun external_streams_turn :: "nat option \<Rightarrow> nat \<Rightarrow> server_run \<Rightarrow> bool \<times> server_run" where
  "external_streams_turn (Some stream) p r = (\<not> ctx_done p (ru_server r), spawn (HandleStream p stream) r)"
| "external_streams_turn None p r = (False, r)"

fun http3_streams_turn :: "nat option \<Rightarrow> nat \<Rightarrow> server_run \<Rightarrow> bool \<times> server_run" where
  "http3_streams_turn (Some stream) p r = (\<not> ctx_done p (ru_server r), spawn (HandleStream p stream) r)"
| "http3_streams_turn None p r = (False, r)"

text \<open>The health check: one of its two tickers fires, or the context is done.\<close>

datatype health_event = HealthTick int "gostr list" | CleanupTick int "(gostr \<times> gostr) list" | ContextDone

fun healthCheck_turn :: "health_event \<Rightarrow> MuxServer \<Rightarrow> bool \<times> MuxServer" where
  "healthCheck_turn (HealthTick now ids) s = (True, healthCheck_tick now ids s)"
| "healthCheck_turn (CleanupTick now visits) s = (True, cleanupIdleStreams now visits s)"
| "healthCheck_turn ContextDone s = (False, s)"

text \<open>\<^verbatim>\<open>BroadcastConfigUpdate\<close>, in the order in which \<^verbatim>\<open>Range\<close> visits the tunnels; \<open>werr\<close> are the tunnels whose
  control stream cannot be written. The result says whether there was an error.\<close>

definition broadcast_one :: "gostr set \<Rightarrow> bytes \<Rightarrow> gostr \<Rightarrow> bool \<times> MuxServer \<Rightarrow> bool \<times> MuxServer" where
  "broadcast_one werr json i a =
     (case a of (failed, s) \<Rightarrow>
        (case sv_tunnels s i of
           None \<Rightarrow> (failed, s)
         | Some p \<Rightarrow>
             let tid = tn_ID (tunnel_at s p) in
             if tid \<in> werr then (True, s)
             else (case SendConfigUpdate tid json s of (ok, s') \<Rightarrow> (failed \<or> \<not> ok, s'))))"

definition BroadcastConfigUpdate :: "gostr list \<Rightarrow> gostr set \<Rightarrow> bytes \<Rightarrow> MuxServer \<Rightarrow> bool \<times> MuxServer" where
  "BroadcastConfigUpdate ids werr json s = fold (broadcast_one werr json) ids (False, s)"

text \<open>The server is also a \<^verbatim>\<open>tunnel.Protocol\<close>: it has a name, but neither listens nor dials.\<close>

definition MuxServer_Name :: gostr where "MuxServer_Name = str ''quic-mux''"

datatype mux_protocol_error = ListenUnsupported | DialUnsupported

definition MuxServer_Listen :: "gostr \<Rightarrow> (mux_protocol_error, nat) go_result" where
  "MuxServer_Listen addr = Err ListenUnsupported"

definition MuxServer_Dial :: "gostr \<Rightarrow> (mux_protocol_error, nat) go_result" where
  "MuxServer_Dial addr = Err DialUnsupported"

section \<open>Runs\<close>

definition with_server :: "MuxServer \<Rightarrow> server_run \<Rightarrow> server_run" where
  "with_server s r = r\<lparr>ru_server := s\<rparr>"

text \<open>A goroutine that leaves its loop is done.\<close>

definition after_turn :: "server_task \<Rightarrow> bool \<times> server_run \<Rightarrow> server_run" where
  "after_turn t gr = (if fst gr then snd gr else task_done t (snd gr))"

inductive run_step :: "server_run \<Rightarrow> server_run \<Rightarrow> bool" where
  rs_accept: "AcceptQUIC \<in># ru_tasks r \<Longrightarrow> run_step r (after_turn AcceptQUIC (MuxServer_acceptLoop_turn a r))"
| rs_accept_tcp: "AcceptTCPTLS \<in># ru_tasks r \<Longrightarrow>
    run_step r (after_turn AcceptTCPTLS (acceptTCPTLSLoop_turn a r))"
| rs_health: "HealthCheck \<in># ru_tasks r \<Longrightarrow> e = ContextDone \<longrightarrow> sv_stopped (ru_server r) \<Longrightarrow>
    healthCheck_turn e (ru_server r) = (go, s) \<Longrightarrow> run_step r (after_turn HealthCheck (go, with_server s r))"
| rs_refused: "HandleConnection c \<in># ru_tasks r \<Longrightarrow>
    handleConnection now alpn c arrival (ru_server r) = (CtlReturn, s) \<Longrightarrow>
    run_step r (task_done (HandleConnection c) (with_server s r))"
| rs_registered: "HandleConnection c \<in># ru_tasks r \<Longrightarrow>
    handleConnection now alpn c (Some (stream, first, arriving)) (ru_server r) = (CtlLoop p gs, s) \<Longrightarrow>
    run_step r (fold (\<lambda>g. spawn (TunnelTask g p)) gs
      (spawn (ControlTask c stream p) (task_done (HandleConnection c) (with_server s r))))"
| rs_control: "ControlTask c stream p \<in># ru_tasks r \<Longrightarrow> p < length (sv_heap (ru_server r)) \<Longrightarrow>
    controlLoop_turn now wfail arriving p (ru_server r) = (True, s) \<Longrightarrow> run_step r (with_server s r)"
| rs_control_end: "ControlTask c stream p \<in># ru_tasks r \<Longrightarrow> p < length (sv_heap (ru_server r)) \<Longrightarrow>
    controlLoop_turn now wfail arriving p (ru_server r) = (False, s) \<Longrightarrow>
    run_step r (task_done (ControlTask c stream p) (with_server (handleConnection_end c stream s) r))"
| rs_listener: "TunnelTask g p \<in># ru_tasks r \<Longrightarrow> g \<in> {TCPListener, QUICListener} \<Longrightarrow>
    run_step r (after_turn (TunnelTask g p) (external_listener_turn a p r))"
| rs_http3_listener: "TunnelTask HTTP3Listener p \<in># ru_tasks r \<Longrightarrow>
    run_step r (after_turn (TunnelTask HTTP3Listener p) (http3_listener_turn a p r))"
| rs_data: "TunnelTask DataStreams p \<in># ru_tasks r \<Longrightarrow>
    run_step r (after_turn (TunnelTask DataStreams p) (acceptDataStreams_turn a p r))"
| rs_external: "HandleExternal p c \<in># ru_tasks r \<Longrightarrow>
    run_step r (after_turn (HandleExternal p c) (external_streams_turn a p r))"
| rs_http3_external: "HandleExternal p c \<in># ru_tasks r \<Longrightarrow>
    run_step r (after_turn (HandleExternal p c) (http3_streams_turn a p r))"
| rs_work: "t \<in># ru_tasks r \<Longrightarrow> server_step (ru_server r) s \<Longrightarrow> sv_stopped s = sv_stopped (ru_server r) \<Longrightarrow>
    run_step r (with_server s r)"
| rs_end: "t \<in># ru_tasks r \<Longrightarrow> t \<notin> {AcceptQUIC, AcceptTCPTLS, HealthCheck} \<Longrightarrow> run_step r (task_done t r)"
| rs_stop: "run_step r ((with_server (MuxServer_Stop ids (ru_server r)) r)
    \<lparr>ru_listener := False, ru_tcpTLSListener := False\<rparr>)"

section \<open>Lemmas\<close>

lemma spawn_simps [simp]:
  "ru_server (spawn t r) = ru_server r" "ru_tasks (spawn t r) = add_mset t (ru_tasks r)"
  "ru_wg (spawn t r) = ru_wg r + 1" "ru_listener (spawn t r) = ru_listener r" "ru_alpn (spawn t r) = ru_alpn r"
  by (simp_all add: spawn_def)

lemma task_done_simps [simp]:
  "ru_server (task_done t r) = ru_server r" "ru_tasks (task_done t r) = ru_tasks r - {#t#}"
  "ru_wg (task_done t r) = ru_wg r - 1"
  by (simp_all add: task_done_def)

lemma with_server_simps [simp]:
  "ru_server (with_server s r) = s" "ru_tasks (with_server s r) = ru_tasks r" "ru_wg (with_server s r) = ru_wg r"
  by (simp_all add: with_server_def)

lemma with_server_same [simp]: "with_server (ru_server r) r = r"
  by (simp add: with_server_def)

text \<open>Only \<^verbatim>\<open>Stop\<close> stops the server.\<close>

lemma stopped_frame [simp]:
  "sv_stopped (set_tunnel p t s) = sv_stopped s" "sv_stopped (send e m s) = sv_stopped s"
  "sv_stopped (close es s) = sv_stopped s" "sv_stopped (closeTunnel p s) = sv_stopped s"
  by (simp_all add: set_tunnel_def send_def close_def closeTunnel_def Let_def split: option.split)

lemma stopped_connection_end [simp]: "sv_stopped (handleConnection_end conn stream s) = sv_stopped s"
  by (simp add: handleConnection_end_def)

lemma stopped_store [simp]: "sv_stopped (store_tunnel t s) = sv_stopped s"
  by (simp add: store_tunnel_def Let_def)

lemma stopped_with_port: "with_port scheme s = (a, s') \<Longrightarrow> sv_stopped s' = sv_stopped s"
  by (auto simp: with_port_def split: prod.splits option.splits go_result.splits if_splits)

lemma stopped_controlLoop: "sv_stopped (snd (controlLoop_turn now wfail arriving p s)) = sv_stopped s"
  by (auto simp: controlLoop_turn_def control_close_conn_def Let_def split: option.splits go_result.splits)

lemma stopped_healthCheck: "sv_stopped (healthCheck_tick now ids s) = sv_stopped s"
proof -
  have "sv_stopped (check_tunnel now i s') = sv_stopped s'" for i s'
    by (simp add: check_tunnel_def Let_def split: option.split)
  then have "sv_stopped (fold (check_tunnel now) ids s) = sv_stopped s" by (induction ids arbitrary: s) auto
  then show ?thesis by (simp add: healthCheck_tick_def)
qed

lemma stopped_cleanup: "sv_stopped (cleanupIdleStreams now visits s) = sv_stopped s"
proof -
  have "sv_stopped (case sv_tunnels s' i of None \<Rightarrow> s' | Some p \<Rightarrow> cleanup_stream now p cid s') = sv_stopped s'" for i cid s'
    by (simp add: cleanup_stream_def control_close_conn_def Let_def split: option.split)
  then have "sv_stopped (fold (\<lambda>(i, cid) s'. case sv_tunnels s' i of None \<Rightarrow> s' | Some p \<Rightarrow> cleanup_stream now p cid s')
      visits s) = sv_stopped s"
    by (induction visits arbitrary: s) (auto split: prod.splits)
  then show ?thesis by (simp add: cleanupIdleStreams_def)
qed

lemma stopped_address:
  "sv_stopped (snd (register_address pr i s)) = sv_stopped s"
  "sv_stopped (snd (restore_address pr i s)) = sv_stopped s"
  by (auto simp: register_address_def restore_address_def with_port_def split: prod.splits option.splits)

lemma stopped_handleRegister: "sv_stopped (snd (handleRegister now conn stream payload s)) = sv_stopped s"
  using stopped_address(1) [of _ _ s]
  by (auto simp: handleRegister_def sendAck_def Let_def split: prod.splits option.splits go_result.splits)
     (metis snd_conv)+

lemma stopped_handleRestore: "sv_stopped (snd (handleSessionRestore now conn stream payload s)) = sv_stopped s"
  using stopped_address(2) [of _ _ s]
  by (auto simp: handleSessionRestore_def sendAck_def Let_def split: prod.splits option.splits)
     (metis snd_conv)+

lemma stopped_handleControlStream:
  "sv_stopped (snd (handleControlStream now conn stream arriving s)) = sv_stopped s"
  using stopped_handleRegister [of now conn stream _ s] stopped_handleRestore [of now conn stream _ s]
  by (auto simp: handleControlStream_def split: option.splits go_result.splits prod.splits control_outcome.splits if_splits)
     (metis snd_conv)+

lemma stopped_handleConnection: "sv_stopped (snd (handleConnection now alpn conn arrival s)) = sv_stopped s"
proof -
  have *: "sv_stopped s' = sv_stopped s"
    if "handleControlStream now conn st ar (s\<lparr>sv_circuitBreaker := b\<rparr>) = (o1, s')" for st ar b o1 s'
    using stopped_handleControlStream [of now conn st ar "s\<lparr>sv_circuitBreaker := b\<rparr>"] that by simp
  show ?thesis
    by (auto simp: handleConnection_def Let_def dest: * split: option.splits prod.splits control_outcome.splits if_splits)
qed

lemma stopped_Stop: "sv_stopped (MuxServer_Stop ids s)"
proof -
  have "sv_stopped (fold (\<lambda>i s'. case sv_tunnels s' i of None \<Rightarrow> s' | Some p \<Rightarrow> closeTunnel p s') ids s') = sv_stopped s'" for s'
    by (induction ids arbitrary: s') (auto split: option.splits)
  then show ?thesis by (simp add: MuxServer_Stop_def)
qed

text \<open>What every run keeps.\<close>

definition srv_run_inv :: "MuxServerConfig \<Rightarrow> server_run \<Rightarrow> bool" where
  "srv_run_inv c r \<longleftrightarrow>
     server_reach c (ru_server r) \<and> ru_wg r = int (size (ru_tasks r))
     \<and> (\<not> sv_stopped (ru_server r) \<longrightarrow> AcceptQUIC \<in># ru_tasks r \<and> HealthCheck \<in># ru_tasks r)"

lemma size_task_done: "t \<in># M \<Longrightarrow> int (size (M - {#t#})) = int (size M) - 1"
  using size_Suc_Diff1 [of t M] by linarith

lemma srv_run_inv_spawn: "srv_run_inv c r \<Longrightarrow> srv_run_inv c (spawn t r)"
  by (auto simp: srv_run_inv_def)

lemma srv_run_inv_spawn_all: "srv_run_inv c r \<Longrightarrow> srv_run_inv c (fold (\<lambda>g. spawn (TunnelTask g p)) gs r)"
  by (induction gs arbitrary: r) (simp_all add: srv_run_inv_spawn)

lemma srv_run_inv_done:
  "srv_run_inv c r \<Longrightarrow> t \<in># ru_tasks r \<Longrightarrow> t \<in> {AcceptQUIC, HealthCheck} \<longrightarrow> sv_stopped (ru_server r) \<Longrightarrow>
   srv_run_inv c (task_done t r)"
  by (auto simp: srv_run_inv_def size_task_done in_diff_count)

lemma srv_run_inv_server:
  "srv_run_inv c r \<Longrightarrow> server_step (ru_server r) s \<Longrightarrow> sv_stopped s = sv_stopped (ru_server r) \<Longrightarrow>
   srv_run_inv c (with_server s r)"
  by (auto simp: srv_run_inv_def intro: server_reach.Step)

lemma srv_run_inv_after_turn:
  assumes "srv_run_inv c (snd gr)" "t \<in># ru_tasks (snd gr)"
    and "t \<in> {AcceptQUIC, HealthCheck} \<longrightarrow> fst gr \<or> sv_stopped (ru_server (snd gr))"
  shows "srv_run_inv c (after_turn t gr)"
  using assms by (auto simp: after_turn_def intro!: srv_run_inv_done)

lemma turns_keep:
  assumes "srv_run_inv c r"
  shows "srv_run_inv c (snd (MuxServer_acceptLoop_turn a r))" "srv_run_inv c (snd (acceptTCPTLSLoop_turn a r))"
    "srv_run_inv c (snd (external_listener_turn a p r))" "srv_run_inv c (snd (acceptDataStreams_turn st p r))"
    "srv_run_inv c (snd (external_streams_turn st p r))" "srv_run_inv c (snd (http3_listener_turn a p r))"
    "srv_run_inv c (snd (http3_streams_turn st p r))"
  using assms
  by (cases a; cases st; simp add: external_listener_turn_def srv_run_inv_spawn)+

lemma turns_tasks:
  "t \<in># ru_tasks r \<Longrightarrow> t \<in># ru_tasks (snd (MuxServer_acceptLoop_turn a r))"
  "t \<in># ru_tasks r \<Longrightarrow> t \<in># ru_tasks (snd (acceptTCPTLSLoop_turn a r))"
  "t \<in># ru_tasks r \<Longrightarrow> t \<in># ru_tasks (snd (external_listener_turn a p r))"
  "t \<in># ru_tasks r \<Longrightarrow> t \<in># ru_tasks (snd (acceptDataStreams_turn st p r))"
  "t \<in># ru_tasks r \<Longrightarrow> t \<in># ru_tasks (snd (external_streams_turn st p r))"
  "t \<in># ru_tasks r \<Longrightarrow> t \<in># ru_tasks (snd (http3_listener_turn a p r))"
  "t \<in># ru_tasks r \<Longrightarrow> t \<in># ru_tasks (snd (http3_streams_turn st p r))"
  by (cases a; cases st; simp add: external_listener_turn_def)+

lemma accept_goes_on:
  "fst (MuxServer_acceptLoop_turn a r) \<or> sv_stopped (ru_server (snd (MuxServer_acceptLoop_turn a r)))"
  by (cases a) auto

lemma health_step:
  assumes "healthCheck_turn e s = (go, s')"
  shows "e \<noteq> ContextDone \<Longrightarrow> server_step s s'" "e = ContextDone \<Longrightarrow> s' = s"
    "sv_stopped s' = sv_stopped s" "go \<or> e = ContextDone"
  using assms by (cases e; auto intro: server_step.intros simp: stopped_healthCheck stopped_cleanup)+

lemma connection_step:
  "handleConnection now alpn conn arrival s = (out, s') \<Longrightarrow> server_step s s' \<and> sv_stopped s' = sv_stopped s"
  using server_step.Connection [of s now alpn conn arrival] stopped_handleConnection [of now alpn conn arrival s] by simp

lemma control_step:
  "controlLoop_turn now wfail arriving p s = (go, s') \<Longrightarrow> p < length (sv_heap s) \<Longrightarrow>
   server_step s s' \<and> sv_stopped s' = sv_stopped s"
  using server_step.Control [of p s now wfail arriving] stopped_controlLoop [of now wfail arriving p s] by simp

lemma srv_run_inv_stop:
  "srv_run_inv c r \<Longrightarrow> srv_run_inv c ((with_server (MuxServer_Stop ids (ru_server r)) r)\<lparr>ru_listener := False, ru_tcpTLSListener := False\<rparr>)"
  by (auto simp: srv_run_inv_def stopped_Stop intro: server_reach.Step server_step.Stop)

lemma run_step_inv: "run_step r r' \<Longrightarrow> srv_run_inv cfg r \<Longrightarrow> srv_run_inv cfg r'"
proof (induction rule: run_step.induct)
  case (rs_accept r a)
  then show ?case using accept_goes_on by (intro srv_run_inv_after_turn turns_keep turns_tasks) auto
next
  case (rs_accept_tcp r a)
  then show ?case by (intro srv_run_inv_after_turn turns_keep turns_tasks) auto
next
  case (rs_health r e go s)
  have "srv_run_inv cfg (with_server s r)"
    using rs_health health_step [OF rs_health(3)]
    by (cases "e = ContextDone") (auto intro: srv_run_inv_server)
  then show ?case using rs_health health_step(3,4) [OF rs_health(3)] by (intro srv_run_inv_after_turn) auto
next
  case (rs_refused c r now alpn arrival s)
  then show ?case using connection_step [OF rs_refused(2)] by (intro srv_run_inv_done srv_run_inv_server) auto
next
  case (rs_registered c r now alpn stream first arriving p gs s)
  then show ?case
    using connection_step [OF rs_registered(2)]
    by (intro srv_run_inv_spawn_all srv_run_inv_spawn srv_run_inv_done srv_run_inv_server) auto
next
  case (rs_control c stream p r now wfail arriving s)
  then show ?case using control_step [OF rs_control(3,2)] by (intro srv_run_inv_server) auto
next
  case (rs_control_end c stream p r now wfail arriving s)
  have "srv_run_inv cfg (with_server (handleConnection_end c stream s) (with_server s r))"
    using control_step [OF rs_control_end(3,2)] rs_control_end(4)
    by (intro srv_run_inv_server) (auto intro: server_step.Connection_end)
  then show ?case using rs_control_end(1) by (intro srv_run_inv_done) (auto simp: with_server_def)
next
  case (rs_listener g p r a)
  then show ?case by (intro srv_run_inv_after_turn turns_keep turns_tasks) auto
next
  case (rs_data p r a)
  then show ?case by (intro srv_run_inv_after_turn turns_keep turns_tasks) auto
next
  case (rs_external p c r a)
  then show ?case by (intro srv_run_inv_after_turn turns_keep turns_tasks) auto
next
  case (rs_http3_listener p r a)
  then show ?case by (intro srv_run_inv_after_turn turns_keep turns_tasks) auto
next
  case (rs_http3_external p c r a)
  then show ?case by (intro srv_run_inv_after_turn turns_keep turns_tasks) auto
next
  case (rs_work t r s)
  then show ?case by (intro srv_run_inv_server) auto
next
  case (rs_end t r)
  then show ?case by (intro srv_run_inv_done) auto
next
  case (rs_stop r ids)
  then show ?case by (rule srv_run_inv_stop)
qed

abbreviation run_steps :: "server_run \<Rightarrow> server_run \<Rightarrow> bool" where
  "run_steps \<equiv> run_step\<^sup>*\<^sup>*"

interpretation server_runs: step_invariant run_step "srv_run_inv c" for c
  by unfold_locales (rule run_step_inv)

lemmas run_steps_inv = server_runs.steps_keep

lemma Start_inv: "MuxServer_Start v tls (NewServerRun c) = (None, r) \<Longrightarrow> srv_run_inv c r"
  by (auto simp: MuxServer_Start_def NewServerRun_def srv_run_inv_def Let_def spawn_def intro: server_reach.New
      split: if_splits option.splits)

lemma Start_alpn_ok:
  "MuxServer_Start v tls r = (None, r') \<Longrightarrow> ru_alpn r' = Start_alpn (sc_EntryProtocols (sv_config (ru_server r))) tls"
  by (auto simp: MuxServer_Start_def Let_def split: if_splits option.splits)

section \<open>Properties\<close>


definition all_opens :: start_env where
  "all_opens = \<lparr>se_resolve = True, se_udp = Some 0, se_quic = True, se_hostPort = True, se_tcp = True\<rparr>"

definition example_run :: server_run where
  "example_run = snd (MuxServer_Start all_opens (Some []) (NewServerRun DefaultMuxServerConfig))"

lemma example_started:
  "MuxServer_Start all_opens (Some []) (NewServerRun DefaultMuxServerConfig) = (None, example_run)"
  by (simp add: example_run_def MuxServer_Start_def all_opens_def Let_def)

lemma example_tasks: "ru_tasks example_run = {#HealthCheck, AcceptQUIC, AcceptTCPTLS#}"
  by (simp add: example_run_def MuxServer_Start_def all_opens_def Let_def NewServerRun_def NewMuxServer_def
      MuxServer_normalize_def DefaultMuxServerConfig_def DefaultEntryProtocolConfig_def spawn_def)




text \<open>A configuration update reaches every tunnel that can be written, once, whatever the order and whatever
  fails in between.\<close>

lemma broadcast_one_sends:
  assumes "sv_tunnels s i = Some p" "tn_ID (tunnel_at s p) = i" "buildConfigUpdate json = Some msg"
  shows "broadcast_one werr json i (failed, s) =
     (failed \<or> i \<in> werr,
      if i \<in> werr then s else send (QStream (tn_ControlStream (tunnel_at s p))) (Some msg) s)"
  using assms by (simp add: broadcast_one_def SendConfigUpdate_def Let_def)

lemma broadcast_reaches_all:
  assumes "\<forall>i \<in> set ids. \<exists>p. sv_tunnels s i = Some p \<and> tn_ID (tunnel_at s p) = i"
    and "buildConfigUpdate json = Some msg"
  shows "fold (broadcast_one werr json) ids (failed, s) =
     (failed \<or> set ids \<inter> werr \<noteq> {},
      s\<lparr>sv_sent := sv_sent s @ map (\<lambda>i. (QStream (tn_ControlStream (tunnel_at s (the (sv_tunnels s i)))), msg))
                               (filter (\<lambda>i. i \<notin> werr) ids)\<rparr>)"
  using assms(1)
proof (induction ids arbitrary: s failed)
  case (Cons i ids)
  then obtain p where p: "sv_tunnels s i = Some p" "tn_ID (tunnel_at s p) = i" by auto
  define s1 where "s1 = (if i \<in> werr then s else send (QStream (tn_ControlStream (tunnel_at s p))) (Some msg) s)"
  have same: "sv_tunnels s1 = sv_tunnels s" "sv_heap s1 = sv_heap s" by (simp_all add: s1_def send_def)
  have "broadcast_one werr json i (failed, s) = (failed \<or> i \<in> werr, s1)"
    using broadcast_one_sends [OF p assms(2)] by (simp add: s1_def)
  then show ?case
    using Cons.IH [of s1 "failed \<or> i \<in> werr"] Cons.prems p
    by (auto simp: same) (auto simp: s1_def send_def)
qed simp

end
