(* ===== verification/Proxy_Command.thy ===== *)
theory Proxy_Command
  imports Tunnel_Facade Server_Lifecycle
begin

text \<open>
  The command \<^verbatim>\<open>cmd/proxy/main.go\<close> and the configuration manager \<^verbatim>\<open>config/config.go\<close>: flags, configuration
  files, the choice of the TLS settings, and the tunnels that are created and started from them. Reading
  files, parsing YAML, certificates and the network are arguments. The TLS settings are one object that all
  tunnels share; the model passes its list of protocols along, since creating a tunnel changes it. Shown:
  which tunnels are started, that a QUIC tunnel never is, and what the configuration manager keeps.
\<close>

section \<open>Configuration\<close>

record ProtocolConfig =
  pc_Name :: gostr
  pc_Listen :: gostr
  pc_Target :: gostr
  pc_Enabled :: bool
  pc_Options :: "gostr \<rightharpoonup> gostr"

record TLS_Files =
  tls_CertFile :: gostr
  tls_KeyFile :: gostr
  tls_CAFile :: gostr

record App_Config =
  ac_Version :: gostr
  ac_LogLevel :: gostr
  ac_Protocols :: "ProtocolConfig list"
  ac_TLS :: TLS_Files
  ac_Options :: "gostr \<rightharpoonup> gostr"

definition Config_Default :: App_Config where
  "Config_Default =
     \<lparr>ac_Version = str ''1.0'', ac_LogLevel = str ''info'',
      ac_Protocols = [\<lparr>pc_Name = str ''tcp'', pc_Listen = str '':8080'', pc_Target = str ''127.0.0.1:80'',
                       pc_Enabled = True, pc_Options = Map.empty\<rparr>],
      ac_TLS = \<lparr>tls_CertFile = [], tls_KeyFile = [], tls_CAFile = []\<rparr>, ac_Options = Map.empty\<rparr>"

text \<open>The manager; \<open>cf_reloads\<close> are the arguments the reload callback was called with.\<close>

record Config_Manager =
  cf_config :: App_Config
  cf_path :: gostr
  cf_onReload :: bool
  cf_locked :: bool
  cf_reloads :: "App_Config list"

definition NewConfigManager :: Config_Manager where
  "NewConfigManager =
     \<lparr>cf_config = Config_Default\<lparr>ac_Protocols := []\<rparr>, cf_path = [], cf_onReload = False, cf_locked = False,
      cf_reloads = []\<rparr>"

datatype config_error = ReadError | ParseError | MarshalError | WriteError

type_synonym file_system = "gostr \<Rightarrow> bytes option"

definition read_config :: "file_system \<Rightarrow> (bytes \<Rightarrow> App_Config option) \<Rightarrow> gostr \<Rightarrow> config_error + App_Config" where
  "read_config fs unmarshal path =
     (case fs path of
        None \<Rightarrow> Inl ReadError
      | Some data \<Rightarrow> (case unmarshal data of None \<Rightarrow> Inl ParseError | Some cfg \<Rightarrow> Inr cfg))"

definition Config_Load ::
  "file_system \<Rightarrow> (bytes \<Rightarrow> App_Config option) \<Rightarrow> gostr \<Rightarrow> Config_Manager \<Rightarrow> config_error option \<times> Config_Manager" where
  "Config_Load fs unmarshal path m =
     (case read_config fs unmarshal path of
        Inl e \<Rightarrow> (Some e, m)
      | Inr cfg \<Rightarrow> (None, m\<lparr>cf_config := cfg, cf_path := path\<rparr>))"

definition Config_Save ::
  "(App_Config \<Rightarrow> bytes option) \<Rightarrow> bool \<Rightarrow> gostr \<Rightarrow> Config_Manager \<Rightarrow> file_system \<Rightarrow> config_error option \<times> file_system" where
  "Config_Save marshal writable path m fs =
     (case marshal (cf_config m) of
        None \<Rightarrow> (Some MarshalError, fs)
      | Some data \<Rightarrow> if writable then (None, fs(path \<mapsto> data)) else (Some WriteError, fs))"

text \<open>\<^verbatim>\<open>Get\<close> takes the read lock; \<open>None\<close>: it waits.\<close>

definition Config_Get :: "Config_Manager \<Rightarrow> App_Config option" where
  "Config_Get m = (if cf_locked m then None else Some (cf_config m))"

definition Config_SetOnReload :: "Config_Manager \<Rightarrow> Config_Manager" where
  "Config_SetOnReload m = m\<lparr>cf_onReload := True\<rparr>"

text \<open>\<^verbatim>\<open>Reload\<close> calls the callback with the old configuration while it holds the lock: the manager the callback
  sees, and the state afterwards.\<close>

definition Reload_callback_state :: "App_Config \<Rightarrow> Config_Manager \<Rightarrow> Config_Manager" where
  "Reload_callback_state cfg m =
     m\<lparr>cf_locked := True, cf_config := cfg, cf_reloads := cf_reloads m @ [cf_config m]\<rparr>"

definition Config_Reload ::
  "file_system \<Rightarrow> (bytes \<Rightarrow> App_Config option) \<Rightarrow> Config_Manager \<Rightarrow> config_error option \<times> Config_Manager" where
  "Config_Reload fs unmarshal m =
     (if cf_path m = [] then (None, m)
      else case read_config fs unmarshal (cf_path m) of
        Inl e \<Rightarrow> (Some e, m)
      | Inr cfg \<Rightarrow>
          (None, if cf_onReload m then (Reload_callback_state cfg m)\<lparr>cf_locked := False\<rparr> else m\<lparr>cf_config := cfg\<rparr>))"

section \<open>Creating tunnels\<close>

datatype proxy_protocol = TcpProto | Http2Proto | Http3Proto | MuxProto

datatype create_error = TLSRequired gostr | UnknownProtocol gostr | BadConfig facade_error

fun proto_id :: "proxy_protocol \<Rightarrow> nat" where
  "proto_id TcpProto = 0" | "proto_id Http2Proto = 1" | "proto_id Http3Proto = 2" | "proto_id MuxProto = 3"

text \<open>The protocol for a name, and the shared list of TLS protocols afterwards.\<close>

definition choose_protocol ::
  "gostr \<Rightarrow> gostr list option \<Rightarrow> (create_error, proxy_protocol) go_result \<times> gostr list option" where
  "choose_protocol proto tls =
     (if proto = str ''tcp'' then (Ret TcpProto, tls)
      else if proto = str ''http2''
      then (if tls = None then (Err (TLSRequired (str ''HTTP/2'')), tls) else (Ret Http2Proto, tls))
      else if proto = str ''http3''
      then (if tls = None then (Err (TLSRequired (str ''HTTP/3'')), tls) else (Ret Http3Proto, Some [str ''h3'']))
      else if proto = str ''quic''
      then (case tls of
              None \<Rightarrow> (Err (TLSRequired (str ''QUIC'')), tls)
            | Some ps \<Rightarrow> (Ret MuxProto, Some (if ps = [] then [str ''quic-tunnel''] else ps)))
      else (Err (UnknownProtocol proto), tls))"

definition createTunnel ::
  "int \<Rightarrow> gostr \<Rightarrow> gostr \<Rightarrow> gostr \<Rightarrow> gostr list option \<Rightarrow>
   (create_error, proxy_protocol \<times> Facade) go_result \<times> gostr list option" where
  "createTunnel now proto listen target tls =
     (case choose_protocol proto tls of
        (Ret p, tls1) \<Rightarrow>
          (case New now (zero_config\<lparr>tc_Protocol := proto, tc_ListenAddr := listen, tc_TargetAddr := target,
                                     tc_TLSConfig := (tls \<noteq> None)\<rparr>) of
             Ret t \<Rightarrow> (Ret (p, SetProtocol (proto_id p) t), tls1)
           | Err e \<Rightarrow> (Err (BadConfig e), tls1)
           | Panic \<Rightarrow> (Panic, tls1))
      | (Err e, tls1) \<Rightarrow> (Err e, tls1)
      | (Panic, tls1) \<Rightarrow> (Panic, tls1))"

text \<open>What listening gives: the network's answer, but for the QUIC server, which cannot be listened on.\<close>

definition proxy_Listen :: "proxy_protocol \<Rightarrow> gostr \<Rightarrow> gostr + nat \<Rightarrow> gostr + nat" where
  "proxy_Listen p addr answer =
     (case p of
        MuxProto \<Rightarrow> (case MuxServer_Listen addr of
                       Ret l \<Rightarrow> Inr l
                     | _ \<Rightarrow> Inl (str ''MuxServer does not support Listen, use Start() instead''))
      | _ \<Rightarrow> answer)"

section \<open>Running\<close>

text \<open>The tunnels of a configuration file, started one after the other; \<open>net i\<close> is what listening gives for the
  \<open>i\<close>-th entry.\<close>

fun start_all ::
  "(nat \<Rightarrow> gostr + nat) \<Rightarrow> int \<Rightarrow> nat \<Rightarrow> ProtocolConfig list \<Rightarrow> gostr list option \<Rightarrow> (ProtocolConfig \<times> Facade) list" where
  "start_all net now i [] tls = []"
| "start_all net now i (pc # rest) tls =
     (if \<not> pc_Enabled pc then start_all net now (Suc i) rest tls
      else case createTunnel now (pc_Name pc) (pc_Listen pc) (pc_Target pc) tls of
        (Ret (p, t), tls1) \<Rightarrow>
          (case Start (proxy_Listen p (pc_Listen pc) (net i)) t of
             (None, t1) \<Rightarrow> (pc, t1) # start_all net now (Suc i) rest tls1
           | (Some e, t1) \<Rightarrow> start_all net now (Suc i) rest tls1)
      | (_, tls1) \<Rightarrow> start_all net now (Suc i) rest tls1)"

datatype proxy_fatal = ReadFailed | ParseFailed | AutoTLSFailed | LoadTLSFailed | NoTunnels

text \<open>The TLS settings of a configuration file: what adding the domains (\<open>managed\<close>) or loading the files
  (\<open>loaded\<close>) gives.\<close>

definition opt :: "(gostr \<rightharpoonup> gostr) \<Rightarrow> gostr \<Rightarrow> gostr" where
  "opt m k = (case m k of None \<Rightarrow> [] | Some v \<Rightarrow> v)"

definition config_tls ::
  "gostr list option \<Rightarrow> gostr list option \<Rightarrow> App_Config \<Rightarrow> proxy_fatal + gostr list option" where
  "config_tls managed loaded cfg =
     (if opt (ac_Options cfg) (str ''auto_tls'') = str ''true''
      then (if opt (ac_Options cfg) (str ''email'') \<noteq> [] \<and> opt (ac_Options cfg) (str ''domains'') \<noteq> []
            then (case managed of None \<Rightarrow> Inl AutoTLSFailed | Some ps \<Rightarrow> Inr (Some ps))
            else Inr None)
      else if tls_CertFile (ac_TLS cfg) \<noteq> [] \<and> tls_KeyFile (ac_TLS cfg) \<noteq> []
      then (case loaded of None \<Rightarrow> Inl LoadTLSFailed | Some ps \<Rightarrow> Inr (Some ps))
      else Inr None)"

definition runFromConfig ::
  "file_system \<Rightarrow> (bytes \<Rightarrow> App_Config option) \<Rightarrow> gostr list option \<Rightarrow> gostr list option \<Rightarrow> (nat \<Rightarrow> gostr + nat) \<Rightarrow>
   int \<Rightarrow> gostr \<Rightarrow> proxy_fatal + (ProtocolConfig \<times> Facade) list" where
  "runFromConfig fs unmarshal managed loaded net now path =
     (case read_config fs unmarshal path of
        Inl ReadError \<Rightarrow> Inl ReadFailed
      | Inl _ \<Rightarrow> Inl ParseFailed
      | Inr cfg \<Rightarrow>
          (case config_tls managed loaded cfg of
             Inl e \<Rightarrow> Inl e
           | Inr tls \<Rightarrow>
               let tunnels = start_all net now 0 (ac_Protocols cfg) tls
               in if tunnels = [] then Inl NoTunnels else Inr tunnels))"

text \<open>The shutdown after the signal: all tunnels are stopped in turn.\<close>

definition stop_all :: "(ProtocolConfig \<times> Facade) list \<Rightarrow> (ProtocolConfig \<times> Facade) list" where
  "stop_all ts = map (\<lambda>(pc, t). (pc, Stop t)) ts"

datatype single_error = CreateFailed create_error | StartFailed facade_error

definition runSingle ::
  "int \<Rightarrow> gostr \<Rightarrow> gostr \<Rightarrow> gostr \<Rightarrow> gostr list option \<Rightarrow> gostr + nat \<Rightarrow> single_error + Facade" where
  "runSingle now proto listen target tls answer =
     (case createTunnel now proto listen target tls of
        (Ret (p, t), tls1) \<Rightarrow>
          (case Start (proxy_Listen p listen answer) t of
             (None, t1) \<Rightarrow> Inr t1
           | (Some e, t1) \<Rightarrow> Inl (StartFailed e))
      | (Err e, tls1) \<Rightarrow> Inl (CreateFailed e)
      | (Panic, tls1) \<Rightarrow> Inl (CreateFailed (UnknownProtocol proto)))"

text \<open>\<^verbatim>\<open>strings.Split(s, ",")\<close>, with nothing for the empty string.\<close>

fun split_comma :: "gostr \<Rightarrow> gostr \<Rightarrow> gostr list" where
  "split_comma acc [] = [rev acc]"
| "split_comma acc (b # bs) = (if b = 44 then rev acc # split_comma [] bs else split_comma (b # acc) bs)"

definition splitDomains :: "gostr \<Rightarrow> gostr list" where
  "splitDomains s = (if s = [] then [] else split_comma [] s)"

text \<open>The flags and what \<^verbatim>\<open>main\<close> does with them.\<close>

record proxy_flags =
  fl_protocol :: gostr
  fl_listen :: gostr
  fl_target :: gostr
  fl_config :: gostr
  fl_cert :: gostr
  fl_key :: gostr
  fl_version :: bool
  fl_autoTLS :: bool
  fl_email :: gostr
  fl_domains :: gostr

datatype main_outcome = PrintVersion | UsageError | FlagsError | MainFatal | FromConfig gostr | Single "single_error + Facade"

definition main_dispatch ::
  "gostr list option \<Rightarrow> gostr list option \<Rightarrow> int \<Rightarrow> gostr + nat \<Rightarrow> proxy_flags \<Rightarrow> main_outcome" where
  "main_dispatch managed loaded now answer f =
     (let run = (\<lambda>tls. Single (runSingle now (fl_protocol f) (fl_listen f) (fl_target f) tls answer)) in
      if fl_version f then PrintVersion
      else if fl_config f \<noteq> [] then FromConfig (fl_config f)
      else if fl_target f = [] then UsageError
      else if fl_autoTLS f
      then (if fl_email f = [] \<or> fl_domains f = [] then FlagsError
            else case managed of None \<Rightarrow> MainFatal | Some ps \<Rightarrow> run (Some ps))
      else if fl_cert f \<noteq> [] \<and> fl_key f \<noteq> []
      then (case loaded of None \<Rightarrow> MainFatal | Some ps \<Rightarrow> run (Some ps))
      else run None)"

section \<open>Lemmas\<close>

lemma names_distinct [simp]:
  "str ''tcp'' \<noteq> str ''http2''" "str ''tcp'' \<noteq> str ''http3''" "str ''tcp'' \<noteq> str ''quic''"
  "str ''http2'' \<noteq> str ''http3''" "str ''http2'' \<noteq> str ''quic''" "str ''http3'' \<noteq> str ''quic''"
  "str ''http2'' \<noteq> str ''tcp''" "str ''http3'' \<noteq> str ''tcp''" "str ''quic'' \<noteq> str ''tcp''"
  "str ''http3'' \<noteq> str ''http2''" "str ''quic'' \<noteq> str ''http2''" "str ''quic'' \<noteq> str ''http3''"
  by (simp_all add: str_def)

text \<open>The facade accepts what \<^verbatim>\<open>createTunnel\<close> passes it.\<close>

lemma New_accepts:
  "\<exists>t. New now (zero_config\<lparr>tc_Protocol := proto, tc_ListenAddr := l, tc_TargetAddr := g, tc_TLSConfig := b\<rparr>)
       = Ret t \<and> tf_wg t = 0 \<and> tc_ListenAddr (tf_config t) = l \<and> tc_TargetAddr (tf_config t) = g"
proof -
  let ?c = "zero_config\<lparr>tc_Protocol := proto, tc_ListenAddr := l, tc_TargetAddr := g, tc_TLSConfig := b\<rparr>"
  have "in_range ?c" using presets_in_range(4) by (simp add: in_range_def)
  then have "validateConfig ?c = Ret (with_defaults ?c)" by (simp add: validateConfig_ok)
  then show ?thesis by (simp add: New_def with_defaults_def)
qed

definition startable :: "bool \<Rightarrow> gostr \<Rightarrow> bool" where
  "startable have_tls name \<longleftrightarrow> name = str ''tcp'' \<or> have_tls \<and> name \<in> {str ''http2'', str ''http3''}"

text \<open>An entry is started exactly if its protocol is known, has the TLS settings it needs, is not QUIC, and its
  address can be listened on.\<close>

definition entry_started :: "bool \<Rightarrow> gostr + nat \<Rightarrow> gostr \<Rightarrow> bool" where
  "entry_started have_tls answer name \<longleftrightarrow> startable have_tls name \<and> (\<exists>l. answer = Inr l)"

definition started_for :: "ProtocolConfig \<Rightarrow> Facade \<Rightarrow> bool" where
  "started_for pc t \<longleftrightarrow> tc_ListenAddr (tf_config t) = pc_Listen pc \<and> tc_TargetAddr (tf_config t) = pc_Target pc
     \<and> tf_listener t \<noteq> None \<and> tf_wg t = 1"

lemma choose_tls: "choose_protocol proto tls = (r, tls1) \<Longrightarrow> (tls1 = None) = (tls = None)"
  by (auto simp: choose_protocol_def split: if_splits option.splits)

lemma choose_startable:
  "fst (choose_protocol proto tls) = Ret p \<Longrightarrow> p \<noteq> MuxProto \<longleftrightarrow> startable (tls \<noteq> None) proto"
  by (auto simp: choose_protocol_def startable_def split: if_splits option.splits)

lemma choose_Err: "fst (choose_protocol proto tls) = Err e \<Longrightarrow> \<not> startable (tls \<noteq> None) proto"
  by (auto simp: choose_protocol_def startable_def split: if_splits option.splits)

lemma choose_no_panic: "fst (choose_protocol proto tls) \<noteq> Panic"
  by (auto simp: choose_protocol_def split: option.splits)

lemma createTunnel_cases:
  assumes "createTunnel now proto listen target tls = (r, tls1)"
  shows "(tls1 = None) = (tls = None)"
    and "r = Ret (p, t) \<Longrightarrow> fst (choose_protocol proto tls) = Ret p \<and> tf_wg t = 0 \<and> tf_protocol t = Some (proto_id p)
       \<and> tc_ListenAddr (tf_config t) = listen \<and> tc_TargetAddr (tf_config t) = target"
    and "\<forall>pt. r \<noteq> Ret pt \<Longrightarrow> \<not> startable (tls \<noteq> None) proto"
proof -
  obtain c tls2 where c: "choose_protocol proto tls = (c, tls2)" by (cases "choose_protocol proto tls")
  note new = New_accepts [where proto = proto and now = now and l = listen and g = target and b = "tls \<noteq> None"]
  show "(tls1 = None) = (tls = None)"
    using assms choose_tls [OF c] by (auto simp: createTunnel_def c split: go_result.splits)
  show "fst (choose_protocol proto tls) = Ret p \<and> tf_wg t = 0 \<and> tf_protocol t = Some (proto_id p)
       \<and> tc_ListenAddr (tf_config t) = listen \<and> tc_TargetAddr (tf_config t) = target" if "r = Ret (p, t)"
    using assms that new by (auto simp: createTunnel_def c SetProtocol_def split: go_result.splits)
  show "\<not> startable (tls \<noteq> None) proto" if "\<forall>pt. r \<noteq> Ret pt"
    using assms that new choose_Err [of proto tls] choose_no_panic [of proto tls]
    by (auto simp: createTunnel_def c split: go_result.splits)
qed

lemma Start_listen:
  "tf_protocol t = Some i \<Longrightarrow> tf_wg t = 0 \<Longrightarrow>
   (case Start answer t of
      (None, t1) \<Rightarrow> (\<exists>l. answer = Inr l) \<and> tf_config t1 = tf_config t \<and> tf_listener t1 \<noteq> None \<and> tf_wg t1 = 1
    | (Some e, t1) \<Rightarrow> \<exists>m. answer = Inl m \<and> e = ListenError m)"
  by (auto simp: Start_def Let_def split: sum.splits)

lemma proxy_Listen_started:
  "(\<exists>l. proxy_Listen p addr answer = Inr l) \<longleftrightarrow> p \<noteq> MuxProto \<and> (\<exists>l. answer = Inr l)"
  by (cases p) (auto simp: proxy_Listen_def MuxServer_Listen_def)

text \<open>One entry of the list.\<close>

lemma start_one:
  assumes "pc_Enabled pc"
  shows "\<exists>tls1. (tls1 = None) = (tls = None) \<and>
    (if entry_started (tls \<noteq> None) (net i) (pc_Name pc)
     then \<exists>t. started_for pc t \<and> start_all net now i (pc # rest) tls = (pc, t) # start_all net now (Suc i) rest tls1
     else start_all net now i (pc # rest) tls = start_all net now (Suc i) rest tls1)"
proof -
  obtain r tls1 where c: "createTunnel now (pc_Name pc) (pc_Listen pc) (pc_Target pc) tls = (r, tls1)"
    by (cases "createTunnel now (pc_Name pc) (pc_Listen pc) (pc_Target pc) tls")
  note cs = createTunnel_cases [OF c]
  show ?thesis
  proof (cases "\<exists>pt. r = Ret pt")
    case True
    then obtain p t where r: "r = Ret (p, t)" by (metis prod.exhaust)
    note t = cs(2) [OF r]
    note st = Start_listen [of t "proto_id p" "proxy_Listen p (pc_Listen pc) (net i)"]
    have "entry_started (tls \<noteq> None) (net i) (pc_Name pc) \<longleftrightarrow> (\<exists>l. proxy_Listen p (pc_Listen pc) (net i) = Inr l)"
      using t choose_startable [of "pc_Name pc" tls p] by (auto simp: entry_started_def proxy_Listen_started)
    then show ?thesis
      using assms c r cs(1) t st
      by (intro exI [of _ tls1]) (auto simp: started_for_def split: prod.splits option.splits)
  next
    case False
    then show ?thesis
      using assms c cs(1,3) by (intro exI [of _ tls1]) (cases r, auto simp: entry_started_def)
  qed
qed

lemma start_all_starts:
  "map fst (start_all net now i ps tls)
     = map snd (filter (\<lambda>(j, pc). pc_Enabled pc \<and> entry_started (tls \<noteq> None) (net j) (pc_Name pc)) (enumerate i ps))
   \<and> (\<forall>(pc, t) \<in> set (start_all net now i ps tls). started_for pc t)"
proof (induction ps arbitrary: i tls)
  case (Cons pc rest)
  show ?case
  proof (cases "pc_Enabled pc")
    case True
    from start_one [OF True, where tls = tls and net = net and i = i and now = now and rest = rest]
    obtain tls1 where "(tls1 = None) = (tls = None)"
      and "if entry_started (tls \<noteq> None) (net i) (pc_Name pc)
         then \<exists>t. started_for pc t \<and> start_all net now i (pc # rest) tls = (pc, t) # start_all net now (Suc i) rest tls1
         else start_all net now i (pc # rest) tls = start_all net now (Suc i) rest tls1" by blast
    then show ?thesis using Cons.IH [of "Suc i" tls1] True
      by (cases "entry_started (tls \<noteq> None) (net i) (pc_Name pc)") (auto simp del: start_all.simps simp: enumerate_simps)
  qed (use Cons.IH [of "Suc i" tls] in \<open>auto simp: enumerate_simps\<close>)
qed simp

text \<open>The manager: a failed load or reload keeps the configuration; what was saved is loaded again, if the
  YAML library reads back what it wrote; and a callback that asks for the configuration waits forever.\<close>

lemma config_failure_keeps:
  "fst (Config_Load fs un path m) \<noteq> None \<Longrightarrow> snd (Config_Load fs un path m) = m"
  "fst (Config_Reload fs un m) \<noteq> None \<Longrightarrow> snd (Config_Reload fs un m) = m"
  by (auto simp: Config_Load_def Config_Reload_def split: sum.splits)

lemma config_save_load:
  assumes "Config_Save marshal w path m fs = (None, fs')" "\<And>c d. marshal c = Some d \<Longrightarrow> un d = Some c"
  shows "Config_Load fs' un path m' = (None, m'\<lparr>cf_config := cf_config m, cf_path := path\<rparr>)"
  using assms by (auto simp: Config_Save_def Config_Load_def read_config_def split: option.splits if_splits)

lemma reload_callback_waits: "Config_Get (Reload_callback_state cfg m) = None"
  by (simp add: Config_Get_def Reload_callback_state_def)

text \<open>Splitting loses nothing: joined with commas the parts give the string back, and none has a comma.\<close>

lemma split_comma_parts: "44 \<notin> set acc \<Longrightarrow> \<forall>d \<in> set (split_comma acc s). 44 \<notin> set d"
  by (induction acc s rule: split_comma.induct) auto

lemma split_comma_join: "concat (map (\<lambda>d. d @ [44]) (split_comma acc s)) = rev acc @ s @ [44]"
  by (induction acc s rule: split_comma.induct) auto

lemma splitDomains_join:
  "concat (map (\<lambda>d. d @ [44]) (splitDomains s)) = (if s = [] then [] else s @ [44])"
  "\<forall>d \<in> set (splitDomains s). 44 \<notin> set d"
  using split_comma_parts [of "[]" s] by (auto simp: splitDomains_def split_comma_join)

lemma runSingle_quic_fails: "\<exists>e. runSingle now (str ''quic'') listen target tls answer = Inl e"
proof -
  obtain r tls1 where c: "createTunnel now (str ''quic'') listen target tls = (r, tls1)"
    by (cases "createTunnel now (str ''quic'') listen target tls")
  show ?thesis
  proof (cases r)
    case (Ret pt)
    obtain p t where pt: "pt = (p, t)" by (cases pt)
    have "p = MuxProto"
      using createTunnel_cases(2) [OF c, of p t] Ret pt choose_startable [of "str ''quic''" tls p]
      by (auto simp: startable_def)
    moreover have "fst (Start (proxy_Listen MuxProto listen answer) t) \<noteq> None"
      by (auto simp: Start_def Let_def proxy_Listen_def MuxServer_Listen_def split: option.split)
    ultimately show ?thesis
      by (cases "Start (proxy_Listen MuxProto listen answer) t") (auto simp: runSingle_def c Ret pt)
  qed (simp_all add: runSingle_def c)
qed

section \<open>Properties\<close>

text \<open>C33. Running from a configuration file starts, in the order of the file, exactly the enabled entries whose
  protocol is TCP, or HTTP/2 or HTTP/3 with TLS settings, and whose address can be listened on, each with its
  own addresses and an accept loop; it gives up exactly when there is none. An entry for QUIC is never
  started, neither from a file nor from the command line, whatever the network answers, because the
  QUIC server refuses to be listened on.\<close>

theorem proxy_starts_exactly:
  assumes "read_config fs un path = Inr cfg" "config_tls managed loaded cfg = Inr tls"
    and "expected = map snd (filter (\<lambda>(j, pc). pc_Enabled pc \<and> entry_started (tls \<noteq> None) (net j) (pc_Name pc))
                      (enumerate 0 (ac_Protocols cfg)))"
  shows "(case runFromConfig fs un managed loaded net now path of
            Inr ts \<Rightarrow> map fst ts = expected \<and> expected \<noteq> [] \<and> (\<forall>(pc, t) \<in> set ts. started_for pc t)
          | Inl e \<Rightarrow> e = NoTunnels \<and> expected = [])
     \<and> (\<forall>pc \<in> set expected. pc_Name pc \<noteq> str ''quic'')
     \<and> (\<exists>e. runSingle now (str ''quic'') listen target tls answer = Inl e)"
proof -
  have "\<forall>pc \<in> set expected. pc_Name pc \<noteq> str ''quic''"
    by (auto simp: assms(3) entry_started_def startable_def)
  then show ?thesis
    using runSingle_quic_fails [of now listen target tls answer] start_all_starts [of net now 0 "ac_Protocols cfg" tls] assms
    by (auto simp: runFromConfig_def Let_def split: sum.split)
qed

theorem proxy_starts_exactly_witness:
  "(case runFromConfig (\<lambda>_. Some []) (\<lambda>_. Some Config_Default) None None (\<lambda>_. Inr 5) 0 [97] of
      Inr ts \<Rightarrow> map fst ts = ac_Protocols Config_Default | Inl e \<Rightarrow> False)
   \<and> (\<exists>e. runSingle 0 (str ''quic'') [] [] None (Inr 5) = Inl e)"
proof -
  have "read_config (\<lambda>_. Some []) (\<lambda>_. Some Config_Default) [97] = Inr Config_Default"
    by (simp add: read_config_def)
  moreover have "config_tls None None Config_Default = Inr None"
    by (simp add: config_tls_def Config_Default_def opt_def str_def)
  ultimately show ?thesis
    using proxy_starts_exactly [of "\<lambda>_. Some []" "\<lambda>_. Some Config_Default" "[97]" Config_Default None None None
        "ac_Protocols Config_Default" "\<lambda>_. Inr 5" 0 "[]" "[]" "Inr 5"]
    by (auto simp: Config_Default_def entry_started_def startable_def split: sum.splits)
qed

end
