(* ===== verification/Health_Checks.thy ===== *)
theory Health_Checks
  imports Go_Prelude "HOL-Library.Multiset"
begin

text \<open>
  The health endpoint, \<^verbatim>\<open>internal/health/health.go\<close>: registration of checks, running them concurrently
  with a timeout each, the overall status, the HTTP status codes of the endpoints, and the ready-made
  checks.

  What a check function returns in time is an argument (\<open>None\<close>: the timeout came first), and so is
  the order in which the goroutines of one run deliver their results. A zero time stamp is \<open>None\<close>.
\<close>

section \<open>Data\<close>

text \<open>\<^verbatim>\<open>Status\<close> is a string type with three named values.\<close>

type_synonym Status = gostr

definition StatusHealthy :: Status where "StatusHealthy = str ''healthy''"
definition StatusUnhealthy :: Status where "StatusUnhealthy = str ''unhealthy''"
definition StatusDegraded :: Status where "StatusDegraded = str ''degraded''"

record CheckResult =
  cr_Name :: gostr
  cr_Status :: Status
  cr_Message :: gostr
  cr_Timestamp :: "int option"
  cr_Duration :: int

record Checker =
  ck_Name :: gostr
  ck_Check :: nat
  ck_Timeout :: int
  ck_Interval :: int

record Health =
  he_Status :: Status
  he_Timestamp :: int
  he_Checks :: "CheckResult list"

record HealthHandler =
  hh_checkers :: "gostr \<rightharpoonup> Checker"
  hh_results :: "gostr \<rightharpoonup> CheckResult"
  hh_timeout :: int
  hh_cancelled :: bool

definition NewHealthHandler :: "int \<Rightarrow> HealthHandler" where
  "NewHealthHandler timeout =
     \<lparr>hh_checkers = Map.empty, hh_results = Map.empty,
      hh_timeout = (if timeout \<le> 0 then 5 * 10 ^ 9 else timeout), hh_cancelled = False\<rparr>"

section \<open>Registration\<close>

datatype CheckerOption = WithTimeout int | WithInterval int

fun apply_option :: "CheckerOption \<Rightarrow> Checker \<Rightarrow> Checker" where
  "apply_option (WithTimeout t) c = c\<lparr>ck_Timeout := t\<rparr>"
| "apply_option (WithInterval t) c = c\<lparr>ck_Interval := t\<rparr>"

definition Health_Register :: "gostr \<Rightarrow> nat \<Rightarrow> CheckerOption list \<Rightarrow> HealthHandler \<Rightarrow> HealthHandler" where
  "Health_Register name check opts h =
     h\<lparr>hh_checkers := (hh_checkers h)(name \<mapsto>
         fold apply_option opts \<lparr>ck_Name = name, ck_Check = check, ck_Timeout = hh_timeout h, ck_Interval = 0\<rparr>)\<rparr>"

section \<open>Running the checks\<close>

definition timed_out_result :: "int \<Rightarrow> Checker \<Rightarrow> CheckResult" where
  "timed_out_result now c =
     \<lparr>cr_Name = ck_Name c, cr_Status = StatusUnhealthy, cr_Message = str ''health check timed out'',
      cr_Timestamp = Some now, cr_Duration = 0\<rparr>"

definition check_result :: "int \<Rightarrow> int \<Rightarrow> CheckResult option \<Rightarrow> Checker \<Rightarrow> CheckResult" where
  "check_result start now outcome c =
     (let result = (case outcome of Some r \<Rightarrow> r | None \<Rightarrow> timed_out_result now c);
          r1 = result\<lparr>cr_Duration := now - start\<rparr>
      in if cr_Timestamp r1 = None then r1\<lparr>cr_Timestamp := Some now\<rparr> else r1)"

definition runCheck ::
  "int \<Rightarrow> int \<Rightarrow> CheckResult option \<Rightarrow> Checker \<Rightarrow> HealthHandler \<Rightarrow> CheckResult \<times> HealthHandler" where
  "runCheck start now outcome c h =
     (let r = check_result start now outcome c
      in (r, h\<lparr>hh_results := (hh_results h)(ck_Name c \<mapsto> r)\<rparr>))"

text \<open>The loop over the results, with its early exit.\<close>

fun overall :: "Status \<Rightarrow> CheckResult list \<Rightarrow> Status" where
  "overall acc [] = acc"
| "overall acc (r # rs) =
     (if cr_Status r = StatusUnhealthy then StatusUnhealthy
      else if cr_Status r = StatusDegraded \<and> acc \<noteq> StatusUnhealthy then overall StatusDegraded rs
      else overall acc rs)"

text \<open>The goroutines of one run, in the order in which they deliver; \<open>env\<close> gives the time at which a check
  ends and what it returns.\<close>

type_synonym check_env = "Checker \<Rightarrow> int \<times> CheckResult option"

fun run_all :: "int \<Rightarrow> check_env \<Rightarrow> Checker list \<Rightarrow> HealthHandler \<Rightarrow> CheckResult list \<times> HealthHandler" where
  "run_all start env [] h = ([], h)"
| "run_all start env (c # cs) h =
     (let (r, h1) = runCheck start (fst (env c)) (snd (env c)) c h;
          (rs, h2) = run_all start env cs h1
      in (r # rs, h2))"

definition RunChecks ::
  "int \<Rightarrow> int \<Rightarrow> check_env \<Rightarrow> Checker list \<Rightarrow> HealthHandler \<Rightarrow> Health \<times> HealthHandler" where
  "RunChecks start now env order h =
     (case run_all start env order h of
        (results, h1) \<Rightarrow>
          (\<lparr>he_Status = overall StatusHealthy results, he_Timestamp = now, he_Checks = results\<rparr>, h1))"

text \<open>An order in which the registered checkers can deliver.\<close>

definition is_run_of :: "Checker list \<Rightarrow> HealthHandler \<Rightarrow> bool" where
  "is_run_of order h \<longleftrightarrow> distinct order \<and> set order = ran (hh_checkers h)"

definition Health_GetResult :: "gostr \<Rightarrow> HealthHandler \<Rightarrow> CheckResult option" where
  "Health_GetResult name h = hh_results h name"

text \<open>A tick of the background goroutine: nothing once the handler is stopped.\<close>

definition Background_tick :: "int \<Rightarrow> int \<Rightarrow> check_env \<Rightarrow> Checker list \<Rightarrow> HealthHandler \<Rightarrow> bool \<times> HealthHandler" where
  "Background_tick start now env order h =
     (if hh_cancelled h then (False, h) else (True, snd (RunChecks start now env order h)))"

definition Health_Stop :: "HealthHandler \<Rightarrow> HealthHandler" where
  "Health_Stop h = h\<lparr>hh_cancelled := True\<rparr>"

section \<open>The endpoints\<close>

definition StatusOK :: nat where "StatusOK = 200"
definition StatusServiceUnavailable :: nat where "StatusServiceUnavailable = 503"

definition Health_ServeHTTP ::
  "int \<Rightarrow> int \<Rightarrow> check_env \<Rightarrow> Checker list \<Rightarrow> HealthHandler \<Rightarrow> nat \<times> Health \<times> HealthHandler" where
  "Health_ServeHTTP start now env order h =
     (case RunChecks start now env order h of
        (health, h1) \<Rightarrow>
          (if he_Status health = StatusUnhealthy then StatusServiceUnavailable
           else if he_Status health = StatusDegraded then StatusOK else StatusOK, health, h1))"

definition ReadinessHandler ::
  "int \<Rightarrow> int \<Rightarrow> check_env \<Rightarrow> Checker list \<Rightarrow> HealthHandler \<Rightarrow> nat \<times> Health \<times> HealthHandler" where
  "ReadinessHandler start now env order h =
     (case RunChecks start now env order h of
        (health, h1) \<Rightarrow>
          (if he_Status health = StatusUnhealthy then StatusServiceUnavailable else StatusOK, health, h1))"

definition LivenessHandler :: "nat \<times> (gostr \<times> gostr) list" where
  "LivenessHandler = (StatusOK, [(str ''status'', str ''alive'')])"

section \<open>Ready-made checks\<close>

definition simple_result :: "gostr \<Rightarrow> Status \<Rightarrow> gostr \<Rightarrow> int \<Rightarrow> CheckResult" where
  "simple_result name status message now =
     \<lparr>cr_Name = name, cr_Status = status, cr_Message = message, cr_Timestamp = Some now, cr_Duration = 0\<rparr>"

definition PingCheck :: "gostr \<Rightarrow> int \<Rightarrow> CheckResult" where
  "PingCheck name now = simple_result name StatusHealthy (str ''pong'') now"

text \<open>What dialling did: an error text, or a connection.\<close>

definition TCPCheck :: "gostr \<Rightarrow> gostr option \<Rightarrow> int \<Rightarrow> CheckResult" where
  "TCPCheck name dial_error now =
     (case dial_error of
        Some e \<Rightarrow> simple_result name StatusUnhealthy e now
      | None \<Rightarrow> simple_result name StatusHealthy [] now)"

text \<open>What the request did: an error text, or a status code with its status line.\<close>

definition HTTPCheck :: "gostr \<Rightarrow> gostr + (int \<times> gostr) \<Rightarrow> int \<Rightarrow> CheckResult" where
  "HTTPCheck name resp now =
     (case resp of
        Inl e \<Rightarrow> simple_result name StatusUnhealthy e now
      | Inr (code, status) \<Rightarrow>
          if code \<ge> 500 then simple_result name StatusUnhealthy status now
          else if code \<ge> 400 then simple_result name StatusDegraded status now
          else simple_result name StatusHealthy [] now)"

section \<open>The overall status\<close>

lemma status_distinct [simp]:
  "StatusHealthy \<noteq> StatusUnhealthy" "StatusHealthy \<noteq> StatusDegraded" "StatusUnhealthy \<noteq> StatusDegraded"
  "StatusUnhealthy \<noteq> StatusHealthy" "StatusDegraded \<noteq> StatusHealthy" "StatusDegraded \<noteq> StatusUnhealthy"
  by (simp_all add: StatusHealthy_def StatusUnhealthy_def StatusDegraded_def str_def)

definition worst :: "CheckResult set \<Rightarrow> Status" where
  "worst R = (if \<exists>r \<in> R. cr_Status r = StatusUnhealthy then StatusUnhealthy
              else if \<exists>r \<in> R. cr_Status r = StatusDegraded then StatusDegraded else StatusHealthy)"

lemma overall_degraded:
  "overall StatusDegraded rs = (if \<exists>r \<in> set rs. cr_Status r = StatusUnhealthy then StatusUnhealthy else StatusDegraded)"
  by (induction rs) auto

lemma overall_worst: "overall StatusHealthy rs = worst (set rs)"
  by (induction rs) (auto simp: worst_def overall_degraded)

definition outcome_of :: "int \<Rightarrow> check_env \<Rightarrow> Checker \<Rightarrow> CheckResult" where
  "outcome_of start env c = check_result start (fst (env c)) (snd (env c)) c"

lemma run_all_eq:
  "run_all start env cs h = (map (outcome_of start env) cs,
     h\<lparr>hh_results := hh_results h ++ map_of (rev (map (\<lambda>c. (ck_Name c, outcome_of start env c)) cs))\<rparr>)"
proof (induction cs arbitrary: h)
  case (Cons c cs)
  have "f(x \<mapsto> y) ++ g = f ++ ([x \<mapsto> y] ++ g)" for f g :: "gostr \<rightharpoonup> CheckResult" and x y
    by (rule ext) (simp add: map_add_def split: option.split)
  then show ?case by (simp add: Cons runCheck_def outcome_of_def Let_def)
qed simp

text \<open>Every checker is stored under its own name, whatever was registered.\<close>

definition register_all :: "(gostr \<times> nat \<times> CheckerOption list) list \<Rightarrow> HealthHandler \<Rightarrow> HealthHandler" where
  "register_all regs h = fold (\<lambda>(name, check, opts). Health_Register name check opts) regs h"

lemma apply_option_name [simp]: "ck_Name (apply_option o1 c) = ck_Name c"
  by (cases o1) simp_all

lemma fold_options_name [simp]: "ck_Name (fold apply_option opts c) = ck_Name c"
  by (induction opts arbitrary: c) simp_all

lemma register_all_names:
  "(\<forall>n c. hh_checkers h n = Some c \<longrightarrow> ck_Name c = n) \<Longrightarrow>
   hh_checkers (register_all regs h) n = Some c \<Longrightarrow> ck_Name c = n"
proof (induction regs arbitrary: h)
  case (Cons x regs)
  obtain name check opts where x: "x = (name, check, opts)" by (metis surj_pair)
  have "\<forall>n c. hh_checkers (Health_Register name check opts h) n = Some c \<longrightarrow> ck_Name c = n"
    using Cons(2) by (auto simp: Health_Register_def split: if_splits)
  from Cons.IH [OF this] Cons(3) show ?case by (simp add: register_all_def x)
qed (simp add: register_all_def)

lemma registered_name:
  "hh_checkers (register_all regs (NewHealthHandler t)) n = Some c \<Longrightarrow> ck_Name c = n"
  using register_all_names [of "NewHealthHandler t" regs n c] by (simp add: NewHealthHandler_def)

lemma results_stored:
  assumes names: "\<And>n c. hh_checkers h n = Some c \<Longrightarrow> ck_Name c = n"
    and run: "is_run_of order h" and c: "hh_checkers h n = Some c"
  shows "hh_results (snd (run_all start env order h)) n = Some (outcome_of start env c)"
proof -
  let ?kvs = "map (\<lambda>c. (ck_Name c, outcome_of start env c)) order"
  have inj: "inj_on ck_Name (set order)"
    using run names by (auto simp: is_run_of_def ran_def inj_on_def)
  then have "distinct (map fst ?kvs)"
    using run by (simp add: is_run_of_def distinct_map comp_def)
  then have "distinct (map fst (rev ?kvs))" by (simp only: rev_map [symmetric] distinct_rev)
  moreover have "(n, outcome_of start env c) \<in> set ?kvs"
    using c names [OF c] run by (auto simp: is_run_of_def ran_def)
  ultimately have "map_of (rev ?kvs) n = Some (outcome_of start env c)"
    by (intro map_of_is_SomeI) (simp_all only: set_rev)
  then show ?thesis by (simp add: run_all_eq)
qed

section \<open>Properties\<close>

text \<open>Whatever checks were registered and in whatever order their goroutines finish, the endpoint answers
  503 exactly when some check reports unhealthy or did not answer in time, and 200 otherwise; the
  reported status is the worst of the checks; and the last result of every check can be looked up.\<close>

lemma health_endpoint_correct:
  assumes "h = register_all regs (NewHealthHandler t)" "is_run_of order h"
    and serve: "Health_ServeHTTP start now env order h = (code, health, h')"
  shows "(code = StatusServiceUnavailable \<longleftrightarrow>
       (\<exists>c \<in> ran (hh_checkers h). case snd (env c) of None \<Rightarrow> True | Some r \<Rightarrow> cr_Status r = StatusUnhealthy))
    \<and> code \<in> {StatusOK, StatusServiceUnavailable}
    \<and> he_Status health = worst (outcome_of start env ` ran (hh_checkers h))
    \<and> (\<forall>n c. hh_checkers h n = Some c \<longrightarrow> Health_GetResult n h' = Some (outcome_of start env c))"
proof -
  have results: "fst (run_all start env order h) = map (outcome_of start env) order"
    by (simp add: run_all_eq)
  have status: "he_Status health = worst (outcome_of start env ` ran (hh_checkers h))"
    and h': "h' = snd (run_all start env order h)"
    and code: "code = (if he_Status health = StatusUnhealthy then StatusServiceUnavailable else StatusOK)"
    using serve assms(2) results
    by (auto simp: Health_ServeHTTP_def RunChecks_def overall_worst is_run_of_def split: prod.splits)
  have "cr_Status (outcome_of start env c) = StatusUnhealthy \<longleftrightarrow>
      (case snd (env c) of None \<Rightarrow> True | Some r \<Rightarrow> cr_Status r = StatusUnhealthy)" for c
    by (auto simp: outcome_of_def check_result_def timed_out_result_def Let_def split: option.splits)
  then have "code = StatusServiceUnavailable \<longleftrightarrow>
       (\<exists>c \<in> ran (hh_checkers h). case snd (env c) of None \<Rightarrow> True | Some r \<Rightarrow> cr_Status r = StatusUnhealthy)"
    unfolding code status by (auto simp: worst_def StatusOK_def StatusServiceUnavailable_def)
  moreover have "Health_GetResult n h' = Some (outcome_of start env c)" if "hh_checkers h n = Some c" for n c
    using results_stored [OF _ assms(2) that] registered_name assms(1) h'
    by (simp add: Health_GetResult_def)
  moreover have "code \<in> {StatusOK, StatusServiceUnavailable}" by (simp add: code)
  ultimately show ?thesis using status by blast
qed

lemma health_endpoint_correct_witness:
  "let c = \<lparr>ck_Name = str ''db'', ck_Check = 7, ck_Timeout = 5 * 10 ^ 9, ck_Interval = 0\<rparr>;
       h = register_all [(str ''db'', 7, [])] (NewHealthHandler 0)
   in is_run_of [c] h
      \<and> fst (Health_ServeHTTP 0 9 (\<lambda>_. (9, None)) [c] h) = StatusServiceUnavailable"
proof -
  let ?c = "\<lparr>ck_Name = str ''db'', ck_Check = 7, ck_Timeout = 5 * 10 ^ 9, ck_Interval = 0\<rparr>"
  let ?h = "register_all [(str ''db'', 7, [])] (NewHealthHandler 0)"
  obtain code health h' where s: "Health_ServeHTTP 0 9 (\<lambda>_. (9, None)) [?c] ?h = (code, health, h')"
    by (metis prod.exhaust)
  have c: "hh_checkers ?h = [str ''db'' \<mapsto> ?c]"
    by (simp add: register_all_def Health_Register_def NewHealthHandler_def)
  then have r: "is_run_of [?c] ?h" by (simp add: is_run_of_def)
  from health_endpoint_correct [OF refl r s] c have "code = StatusServiceUnavailable" by simp
  with r s show ?thesis by (simp add: Let_def)
qed

text \<open>A status that is none of the three names counts as healthy.\<close>

lemma unknown_status_is_healthy:
  "cr_Status r \<notin> {StatusUnhealthy, StatusDegraded} \<Longrightarrow> overall StatusHealthy [r] = StatusHealthy"
  by simp

end
