(* ===== verification/Graceful_Shutdown.thy ===== *)
theory Graceful_Shutdown
  imports Go_Prelude "HOL-Library.Multiset"
begin

text \<open>
  Graceful shutdown, \<^verbatim>\<open>internal/shutdown/shutdown.go\<close>: the handler with its callbacks, the sort by
  priority, the shutdown itself with the callbacks running in goroutines of their own, and the global
  handler behind a mutex.

  A callback function is a number; \<open>shutdown_step\<close> begins and ends callbacks in any order the scheduler
  picks and may time out at any moment.
\<close>

section \<open>The handler\<close>

record Callback =
  cb_Name :: gostr
  cb_Priority :: int
  cb_Func :: nat

record Shutdown_Config =
  sd_Timeout :: int
  sd_Signals :: "nat list"

text \<open>\<^verbatim>\<open>os.Interrupt\<close> is signal number 2.\<close>

definition Shutdown_DefaultConfig :: Shutdown_Config where
  "Shutdown_DefaultConfig = \<lparr>sd_Timeout = 30 * 10 ^ 9, sd_Signals = [2]\<rparr>"

record ShutdownHandler =
  sh_timeout :: int
  sh_signals :: "nat list"
  sh_callbacks :: "Callback list"
  sh_quit :: bool
  sh_done :: bool
  sh_stopped :: bool

definition NewShutdownHandler :: "Shutdown_Config \<Rightarrow> ShutdownHandler" where
  "NewShutdownHandler config =
     \<lparr>sh_timeout = (if sd_Timeout config \<le> 0 then 30 * 10 ^ 9 else sd_Timeout config),
      sh_signals = (if sd_Signals config = [] then [2] else sd_Signals config),
      sh_callbacks = [], sh_quit = False, sh_done = False, sh_stopped = False\<rparr>"

definition Shutdown_Register :: "gostr \<Rightarrow> int \<Rightarrow> nat \<Rightarrow> ShutdownHandler \<Rightarrow> ShutdownHandler" where
  "Shutdown_Register name priority fn h =
     h\<lparr>sh_callbacks := sh_callbacks h @ [\<lparr>cb_Name = name, cb_Priority = priority, cb_Func = fn\<rparr>]\<rparr>"

definition Shutdown_RegisterFunc :: "gostr \<Rightarrow> nat \<Rightarrow> ShutdownHandler \<Rightarrow> ShutdownHandler" where
  "Shutdown_RegisterFunc name fn h = Shutdown_Register name 100 fn h"

text \<open>A signal the handler was told to listen for; the channel buffers one.\<close>

definition deliver_signal :: "nat \<Rightarrow> ShutdownHandler \<Rightarrow> ShutdownHandler" where
  "deliver_signal n h = (if n \<in> set (sh_signals h) then h\<lparr>sh_quit := True\<rparr> else h)"

section \<open>Sorting by priority\<close>

definition swap_if :: "nat \<Rightarrow> nat \<Rightarrow> Callback list \<Rightarrow> Callback list" where
  "swap_if i j xs =
     (if cb_Priority (xs ! i) > cb_Priority (xs ! j) then xs[i := xs ! j, j := xs ! i] else xs)"

lemma length_swap_if [simp]: "length (swap_if i j xs) = length xs"
  by (simp add: swap_if_def)

function sort_inner :: "nat \<Rightarrow> nat \<Rightarrow> Callback list \<Rightarrow> Callback list" where
  "sort_inner i j xs = (if j < length xs then sort_inner i (j + 1) (swap_if i j xs) else xs)"
  by pat_completeness auto
termination by (relation "measure (\<lambda>(i, j, xs). length xs - j)") auto

declare sort_inner.simps [simp del]

lemma length_sort_inner [simp]: "length (sort_inner i j xs) = length xs"
  by (induction i j xs rule: sort_inner.induct) (subst sort_inner.simps, simp)

function sort_outer :: "nat \<Rightarrow> Callback list \<Rightarrow> Callback list" where
  "sort_outer i xs = (if i < length xs - 1 then sort_outer (i + 1) (sort_inner i (i + 1) xs) else xs)"
  by pat_completeness auto
termination by (relation "measure (\<lambda>(i, xs). length xs - i)") auto

declare sort_outer.simps [simp del]

definition sortCallbacks :: "Callback list \<Rightarrow> Callback list" where
  "sortCallbacks xs = sort_outer 0 xs"

section \<open>Shutting down\<close>

text \<open>What \<^verbatim>\<open>Shutdown\<close> has started: callbacks whose goroutine has not begun yet, in progress, the order in
  which they began, the ones that returned, and how the call ended.\<close>

datatype shutdown_end = Completed | TimedOut

record shutdown_run =
  sr_handler :: ShutdownHandler
  sr_pending :: "Callback multiset"
  sr_running :: "Callback multiset"
  sr_begun :: "Callback list"
  sr_finished :: "Callback multiset"
  sr_end :: "shutdown_end option"

text \<open>The call itself, up to the point where it waits: \<open>None\<close> if a shutdown was started before.\<close>

definition Shutdown_start :: "ShutdownHandler \<Rightarrow> shutdown_run option" where
  "Shutdown_start h =
     (if sh_stopped h then None
      else Some \<lparr>sr_handler = h\<lparr>sh_stopped := True\<rparr>, sr_pending = mset (sortCallbacks (sh_callbacks h)),
                 sr_running = {#}, sr_begun = [], sr_finished = {#}, sr_end = None\<rparr>)"

definition close_done :: "shutdown_end \<Rightarrow> shutdown_run \<Rightarrow> shutdown_run" where
  "close_done e r = r\<lparr>sr_handler := (sr_handler r)\<lparr>sh_done := True\<rparr>, sr_end := Some e\<rparr>"

inductive shutdown_step :: "shutdown_run \<Rightarrow> shutdown_run \<Rightarrow> bool" where
  begin_callback: "cb \<in># sr_pending r \<Longrightarrow>
    shutdown_step r (r\<lparr>sr_pending := sr_pending r - {#cb#}, sr_running := add_mset cb (sr_running r),
                       sr_begun := sr_begun r @ [cb]\<rparr>)"
| end_callback: "cb \<in># sr_running r \<Longrightarrow>
    shutdown_step r (r\<lparr>sr_running := sr_running r - {#cb#}, sr_finished := add_mset cb (sr_finished r)\<rparr>)"
| completed: "sr_end r = None \<Longrightarrow> sr_pending r = {#} \<Longrightarrow> sr_running r = {#} \<Longrightarrow>
    shutdown_step r (close_done Completed r)"
| timed_out: "sr_end r = None \<Longrightarrow> shutdown_step r (close_done TimedOut r)"

abbreviation shutdown_steps :: "shutdown_run \<Rightarrow> shutdown_run \<Rightarrow> bool" where
  "shutdown_steps \<equiv> shutdown_step\<^sup>*\<^sup>*"

text \<open>\<^verbatim>\<open>Wait\<close>: blocked until a signal is buffered.\<close>

definition Shutdown_Wait :: "ShutdownHandler \<Rightarrow> shutdown_run option option" where
  "Shutdown_Wait h = (if sh_quit h then Some (Shutdown_start (h\<lparr>sh_quit := False\<rparr>)) else None)"

text \<open>\<^verbatim>\<open>WaitWithContext\<close>: when both channels are ready, \<^verbatim>\<open>select\<close> picks one. \<open>Inl\<close> is the context's error.\<close>

definition Shutdown_WaitWithContext :: "bool \<Rightarrow> bool \<Rightarrow> ShutdownHandler \<Rightarrow> (unit + shutdown_run option) option" where
  "Shutdown_WaitWithContext ctx_done pick_ctx h =
     (if sh_quit h \<and> \<not> (ctx_done \<and> pick_ctx)
      then Some (Inr (Shutdown_start (h\<lparr>sh_quit := False\<rparr>)))
      else if ctx_done then Some (Inl ()) else None)"

section \<open>The global handler\<close>

record shutdown_global =
  sg_handler :: "ShutdownHandler option"
  sg_locked :: bool

definition global_start :: shutdown_global where
  "global_start = \<lparr>sg_handler = None, sg_locked = False\<rparr>"

definition the_handler :: "Shutdown_Config \<Rightarrow> shutdown_global \<Rightarrow> ShutdownHandler" where
  "the_handler cfg g = (case sg_handler g of None \<Rightarrow> NewShutdownHandler cfg | Some h \<Rightarrow> h)"

text \<open>Every operation first takes the mutex; \<open>None\<close>: the caller stays blocked there.\<close>

definition Global_Init :: "Shutdown_Config \<Rightarrow> shutdown_global \<Rightarrow> shutdown_global option" where
  "Global_Init cfg g =
     (if sg_locked g then None else Some (g\<lparr>sg_handler := Some (the_handler cfg g)\<rparr>))"

definition Global_Register :: "gostr \<Rightarrow> int \<Rightarrow> nat \<Rightarrow> shutdown_global \<Rightarrow> shutdown_global option" where
  "Global_Register name priority fn g =
     (if sg_locked g then None
      else Some (g\<lparr>sg_handler :=
             Some (Shutdown_Register name priority fn (the_handler Shutdown_DefaultConfig g))\<rparr>))"

definition Global_RegisterFunc :: "gostr \<Rightarrow> nat \<Rightarrow> shutdown_global \<Rightarrow> shutdown_global option" where
  "Global_RegisterFunc name fn g = Global_Register name 100 fn g"

definition Global_Wait :: "shutdown_global \<Rightarrow> (shutdown_run option option \<times> shutdown_global) option" where
  "Global_Wait g =
     (if sg_locked g then None
      else let h = the_handler Shutdown_DefaultConfig g
           in Some (Shutdown_Wait h, g\<lparr>sg_handler := Some h\<rparr>))"

text \<open>\<^verbatim>\<open>Shutdown\<close> returns with the mutex held when there is no handler.\<close>

definition Global_Shutdown :: "shutdown_global \<Rightarrow> (shutdown_run option \<times> shutdown_global) option" where
  "Global_Shutdown g =
     (if sg_locked g then None
      else case sg_handler g of
             None \<Rightarrow> Some (None, g\<lparr>sg_locked := True\<rparr>)
           | Some h \<Rightarrow>
               Some (Shutdown_start h, g\<lparr>sg_handler := Some (h\<lparr>sh_stopped := True\<rparr>)\<rparr>))"

definition Global_IsShuttingDown :: "shutdown_global \<Rightarrow> bool option" where
  "Global_IsShuttingDown g =
     (if sg_locked g then None
      else Some (case sg_handler g of None \<Rightarrow> False | Some h \<Rightarrow> sh_stopped h))"

section \<open>The sort is a sort\<close>

lemma mset_swap_if: "i < length xs \<Longrightarrow> j < length xs \<Longrightarrow> mset (swap_if i j xs) = mset xs"
  by (simp add: swap_if_def mset_swap)

lemma mset_sort_inner: "i < length xs \<Longrightarrow> mset (sort_inner i j xs) = mset xs"
proof (induction i j xs rule: sort_inner.induct)
  case (1 i j xs)
  then show ?case by (subst sort_inner.simps) (simp add: mset_swap_if)
qed

lemma mset_sort_outer: "mset (sort_outer i xs) = mset xs"
proof (induction i xs rule: sort_outer.induct)
  case (1 i xs)
  then show ?case by (subst sort_outer.simps) (simp add: mset_sort_inner)
qed

text \<open>The inner loop brings a least element of the rest to position \<open>i\<close> and touches nothing before.\<close>

lemma take_swap_if: "i < j \<Longrightarrow> take i (swap_if i j xs) = take i xs"
  by (simp add: swap_if_def)

lemma take_sort_inner: "i < j \<Longrightarrow> take i (sort_inner i j xs) = take i xs"
proof (induction i j xs rule: sort_inner.induct)
  case (1 i j xs)
  then show ?case by (subst sort_inner.simps) (simp add: take_swap_if)
qed

lemma swap_if_nth:
  "i < j \<Longrightarrow> j < length xs \<Longrightarrow> k < length xs \<Longrightarrow>
   swap_if i j xs ! k = (if cb_Priority (xs ! j) < cb_Priority (xs ! i)
      then (if k = i then xs ! j else if k = j then xs ! i else xs ! k) else xs ! k)"
  by (simp add: swap_if_def nth_list_update)

abbreviation prio :: "Callback list \<Rightarrow> nat \<Rightarrow> int" where
  "prio xs k \<equiv> cb_Priority (xs ! k)"

lemma sort_inner_least:
  "i < j \<Longrightarrow> i < length xs \<Longrightarrow> (\<And>k. i \<le> k \<Longrightarrow> k < j \<Longrightarrow> k < length xs \<Longrightarrow> prio xs i \<le> prio xs k) \<Longrightarrow>
   i \<le> k \<Longrightarrow> k < length xs \<Longrightarrow> prio (sort_inner i j xs) i \<le> prio (sort_inner i j xs) k"
proof (induction i j xs rule: sort_inner.induct)
  case (1 i j xs)
  show ?case
  proof (cases "j < length xs")
    case True
    let ?ys = "swap_if i j xs"
    have least: "prio ?ys i \<le> prio ?ys l" if "i \<le> l" "l < j + 1" for l
    proof (cases "l = j")
      case False
      then have "prio xs i \<le> prio xs l" using 1(4) True that by simp
      with False 1(2) True that show ?thesis by (simp add: swap_if_nth)
    qed (use 1(2) True in \<open>simp add: swap_if_nth\<close>)
    have "prio (sort_inner i (j + 1) ?ys) i \<le> prio (sort_inner i (j + 1) ?ys) k"
      by (rule 1(1) [OF True]) (use 1(2,3,5,6) least in simp_all)
    then show ?thesis using True by (simp add: sort_inner.simps [of i j xs])
  next
    case False
    with 1(4-6) show ?thesis by (simp add: sort_inner.simps [of i j xs])
  qed
qed

text \<open>Positions below \<open>i\<close> hold their final elements.\<close>

definition sorted_upto :: "nat \<Rightarrow> Callback list \<Rightarrow> bool" where
  "sorted_upto i xs \<longleftrightarrow> (\<forall>a b. a < b \<and> a < i \<and> b < length xs \<longrightarrow> prio xs a \<le> prio xs b)"

lemma in_set_drop_nth: "x \<in> set (drop i xs) \<longleftrightarrow> (\<exists>c. i \<le> c \<and> c < length xs \<and> xs ! c = x)"
proof
  assume "x \<in> set (drop i xs)"
  then obtain d where "d < length xs - i" "drop i xs ! d = x" by (auto simp: in_set_conv_nth)
  then have "i \<le> i + d \<and> i + d < length xs \<and> xs ! (i + d) = x" by simp
  then show "\<exists>c. i \<le> c \<and> c < length xs \<and> xs ! c = x" by blast
next
  assume "\<exists>c. i \<le> c \<and> c < length xs \<and> xs ! c = x"
  then obtain c where "i \<le> c" "c < length xs" "xs ! c = x" by blast
  then have "c - i < length (drop i xs)" "drop i xs ! (c - i) = x" by auto
  then show "x \<in> set (drop i xs)" by (metis nth_mem)
qed

lemma sort_inner_rest:
  assumes "i < length xs" "i \<le> b" "b < length xs"
  shows "sort_inner i (i + 1) xs ! b \<in> set (drop i xs)"
proof -
  let ?ys = "sort_inner i (i + 1) xs"
  have "mset ?ys = mset (take i ?ys) + mset (drop i ?ys)" "mset xs = mset (take i xs) + mset (drop i xs)"
    by (metis append_take_drop_id mset_append)+
  then have "mset (drop i ?ys) = mset (drop i xs)"
    using assms(1) take_sort_inner [of i "i + 1" xs] mset_sort_inner [of i xs "i + 1"] by simp
  then have "set (drop i ?ys) = set (drop i xs)" by (metis set_mset_mset)
  moreover have "?ys ! b \<in> set (drop i ?ys)"
    using assms(2,3) by (auto simp: in_set_drop_nth)
  ultimately show ?thesis by simp
qed

lemma sorted_upto_inner:
  assumes "sorted_upto i xs" "i < length xs - 1"
  shows "sorted_upto (i + 1) (sort_inner i (i + 1) xs)"
proof -
  let ?ys = "sort_inner i (i + 1) xs"
  have "prio ?ys a \<le> prio ?ys b" if ab: "a < b" "a < i + 1" "b < length xs" for a b
  proof (cases "a = i")
    case True
    show ?thesis
      unfolding True by (rule sort_inner_least) (use assms ab True in \<open>auto simp: less_Suc_eq\<close>)
  next
    case False
    then have a: "a < i" using ab by simp
    have same: "?ys ! c = xs ! c" if "c < i" for c
      using that take_sort_inner [of i "i + 1" xs] by (metis less_add_one nth_take)
    show ?thesis
    proof (cases "b < i")
      case True
      with assms(1) a ab same show ?thesis by (simp add: sorted_upto_def)
    next
      case bi: False
      then obtain c where "c < length xs" "i \<le> c" "?ys ! b = xs ! c"
        using sort_inner_rest [of i xs b] assms(2) ab(3) by (auto simp: in_set_drop_nth)
      with assms(1) a same show ?thesis by (simp add: sorted_upto_def)
    qed
  qed
  then show ?thesis by (simp add: sorted_upto_def)
qed

lemma sorted_upto_outer: "sorted_upto i xs \<Longrightarrow> sorted_upto (length xs - 1) (sort_outer i xs)"
proof (induction i xs rule: sort_outer.induct)
  case (1 i xs)
  show ?case
  proof (cases "i < length xs - 1")
    case True
    with 1 sorted_upto_inner [OF 1(2) True] show ?thesis by (simp add: sort_outer.simps [of i xs])
  next
    case False
    with 1(2) show ?thesis by (simp add: sort_outer.simps [of i xs] sorted_upto_def)
  qed
qed

lemma sortCallbacks_correct:
  "mset (sortCallbacks xs) = mset xs \<and> sorted (map cb_Priority (sortCallbacks xs))"
proof -
  have "sorted_upto (length xs - 1) (sortCallbacks xs)"
    using sorted_upto_outer [of 0 xs] by (simp add: sortCallbacks_def sorted_upto_def)
  moreover have "length (sortCallbacks xs) = length xs"
    by (metis mset_sort_outer size_mset sortCallbacks_def)
  ultimately have "sorted (map cb_Priority (sortCallbacks xs))"
    by (auto simp: sorted_iff_nth_mono_less sorted_upto_def)
  then show ?thesis by (simp add: sortCallbacks_def mset_sort_outer)
qed

section \<open>The callbacks of a shutdown\<close>

definition run_inv :: "ShutdownHandler \<Rightarrow> shutdown_run \<Rightarrow> bool" where
  "run_inv h r \<longleftrightarrow>
     sh_stopped (sr_handler r) \<and> sh_done (sr_handler r) = (sr_end r \<noteq> None)
     \<and> mset (sr_begun r) = sr_running r + sr_finished r
     \<and> mset (sh_callbacks h) = sr_pending r + sr_running r + sr_finished r
     \<and> (sr_end r = Some Completed \<longrightarrow> sr_pending r = {#} \<and> sr_running r = {#})"

lemma Shutdown_start_inv:
  "Shutdown_start h = Some r \<Longrightarrow> \<not> sh_done h \<Longrightarrow> run_inv h r"
  using sortCallbacks_correct [of "sh_callbacks h"]
  by (auto simp: Shutdown_start_def run_inv_def split: if_splits)

lemma shutdown_step_inv: "shutdown_step r r' \<Longrightarrow> run_inv h r \<Longrightarrow> run_inv h r'"
proof (induction rule: shutdown_step.induct)
  case (begin_callback cb r)
  then have "sr_pending r = add_mset cb (sr_pending r - {#cb#})" by simp
  with begin_callback show ?case by (auto simp: run_inv_def)
next
  case (end_callback cb r)
  then have "sr_running r = add_mset cb (sr_running r - {#cb#})" by simp
  with end_callback show ?case by (auto simp: run_inv_def)
qed (auto simp: run_inv_def close_done_def)

interpretation shutdown_run: step_invariant shutdown_step "run_inv h" for h
  by unfold_locales (rule shutdown_step_inv)

lemmas shutdown_steps_inv = shutdown_run.steps_keep

lemma run_in_order:
  assumes "mset ys = sr_pending r" "sr_running r = {#}"
  shows "\<exists>r'. shutdown_steps r r' \<and> sr_begun r' = sr_begun r @ ys \<and> sr_pending r' = {#}
           \<and> sr_running r' = {#} \<and> sr_end r' = sr_end r"
  using assms
proof (induction ys arbitrary: r)
  case (Cons y ys)
  let ?r1 = "r\<lparr>sr_pending := sr_pending r - {#y#}, sr_running := add_mset y (sr_running r),
               sr_begun := sr_begun r @ [y]\<rparr>"
  let ?r2 = "?r1\<lparr>sr_running := sr_running ?r1 - {#y#}, sr_finished := add_mset y (sr_finished ?r1)\<rparr>"
  have "shutdown_step r ?r1"
    using Cons(2) by (intro shutdown_step.begin_callback) (metis list.set_intros(1) set_mset_mset)
  moreover have "shutdown_step ?r1 ?r2" by (rule shutdown_step.end_callback) simp
  ultimately have two: "shutdown_steps r ?r2" by (rule converse_rtranclp_into_rtranclp [OF _ r_into_rtranclp])
  have "mset ys = sr_pending ?r2" using Cons(2) by (simp add: add_mset_remove_trivial flip: Cons(2))
  moreover have "sr_running ?r2 = {#}" using Cons(3) by simp
  ultimately obtain r' where r': "shutdown_steps ?r2 r'" "sr_begun r' = sr_begun ?r2 @ ys"
    "sr_pending r' = {#}" "sr_running r' = {#}" "sr_end r' = sr_end ?r2"
    using Cons.IH [of ?r2] by blast
  have "shutdown_steps r r'" using two r'(1) by (rule rtranclp_trans)
  with r' show ?case by (intro exI [of _ r']) simp
qed (auto intro: exI [of _ r])

section \<open>Properties\<close>

text \<open>C24. A shutdown is started once and runs every registered callback at most once; if it reports
  completion, every registered callback ran to its end; the done channel is closed exactly when the call
  has ended; and a second call returns without doing anything.\<close>

theorem shutdown_runs_callbacks_once:
  assumes "Shutdown_start h = Some r0" "\<not> sh_done h" "shutdown_steps r0 r"
  shows "mset (sr_begun r) \<subseteq># mset (sh_callbacks h)
    \<and> (sr_end r = Some Completed \<longrightarrow> sr_finished r = mset (sh_callbacks h))
    \<and> (sh_done (sr_handler r) \<longleftrightarrow> sr_end r \<noteq> None)
    \<and> Shutdown_start (sr_handler r) = None"
proof -
  have inv: "run_inv h r"
    using shutdown_steps_inv [OF assms(3) Shutdown_start_inv [OF assms(1,2)]] .
  then have "mset (sr_begun r) \<subseteq># mset (sh_callbacks h)"
    by (simp add: run_inv_def)
  with inv show ?thesis by (auto simp: run_inv_def Shutdown_start_def)
qed

definition example_handler :: ShutdownHandler where
  "example_handler =
     Shutdown_Register (str ''db'') 200 1 (Shutdown_Register (str ''http'') 10 0
       (NewShutdownHandler Shutdown_DefaultConfig))"

theorem shutdown_runs_callbacks_once_witness:
  "\<exists>r0 r. Shutdown_start example_handler = Some r0 \<and> shutdown_steps r0 r
     \<and> sr_end r = Some Completed \<and> sr_finished r = mset (sh_callbacks example_handler)"
proof -
  obtain r0 where r0: "Shutdown_start example_handler = Some r0" "sr_running r0 = {#}" "sr_end r0 = None"
    by (simp add: Shutdown_start_def example_handler_def Shutdown_Register_def NewShutdownHandler_def)
  obtain ys where "mset ys = sr_pending r0" using ex_mset by blast
  then obtain r1 where r1: "shutdown_steps r0 r1" "sr_pending r1 = {#}" "sr_running r1 = {#}"
    "sr_end r1 = None"
    using run_in_order [of ys r0] r0 by auto
  let ?r = "close_done Completed r1"
  have steps: "shutdown_steps r0 ?r"
    using r1 by (auto intro: rtranclp.rtrancl_into_rtrancl shutdown_step.completed)
  have "\<not> sh_done example_handler"
    by (simp add: example_handler_def Shutdown_Register_def NewShutdownHandler_def)
  from shutdown_runs_callbacks_once [OF r0(1) this steps] r0 steps show ?thesis
    by (auto simp: close_done_def)
qed

text \<open>Priorities do not order the callbacks: they are sorted, but each runs in a goroutine of its own,
  so for every arrangement of the registered callbacks there is a run that begins them in that order and
  completes.\<close>

lemma callbacks_begin_in_any_order:
  assumes "Shutdown_start h = Some r0" "mset ys = mset (sh_callbacks h)"
  shows "sorted (map cb_Priority (sortCallbacks (sh_callbacks h)))
    \<and> (\<exists>r. shutdown_steps r0 r \<and> sr_begun r = ys \<and> sr_end r = Some Completed)"
proof -
  have r0: "sr_pending r0 = mset ys" "sr_running r0 = {#}" "sr_end r0 = None" "sr_begun r0 = []"
    using assms sortCallbacks_correct [of "sh_callbacks h"]
    by (auto simp: Shutdown_start_def split: if_splits)
  then obtain r where r: "shutdown_steps r0 r" "sr_begun r = ys" "sr_pending r = {#}" "sr_running r = {#}"
    "sr_end r = None"
    using run_in_order [of ys r0] by auto
  then have "shutdown_steps r0 (close_done Completed r)"
    by (auto intro: rtranclp.rtrancl_into_rtrancl shutdown_step.completed)
  moreover have "sr_begun (close_done Completed r) = ys" "sr_end (close_done Completed r) = Some Completed"
    using r by (simp_all add: close_done_def)
  ultimately show ?thesis using sortCallbacks_correct by blast
qed

lemma callbacks_begin_in_any_order_witness:
  "\<exists>r0 r. Shutdown_start example_handler = Some r0 \<and> shutdown_steps r0 r
     \<and> map cb_Priority (sr_begun r) = [200, 10] \<and> sr_end r = Some Completed"
proof -
  obtain r0 where r0: "Shutdown_start example_handler = Some r0"
    by (simp add: Shutdown_start_def example_handler_def Shutdown_Register_def NewShutdownHandler_def)
  have "mset (rev (sh_callbacks example_handler)) = mset (sh_callbacks example_handler)" by simp
  from callbacks_begin_in_any_order [OF r0 this] obtain r where
    r: "shutdown_steps r0 r" "sr_begun r = rev (sh_callbacks example_handler)" "sr_end r = Some Completed"
    by blast
  moreover have "map cb_Priority (rev (sh_callbacks example_handler)) = [200, 10]"
    by (simp add: example_handler_def Shutdown_Register_def NewShutdownHandler_def)
  ultimately show ?thesis using r0 by auto
qed

text \<open>The global \<^verbatim>\<open>Shutdown\<close> without a handler keeps the mutex: every later use of the package blocks.\<close>

lemma global_shutdown_keeps_mutex:
  "\<exists>g. Global_Shutdown global_start = Some (None, g) \<and> Global_Init cfg g = None
     \<and> Global_Register name priority fn g = None \<and> Global_Wait g = None
     \<and> Global_Shutdown g = None \<and> Global_IsShuttingDown g = None"
  by (simp add: Global_Shutdown_def global_start_def Global_Init_def Global_Register_def Global_Wait_def
      Global_IsShuttingDown_def)

end
