(* ===== verification/Tunnel_App.thy ===== *)
theory Tunnel_App
  imports Server_Lifecycle Health_Checks Graceful_Shutdown
begin

text \<open>
  The complete server of \<^verbatim>\<open>server/server.go\<close>: the QUIC tunnel server together with the health endpoints, a
  connection limiter and the global shutdown handler. It composes the models of these parts; the health
  HTTP server is the routing of its endpoints. Shown: starting registers the stop of the server with the
  shutdown handler, a shutdown stops it, and the health endpoint does not look at the server.
\<close>

section \<open>State\<close>

record AppServer_Config =
  ap_AuthToken :: gostr
  ap_MaxConnections :: int
  ap_MaxTunnels :: int
  ap_HealthAddr :: gostr
  ap_ShutdownTimeout :: int

definition App_DefaultConfig :: AppServer_Config where
  "App_DefaultConfig =
     \<lparr>ap_AuthToken = [], ap_MaxConnections = 10000, ap_MaxTunnels = 1000, ap_HealthAddr = str '':8080'',
      ap_ShutdownTimeout = 30 * second\<rparr>"

record App_Server =
  as_mux :: server_run
  as_health :: HealthHandler
  as_limiter :: ConnectionLimiter
  as_config :: AppServer_Config
  as_httpServer :: bool
  as_cancelled :: bool
  as_wg :: int

text \<open>The configuration of the QUIC server: what is not set has its zero value.\<close>

definition App_mux_config :: "AppServer_Config \<Rightarrow> MuxServerConfig" where
  "App_mux_config config =
     \<lparr>sc_EntryProtocols = \<lparr>ep_EnableHTTP3 = False, ep_EnableQUIC = False, ep_EnableTCPTLS = False, ep_QUICALPN = []\<rparr>,
      sc_AuthToken = ap_AuthToken config, sc_PortRangeStart = 10000, sc_PortRangeEnd = 20000,
      sc_MaxTunnels = ap_MaxTunnels config, sc_MaxConnsPerTunnel = 0, sc_TunnelTimeout = 300 * second,
      sc_ConnTimeout = 600 * second\<rparr>"

text \<open>The two checks that \<^verbatim>\<open>New\<close> registers are numbered 0 and 1; both report healthy, whatever the server does.\<close>

definition App_check :: "nat \<Rightarrow> int \<Rightarrow> CheckResult" where
  "App_check check now =
     (if check = 0 then PingCheck (str ''ping'') now
      else simple_result (str ''quic-server'') StatusHealthy [] now)"

definition App_New :: "AppServer_Config \<Rightarrow> App_Server" where
  "App_New config =
     \<lparr>as_mux = NewServerRun (App_mux_config config),
      as_health = Health_Register (str ''quic-server'') 1 [] (Health_Register (str ''ping'') 0 []
                    (NewHealthHandler (5 * second))),
      as_limiter = NewConnectionLimiter (ap_MaxConnections config), as_config = config,
      as_httpServer = False, as_cancelled = False, as_wg = 0\<rparr>"

section \<open>Operations\<close>

definition startHealthServer :: "App_Server \<Rightarrow> App_Server" where
  "startHealthServer a = a\<lparr>as_httpServer := True, as_wg := as_wg a + 1\<rparr>"

text \<open>\<^verbatim>\<open>Start\<close>: the callback it registers, numbered 7, is \<^verbatim>\<open>Stop\<close>. \<open>None\<close> in the second component: it stays blocked
  on the mutex of the global handler.\<close>

definition App_Start ::
  "start_env \<Rightarrow> gostr list option \<Rightarrow> App_Server \<Rightarrow> shutdown_global \<Rightarrow>
   (start_error option \<times> App_Server) \<times> shutdown_global option" where
  "App_Start v tls a g =
     (case MuxServer_Start v tls (as_mux a) of
        (Some e, r) \<Rightarrow> ((Some e, a\<lparr>as_mux := r\<rparr>), Some g)
      | (None, r) \<Rightarrow>
          let a1 = a\<lparr>as_mux := r\<rparr>;
              a2 = (if ap_HealthAddr (as_config a1) \<noteq> [] then startHealthServer a1 else a1)
          in ((None, a2), Global_RegisterFunc (str ''tunnel-server'') 7 g))"

text \<open>The routes of the health server, with the status code each answers.\<close>

definition health_route ::
  "int \<Rightarrow> int \<Rightarrow> check_env \<Rightarrow> Checker list \<Rightarrow> gostr \<Rightarrow> App_Server \<Rightarrow> nat option \<times> App_Server" where
  "health_route start now env order path a =
     (if path = str ''/health''
      then (case Health_ServeHTTP start now env order (as_health a) of (code, _, h) \<Rightarrow> (Some code, a\<lparr>as_health := h\<rparr>))
      else if path = str ''/livez'' then (Some (fst LivenessHandler), a)
      else if path = str ''/readyz''
      then (case ReadinessHandler start now env order (as_health a) of (code, _, h) \<Rightarrow> (Some code, a\<lparr>as_health := h\<rparr>))
      else if path \<in> {str ''/metrics'', str ''/circuit''} then (Some StatusOK, a)
      else (None, a))"

text \<open>\<^verbatim>\<open>Stop\<close>, up to the waits; \<open>as_httpServer\<close> says whether the HTTP server is running; \<open>ids\<close> is the order in which the tunnels are visited.\<close>

definition App_Stop :: "gostr list \<Rightarrow> App_Server \<Rightarrow> App_Server" where
  "App_Stop ids a =
     (let r = (with_server (MuxServer_Stop ids (ru_server (as_mux a))) (as_mux a))
                \<lparr>ru_listener := False, ru_tcpTLSListener := False\<rparr>;
          a1 = a\<lparr>as_cancelled := True, as_mux := r\<rparr>
      in if as_httpServer a1 then a1\<lparr>as_httpServer := False, as_wg := as_wg a1 - 1\<rparr> else a1)"

definition App_GetStats :: "App_Server \<Rightarrow> ServerStats" where
  "App_GetStats a = MuxServer_GetStats (ru_server (as_mux a))"

definition App_AcquireConnection :: "App_Server \<Rightarrow> lim_error option \<times> App_Server" where
  "App_AcquireConnection a =
     (case ConnectionLimiter_Acquire (as_limiter a) of (e, l) \<Rightarrow> (e, a\<lparr>as_limiter := l\<rparr>))"

definition App_ReleaseConnection :: "App_Server \<Rightarrow> App_Server" where
  "App_ReleaseConnection a = a\<lparr>as_limiter := ConnectionLimiter_Release (as_limiter a)\<rparr>"

section \<open>Lemmas\<close>

lemma checkers_New:
  "ran (hh_checkers (as_health (App_New config))) \<subseteq> {c. ck_Check c \<in> {0, 1}}"
  by (auto simp: App_New_def Health_Register_def NewHealthHandler_def ran_def)

text \<open>The health endpoint answers 200 as long as the checks are run in time: it says nothing about the
  server, which may never have been started, may refuse every connection or be stopped.\<close>

lemma health_ignores_the_server:
  assumes "as_health a = as_health (App_New config)" "is_run_of order (as_health a)"
    and "\<forall>c \<in> set order. snd (env c) = Some (App_check (ck_Check c) (fst (env c)))"
  shows "fst (health_route start now env order (str ''/health'') (App_Stop ids a)) = Some StatusOK"
proof -
  have "cr_Status (outcome_of start env c) = StatusHealthy" if "c \<in> set order" for c
    using assms(3) that
    by (auto simp: outcome_of_def check_result_def App_check_def PingCheck_def simple_result_def Let_def)
  moreover have "StatusHealthy \<noteq> StatusUnhealthy" "StatusHealthy \<noteq> StatusDegraded"
    by (simp_all add: StatusHealthy_def StatusUnhealthy_def StatusDegraded_def str_def)
  ultimately have "overall StatusHealthy (map (outcome_of start env) order) = StatusHealthy"
    by (auto simp: overall_worst worst_def)
  moreover have "as_health (App_Stop ids a) = as_health a" by (simp add: App_Stop_def Let_def)
  ultimately show ?thesis
    by (simp add: health_route_def Health_ServeHTTP_def RunChecks_def run_all_eq case_prod_beta
        StatusHealthy_def StatusUnhealthy_def str_def)
qed

text \<open>Once started, a shutdown of the process stops the server: its callback is among those the shutdown
  handler runs, and running it leaves the QUIC server stopped.\<close>

lemma shutdown_stops_the_server:
  assumes "App_Start v tls a g = ((None, a'), Some g')" "sg_handler g' = Some h" "\<not> sh_stopped h"
  shows "\<exists>r g''. Global_Shutdown g' = Some (Some r, g'')
      \<and> \<lparr>cb_Name = str ''tunnel-server'', cb_Priority = 100, cb_Func = 7\<rparr> \<in># sr_pending r"
    and "sv_stopped (ru_server (as_mux (App_Stop ids a')))"
proof -
  have cb: "\<lparr>cb_Name = str ''tunnel-server'', cb_Priority = 100, cb_Func = 7\<rparr> \<in> set (sh_callbacks h)"
      "\<not> sg_locked g'"
    using assms
    by (auto simp: App_Start_def Global_RegisterFunc_def Global_Register_def Shutdown_Register_def Let_def
        split: prod.splits option.splits if_splits)
  then show "\<exists>r g''. Global_Shutdown g' = Some (Some r, g'')
      \<and> \<lparr>cb_Name = str ''tunnel-server'', cb_Priority = 100, cb_Func = 7\<rparr> \<in># sr_pending r"
    using assms(2,3) sortCallbacks_correct [of "sh_callbacks h"]
    by (auto simp: Global_Shutdown_def Shutdown_start_def)
  show "sv_stopped (ru_server (as_mux (App_Stop ids a')))"
    by (simp add: App_Stop_def Let_def stopped_Stop)
qed

end
