(* ===== verification/Auto_TLS.thy ===== *)
theory Auto_TLS
  imports Go_Prelude
begin

text \<open>
  Automatic certificates, \<^verbatim>\<open>tls/auto.go\<close>, and the DNS providers of \<^verbatim>\<open>tls/dns_provider.go\<close>. The certificate
  library (issuing, renewing, caching) is not part of the program: what it answers is an argument, and its
  three addresses of certificate authorities are parameters. Shown: the issuer always uses the authority of
  the manager, which domains are managed after any additions and removals, how far a renewal gets, and
  that no provider made from the environment can change a record.
\<close>

section \<open>The manager\<close>

record ca_urls =
  ca_staging :: gostr
  ca_production :: gostr
  ca_zeroSSL :: gostr

record AutoManagerConfig =
  am_Email :: gostr
  am_CA :: gostr
  am_UseDNS01 :: bool
  am_DNSProvider :: "nat option"
  am_Storage :: "nat option"
  am_HTTPPort :: int
  am_TLSPort :: int
  am_AgreeTerms :: bool
  am_Staging :: bool

datatype cert_storage = CustomStorage nat | FileStorage gostr

text \<open>The manager with what matters of its issuer: authority and DNS solver.\<close>

record AutoManager =
  mg_domains :: "gostr list"
  mg_email :: gostr
  mg_ca :: gostr
  mg_dns01 :: bool
  mg_httpPort :: int
  mg_tlsPort :: int
  mg_dnsProvider :: "nat option"
  mg_storage :: cert_storage
  mg_issuerCA :: gostr
  mg_issuerAgreed :: bool
  mg_issuerDNS01 :: "nat option"

text \<open>The data directory, given two environment variables (the home directory may be unknown).\<close>

definition getDataDir :: "gostr \<Rightarrow> gostr option \<Rightarrow> gostr" where
  "getDataDir xdg home =
     (if xdg \<noteq> [] then xdg @ str ''/go-tunnel/certs''
      else case home of
             Some dir \<Rightarrow> dir @ str ''/.local/share/go-tunnel/certs''
           | None \<Rightarrow> str ''/tmp/go-tunnel/certs'')"

definition choose_ca :: "ca_urls \<Rightarrow> AutoManagerConfig \<Rightarrow> gostr" where
  "choose_ca urls cfg =
     (if am_Staging cfg then ca_staging urls else if am_CA cfg \<noteq> [] then am_CA cfg else ca_production urls)"

definition NewAutoManager :: "ca_urls \<Rightarrow> gostr \<Rightarrow> AutoManagerConfig \<Rightarrow> AutoManager" where
  "NewAutoManager urls dataDir cfg =
     \<lparr>mg_domains = [], mg_email = am_Email cfg, mg_ca = choose_ca urls cfg, mg_dns01 = am_UseDNS01 cfg,
      mg_httpPort = (if am_HTTPPort cfg = 0 then 80 else am_HTTPPort cfg),
      mg_tlsPort = (if am_TLSPort cfg = 0 then 443 else am_TLSPort cfg),
      mg_dnsProvider = None,
      mg_storage = (case am_Storage cfg of Some s \<Rightarrow> CustomStorage s | None \<Rightarrow> FileStorage dataDir),
      mg_issuerCA = choose_ca urls cfg, mg_issuerAgreed = am_AgreeTerms cfg,
      mg_issuerDNS01 = (if am_UseDNS01 cfg then am_DNSProvider cfg else None)\<rparr>"

text \<open>\<^verbatim>\<open>AddDomains\<close>, given whether the library can manage them; the result says whether it succeeded.\<close>

definition AddDomains :: "bool \<Rightarrow> gostr list \<Rightarrow> AutoManager \<Rightarrow> bool \<times> AutoManager" where
  "AddDomains managed domains m = (managed, m\<lparr>mg_domains := mg_domains m @ domains\<rparr>)"

definition RemoveDomains :: "gostr list \<Rightarrow> AutoManager \<Rightarrow> AutoManager" where
  "RemoveDomains domains m = m\<lparr>mg_domains := filter (\<lambda>d. d \<notin> set domains) (mg_domains m)\<rparr>"

text \<open>\<^verbatim>\<open>RenewAll\<close>, given which renewals succeed: the domains for which the library was called, and the domain that
  failed.\<close>

fun RenewAll_loop :: "(gostr \<Rightarrow> bool) \<Rightarrow> gostr list \<Rightarrow> gostr list \<times> gostr option" where
  "RenewAll_loop renews [] = ([], None)"
| "RenewAll_loop renews (d # ds) =
     (if renews d then (case RenewAll_loop renews ds of (called, e) \<Rightarrow> (d # called, e)) else ([d], Some d))"

definition RenewAll :: "(gostr \<Rightarrow> bool) \<Rightarrow> AutoManager \<Rightarrow> gostr list \<times> gostr option" where
  "RenewAll renews m = RenewAll_loop renews (mg_domains m)"

datatype revoke_error = CertificateMissing | RevokeRefused

definition Revoke :: "bool \<Rightarrow> bool \<Rightarrow> revoke_error option" where
  "Revoke cached revoked =
     (if \<not> cached then Some CertificateMissing else if revoked then None else Some RevokeRefused)"

record CertStatus =
  st_Domain :: gostr
  st_Valid :: bool
  st_NotBefore :: gostr
  st_NotAfter :: gostr
  st_Issuer :: gostr
  st_Message :: gostr

text \<open>The status of a domain: the library gives an error text or the dates and the issuer.\<close>

definition cert_status :: "gostr \<Rightarrow> gostr + (gostr \<times> gostr \<times> gostr) \<Rightarrow> CertStatus" where
  "cert_status d r =
     (case r of
        Inl e \<Rightarrow> \<lparr>st_Domain = d, st_Valid = False, st_NotBefore = [], st_NotAfter = [], st_Issuer = [], st_Message = e\<rparr>
      | Inr (nb, na, iss) \<Rightarrow>
          \<lparr>st_Domain = d, st_Valid = True, st_NotBefore = nb, st_NotAfter = na, st_Issuer = iss, st_Message = []\<rparr>)"

definition CacheStatus ::
  "(gostr \<Rightarrow> gostr + (gostr \<times> gostr \<times> gostr)) \<Rightarrow> AutoManager \<Rightarrow> (gostr \<rightharpoonup> CertStatus)" where
  "CacheStatus cached m = fold (\<lambda>d s. s(d \<mapsto> cert_status d (cached d))) (mg_domains m) Map.empty"

definition SetStorage :: "nat \<Rightarrow> AutoManager \<Rightarrow> AutoManager" where
  "SetStorage s m = m\<lparr>mg_storage := CustomStorage s\<rparr>"

definition SetDNSProvider :: "nat \<Rightarrow> AutoManager \<Rightarrow> AutoManager" where
  "SetDNSProvider p m = m\<lparr>mg_dnsProvider := Some p, mg_issuerDNS01 := Some p\<rparr>"

definition SetHTTPPort :: "int \<Rightarrow> AutoManager \<Rightarrow> AutoManager" where
  "SetHTTPPort port m = m\<lparr>mg_httpPort := port\<rparr>"

definition SetTLSPort :: "int \<Rightarrow> AutoManager \<Rightarrow> AutoManager" where
  "SetTLSPort port m = m\<lparr>mg_tlsPort := port\<rparr>"

definition UseStaging :: "ca_urls \<Rightarrow> AutoManager \<Rightarrow> AutoManager" where
  "UseStaging urls m = m\<lparr>mg_ca := ca_staging urls, mg_issuerCA := ca_staging urls\<rparr>"

definition UseProduction :: "ca_urls \<Rightarrow> AutoManager \<Rightarrow> AutoManager" where
  "UseProduction urls m = m\<lparr>mg_ca := ca_production urls, mg_issuerCA := ca_production urls\<rparr>"

definition UseZeroSSL :: "ca_urls \<Rightarrow> AutoManager \<Rightarrow> AutoManager" where
  "UseZeroSSL urls m = m\<lparr>mg_ca := ca_zeroSSL urls, mg_issuerCA := ca_zeroSSL urls\<rparr>"

definition DefaultAutoManager :: "ca_urls \<Rightarrow> gostr \<Rightarrow> gostr \<Rightarrow> AutoManager" where
  "DefaultAutoManager urls dataDir email =
     NewAutoManager urls dataDir
       \<lparr>am_Email = email, am_CA = [], am_UseDNS01 = False, am_DNSProvider = None, am_Storage = None,
        am_HTTPPort = 0, am_TLSPort = 0, am_AgreeTerms = True, am_Staging = False\<rparr>"

definition QuickSetup :: "ca_urls \<Rightarrow> gostr \<Rightarrow> gostr \<Rightarrow> bool \<Rightarrow> gostr list \<Rightarrow> AutoManager option" where
  "QuickSetup urls dataDir email managed domains =
     (case AddDomains managed domains (DefaultAutoManager urls dataDir email) of
        (ok, m) \<Rightarrow> if ok then Some m else None)"

section \<open>DNS providers\<close>

datatype dns_provider = Cloudflare gostr | Alidns gostr gostr | Route53 gostr gostr gostr

datatype dns_error = UseLibdns gostr | UnsupportedProvider gostr | NoCredentials

text \<open>By name, every known provider is refused with a hint; no name gives no provider.\<close>

definition NewDNSProvider :: "gostr \<Rightarrow> (dns_error, dns_provider option) go_result" where
  "NewDNSProvider provider =
     (if provider \<in> {str ''cloudflare'', str ''alidns'', str ''route53'', str ''digitalocean'', str ''godaddy''}
      then Err (UseLibdns provider)
      else if provider = [] then Ret None else Err (UnsupportedProvider provider))"

text \<open>From the environment, given its variables (empty when unset).\<close>

definition DNSProviderFromEnv :: "(gostr \<Rightarrow> gostr) \<Rightarrow> (dns_error, dns_provider) go_result" where
  "DNSProviderFromEnv env =
     (if env (str ''CLOUDFLARE_API_TOKEN'') \<noteq> [] then Ret (Cloudflare (env (str ''CLOUDFLARE_API_TOKEN'')))
      else if env (str ''ALIDNS_ACCESS_KEY_ID'') \<noteq> []
      then Ret (Alidns (env (str ''ALIDNS_ACCESS_KEY_ID'')) (env (str ''ALIDNS_ACCESS_KEY_SECRET'')))
      else if env (str ''AWS_ACCESS_KEY_ID'') \<noteq> []
      then Ret (Route53 (env (str ''AWS_ACCESS_KEY_ID'')) (env (str ''AWS_SECRET_ACCESS_KEY''))
                  (if env (str ''AWS_REGION'') = [] then str ''us-east-1'' else env (str ''AWS_REGION'')))
      else Err NoCredentials)"

fun provider_package :: "dns_provider \<Rightarrow> gostr" where
  "provider_package (Cloudflare t) = str ''cloudflare''"
| "provider_package (Alidns i s) = str ''alidns''"
| "provider_package (Route53 i s r) = str ''route53''"

text \<open>Appending and deleting records fails for every provider.\<close>

definition AppendRecords :: "dns_provider \<Rightarrow> 'r list \<Rightarrow> (dns_error, 'r list) go_result" where
  "AppendRecords p records = Err (UseLibdns (provider_package p))"

definition DeleteRecords :: "dns_provider \<Rightarrow> 'r list \<Rightarrow> (dns_error, 'r list) go_result" where
  "DeleteRecords p records = Err (UseLibdns (provider_package p))"

text \<open>The provider for tests: records by zone; deleting clears the zone.\<close>

definition Mock_GetRecords :: "gostr \<Rightarrow> (gostr \<rightharpoonup> 'r list) \<Rightarrow> 'r list" where
  "Mock_GetRecords zone p = (case p zone of None \<Rightarrow> [] | Some rs \<Rightarrow> rs)"

definition Mock_AppendRecords :: "gostr \<Rightarrow> 'r list \<Rightarrow> (gostr \<rightharpoonup> 'r list) \<Rightarrow> (gostr \<rightharpoonup> 'r list)" where
  "Mock_AppendRecords zone records p = p(zone \<mapsto> Mock_GetRecords zone p @ records)"

definition Mock_DeleteRecords :: "gostr \<Rightarrow> 'r list \<Rightarrow> (gostr \<rightharpoonup> 'r list) \<Rightarrow> (gostr \<rightharpoonup> 'r list)" where
  "Mock_DeleteRecords zone records p = p(zone := None)"

section \<open>Operations in sequence\<close>

datatype tls_op = OpAdd bool "gostr list" | OpRemove "gostr list" | OpStorage nat | OpDNS nat
  | OpHTTPPort int | OpTLSPort int | OpStaging | OpProduction | OpZeroSSL

fun tls_apply :: "ca_urls \<Rightarrow> tls_op \<Rightarrow> AutoManager \<Rightarrow> AutoManager" where
  "tls_apply urls (OpAdd ok ds) m = snd (AddDomains ok ds m)"
| "tls_apply urls (OpRemove ds) m = RemoveDomains ds m"
| "tls_apply urls (OpStorage s) m = SetStorage s m"
| "tls_apply urls (OpDNS p) m = SetDNSProvider p m"
| "tls_apply urls (OpHTTPPort n) m = SetHTTPPort n m"
| "tls_apply urls (OpTLSPort n) m = SetTLSPort n m"
| "tls_apply urls OpStaging m = UseStaging urls m"
| "tls_apply urls OpProduction m = UseProduction urls m"
| "tls_apply urls OpZeroSSL m = UseZeroSSL urls m"

text \<open>Whether a domain is managed after a sequence of operations: the last one that names it decides.\<close>

fun managed_after :: "gostr \<Rightarrow> tls_op list \<Rightarrow> bool \<Rightarrow> bool" where
  "managed_after d [] b = b"
| "managed_after d (OpAdd ok ds # ops) b = managed_after d ops (b \<or> d \<in> set ds)"
| "managed_after d (OpRemove ds # ops) b = managed_after d ops (b \<and> d \<notin> set ds)"
| "managed_after d (_ # ops) b = managed_after d ops b"

lemma tls_ops_managed:
  "d \<in> set (mg_domains (fold (tls_apply urls) ops m)) \<longleftrightarrow> managed_after d ops (d \<in> set (mg_domains m))"
proof (induction ops arbitrary: m)
  case (Cons op ops)
  show ?case
    by (cases op) (simp_all add: Cons.IH AddDomains_def RemoveDomains_def SetStorage_def SetDNSProvider_def
      SetHTTPPort_def SetTLSPort_def UseStaging_def UseProduction_def UseZeroSSL_def)
qed simp

lemma tls_ops_issuer: "mg_issuerCA m = mg_ca m \<Longrightarrow>
  mg_issuerCA (fold (tls_apply urls) ops m) = mg_ca (fold (tls_apply urls) ops m)"
proof (induction ops arbitrary: m)
  case (Cons op ops)
  then show ?case
    by (cases op) (simp_all add: AddDomains_def RemoveDomains_def SetStorage_def SetDNSProvider_def
      SetHTTPPort_def SetTLSPort_def UseStaging_def UseProduction_def UseZeroSSL_def)
qed simp

lemma CacheStatus_managed:
  "CacheStatus cached m d = (if d \<in> set (mg_domains m) then Some (cert_status d (cached d)) else None)"
proof -
  have "fold (\<lambda>d s. s(d \<mapsto> cert_status d (cached d))) ds f d
      = (if d \<in> set ds then Some (cert_status d (cached d)) else f d)" for ds f
    by (induction ds arbitrary: f) auto
  then show ?thesis by (simp add: CacheStatus_def)
qed

lemma RenewAll_calls:
  "RenewAll_loop renews ds = (called, e) \<Longrightarrow>
     (case e of None \<Rightarrow> called = ds \<and> (\<forall>d \<in> set ds. renews d)
      | Some d \<Rightarrow> \<not> renews d \<and> (\<exists>before after. ds = before @ d # after \<and> called = before @ [d] \<and> (\<forall>x \<in> set before. renews x)))"
proof (induction ds arbitrary: called)
  case (Cons d ds)
  show ?case
  proof (cases "renews d")
    case True
    then obtain called' where "RenewAll_loop renews ds = (called', e)" "called = d # called'"
      using Cons.prems by (auto split: prod.splits)
    with Cons.IH [of called'] True show ?thesis by (force split: option.splits intro: exI [of _ "d # _"])
  qed (use Cons.prems in \<open>auto intro: exI [of _ "[]"]\<close>)
qed auto

lemma env_providers_cannot_change_records:
  "DNSProviderFromEnv env = Ret p \<Longrightarrow> \<exists>e. AppendRecords p rs = Err e \<and> (\<exists>e'. DeleteRecords p rs = Err e')"
  by (simp add: AppendRecords_def DeleteRecords_def)

text \<open>Over any sequence of operations on a new manager: the issuer asks the authority the manager was last
  switched to, staging taking precedence over a configured one; a domain is managed exactly if the last
  operation that names it added it, whether or not the library could manage it; the status table lists
  exactly the managed domains; and a renewal asks for each of them in order up to the first that fails.\<close>

lemma auto_tls_manages_domains:
  assumes "m = fold (tls_apply urls) ops (NewAutoManager urls dir cfg)"
  shows "mg_issuerCA m = mg_ca m
    \<and> (d \<in> set (mg_domains m) \<longleftrightarrow> managed_after d ops False)
    \<and> (CacheStatus cached m d \<noteq> None \<longleftrightarrow> managed_after d ops False)
    \<and> (\<forall>called. RenewAll renews m = (called, None) \<longrightarrow> called = mg_domains m)
    \<and> (\<forall>called e. RenewAll renews m = (called, Some e) \<longrightarrow> \<not> renews e \<and> (\<exists>after. mg_domains m = called @ after))"
proof -
  have new: "mg_issuerCA (NewAutoManager urls dir cfg) = mg_ca (NewAutoManager urls dir cfg)"
      "mg_domains (NewAutoManager urls dir cfg) = []" by (simp_all add: NewAutoManager_def)
  have renew: "\<not> renews e \<and> (\<exists>after. mg_domains m = called @ after)" if "RenewAll renews m = (called, Some e)" for called e
    using RenewAll_calls [of renews "mg_domains m" called "Some e"] that by (auto simp: RenewAll_def)
  have "called = mg_domains m" if "RenewAll renews m = (called, None)" for called
    using RenewAll_calls [of renews "mg_domains m" called None] that by (simp add: RenewAll_def)
  with renew show ?thesis
    using tls_ops_issuer [OF new(1), of urls ops] tls_ops_managed [of d urls ops "NewAutoManager urls dir cfg"] assms new(2)
    by (simp add: CacheStatus_managed)
qed

end
