(* ===== verification/Metrics.thy ===== *)
theory Metrics
  imports Go_Prelude Complex_Main
begin

text \<open>
  The metrics collector, \<^verbatim>\<open>internal/metrics/metrics.go\<close>. The metrics themselves belong to the Prometheus client
  library: the model keeps which metrics a collector creates, under which names, and which calls each
  operation makes on them, in order; what registering a name gives is an argument, and creating a metric
  whose name is refused panics, as the library documents. Shown: the names of a collector are distinct, every
  operation is total whatever is enabled, and what each metric receives.
\<close>

section \<open>Metrics\<close>

datatype metric = M_connectionsTotal | M_errorsTotal | M_connectionsActive | M_bytesSent
  | M_bytesReceived | M_connectionDuration | M_forwardLatency | M_poolConnectionsActive
  | M_poolConnectionsTotal | M_poolConnectionsCreated | M_poolConnectionsReused | M_poolConnectionsClosed
  | M_poolWaitDuration | M_backpressurePauses | M_backpressureYieldTime

datatype metric_kind = Counter | Gauge | Histogram

text \<open>Subsystem suffix and name of each metric, as \<^verbatim>\<open>NewCollector\<close> passes them to the library, and its kind.\<close>

fun metric_name :: "metric \<Rightarrow> gostr \<times> gostr" where
  "metric_name M_connectionsTotal = (str '''', str ''connections_total'')"
| "metric_name M_errorsTotal = (str '''', str ''errors_total'')"
| "metric_name M_connectionsActive = (str '''', str ''connections_active'')"
| "metric_name M_bytesSent = (str '''', str ''bytes_sent_total'')"
| "metric_name M_bytesReceived = (str '''', str ''bytes_received_total'')"
| "metric_name M_connectionDuration = (str '''', str ''connection_duration_seconds'')"
| "metric_name M_forwardLatency = (str '''', str ''forward_latency_seconds'')"
| "metric_name M_poolConnectionsActive = (str ''_pool'', str ''connections_active'')"
| "metric_name M_poolConnectionsTotal = (str ''_pool'', str ''connections_total'')"
| "metric_name M_poolConnectionsCreated = (str ''_pool'', str ''connections_created_total'')"
| "metric_name M_poolConnectionsReused = (str ''_pool'', str ''connections_reused_total'')"
| "metric_name M_poolConnectionsClosed = (str ''_pool'', str ''connections_closed_total'')"
| "metric_name M_poolWaitDuration = (str ''_pool'', str ''wait_duration_seconds'')"
| "metric_name M_backpressurePauses = (str ''_backpressure'', str ''pauses_total'')"
| "metric_name M_backpressureYieldTime = (str ''_backpressure'', str ''yield_time_seconds_total'')"

fun metric_kind_of :: "metric \<Rightarrow> metric_kind" where
  "metric_kind_of M_connectionsTotal = Counter"
| "metric_kind_of M_errorsTotal = Counter"
| "metric_kind_of M_connectionsActive = Gauge"
| "metric_kind_of M_bytesSent = Counter"
| "metric_kind_of M_bytesReceived = Counter"
| "metric_kind_of M_connectionDuration = Histogram"
| "metric_kind_of M_forwardLatency = Histogram"
| "metric_kind_of M_poolConnectionsActive = Gauge"
| "metric_kind_of M_poolConnectionsTotal = Counter"
| "metric_kind_of M_poolConnectionsCreated = Counter"
| "metric_kind_of M_poolConnectionsReused = Counter"
| "metric_kind_of M_poolConnectionsClosed = Counter"
| "metric_kind_of M_poolWaitDuration = Histogram"
| "metric_kind_of M_backpressurePauses = Counter"
| "metric_kind_of M_backpressureYieldTime = Counter"

record Metrics_Config =
  mc_Namespace :: gostr
  mc_Subsystem :: gostr
  mc_EnableConnectionDuration :: bool
  mc_EnableForwardLatency :: bool
  mc_EnablePoolMetrics :: bool
  mc_EnableBackpressureMetrics :: bool

text \<open>Namespace, subsystem and name identify a metric with the library.\<close>

type_synonym metric_id = "gostr \<times> gostr \<times> gostr"

definition metric_id_of :: "Metrics_Config \<Rightarrow> metric \<Rightarrow> metric_id" where
  "metric_id_of cfg m = (mc_Namespace cfg, mc_Subsystem cfg @ fst (metric_name m), snd (metric_name m))"

text \<open>The metrics a configuration asks for, in the order of their creation.\<close>

definition enabled_metrics :: "Metrics_Config \<Rightarrow> metric list" where
  "enabled_metrics cfg =
     [M_connectionsTotal, M_errorsTotal, M_connectionsActive, M_bytesSent, M_bytesReceived]
     @ (if mc_EnableConnectionDuration cfg then [M_connectionDuration] else [])
     @ (if mc_EnableForwardLatency cfg then [M_forwardLatency] else [])
     @ (if mc_EnablePoolMetrics cfg
        then [M_poolConnectionsActive, M_poolConnectionsTotal, M_poolConnectionsCreated, M_poolConnectionsReused,
              M_poolConnectionsClosed, M_poolWaitDuration] else [])
     @ (if mc_EnableBackpressureMetrics cfg then [M_backpressurePauses, M_backpressureYieldTime] else [])"

text \<open>A call on a metric of the library; values are rational numbers for the floating-point ones.\<close>

datatype metric_call = Inc | Dec | Add rat | Set rat | Observe rat

record Collector =
  co_namespace :: gostr
  co_metrics :: "metric set"
  co_calls :: "(metric \<times> metric_call) list"

section \<open>Creation\<close>

text \<open>Creating metrics one after the other at a registry, given as the function that registers a name; \<open>None\<close>
  is the panic of the library on a refused name.\<close>

fun create_metrics :: "(metric_id \<Rightarrow> 'reg \<Rightarrow> 'reg option) \<Rightarrow> Metrics_Config \<Rightarrow> metric list \<Rightarrow> 'reg \<Rightarrow> 'reg option" where
  "create_metrics register cfg [] reg = Some reg"
| "create_metrics register cfg (m # ms) reg =
     (case register (metric_id_of cfg m) reg of
        None \<Rightarrow> None
      | Some reg1 \<Rightarrow> create_metrics register cfg ms reg1)"

definition NewCollector ::
  "(metric_id \<Rightarrow> 'reg \<Rightarrow> 'reg option) \<Rightarrow> Metrics_Config \<Rightarrow> 'reg \<Rightarrow> (Collector \<times> 'reg) option" where
  "NewCollector register config reg =
     (let cfg = (if mc_Namespace config = [] then config\<lparr>mc_Namespace := str ''go_tunnel''\<rparr> else config)
      in map_option (\<lambda>r. (\<lparr>co_namespace = mc_Namespace cfg, co_metrics = set (enabled_metrics cfg), co_calls = []\<rparr>, r))
           (create_metrics register cfg (enabled_metrics cfg) reg))"

definition DefaultCollector ::
  "(metric_id \<Rightarrow> 'reg \<Rightarrow> 'reg option) \<Rightarrow> gostr \<Rightarrow> 'reg \<Rightarrow> (Collector \<times> 'reg) option" where
  "DefaultCollector register namespace reg =
     NewCollector register
       \<lparr>mc_Namespace = namespace, mc_Subsystem = [], mc_EnableConnectionDuration = True, mc_EnableForwardLatency = True,
        mc_EnablePoolMetrics = True, mc_EnableBackpressureMetrics = True\<rparr> reg"

section \<open>Operations\<close>

text \<open>A call on a metric field; on a field that is nil it is a nil dereference (\<open>None\<close>). The operations on
  optional metrics check the field first.\<close>

definition call_metric :: "metric \<Rightarrow> metric_call \<Rightarrow> Collector \<Rightarrow> Collector option" where
  "call_metric m k c = (if m \<in> co_metrics c then Some (c\<lparr>co_calls := co_calls c @ [(m, k)]\<rparr>) else None)"

definition call_optional :: "metric \<Rightarrow> metric_call \<Rightarrow> Collector \<Rightarrow> Collector option" where
  "call_optional m k c = (if m \<in> co_metrics c then call_metric m k c else Some c)"

definition IncConnections :: "Collector \<Rightarrow> Collector option" where
  "IncConnections = call_metric M_connectionsTotal Inc"

definition IncConnectionsBy :: "rat \<Rightarrow> Collector \<Rightarrow> Collector option" where
  "IncConnectionsBy n = call_metric M_connectionsTotal (Add n)"

definition IncActive :: "Collector \<Rightarrow> Collector option" where
  "IncActive = call_metric M_connectionsActive Inc"

definition DecActive :: "Collector \<Rightarrow> Collector option" where
  "DecActive = call_metric M_connectionsActive Dec"

definition SetActive :: "rat \<Rightarrow> Collector \<Rightarrow> Collector option" where
  "SetActive n = call_metric M_connectionsActive (Set n)"

definition AddBytesSent :: "rat \<Rightarrow> Collector \<Rightarrow> Collector option" where
  "AddBytesSent n = call_metric M_bytesSent (Add n)"

definition AddBytesReceived :: "rat \<Rightarrow> Collector \<Rightarrow> Collector option" where
  "AddBytesReceived n = call_metric M_bytesReceived (Add n)"

definition IncErrors :: "Collector \<Rightarrow> Collector option" where
  "IncErrors = call_metric M_errorsTotal Inc"

definition IncErrorsBy :: "rat \<Rightarrow> Collector \<Rightarrow> Collector option" where
  "IncErrorsBy n = call_metric M_errorsTotal (Add n)"

definition ObserveConnectionDuration :: "rat \<Rightarrow> Collector \<Rightarrow> Collector option" where
  "ObserveConnectionDuration seconds = call_optional M_connectionDuration (Observe seconds)"

definition ObserveForwardLatency :: "rat \<Rightarrow> Collector \<Rightarrow> Collector option" where
  "ObserveForwardLatency seconds = call_optional M_forwardLatency (Observe seconds)"

definition SetPoolActive :: "rat \<Rightarrow> Collector \<Rightarrow> Collector option" where
  "SetPoolActive n = call_optional M_poolConnectionsActive (Set n)"

definition IncPoolCreated :: "Collector \<Rightarrow> Collector option" where
  "IncPoolCreated = call_optional M_poolConnectionsCreated Inc"

definition IncPoolReused :: "Collector \<Rightarrow> Collector option" where
  "IncPoolReused = call_optional M_poolConnectionsReused Inc"

definition IncPoolClosed :: "Collector \<Rightarrow> Collector option" where
  "IncPoolClosed = call_optional M_poolConnectionsClosed Inc"

definition ObservePoolWait :: "rat \<Rightarrow> Collector \<Rightarrow> Collector option" where
  "ObservePoolWait seconds = call_optional M_poolWaitDuration (Observe seconds)"

definition IncBackpressurePauses :: "Collector \<Rightarrow> Collector option" where
  "IncBackpressurePauses = call_optional M_backpressurePauses Inc"

definition AddBackpressureYieldTime :: "rat \<Rightarrow> Collector \<Rightarrow> Collector option" where
  "AddBackpressureYieldTime seconds = call_optional M_backpressureYieldTime (Add seconds)"

text \<open>The operations as data, to speak of sequences of them.\<close>

datatype metric_op = OpIncConnections
  | OpIncConnectionsBy rat
  | OpIncActive
  | OpDecActive
  | OpSetActive rat
  | OpAddBytesSent rat
  | OpAddBytesReceived rat
  | OpIncErrors
  | OpIncErrorsBy rat
  | OpObserveConnectionDuration rat
  | OpObserveForwardLatency rat
  | OpSetPoolActive rat
  | OpIncPoolCreated
  | OpIncPoolReused
  | OpIncPoolClosed
  | OpObservePoolWait rat
  | OpIncBackpressurePauses
  | OpAddBackpressureYieldTime rat

fun apply_op :: "metric_op \<Rightarrow> Collector \<Rightarrow> Collector option" where
  "apply_op OpIncConnections c = IncConnections c"
| "apply_op (OpIncConnectionsBy n) c = IncConnectionsBy n c"
| "apply_op OpIncActive c = IncActive c"
| "apply_op OpDecActive c = DecActive c"
| "apply_op (OpSetActive n) c = SetActive n c"
| "apply_op (OpAddBytesSent n) c = AddBytesSent n c"
| "apply_op (OpAddBytesReceived n) c = AddBytesReceived n c"
| "apply_op OpIncErrors c = IncErrors c"
| "apply_op (OpIncErrorsBy n) c = IncErrorsBy n c"
| "apply_op (OpObserveConnectionDuration seconds) c = ObserveConnectionDuration seconds c"
| "apply_op (OpObserveForwardLatency seconds) c = ObserveForwardLatency seconds c"
| "apply_op (OpSetPoolActive n) c = SetPoolActive n c"
| "apply_op OpIncPoolCreated c = IncPoolCreated c"
| "apply_op OpIncPoolReused c = IncPoolReused c"
| "apply_op OpIncPoolClosed c = IncPoolClosed c"
| "apply_op (OpObservePoolWait seconds) c = ObservePoolWait seconds c"
| "apply_op OpIncBackpressurePauses c = IncBackpressurePauses c"
| "apply_op (OpAddBackpressureYieldTime seconds) c = AddBackpressureYieldTime seconds c"

fun op_call :: "metric_op \<Rightarrow> metric \<times> metric_call" where
  "op_call OpIncConnections = (M_connectionsTotal, Inc)"
| "op_call (OpIncConnectionsBy n) = (M_connectionsTotal, Add n)"
| "op_call OpIncActive = (M_connectionsActive, Inc)"
| "op_call OpDecActive = (M_connectionsActive, Dec)"
| "op_call (OpSetActive n) = (M_connectionsActive, Set n)"
| "op_call (OpAddBytesSent n) = (M_bytesSent, Add n)"
| "op_call (OpAddBytesReceived n) = (M_bytesReceived, Add n)"
| "op_call OpIncErrors = (M_errorsTotal, Inc)"
| "op_call (OpIncErrorsBy n) = (M_errorsTotal, Add n)"
| "op_call (OpObserveConnectionDuration seconds) = (M_connectionDuration, Observe seconds)"
| "op_call (OpObserveForwardLatency seconds) = (M_forwardLatency, Observe seconds)"
| "op_call (OpSetPoolActive n) = (M_poolConnectionsActive, Set n)"
| "op_call OpIncPoolCreated = (M_poolConnectionsCreated, Inc)"
| "op_call OpIncPoolReused = (M_poolConnectionsReused, Inc)"
| "op_call OpIncPoolClosed = (M_poolConnectionsClosed, Inc)"
| "op_call (OpObservePoolWait seconds) = (M_poolWaitDuration, Observe seconds)"
| "op_call OpIncBackpressurePauses = (M_backpressurePauses, Inc)"
| "op_call (OpAddBackpressureYieldTime seconds) = (M_backpressureYieldTime, Add seconds)"

fun run_ops :: "metric_op list \<Rightarrow> Collector \<Rightarrow> Collector option" where
  "run_ops [] c = Some c"
| "run_ops (p # ps) c = (case apply_op p c of None \<Rightarrow> None | Some c1 \<Rightarrow> run_ops ps c1)"

section \<open>Lemmas\<close>

lemmas op_defs = IncConnections_def IncConnectionsBy_def IncActive_def DecActive_def
  SetActive_def AddBytesSent_def AddBytesReceived_def IncErrors_def
  IncErrorsBy_def ObserveConnectionDuration_def ObserveForwardLatency_def SetPoolActive_def
  IncPoolCreated_def IncPoolReused_def IncPoolClosed_def ObservePoolWait_def
  IncBackpressurePauses_def AddBackpressureYieldTime_def

text \<open>The metrics that are always created.\<close>

definition always :: "metric set" where
  "always = {M_connectionsTotal, M_errorsTotal, M_connectionsActive, M_bytesSent, M_bytesReceived}"

lemma always_enabled: "always \<subseteq> set (enabled_metrics cfg)"
  by (auto simp: always_def enabled_metrics_def)

lemma apply_op_call:
  assumes "always \<subseteq> co_metrics c"
  shows "apply_op p c = Some (c\<lparr>co_calls := co_calls c @ filter (\<lambda>(m, k). m \<in> co_metrics c) [op_call p]\<rparr>)"
  using assms by (cases p) (auto simp: op_defs call_metric_def call_optional_def always_def)

lemma run_ops_calls:
  "always \<subseteq> co_metrics c \<Longrightarrow>
   run_ops ps c = Some (c\<lparr>co_calls := co_calls c @ filter (\<lambda>(m, k). m \<in> co_metrics c) (map op_call ps)\<rparr>)"
proof (induction ps arbitrary: c)
  case (Cons p ps)
  then show ?case using apply_op_call [OF Cons.prems, of p] by simp
qed simp

definition all_metrics :: "metric list" where
  "all_metrics = [M_connectionsTotal, M_errorsTotal, M_connectionsActive, M_bytesSent, M_bytesReceived,
     M_connectionDuration, M_forwardLatency, M_poolConnectionsActive, M_poolConnectionsTotal, M_poolConnectionsCreated,
     M_poolConnectionsReused, M_poolConnectionsClosed, M_poolWaitDuration, M_backpressurePauses, M_backpressureYieldTime]"

lemma all_metrics_UNIV: "m \<in> set all_metrics"
  by (cases m) (simp_all add: all_metrics_def)

lemma metric_names_distinct: "distinct (map metric_name all_metrics)"
  by code_simp

lemma metric_name_inj: "metric_name x = metric_name y \<Longrightarrow> x = y"
  using metric_names_distinct all_metrics_UNIV [of x] all_metrics_UNIV [of y]
  by (auto simp: distinct_map dest: inj_onD)

lemma metric_ids_inj: "inj (metric_id_of cfg)"
  by (rule injI, rule metric_name_inj) (simp add: metric_id_of_def prod_eq_iff)

lemma enabled_distinct: "distinct (enabled_metrics cfg)"
  by (auto simp: enabled_metrics_def)

text \<open>A registry that accepts each name once.\<close>

definition register_once :: "metric_id \<Rightarrow> metric_id set \<Rightarrow> metric_id set option" where
  "register_once i reg = (if i \<in> reg then None else Some (insert i reg))"

lemma create_once:
  "distinct ms \<Longrightarrow> create_metrics register_once cfg ms reg =
     (if metric_id_of cfg ` set ms \<inter> reg = {} then Some (reg \<union> metric_id_of cfg ` set ms) else None)"
proof (induction ms arbitrary: reg)
  case (Cons m ms)
  then show ?case
    using injD [OF metric_ids_inj [of cfg]] by (auto simp: register_once_def Cons.IH)
qed simp

text \<open>A collector, whatever is enabled and whatever is done with it, never dereferences a nil metric; the calls
  the library sees are those of the operations on enabled metrics, in order; and the total of the pool is
  created but never called.\<close>

lemma collector_calls:
  assumes "NewCollector register cfg reg = Some (c, reg')"
  shows "\<exists>c'. run_ops ps c = Some c'
    \<and> co_calls c' = filter (\<lambda>(m, k). m \<in> set (enabled_metrics cfg)) (map op_call ps)
    \<and> M_poolConnectionsTotal \<notin> fst ` set (co_calls c')"
proof -
  have same: "enabled_metrics (cfg\<lparr>mc_Namespace := x\<rparr>) = enabled_metrics cfg" for x
    by (simp add: enabled_metrics_def)
  have c: "co_metrics c = set (enabled_metrics cfg)" "co_calls c = []"
    using assms by (auto simp: NewCollector_def Let_def same simp del: set_simps split: if_splits)
  have "fst (op_call p) \<noteq> M_poolConnectionsTotal" for p by (cases p) simp_all
  then have "M_poolConnectionsTotal \<notin> fst ` set (map op_call ps)" by (metis (no_types) imageE image_set list.set_map)
  then show ?thesis
    using run_ops_calls [of c ps] always_enabled [of cfg] c
    by (intro exI [of _ "c\<lparr>co_calls := filter (\<lambda>(m, k). m \<in> set (enabled_metrics cfg)) (map op_call ps)\<rparr>"]) auto
qed

text \<open>With a registry that accepts each name once, one collector can be created, and a second one with the
  same names panics.\<close>

lemma second_collector_panics:
  "NewCollector register_once cfg {} \<noteq> None"
  "NewCollector register_once cfg reg = Some (c, reg') \<Longrightarrow> NewCollector register_once cfg reg' = None"
proof -
  show "NewCollector register_once cfg {} \<noteq> None"
    by (simp add: NewCollector_def Let_def create_once enabled_distinct)
  let ?cfg = "if mc_Namespace cfg = [] then cfg\<lparr>mc_Namespace := str ''go_tunnel''\<rparr> else cfg"
  have some: "metric_id_of ?cfg M_connectionsTotal \<in> metric_id_of ?cfg ` set (enabled_metrics ?cfg)"
    by (simp add: enabled_metrics_def)
  assume "NewCollector register_once cfg reg = Some (c, reg')"
  then have "reg' = reg \<union> metric_id_of ?cfg ` set (enabled_metrics ?cfg)"
    by (auto simp: NewCollector_def Let_def create_once enabled_distinct split: if_splits)
  with some show "NewCollector register_once cfg reg' = None"
    by (auto simp: NewCollector_def Let_def create_once enabled_distinct)
qed

end
