(* ===== verification/Server_Races.thy ===== *)
theory Server_Races
  imports Server_Invariants
begin

text \<open>
  Registration and closing of tunnels under real concurrency. \<open>Tunnel_Server\<close> treats \<^verbatim>\<open>handleControlStream\<close> and
  \<^verbatim>\<open>closeTunnel\<close> as one step each; here they are cut into the pieces between which other goroutines can run: every
  access to the atomic counters, the port manager and the two concurrent maps is a piece of its own. Running
  the pieces without interruption is what \<open>Tunnel_Server\<close> does (\<open>closeTunnel_pieces\<close>, \<open>register_pieces\<close>).

  Registrations run in numbered slots, so that the number of slots bounds how many run at the same time.
  \<^verbatim>\<open>closeTunnel\<close> has three callers: the control loop of the tunnel, after it has seen that the tunnel is not
  cancelled yet; the health check; and \<^verbatim>\<open>Stop\<close>, both for the tunnels in the map. The code does not keep them
  apart. Shown: if no tunnel is closed by two callers, then ports are never shared or lost and the counter is
  exact, under every interleaving, but the limit on tunnels can be exceeded by the registrations that run at the
  same time; and if two callers close one tunnel, a port is given to two tunnels.
\<close>

section \<open>The pieces of closing\<close>

datatype close_pc = CloseCancel | CloseListeners | CloseConnection | CloseExternals | ClosePort | CloseDomain
  | CloseMap | CloseCount

text \<open>One piece, and the next one; \<open>None\<close> when the function returns.\<close>

fun close_piece :: "close_pc \<Rightarrow> nat \<Rightarrow> MuxServer \<Rightarrow> MuxServer \<times> close_pc option" where
  "close_piece CloseCancel p s = (set_tunnel p (tunnel_at s p\<lparr>tn_cancelled := True\<rparr>) s, Some CloseListeners)"
| "close_piece CloseListeners p s =
     (set_tunnel p (tunnel_at s p\<lparr>tn_externalListener := False, tn_externalQUICListener := False\<rparr>) s,
      Some CloseConnection)"
| "close_piece CloseConnection p s = (close {QConn (tn_Conn (tunnel_at s p))} s, Some CloseExternals)"
| "close_piece CloseExternals p s =
     (let t = tunnel_at s p;
          s1 = close (ExtConn ` ran (tn_ExternalConns t)) (set_tunnel p (t\<lparr>tn_ExternalConns := Map.empty\<rparr>) s)
      in (s1\<lparr>sv_activeConns := i64 (sv_activeConns s1 - int (card (dom (tn_ExternalConns t))))\<rparr>, Some ClosePort))"
| "close_piece ClosePort p s =
     (let t = tunnel_at s p in
      (if tn_Port t > 0 then s\<lparr>sv_portManager := PortManager_Release (tn_Port t) (sv_portManager s)\<rparr> else s,
       Some CloseDomain))"
| "close_piece CloseDomain p s =
     (let t = tunnel_at s p in
      (if tn_Domain t \<noteq> [] then s\<lparr>sv_tunnelByDomain := (sv_tunnelByDomain s)(tn_Domain t := None)\<rparr> else s,
       Some CloseMap))"
| "close_piece CloseMap p s = (s\<lparr>sv_tunnels := (sv_tunnels s)(tn_ID (tunnel_at s p) := None)\<rparr>, Some CloseCount)"
| "close_piece CloseCount p s = (s\<lparr>sv_activeTunnels := i64 (sv_activeTunnels s - 1)\<rparr>, None)"

section \<open>The pieces of registering\<close>

text \<open>A registration whose payload is parsed and whose token is accepted.\<close>

record reg_job =
  rj_info :: RegisterInfo
  rj_conn :: nat
  rj_stream :: nat
  rj_now :: int

datatype reg_pc = RegLimit | RegAddress | RegCreate gostr int | RegMap nat | RegActive nat | RegTotal nat
  | RegDomain nat

datatype reg_result = RegNext reg_pc | RegRefused gostr | RegDone nat

fun reg_piece :: "reg_job \<Rightarrow> reg_pc \<Rightarrow> MuxServer \<Rightarrow> MuxServer \<times> reg_result" where
  "reg_piece job RegLimit s =
     (s, if sv_activeTunnels s \<ge> sc_MaxTunnels (sv_config s) then RegRefused (str ''max tunnels reached'')
         else RegNext RegAddress)"
| "reg_piece job RegAddress s =
     (case register_address (ri_protocol (rj_info job)) (ri_tunnelID (rj_info job)) s of
        (None, s1) \<Rightarrow> (s1, RegRefused (str ''no available port''))
      | (Some (publicURL, port), s1) \<Rightarrow> (s1, RegNext (RegCreate publicURL port)))"
| "reg_piece job (RegCreate publicURL port) s =
     (let ri = rj_info job in
      (s\<lparr>sv_heap := sv_heap s @ [new_tunnel (ri_tunnelID ri) (ri_protocol ri) (ri_localAddr ri) publicURL port
                                 (ri_domain ri) (rj_conn job) (rj_stream job) (unix (rj_now job))]\<rparr>,
       RegNext (RegMap (length (sv_heap s)))))"
| "reg_piece job (RegMap p) s =
     (s\<lparr>sv_tunnels := (sv_tunnels s)(ri_tunnelID (rj_info job) \<mapsto> p)\<rparr>, RegNext (RegActive p))"
| "reg_piece job (RegActive p) s = (s\<lparr>sv_activeTunnels := i64 (sv_activeTunnels s + 1)\<rparr>, RegNext (RegTotal p))"
| "reg_piece job (RegTotal p) s = (s\<lparr>sv_totalTunnels := i64 (sv_totalTunnels s + 1)\<rparr>, RegNext (RegDomain p))"
| "reg_piece job (RegDomain p) s =
     (if ri_domain (rj_info job) \<noteq> []
      then s\<lparr>sv_tunnelByDomain := (sv_tunnelByDomain s)(ri_domain (rj_info job) \<mapsto> p)\<rparr> else s, RegDone p)"

section \<open>Interleaving\<close>

datatype closer = ByControlLoop | ByHealthCheck | ByStop

datatype close_status = NotClosing | ClosingAt close_pc | ClosedBy

record race =
  rc_server :: MuxServer
  rc_slot :: "nat \<Rightarrow> (reg_job \<times> reg_pc) option"
  rc_closing :: "closer \<Rightarrow> nat \<Rightarrow> close_status"

datatype race_event = BeginRegister nat reg_job | RegisterTurn nat | BeginClose closer nat | CloseTurn closer nat

text \<open>Whether a caller may close a tunnel: the control loop saw that it is not cancelled and calls once;
  the other two find it in the map.\<close>

definition may_close :: "closer \<Rightarrow> nat \<Rightarrow> MuxServer \<Rightarrow> bool" where
  "may_close c p s =
     (p < length (sv_heap s)
      \<and> (case c of
           ByControlLoop \<Rightarrow> \<not> tn_cancelled (tunnel_at s p)
         | _ \<Rightarrow> sv_tunnels s (tn_ID (tunnel_at s p)) = Some p))"

definition being_closed :: "nat \<Rightarrow> race \<Rightarrow> bool" where
  "being_closed p r = (\<exists>c \<in> {ByControlLoop, ByHealthCheck, ByStop}. rc_closing r c p \<noteq> NotClosing)"

text \<open>One step with \<open>K\<close> slots; \<open>excl\<close> restricts runs to those in which no tunnel is closed by two callers.\<close>

fun race_turn :: "nat \<Rightarrow> bool \<Rightarrow> race_event \<Rightarrow> race \<Rightarrow> race option" where
  "race_turn K excl (BeginRegister j job) r =
     (if j < K \<and> rc_slot r j = None then Some (r\<lparr>rc_slot := (rc_slot r)(j \<mapsto> (job, RegLimit))\<rparr>) else None)"
| "race_turn K excl (RegisterTurn j) r =
     (case rc_slot r j of
        None \<Rightarrow> None
      | Some (job, pc) \<Rightarrow>
          (case reg_piece job pc (rc_server r) of
             (s, res) \<Rightarrow>
               Some (r\<lparr>rc_server := s,
                       rc_slot := (rc_slot r)(j := (case res of RegNext pc' \<Rightarrow> Some (job, pc') | _ \<Rightarrow> None))\<rparr>)))"
| "race_turn K excl (BeginClose c p) r =
     (if may_close c p (rc_server r) \<and> rc_closing r c p = NotClosing \<and> (excl \<longrightarrow> \<not> being_closed p r)
      then Some (r\<lparr>rc_closing := (rc_closing r)(c := (rc_closing r c)(p := ClosingAt CloseCancel))\<rparr>) else None)"
| "race_turn K excl (CloseTurn c p) r =
     (case rc_closing r c p of
        ClosingAt pc \<Rightarrow>
          (case close_piece pc p (rc_server r) of
             (s, nxt) \<Rightarrow>
               Some (r\<lparr>rc_server := s,
                       rc_closing := (rc_closing r)(c := (rc_closing r c)
                         (p := (case nxt of None \<Rightarrow> ClosedBy | Some pc' \<Rightarrow> ClosingAt pc')))\<rparr>))
      | _ \<Rightarrow> None)"

definition race_step :: "nat \<Rightarrow> bool \<Rightarrow> race \<Rightarrow> race \<Rightarrow> bool" where
  "race_step K excl r r' \<longleftrightarrow> (\<exists>e. race_turn K excl e r = Some r')"

fun race_run :: "nat \<Rightarrow> bool \<Rightarrow> race_event list \<Rightarrow> race \<Rightarrow> race option" where
  "race_run K excl [] r = Some r"
| "race_run K excl (e # es) r = (case race_turn K excl e r of None \<Rightarrow> None | Some r' \<Rightarrow> race_run K excl es r')"

definition race_start :: "MuxServerConfig \<Rightarrow> race" where
  "race_start c = \<lparr>rc_server = NewMuxServer c, rc_slot = (\<lambda>_. None), rc_closing = (\<lambda>_ _. NotClosing)\<rparr>"

section \<open>Without interruption\<close>

text \<open>All pieces of a call, one after the other.\<close>

definition close_pieces :: "close_pc list" where
  "close_pieces = [CloseCancel, CloseListeners, CloseConnection, CloseExternals, ClosePort, CloseDomain, CloseMap, CloseCount]"

lemma closeTunnel_pieces:
  assumes "p < length (sv_heap s)"
  shows "fold (\<lambda>pc s. fst (close_piece pc p s)) close_pieces s = closeTunnel p s"
  using assms
  by (auto simp: close_pieces_def closeTunnel_def Let_def set_tunnel_def close_def)

fun reg_pieces :: "nat \<Rightarrow> reg_job \<Rightarrow> reg_pc \<Rightarrow> MuxServer \<Rightarrow> MuxServer \<times> reg_result" where
  "reg_pieces 0 job pc s = (s, RegNext pc)"
| "reg_pieces (Suc n) job pc s =
     (case reg_piece job pc s of
        (s1, RegNext pc1) \<Rightarrow> reg_pieces n job pc1 s1
      | (s1, res) \<Rightarrow> (s1, res))"

text \<open>Seven pieces are all of a registration; what \<^verbatim>\<open>handleControlStream\<close> does after them is to report to the circuit
  breaker and to acknowledge.\<close>

lemma register_pieces:
  assumes "parseRegisterPayload payload = Ret ri"
    and "sc_AuthToken (sv_config s) \<noteq> [] \<longrightarrow> constantTimeEqual (ri_authToken ri) (sc_AuthToken (sv_config s))"
    and "job = \<lparr>rj_info = ri, rj_conn = conn, rj_stream = stream, rj_now = now\<rparr>"
  shows "case reg_pieces 7 job RegLimit s of
      (s1, RegRefused msg) \<Rightarrow>
        handleRegister now conn stream payload s = (CtlReturn, sendAck stream (ri_tunnelID ri) [] 0 msg s1)
    | (s1, RegDone p) \<Rightarrow>
        (\<exists>gs. handleRegister now conn stream payload s =
           (CtlLoop p gs, sendAck stream (ri_tunnelID ri) (tn_PublicURL (tunnel_at s1 p)) (tn_Port (tunnel_at s1 p)) []
              (s1\<lparr>sv_circuitBreaker := Breaker_RecordSuccess (sv_circuitBreaker s1)\<rparr>)))
    | (s1, RegNext pc) \<Rightarrow> False"
proof (cases "sv_activeTunnels s \<ge> sc_MaxTunnels (sv_config s)")
  case True
  with assms show ?thesis by (auto simp: eval_nat_numeral handleRegister_def)
next
  case False
  obtain a s1 where a: "register_address (ri_protocol ri) (ri_tunnelID ri) s = (a, s1)" by fastforce
  show ?thesis
  proof (cases a)
    case None
    with a False assms show ?thesis by (auto simp: eval_nat_numeral handleRegister_def)
  next
    case (Some b)
    then obtain url port where "a = Some (url, port)" by (cases b) auto
    with a False assms show ?thesis
      by (auto simp: eval_nat_numeral handleRegister_def store_tunnel_def new_tunnel_def Let_def)
  qed
qed

section \<open>What a step changes\<close>

lemma register_address_outcome:
  assumes "register_address pr i s = (a, s1)"
  obtains "a = None" "s1 = s"
  | url port m where "a = Some (url, port)" "s1 = s\<lparr>sv_portManager := m\<rparr>"
      "port = 0 \<and> m = sv_portManager s \<or> PortManager_Allocate (sv_portManager s) = (Some port, m)"
proof (cases "pr \<in> {ProtocolTCP, ProtocolQUIC, ProtocolHTTP3}")
  case True
  then obtain scheme where "with_port scheme s = (a, s1)"
    using assms by (auto simp: register_address_def split: if_splits)
  with that show thesis
    by (auto simp: with_port_def PortManager_Allocate_def split: option.splits)
next
  case False
  with assms have "a = Some (domain_url i, 0)" "s1 = s\<lparr>sv_portManager := sv_portManager s\<rparr>"
    by (auto simp: register_address_def)
  with that(2) show thesis by blast
qed

text \<open>The slots, the tunnels and the counters after each kind of step; what is not mentioned stays.\<close>

definition same_accounts :: "MuxServer \<Rightarrow> MuxServer \<Rightarrow> bool" where
  "same_accounts s s' \<longleftrightarrow> sv_config s' = sv_config s \<and> sv_heap s' = sv_heap s
     \<and> sv_portManager s' = sv_portManager s \<and> sv_activeTunnels s' = sv_activeTunnels s"

lemma race_step_cases [consumes 1, case_names begin_register refuse limit address create map active finish begin_close close]:
  assumes "race_step K excl r r'"
  obtains
    j job where "r' = r\<lparr>rc_slot := (rc_slot r)(j \<mapsto> (job, RegLimit))\<rparr>" "j < K" "rc_slot r j = None"
  | j job pc where "r' = r\<lparr>rc_slot := (rc_slot r)(j := None)\<rparr>" "rc_slot r j = Some (job, pc)" "pc \<in> {RegLimit, RegAddress}"
  | j job where "r' = r\<lparr>rc_slot := (rc_slot r)(j \<mapsto> (job, RegAddress))\<rparr>" "rc_slot r j = Some (job, RegLimit)"
      "sv_activeTunnels (rc_server r) < sc_MaxTunnels (sv_config (rc_server r))"
  | j job url port m where
      "r' = r\<lparr>rc_server := rc_server r\<lparr>sv_portManager := m\<rparr>, rc_slot := (rc_slot r)(j \<mapsto> (job, RegCreate url port))\<rparr>"
      "rc_slot r j = Some (job, RegAddress)"
      "port = 0 \<and> m = sv_portManager (rc_server r) \<or> PortManager_Allocate (sv_portManager (rc_server r)) = (Some port, m)"
  | j job url port t where
      "r' = r\<lparr>rc_server := rc_server r\<lparr>sv_heap := sv_heap (rc_server r) @ [t]\<rparr>,
              rc_slot := (rc_slot r)(j \<mapsto> (job, RegMap (length (sv_heap (rc_server r)))))\<rparr>"
      "rc_slot r j = Some (job, RegCreate url port)" "tn_Port t = port" "\<not> tn_cancelled t"
  | j job p s where "r' = r\<lparr>rc_server := s, rc_slot := (rc_slot r)(j \<mapsto> (job, RegActive p))\<rparr>"
      "rc_slot r j = Some (job, RegMap p)" "same_accounts (rc_server r) s"
  | j job p where
      "r' = r\<lparr>rc_server := rc_server r\<lparr>sv_activeTunnels := i64 (sv_activeTunnels (rc_server r) + 1)\<rparr>,
              rc_slot := (rc_slot r)(j \<mapsto> (job, RegTotal p))\<rparr>" "rc_slot r j = Some (job, RegActive p)"
  | j job pc p x s where "r' = r\<lparr>rc_server := s, rc_slot := (rc_slot r)(j := x)\<rparr>" "rc_slot r j = Some (job, pc)"
      "pc = RegTotal p \<and> x = Some (job, RegDomain p) \<or> pc = RegDomain p \<and> x = None" "same_accounts (rc_server r) s"
  | c p where "r' = r\<lparr>rc_closing := (rc_closing r)(c := (rc_closing r c)(p := ClosingAt CloseCancel))\<rparr>"
      "may_close c p (rc_server r)" "rc_closing r c p = NotClosing" "excl \<longrightarrow> \<not> being_closed p r"
  | c p pc s nxt where "rc_closing r c p = ClosingAt pc" "close_piece pc p (rc_server r) = (s, nxt)"
      "r' = r\<lparr>rc_server := s, rc_closing := (rc_closing r)(c := (rc_closing r c)
           (p := (case nxt of None \<Rightarrow> ClosedBy | Some pc' \<Rightarrow> ClosingAt pc')))\<rparr>"
proof -
  obtain e where e: "race_turn K excl e r = Some r'" using assms by (auto simp: race_step_def)
  show thesis
  proof (cases e)
    case (BeginRegister j job)
    with e show thesis by (intro that(1)) (auto split: if_splits)
  next
    case (BeginClose c p)
    with e show thesis by (intro that(9)) (auto split: if_splits)
  next
    case (CloseTurn c p)
    with e show thesis by (auto intro: that(10) split: close_status.splits prod.splits)
  next
    case (RegisterTurn j)
    with e obtain job pc where j: "rc_slot r j = Some (job, pc)" by (auto split: option.splits)
    show thesis
    proof (cases pc)
      case RegLimit
      with e RegisterTurn j show thesis
        by (cases "sv_activeTunnels (rc_server r) < sc_MaxTunnels (sv_config (rc_server r))")
          (auto intro: that(2) that(3) simp del: fun_upd_apply)
    next
      case RegAddress
      obtain a s1 where a: "register_address (ri_protocol (rj_info job)) (ri_tunnelID (rj_info job)) (rc_server r) = (a, s1)"
        by fastforce
      then show thesis
      proof (cases rule: register_address_outcome)
        case 1
        with a e RegisterTurn j RegAddress show thesis by (intro that(2) [where j = j and job = job and pc = pc]) auto
      next
        case (2 url port m)
        with a e RegisterTurn j RegAddress show thesis by (intro that(4) [where m = m and j = j and job = job and url = url and port = port]) auto
      qed
    next
      case (RegCreate url port)
      with e RegisterTurn j show thesis by (auto intro!: that(5) [where j = j and job = job and url = url and port = port] simp: new_tunnel_def Let_def)
    next
      case (RegMap p)
      with e RegisterTurn j show thesis by (auto intro!: that(6) simp: same_accounts_def)
    next
      case (RegActive p)
      with e RegisterTurn j show thesis by (auto intro!: that(7))
    next
      case (RegTotal p)
      with e RegisterTurn j show thesis by (auto intro!: that(8) [where j = j and x = "Some (job, RegDomain p)" and job = job and pc = pc and p = p] simp: same_accounts_def)
    next
      case (RegDomain p)
      with e RegisterTurn j show thesis by (auto intro!: that(8) [where j = j and x = None and job = job and pc = pc and p = p] simp: same_accounts_def)
    qed
  qed
qed

lemma close_piece_changes:
  assumes "close_piece pc p s = (s', nxt)" "p < length (sv_heap s)"
  shows "sv_config s' = sv_config s" "length (sv_heap s') = length (sv_heap s)"
    "tn_Port (tunnel_at s' q) = tn_Port (tunnel_at s q)"
    "tn_cancelled (tunnel_at s' q) \<longleftrightarrow> tn_cancelled (tunnel_at s q) \<or> q = p \<and> pc = CloseCancel"
    "sv_portManager s' = (if pc = ClosePort \<and> tn_Port (tunnel_at s p) > 0
        then PortManager_Release (tn_Port (tunnel_at s p)) (sv_portManager s) else sv_portManager s)"
    "sv_activeTunnels s' = (if pc = CloseCount then i64 (sv_activeTunnels s - 1) else sv_activeTunnels s)"
    "nxt = None \<longleftrightarrow> pc = CloseCount"
    "nxt \<in> {Some CloseDomain, Some CloseMap, Some CloseCount, None} \<longleftrightarrow> pc \<in> {ClosePort, CloseDomain, CloseMap, CloseCount}"
    "nxt \<noteq> Some CloseCancel"
proof -
  have s': "s' = fst (close_piece pc p s)" and nxt: "nxt = snd (close_piece pc p s)" using assms(1) by simp_all
  note defs = set_tunnel_def close_def Let_def nth_list_update assms(2)
  show "sv_config s' = sv_config s" "length (sv_heap s') = length (sv_heap s)"
    "tn_Port (tunnel_at s' q) = tn_Port (tunnel_at s q)"
    "tn_cancelled (tunnel_at s' q) \<longleftrightarrow> tn_cancelled (tunnel_at s q) \<or> q = p \<and> pc = CloseCancel"
    "sv_portManager s' = (if pc = ClosePort \<and> tn_Port (tunnel_at s p) > 0
        then PortManager_Release (tn_Port (tunnel_at s p)) (sv_portManager s) else sv_portManager s)"
    "sv_activeTunnels s' = (if pc = CloseCount then i64 (sv_activeTunnels s - 1) else sv_activeTunnels s)"
    unfolding s' by (cases pc; simp add: defs)+
  show "nxt = None \<longleftrightarrow> pc = CloseCount"
    "nxt \<in> {Some CloseDomain, Some CloseMap, Some CloseCount, None} \<longleftrightarrow> pc \<in> {ClosePort, CloseDomain, CloseMap, CloseCount}"
    "nxt \<noteq> Some CloseCancel"
    unfolding nxt by (cases pc; simp add: Let_def)+
qed

section \<open>Slots and callers\<close>

definition storing :: "race \<Rightarrow> nat \<Rightarrow> nat \<Rightarrow> bool" where
  "storing r j p \<longleftrightarrow> (case rc_slot r j of Some (job, RegMap q) \<Rightarrow> q = p | Some (job, RegActive q) \<Rightarrow> q = p | _ \<Rightarrow> False)"

definition slots_ok :: "nat \<Rightarrow> race \<Rightarrow> bool" where
  "slots_ok K r \<longleftrightarrow> (\<forall>j. rc_slot r j \<noteq> None \<longrightarrow> j < K)
     \<and> (\<forall>j p. storing r j p \<longrightarrow> p < length (sv_heap (rc_server r)))
     \<and> (\<forall>j j' p. storing r j p \<longrightarrow> storing r j' p \<longrightarrow> j = j')"

text \<open>With at most one caller per tunnel, its progress is a function of the tunnel.\<close>

definition one_caller :: "race \<Rightarrow> bool" where
  "one_caller r \<longleftrightarrow> (\<forall>p c c'. rc_closing r c p \<noteq> NotClosing \<longrightarrow> rc_closing r c' p \<noteq> NotClosing \<longrightarrow> c = c')"

definition status :: "race \<Rightarrow> nat \<Rightarrow> close_status" where
  "status r p =
     (if rc_closing r ByControlLoop p \<noteq> NotClosing then rc_closing r ByControlLoop p
      else if rc_closing r ByHealthCheck p \<noteq> NotClosing then rc_closing r ByHealthCheck p
      else rc_closing r ByStop p)"

lemma status_NotClosing: "status r p = NotClosing \<longleftrightarrow> (\<forall>c. rc_closing r c p = NotClosing)"
  unfolding status_def by (metis closer.exhaust)

lemma status_caller: "one_caller r \<Longrightarrow> rc_closing r c p \<noteq> NotClosing \<Longrightarrow> status r p = rc_closing r c p"
  unfolding one_caller_def status_def by (metis closer.exhaust)

lemma being_closed_status: "being_closed p r \<longleftrightarrow> status r p \<noteq> NotClosing"
  unfolding being_closed_def status_def by auto

lemma one_caller_update:
  assumes "one_caller r" "rc_closing r c p \<noteq> NotClosing \<or> status r p = NotClosing" "x \<noteq> NotClosing"
    "rc_closing r' = (rc_closing r)(c := (rc_closing r c)(p := x))"
  shows "one_caller r'" "status r' = (status r)(p := x)"
proof -
  have other: "rc_closing r c' p = NotClosing" if "c' \<noteq> c" for c'
    using assms(1,2) that status_NotClosing [of r p] unfolding one_caller_def by blast
  show one: "one_caller r'"
    unfolding one_caller_def assms(4) using assms(1) other by (auto simp: one_caller_def)
  show "status r' = (status r)(p := x)"
  proof
    fix q
    show "status r' q = ((status r)(p := x)) q"
    proof (cases "q = p")
      case True
      with status_caller [OF one, of c p] assms(3,4) show ?thesis by simp
    next
      case False
      with assms(4) show ?thesis by (simp add: status_def)
    qed
  qed
qed

definition callers_ok :: "race \<Rightarrow> bool" where
  "callers_ok r \<longleftrightarrow> one_caller r
     \<and> (\<forall>p. status r p \<noteq> NotClosing \<longrightarrow> p < length (sv_heap (rc_server r)))
     \<and> (\<forall>p < length (sv_heap (rc_server r)). tn_cancelled (tunnel_at (rc_server r) p) \<longleftrightarrow>
          status r p \<notin> {NotClosing, ClosingAt CloseCancel})"

lemma close_turn:
  assumes "callers_ok r" "rc_closing r c p = ClosingAt pc"
    "r' = r\<lparr>rc_server := s, rc_closing := (rc_closing r)(c := (rc_closing r c)
           (p := (case nxt of None \<Rightarrow> ClosedBy | Some pc' \<Rightarrow> ClosingAt pc')))\<rparr>"
  shows "p < length (sv_heap (rc_server r))" "status r p = ClosingAt pc" "one_caller r'"
    "status r' = (status r)(p := (case nxt of None \<Rightarrow> ClosedBy | Some pc' \<Rightarrow> ClosingAt pc'))"
proof -
  show st: "status r p = ClosingAt pc" using assms(1,2) status_caller [of r c p] by (simp add: callers_ok_def)
  with assms(1) show "p < length (sv_heap (rc_server r))" by (simp add: callers_ok_def)
  let ?x = "case nxt of None \<Rightarrow> ClosedBy | Some pc' \<Rightarrow> ClosingAt pc'"
  have "?x \<noteq> NotClosing" by (simp split: option.split)
  with one_caller_update [of r c p ?x r'] assms
  show "one_caller r'" "status r' = (status r)(p := ?x)" by (simp_all add: callers_ok_def)
qed

lemma begin_close_turn:
  assumes "callers_ok r" "\<not> being_closed p r"
    "r' = r\<lparr>rc_closing := (rc_closing r)(c := (rc_closing r c)(p := ClosingAt CloseCancel))\<rparr>"
  shows "one_caller r'" "status r' = (status r)(p := ClosingAt CloseCancel)"
  using one_caller_update [of r c p "ClosingAt CloseCancel" r'] assms
  by (simp_all add: callers_ok_def being_closed_status)

lemma status_same: "rc_closing r' = rc_closing r \<Longrightarrow> status r' = status r \<and> (one_caller r' \<longleftrightarrow> one_caller r)"
  by (simp add: status_def one_caller_def fun_eq_iff)

lemma callers_ok_same:
  "callers_ok r \<Longrightarrow> rc_closing r' = rc_closing r \<Longrightarrow> sv_heap (rc_server r') = sv_heap (rc_server r) \<Longrightarrow> callers_ok r'"
  using status_same [of r' r] by (simp add: callers_ok_def)

lemma callers_ok_step: assumes "race_step K True r r'" "callers_ok r" shows "callers_ok r'"
  using assms(1)
proof (cases rule: race_step_cases)
  case (create j job url port t)
  then have "status r' = status r" "one_caller r'" using assms(2) status_same [of r' r] by (simp_all add: callers_ok_def)
  moreover have "status r (length (sv_heap (rc_server r))) = NotClosing" using assms(2) by (auto simp: callers_ok_def)
  ultimately show ?thesis using assms(2) create by (auto simp: callers_ok_def nth_append less_Suc_eq)
next
  case (begin_close c p)
  then have nb: "\<not> being_closed p r" by simp
  note st = begin_close_turn [OF assms(2) nb begin_close(1)]
  have "p < length (sv_heap (rc_server r))" using begin_close(2) by (simp add: may_close_def)
  moreover from this have "\<not> tn_cancelled (tunnel_at (rc_server r) p)"
    using nb assms(2) by (simp add: callers_ok_def being_closed_status)
  ultimately show ?thesis using st assms(2) begin_close(1) by (simp add: callers_ok_def)
next
  case (close c p pc s nxt)
  note st = close_turn [OF assms(2) close(1,3)]
  note ch = close_piece_changes [OF close(2) st(1)]
  have "status r' p \<notin> {NotClosing, ClosingAt CloseCancel}" using st(4) ch(9) by (auto split: option.split)
  moreover have "tn_cancelled (tunnel_at s p)"
    using ch(4) [of p] assms(2) st(1,2) by (cases "pc = CloseCancel") (auto simp: callers_ok_def)
  ultimately show ?thesis
    using st ch(2,4) assms(2) close(3) by (auto simp: callers_ok_def)
qed (auto intro!: callers_ok_same [OF assms(2)] simp: same_accounts_def)

lemma slots_ok_same:
  "slots_ok K r \<Longrightarrow> rc_slot r' = rc_slot r \<Longrightarrow> length (sv_heap (rc_server r')) = length (sv_heap (rc_server r)) \<Longrightarrow>
   slots_ok K r'"
  by (simp add: slots_ok_def storing_def)

lemma slots_ok_update:
  assumes "slots_ok K r" "rc_slot r' = (rc_slot r)(j := x)" "j < K"
    "length (sv_heap (rc_server r)) \<le> length (sv_heap (rc_server r'))"
    "\<And>p. storing r' j p \<Longrightarrow> p < length (sv_heap (rc_server r')) \<and> (\<forall>i. storing r i p \<longrightarrow> i = j)"
  shows "slots_ok K r'"
proof -
  have "storing r' i p \<longleftrightarrow> storing r i p" if "i \<noteq> j" for i p using that assms(2) by (simp add: storing_def)
  then have "p < length (sv_heap (rc_server r'))" if "storing r' i p" for i p
    using that assms(1,4,5) by (metis less_le_trans slots_ok_def)
  moreover have "i = i'" if "storing r' i p" "storing r' i' p" for i i' p
    using that assms(1,5) \<open>\<And>p i. i \<noteq> j \<Longrightarrow> storing r' i p \<longleftrightarrow> storing r i p\<close>
    by (metis slots_ok_def)
  ultimately show ?thesis using assms(1-3) by (simp add: slots_ok_def)
qed

lemma slots_ok_step: assumes "race_step K True r r'" "slots_ok K r" "callers_ok r" shows "slots_ok K r'"
proof -
  have K: "j < K" if "rc_slot r j = Some x" for j x using assms(2) that by (simp add: slots_ok_def)
  have used: "p < length (sv_heap (rc_server r)) \<and> (\<forall>i. storing r i p \<longrightarrow> i = j)" if "storing r j p" for j p
    using assms(2) that by (auto simp: slots_ok_def)
  show ?thesis
    using assms(1)
  proof (cases rule: race_step_cases)
    case (close c p pc s nxt)
    note st = close_turn [OF assms(3) close(1,3)]
    from close_piece_changes(2) [OF close(2) st(1)] close(3) show ?thesis by (intro slots_ok_same [OF assms(2)]) simp_all
  next
    case (create j job url port t)
    have "\<not> storing r i (length (sv_heap (rc_server r)))" for i using used by blast
    moreover have "storing r' j q \<longleftrightarrow> q = length (sv_heap (rc_server r))" for q
      by (auto simp: create(1) storing_def)
    ultimately show ?thesis using create K by (intro slots_ok_update [OF assms(2), of r' j]) auto
  next
    case (map j job p s)
    with used [of j p] K show ?thesis
      by (intro slots_ok_update [OF assms(2), of r' j]) (auto simp: storing_def same_accounts_def)
  next
    case (finish j job pc p x s)
    with K show ?thesis
      by (intro slots_ok_update [OF assms(2), of r' j]) (auto simp: storing_def same_accounts_def)
  next
    case (begin_close c p)
    then show ?thesis by (intro slots_ok_same [OF assms(2)]) simp_all
  qed (use K in \<open>auto intro!: slots_ok_update [OF assms(2)] simp: storing_def\<close>)
qed

section \<open>Ports\<close>

text \<open>Who holds which port: a slot between allocating it and creating the tunnel, then the tunnel until the port
  is released; 0 stands for none.\<close>

definition slot_port :: "race \<Rightarrow> nat \<Rightarrow> int" where
  "slot_port r j = (case rc_slot r j of Some (job, RegCreate url port) \<Rightarrow> port | _ \<Rightarrow> 0)"

definition released :: "close_status \<Rightarrow> bool" where
  "released st \<longleftrightarrow> st \<in> {ClosingAt CloseDomain, ClosingAt CloseMap, ClosingAt CloseCount, ClosedBy}"

definition tunnel_port :: "race \<Rightarrow> nat \<Rightarrow> int" where
  "tunnel_port r p =
     (if p < length (sv_heap (rc_server r)) \<and> \<not> released (status r p) then tn_Port (tunnel_at (rc_server r) p) else 0)"

definition owner_port :: "race \<Rightarrow> nat + nat \<Rightarrow> int" where
  "owner_port r = case_sum (slot_port r) (tunnel_port r)"

definition owns :: "(nat + nat \<Rightarrow> int) \<Rightarrow> int set \<Rightarrow> bool" where
  "owns f used \<longleftrightarrow> used \<subseteq> {0<..} \<and> (\<forall>port > 0. port \<in> used \<longleftrightarrow> (\<exists>k. f k = port))
     \<and> (\<forall>k k'. f k > 0 \<longrightarrow> f k = f k' \<longrightarrow> k = k')"

lemma owns_take:
  assumes "owns f used" "f k \<le> 0" "port \<notin> used" "port > 0"
  shows "owns (f(k := port)) (insert port used)"
  using assms unfolding owns_def by (auto split: if_splits) (metis order.strict_iff_not)+

lemma owns_move:
  assumes "owns f used" "f k' \<le> 0" "k \<noteq> k'"
  shows "owns (f(k := 0, k' := f k)) used"
  using assms unfolding owns_def by (auto split: if_splits) (metis order.strict_iff_not)+

lemma owns_drop:
  assumes "owns f used" "f k > 0"
  shows "owns (f(k := 0)) (used - {f k})"
  using assms unfolding owns_def by (auto split: if_splits)

lemma owns_same_sign:
  assumes "owns f used" "\<And>k. f k = g k \<or> f k \<le> 0 \<and> g k \<le> 0"
  shows "owns g used"
  using assms unfolding owns_def by (metis order.strict_iff_not)

definition ports_ok :: "race \<Rightarrow> bool" where
  "ports_ok r \<longleftrightarrow> owns (owner_port r) (pm_used (sv_portManager (rc_server r)))
     \<and> port_range (sv_portManager (rc_server r)) \<subseteq> {0<..}"

lemma owner_port_simps [simp]: "owner_port r (Inl j) = slot_port r j" "owner_port r (Inr p) = tunnel_port r p"
  by (simp_all add: owner_port_def)

lemma owner_port_slot:
  assumes "rc_slot r' = (rc_slot r)(j := x)" "rc_closing r' = rc_closing r" "sv_heap (rc_server r') = sv_heap (rc_server r)"
  shows "owner_port r' = (owner_port r)(Inl j := slot_port r' j)"
proof
  fix k show "owner_port r' k = ((owner_port r)(Inl j := slot_port r' j)) k"
    using assms status_same [of r' r] by (cases k) (auto simp: slot_port_def tunnel_port_def)
qed

lemma ports_ok_slot:
  assumes "ports_ok r" "rc_slot r' = (rc_slot r)(j := x)" "rc_closing r' = rc_closing r"
    "sv_heap (rc_server r') = sv_heap (rc_server r)" "sv_portManager (rc_server r') = sv_portManager (rc_server r)"
    "slot_port r j = 0" "slot_port r' j = 0"
  shows "ports_ok r'"
proof -
  have "owner_port r' = owner_port r" using owner_port_slot [OF assms(2-4)] assms(6,7) by (auto simp: fun_eq_iff)
  with assms(1,5) show ?thesis by (simp add: ports_ok_def)
qed

lemma ports_ok_step:
  assumes "race_step K True r r'" "ports_ok r" "callers_ok r"
  shows "ports_ok r'"
  using assms(1)
proof (cases rule: race_step_cases)
  case (address j job url port m)
  have o: "owner_port r' = (owner_port r)(Inl j := port)"
    using owner_port_slot [of r' r j] address(1) by (simp add: slot_port_def)
  show ?thesis
  proof (cases "port = 0 \<and> m = sv_portManager (rc_server r)")
    case True
    with address show ?thesis by (intro ports_ok_slot [OF assms(2)]) (auto simp: slot_port_def)
  next
    case False
    with address(3) have al: "PortManager_Allocate (sv_portManager (rc_server r)) = (Some port, m)" by simp
    from port_manager.allocate_Some [OF al] assms(2) have
      "port \<notin> pm_used (sv_portManager (rc_server r))" "pm_used m = insert port (pm_used (sv_portManager (rc_server r)))"
      "port > 0" "port_range m \<subseteq> {0<..}"
      by (auto simp: ports_ok_def)
    with owns_take [of "owner_port r" _ "Inl j" port] assms(2) o address(1,2) show ?thesis
      by (simp add: ports_ok_def slot_port_def)
  qed
next
  case (create j job url port t)
  let ?n = "length (sv_heap (rc_server r))"
  have st: "status r' = status r" using create(1) status_same [of r' r] by simp
  have "status r ?n = NotClosing" using assms(3) by (auto simp: callers_ok_def)
  then have "owner_port r' = (owner_port r)(Inl j := 0, Inr ?n := owner_port r (Inl j))"
    using create st by (auto simp: fun_eq_iff owner_port_def slot_port_def tunnel_port_def released_def nth_append less_Suc_eq
        split: sum.split)
  moreover have "owner_port r (Inr ?n) = 0" by (simp add: tunnel_port_def)
  ultimately show ?thesis
    using owns_move [of "owner_port r" _ "Inr ?n" "Inl j"] assms(2) create(1) by (simp add: ports_ok_def)
next
  case (begin_close c p)
  then have "status r' = (status r)(p := ClosingAt CloseCancel)" "status r p = NotClosing"
    using begin_close_turn [OF assms(3) _ begin_close(1)] by (auto simp: being_closed_status)
  then have "owner_port r' = owner_port r"
    using begin_close(1) by (auto simp: fun_eq_iff owner_port_def slot_port_def tunnel_port_def released_def split: sum.split)
  with assms(2) begin_close(1) show ?thesis by (simp add: ports_ok_def)
next
  case (close c p pc s nxt)
  note st = close_turn [OF assms(3) close(1,3)]
  note ch = close_piece_changes [OF close(2) st(1)]
  have rel: "released (status r' p) \<longleftrightarrow> pc \<in> {ClosePort, CloseDomain, CloseMap, CloseCount}"
    using st(4) ch(8) by (auto simp: released_def split: option.splits)
  have tp: "tunnel_port r' q = (if q = p \<and> pc = ClosePort then 0 else tunnel_port r q)" for q
  proof (cases "q = p")
    case True
    then show ?thesis using rel ch(2,3) st(1,2) close(3) by (auto simp: tunnel_port_def released_def)
  next
    case False
    then show ?thesis using st(4) ch(2,3) close(3) by (simp add: tunnel_port_def)
  qed
  have sp: "slot_port r' = slot_port r" using close(3) by (simp add: slot_port_def fun_eq_iff)
  show ?thesis
  proof (cases "pc = ClosePort \<and> tn_Port (tunnel_at (rc_server r) p) > 0")
    case True
    have o: "owner_port r' = (owner_port r)(Inr p := 0)" using tp sp True by (auto simp: fun_eq_iff owner_port_def split: sum.split)
    have "owner_port r (Inr p) = tn_Port (tunnel_at (rc_server r) p)" using st(1,2) True by (simp add: tunnel_port_def released_def)
    with owns_drop [of "owner_port r" _ "Inr p"] o assms(2) True ch(5) close(3) show ?thesis
      by (simp add: ports_ok_def PortManager_Release_def port_range_def)
  next
    case False
    have "owner_port r k = owner_port r' k \<or> owner_port r k \<le> 0 \<and> owner_port r' k \<le> 0" for k
      using tp sp False st(1,2) by (cases k) (auto simp: tunnel_port_def)
    from owns_same_sign [OF _ this] assms(2) False ch(5) close(3) show ?thesis by (auto simp: ports_ok_def)
  qed
qed (auto intro!: ports_ok_slot [OF assms(2)] simp: same_accounts_def slot_port_def)

section \<open>The counter and the limit\<close>

text \<open>What a tunnel contributes to the counter, and the registrations that have passed the check but are not
  counted yet.\<close>

definition contribution :: "race \<Rightarrow> nat \<Rightarrow> int" where
  "contribution r p = (if \<exists>j. storing r j p then 0 else 1) - (if status r p = ClosedBy then 1 else 0)"

definition counted :: "race \<Rightarrow> int" where
  "counted r = (\<Sum>p < length (sv_heap (rc_server r)). contribution r p)"

fun is_pending :: "(reg_job \<times> reg_pc) option \<Rightarrow> bool" where
  "is_pending (Some (job, RegAddress)) = True"
| "is_pending (Some (job, RegCreate url port)) = True"
| "is_pending (Some (job, RegMap p)) = True"
| "is_pending (Some (job, RegActive p)) = True"
| "is_pending _ = False"

definition pending_regs :: "race \<Rightarrow> nat set" where
  "pending_regs r = {j. is_pending (rc_slot r j)}"

lemma storing_pending: "storing r j p \<Longrightarrow> j \<in> pending_regs r"
  by (cases "rc_slot r j" rule: is_pending.cases) (auto simp: storing_def pending_regs_def)

lemma pending_slots: "slots_ok K r \<Longrightarrow> pending_regs r \<subseteq> {..<K}"
proof
  fix j assume "slots_ok K r" "j \<in> pending_regs r"
  then have "rc_slot r j \<noteq> None" by (cases "rc_slot r j") (auto simp: pending_regs_def)
  with \<open>slots_ok K r\<close> show "j \<in> {..<K}" by (simp add: slots_ok_def)
qed

lemma sum_update: "(p::nat) < n \<Longrightarrow> (\<Sum>q < n. (f(p := v)) q) = (\<Sum>q < n. f q) - f p + (v::int)"
  using sum.remove [of "{..<n}" p "f(p := v)"] sum.remove [of "{..<n}" p f] by (simp del: fun_upd_apply) simp

lemma pending_bound:
  assumes "slots_ok K r"
  shows "finite (pending_regs r)" "card (pending_regs r) \<le> K" "- int (card (pending_regs r)) \<le> counted r"
proof -
  show fin: "finite (pending_regs r)" using pending_slots [OF assms] finite_subset by blast
  show "card (pending_regs r) \<le> K" using card_mono [OF _ pending_slots [OF assms]] by simp
  let ?n = "length (sv_heap (rc_server r))"
  let ?A = "{p. p < ?n \<and> (\<exists>j. storing r j p)}"
  define g where "g p = (SOME j. storing r j p)" for p
  have g: "storing r (g p) p" if "p \<in> ?A" for p using that by (auto simp: g_def intro: someI)
  have one: "q = p" if "storing r j p" "storing r j q" for j p q
    using that by (auto simp: storing_def split: option.splits reg_pc.splits)
  have "inj_on g ?A" using g one by (metis (no_types, lifting) inj_onI)
  moreover have "g ` ?A \<subseteq> pending_regs r" using g storing_pending by blast
  ultimately have "card ?A \<le> card (pending_regs r)" using fin by (metis card_inj_on_le)
  moreover have "(\<Sum>p < ?n. if \<exists>j. storing r j p then - 1 else 0) \<le> counted r"
    unfolding counted_def by (rule sum_mono) (auto simp: contribution_def)
  moreover have "(\<Sum>p < ?n. if \<exists>j. storing r j p then - 1 else (0::int)) = - int (card ?A)"
    by (simp add: sum.If_cases Int_def lessThan_def)
  ultimately show "- int (card (pending_regs r)) \<le> counted r" by linarith
qed

definition count_ok :: "nat \<Rightarrow> int \<Rightarrow> race \<Rightarrow> bool" where
  "count_ok K M r \<longleftrightarrow> sc_MaxTunnels (sv_config (rc_server r)) = M \<and> sv_activeTunnels (rc_server r) = i64 (counted r)
     \<and> counted r + int (card (pending_regs r)) \<le> M - 1 + int K"

lemma count_ok_slot:
  assumes "count_ok K M r" "slots_ok K r" "rc_slot r' = (rc_slot r)(j := x)" "rc_closing r' = rc_closing r"
    "sv_config (rc_server r') = sv_config (rc_server r)" "sv_heap (rc_server r') = sv_heap (rc_server r)"
    "sv_activeTunnels (rc_server r') = sv_activeTunnels (rc_server r)"
    "is_pending x \<longrightarrow> is_pending (rc_slot r j)" "\<And>p. storing r' j p \<longleftrightarrow> storing r j p"
  shows "count_ok K M r'"
proof -
  have "storing r' i p \<longleftrightarrow> storing r i p" for i p using assms(3,9) by (cases "i = j") (auto simp: storing_def)
  then have "counted r' = counted r"
    using status_same [OF assms(4)] assms(6) by (simp add: counted_def contribution_def)
  moreover have "pending_regs r' \<subseteq> pending_regs r" using assms(3,8) by (auto simp: pending_regs_def split: if_splits)
  from card_mono [OF pending_bound(1) [OF assms(2)] this] have "card (pending_regs r') \<le> card (pending_regs r)" .
  ultimately show ?thesis using assms(1,5,7) by (auto simp: count_ok_def)
qed

text \<open>The check of the limit sees the exact number, since it is far from the bounds of 64-bit integers.\<close>

lemma count_exact:
  assumes "count_ok K M r" "slots_ok K r" "0 \<le> M" "M + int K < 2 ^ 63"
  shows "sv_activeTunnels (rc_server r) = counted r"
proof -
  have "- int K \<le> counted r" "counted r < M + int K"
    using pending_bound [OF assms(2)] assms(1) by (auto simp: count_ok_def)
  then have "in_i64 (counted r)" using assms(3,4) by (simp add: in_i64_def)
  with assms(1) show ?thesis by (simp add: count_ok_def)
qed

lemma count_ok_step:
  assumes "race_step K True r r'" "count_ok K M r" "slots_ok K r" "callers_ok r" "0 \<le> M" "M + int K < 2 ^ 63"
  shows "count_ok K M r'"
proof -
  have slots': "slots_ok K r'" using slots_ok_step [OF assms(1,3,4)] .
  note upd = count_ok_slot [OF assms(2,3)]
  show ?thesis
    using assms(1)
  proof (cases rule: race_step_cases)
    case (limit j job)
    have "storing r' i p \<longleftrightarrow> storing r i p" for i p using limit(1,2) by (auto simp: storing_def)
    then have "counted r' = counted r" using limit(1) status_same [of r' r] by (simp add: counted_def contribution_def)
    moreover have "counted r < M" using count_exact [OF assms(2,3,5,6)] limit(3) assms(2) by (simp add: count_ok_def)
    ultimately show ?thesis using pending_bound(2) [OF slots'] assms(2) limit(1) by (simp add: count_ok_def)
  next
    case (create j job url port t)
    let ?n = "length (sv_heap (rc_server r))"
    have "storing r' i p \<longleftrightarrow> (if i = j then p = ?n else storing r i p)" for i p using create(1) by (auto simp: storing_def)
    moreover have "\<not> storing r j p" for p using create(2) by (simp add: storing_def)
    ultimately have "(\<exists>i. storing r' i p) \<longleftrightarrow> p = ?n \<or> (\<exists>i. storing r i p)" for p by metis
    moreover have "status r ?n = NotClosing" using assms(4) by (auto simp: callers_ok_def)
    ultimately have "contribution r' ?n = 0" "\<And>p. p < ?n \<Longrightarrow> contribution r' p = contribution r p"
      using create(1) status_same [of r' r] by (auto simp: contribution_def)
    then have "counted r' = counted r" using create(1) by (simp add: counted_def)
    moreover have "pending_regs r' = pending_regs r" using create(1,2) by (auto simp: pending_regs_def split: if_splits)
    ultimately show ?thesis using assms(2) create(1) by (simp add: count_ok_def)
  next
    case (active j job p)
    have p: "storing r j p" using active(2) by (simp add: storing_def)
    then have only: "\<not> storing r i p" if "i \<noteq> j" for i using assms(3) that by (auto simp: slots_ok_def)
    have "storing r' i q \<longleftrightarrow> i \<noteq> j \<and> storing r i q" for i q using active(1) by (auto simp: storing_def)
    moreover have "\<not> storing r j q" if "q \<noteq> p" for q using that active(2) by (auto simp: storing_def)
    ultimately have "(\<exists>i. storing r' i q) \<longleftrightarrow> q \<noteq> p \<and> (\<exists>i. storing r i q)" for q using only by metis
    then have "contribution r' = (contribution r)(p := contribution r p + 1)"
      using p active(1) status_same [of r' r] by (auto simp: contribution_def fun_eq_iff)
    moreover have "p < length (sv_heap (rc_server r))" using p assms(3) by (auto simp: slots_ok_def)
    ultimately have cnt: "counted r' = counted r + 1" using active(1) by (simp add: counted_def sum_update del: fun_upd_apply)
    have "pending_regs r = insert j (pending_regs r')" "j \<notin> pending_regs r'"
      using active(1,2) by (auto simp: pending_regs_def split: if_splits)
    then have card: "card (pending_regs r) = Suc (card (pending_regs r'))"
      using pending_bound(1) [OF slots'] by (metis card_insert_disjoint)
    have "sv_activeTunnels (rc_server r') = i64 (sv_activeTunnels (rc_server r) + 1)"
      "sv_config (rc_server r') = sv_config (rc_server r)" using active(1) by simp_all
    then show ?thesis using assms(2) cnt card by (simp add: count_ok_def)
  next
    case (begin_close c p)
    then have "status r' = (status r)(p := ClosingAt CloseCancel)" "status r p = NotClosing"
      using begin_close_turn [OF assms(4) _ begin_close(1)] by (auto simp: being_closed_status)
    then have "contribution r' = contribution r" using begin_close(1) by (auto simp: contribution_def storing_def fun_eq_iff)
    with assms(2) begin_close(1) show ?thesis by (simp add: count_ok_def counted_def pending_regs_def)
  next
    case (close c p pc s nxt)
    note st = close_turn [OF assms(4) close(1,3)]
    note ch = close_piece_changes [OF close(2) st(1)]
    have "contribution r' = (contribution r)(p := contribution r p - (if pc = CloseCount then 1 else 0))"
      using st(2,4) ch(7) close(3) by (auto simp: contribution_def storing_def fun_eq_iff split: option.splits)
    then have "counted r' = counted r - (if pc = CloseCount then 1 else 0)"
      using ch(2) close(3) st(1) by (simp add: counted_def sum_update del: fun_upd_apply)
    with assms(2) ch(1,6) close(3) show ?thesis by (simp add: count_ok_def pending_regs_def)
  next
    case (begin_register j job)
    then show ?thesis by (intro upd [of r' j]) (auto simp: storing_def)
  next
    case (refuse j job pc)
    then show ?thesis by (intro upd [of r' j]) (auto simp: storing_def)
  next
    case (address j job url port m)
    then show ?thesis by (intro upd [of r' j]) (auto simp: storing_def)
  next
    case (map j job p s)
    then show ?thesis by (intro upd [of r' j]) (auto simp: storing_def same_accounts_def)
  next
    case (finish j job pc p x s)
    then show ?thesis by (intro upd [of r' j x]) (auto simp: storing_def same_accounts_def)
  qed
qed

section \<open>Properties\<close>

definition race_inv :: "nat \<Rightarrow> int \<Rightarrow> race \<Rightarrow> bool" where
  "race_inv K M r \<longleftrightarrow> slots_ok K r \<and> callers_ok r \<and> ports_ok r \<and> count_ok K M r"

lemma race_steps_inv:
  assumes "(race_step K True)\<^sup>*\<^sup>* r r'" "race_inv K M r" "0 \<le> M" "M + int K < 2 ^ 63"
  shows "race_inv K M r'"
  using assms(1,2)
  by (induction rule: rtranclp_induct)
    (auto simp: race_inv_def intro: slots_ok_step callers_ok_step ports_ok_step count_ok_step [OF _ _ _ _ assms(3,4)])

lemma normalize_positive:
  "0 < sc_PortRangeStart (MuxServer_normalize c)" "0 < sc_MaxTunnels (MuxServer_normalize c)"
  by (simp_all add: MuxServer_normalize_def Let_def)

lemma race_start_inv:
  assumes "0 < K"
  shows "race_inv K (sc_MaxTunnels (MuxServer_normalize c)) (race_start c)"
proof -
  note pos = normalize_positive [of c]
  have st: "status (race_start c) p = NotClosing" for p by (simp add: status_def race_start_def)
  have "owner_port (race_start c) k = 0" for k
    by (cases k) (simp_all add: slot_port_def tunnel_port_def race_start_def NewMuxServer_def Let_def)
  then have "ports_ok (race_start c)"
    using pos(1) by (auto simp: ports_ok_def owns_def race_start_def NewMuxServer_def Let_def NewPortManager_def port_range_def)
  moreover have "pending_regs (race_start c) = {}" by (simp add: pending_regs_def race_start_def)
  then have "count_ok K (sc_MaxTunnels (MuxServer_normalize c)) (race_start c)"
    using assms pos(2) by (simp add: count_ok_def counted_def) (simp add: race_start_def NewMuxServer_def Let_def)
  ultimately show ?thesis
    using st by (simp add: race_inv_def slots_ok_def callers_ok_def one_caller_def storing_def)
      (simp add: race_start_def NewMuxServer_def Let_def)
qed

text \<open>Nothing is under way.\<close>

definition at_rest :: "race \<Rightarrow> bool" where
  "at_rest r \<longleftrightarrow> (\<forall>j. rc_slot r j = None) \<and> (\<forall>c p. rc_closing r c p \<in> {NotClosing, ClosedBy})"

lemma at_rest_status: "at_rest r \<Longrightarrow> status r p \<in> {NotClosing, ClosedBy}"
  unfolding at_rest_def status_def by auto

lemma at_rest_counts:
  assumes "at_rest r" "callers_ok r"
  shows "counted r = int (card (live (rc_server r)))"
proof -
  let ?n = "length (sv_heap (rc_server r))"
  have "contribution r p = (if tn_cancelled (tunnel_at (rc_server r) p) then 0 else 1)" if "p < ?n" for p
    using assms that at_rest_status [of r p] by (auto simp: contribution_def storing_def at_rest_def callers_ok_def)
  then have "counted r = (\<Sum>p < ?n. if tn_cancelled (tunnel_at (rc_server r) p) then 0 else 1)"
    by (simp add: counted_def)
  also have "\<dots> = int (card (live (rc_server r)))"
    by (simp add: sum.If_cases live_def Int_def lessThan_def)
  finally show ?thesis .
qed

text \<open>C3. Registration and closing at the grain of their atomic operations, from a fresh server with up to \<open>K\<close>
  registrations at the same time: as long as no tunnel is closed by two callers, then under every interleaving two
  tunnels that have not released their ports never have the same one, such a port is reserved, and the
  number of active tunnels stays below the limit plus \<open>K\<close>; and whenever nothing is under way, the counter is the number
  of tunnels that are not closed and the ports in use are exactly theirs, which is what the server
  keeps when its operations are atomic.\<close>

theorem concurrent_accounting:
  assumes "(race_step K True)\<^sup>*\<^sup>* (race_start c) r" "0 < K" "sc_MaxTunnels (MuxServer_normalize c) + int K < 2 ^ 63"
  shows "(\<forall>p q. tunnel_port r p > 0 \<longrightarrow> tunnel_port r p = tunnel_port r q \<longrightarrow> p = q)
    \<and> (\<forall>p. tunnel_port r p > 0 \<longrightarrow> tunnel_port r p \<in> pm_used (sv_portManager (rc_server r)))
    \<and> sv_activeTunnels (rc_server r) < sc_MaxTunnels (MuxServer_normalize c) + int K
    \<and> (at_rest r \<longrightarrow> sv_activeTunnels (rc_server r) = int (card (live (rc_server r)))
         \<and> pm_used (sv_portManager (rc_server r)) = (\<lambda>p. tn_Port (tunnel_at (rc_server r) p)) ` with_ports (rc_server r)
         \<and> inj_on (\<lambda>p. tn_Port (tunnel_at (rc_server r) p)) (with_ports (rc_server r)))"
proof -
  let ?M = "sc_MaxTunnels (MuxServer_normalize c)" and ?s = "rc_server r"
  have M: "0 \<le> ?M" using normalize_positive(2) [of c] by simp
  have inv: "slots_ok K r" "callers_ok r" "ports_ok r" "count_ok K ?M r"
    using race_steps_inv [OF assms(1) race_start_inv [OF assms(2)] M assms(3)] by (simp_all add: race_inv_def)
  note exact = count_exact [OF inv(4,1) M assms(3)]
  have own: "owns (owner_port r) (pm_used (sv_portManager ?s))" using inv(3) by (simp add: ports_ok_def)
  have uniq: "p = q" if "tunnel_port r p > 0" "tunnel_port r p = tunnel_port r q" for p q
    using own that unfolding owns_def by (metis Inr_inject owner_port_simps(2))
  have res: "tunnel_port r p \<in> pm_used (sv_portManager ?s)" if "tunnel_port r p > 0" for p
    using own that unfolding owns_def by (metis owner_port_simps(2))
  have "sv_activeTunnels ?s < ?M + int K" using exact inv(4) by (simp add: count_ok_def)
  moreover have "sv_activeTunnels ?s = int (card (live ?s))
      \<and> pm_used (sv_portManager ?s) = (\<lambda>p. tn_Port (tunnel_at ?s p)) ` with_ports ?s
      \<and> inj_on (\<lambda>p. tn_Port (tunnel_at ?s p)) (with_ports ?s)" if rest: "at_rest r"
  proof -
    have tp: "tunnel_port r p = (if p \<in> live ?s then tn_Port (tunnel_at ?s p) else 0)" for p
      using at_rest_status [OF rest, of p] inv(2) by (auto simp: tunnel_port_def live_def callers_ok_def released_def)
    have sp: "slot_port r j = 0" for j using rest by (simp add: slot_port_def at_rest_def)
    have "port \<in> pm_used (sv_portManager ?s) \<longleftrightarrow> port > 0 \<and> (\<exists>p. tunnel_port r p = port)" for port
      using own sp unfolding owns_def
      by (metis greaterThan_iff less_irrefl old.sum.exhaust owner_port_simps subsetD)
    then have "pm_used (sv_portManager ?s) = (\<lambda>p. tn_Port (tunnel_at ?s p)) ` with_ports ?s"
      using tp by (auto simp: with_ports_def image_iff split: if_splits)
    moreover have "inj_on (\<lambda>p. tn_Port (tunnel_at ?s p)) (with_ports ?s)"
      using uniq tp by (auto simp: inj_on_def with_ports_def)
    ultimately show ?thesis using at_rest_counts [OF rest inv(2)] exact by simp
  qed
  ultimately show ?thesis using uniq res by blast
qed

lemma race_run_steps: "race_run K excl es r = Some r' \<Longrightarrow> (race_step K excl)\<^sup>*\<^sup>* r r'"
proof (induction es arbitrary: r)
  case (Cons e es)
  then obtain r1 where "race_turn K excl e r = Some r1" "race_run K excl es r1 = Some r'"
    by (auto split: option.splits)
  with Cons.IH show ?case by (metis converse_rtranclp_into_rtranclp race_step_def)
qed simp

definition tcp_job :: "byte \<Rightarrow> reg_job" where
  "tcp_job b = \<lparr>rj_info = \<lparr>ri_tunnelID = [b], ri_protocol = ProtocolTCP, ri_localAddr = [], ri_domain = [], ri_authToken = []\<rparr>,
     rj_conn = unat b, rj_stream = unat b, rj_now = 0\<rparr>"

definition whole_registration :: "nat \<Rightarrow> byte \<Rightarrow> race_event list" where
  "whole_registration j b = BeginRegister j (tcp_job b) # replicate 7 (RegisterTurn j)"

definition whole_close :: "closer \<Rightarrow> nat \<Rightarrow> race_event list" where
  "whole_close c p = replicate 8 (CloseTurn c p)"

lemma run_append: "race_run K excl (es @ fs) r = (case race_run K excl es r of None \<Rightarrow> None | Some r' \<Rightarrow> race_run K excl fs r')"
  by (induction es arbitrary: r) (auto split: option.split)

lemma close_next [simp]:
  "snd (close_piece CloseCancel p s) = Some CloseListeners" "snd (close_piece CloseListeners p s) = Some CloseConnection"
  "snd (close_piece CloseConnection p s) = Some CloseExternals" "snd (close_piece CloseExternals p s) = Some ClosePort"
  "snd (close_piece ClosePort p s) = Some CloseDomain" "snd (close_piece CloseDomain p s) = Some CloseMap"
  "snd (close_piece CloseMap p s) = Some CloseCount" "snd (close_piece CloseCount p s) = None"
  by (simp_all add: Let_def)

lemma run_whole_close:
  assumes "p < length (sv_heap (rc_server r))" "rc_closing r c p = ClosingAt CloseCancel"
  shows "race_run K excl (whole_close c p) r =
    Some (r\<lparr>rc_server := closeTunnel p (rc_server r), rc_closing := (rc_closing r)(c := (rc_closing r c)(p := ClosedBy))\<rparr>)"
  using assms(2)
  by (simp add: closeTunnel_pieces [OF assms(1), symmetric] close_pieces_def whole_close_def eval_nat_numeral case_prod_beta
      del: close_piece.simps)

definition tcp_tunnel :: "byte \<Rightarrow> int \<Rightarrow> Tunnel" where
  "tcp_tunnel b port = new_tunnel [b] ProtocolTCP [] (str ''tcp://:'' @ dec (nat port)) port [] (unat b) (unat b) (unix 0)"

lemma run_whole_registration:
  assumes "j < K" "rc_slot r j = None" "sv_activeTunnels (rc_server r) < sc_MaxTunnels (sv_config (rc_server r))"
    and "PortManager_Allocate (sv_portManager (rc_server r)) = (Some port, m)"
  shows "race_run K excl (whole_registration j b) r =
        Some (r\<lparr>rc_server := store_tunnel (tcp_tunnel b port) (rc_server r\<lparr>sv_portManager := m\<rparr>)\<rparr>)"
  using assms
  by (auto simp: whole_registration_def eval_nat_numeral tcp_job_def register_address_def with_port_def new_tunnel_def
      tcp_tunnel_def store_tunnel_def Let_def fun_upd_idem)

lemma allocate_first:
  "10000 \<notin> used \<Longrightarrow> PortManager_Allocate \<lparr>pm_start = 10000, pm_end = 20000, pm_used = used\<rparr> =
     (Some 10000, \<lparr>pm_start = 10000, pm_end = 20000, pm_used = insert 10000 used\<rparr>)"
  by (simp add: PortManager_Allocate_def scan_ports.simps)

text \<open>What matters of a state, and the effect on it of a whole registration and of a whole call of
  \<^verbatim>\<open>closeTunnel\<close>.\<close>

definition ports_at :: "int set \<Rightarrow> PortManager" where
  "ports_at used = \<lparr>pm_start = 10000, pm_end = 20000, pm_used = used\<rparr>"

definition snapshot :: "int set \<Rightarrow> int \<Rightarrow> (int \<times> gostr \<times> bool) list \<Rightarrow> (closer \<Rightarrow> nat \<Rightarrow> close_status) \<Rightarrow> race \<Rightarrow> bool" where
  "snapshot used n ts cl r \<longleftrightarrow> rc_slot r = (\<lambda>_. None) \<and> rc_closing r = cl
     \<and> sc_MaxTunnels (sv_config (rc_server r)) = 10000 \<and> sv_portManager (rc_server r) = ports_at used
     \<and> sv_activeTunnels (rc_server r) = n
     \<and> map (\<lambda>t. (tn_Port t, tn_Domain t, tn_cancelled t)) (sv_heap (rc_server r)) = ts"

lemma snapshot_register:
  assumes "snapshot used n ts cl r" "10000 \<notin> used" "n < 10000"
  shows "\<exists>r'. race_run 1 excl (whole_registration 0 b) r = Some r' \<and> sv_tunnels (rc_server r') [b] = Some (length ts)
    \<and> tn_ID (tunnel_at (rc_server r') (length ts)) = [b]
    \<and> snapshot (insert 10000 used) (i64 (n + 1)) (ts @ [(10000, [], False)]) cl r'"
proof -
  let ?s = "store_tunnel (tcp_tunnel b 10000) (rc_server r\<lparr>sv_portManager := ports_at (insert 10000 used)\<rparr>)"
  have "PortManager_Allocate (sv_portManager (rc_server r)) = (Some 10000, ports_at (insert 10000 used))"
    using allocate_first assms(1,2) by (simp add: ports_at_def snapshot_def)
  then have "race_run 1 excl (whole_registration 0 b) r = Some (r\<lparr>rc_server := ?s\<rparr>)"
    using assms(1,3) by (intro run_whole_registration) (simp_all add: snapshot_def)
  moreover have "length (sv_heap (rc_server r)) = length ts" using assms(1) by (auto simp: snapshot_def)
  ultimately show ?thesis
    using assms(1) by (auto simp: snapshot_def store_tunnel_def tcp_tunnel_def new_tunnel_def nth_append)
qed

lemma snapshot_close:
  assumes "snapshot used n ts cl r" "cl c p = ClosingAt CloseCancel" "p < length ts" "ts ! p = (10000, [], x)"
  shows "\<exists>r'. race_run 1 excl (whole_close c p) r = Some r'
    \<and> snapshot (used - {10000}) (i64 (n - 1)) (ts[p := (10000, [], True)]) (cl(c := (cl c)(p := ClosedBy))) r'"
proof -
  have p: "p < length (sv_heap (rc_server r))" "tn_Port (tunnel_at (rc_server r) p) = 10000"
    "tn_Domain (tunnel_at (rc_server r) p) = []"
    using assms by (auto simp: snapshot_def)
  have "race_run 1 excl (whole_close c p) r = Some (r\<lparr>rc_server := closeTunnel p (rc_server r),
      rc_closing := (rc_closing r)(c := (rc_closing r c)(p := ClosedBy))\<rparr>)"
    using p(1) assms(1,2) by (intro run_whole_close) (simp_all add: snapshot_def)
  then show ?thesis
    using assms(1) p by (auto simp: snapshot_def closeTunnel_def Let_def set_tunnel_def close_def PortManager_Release_def
        ports_at_def map_update)
qed

text \<open>C37. Two callers that close the same tunnel make the server give one port to two tunnels. There is a run in which
  the control loop, whose read failed before the tunnel was cancelled, and the health check both close the first
  tunnel; the health check is faster, a second tunnel gets the port, the control loop releases the port again,
  and a third tunnel gets it too. In the end nothing is under way, two live tunnels have the same port, and
  the counter is less than the number of live tunnels.\<close>

theorem double_close_shares_port:
  "\<exists>r. (race_step 1 False)\<^sup>*\<^sup>* (race_start DefaultMuxServerConfig) r \<and> at_rest r
     \<and> live (rc_server r) = {1, 2} \<and> tn_Port (tunnel_at (rc_server r) 1) = tn_Port (tunnel_at (rc_server r) 2)
     \<and> tn_Port (tunnel_at (rc_server r) 1) > 0 \<and> sv_activeTunnels (rc_server r) = 1"
proof -
  let ?none = "\<lambda>_ _. NotClosing" and ?open = "(10000, [], False)" and ?gone = "(10000, [], True)"
  have "snapshot {} 0 [] ?none (race_start DefaultMuxServerConfig)"
    by (simp add: snapshot_def race_start_def NewMuxServer_def Let_def MuxServer_normalize_def DefaultMuxServerConfig_def
        NewPortManager_def ports_at_def)
  then obtain r1 where r1: "race_run 1 False (whole_registration 0 1) (race_start DefaultMuxServerConfig) = Some r1"
    "sv_tunnels (rc_server r1) [1] = Some 0" "tn_ID (tunnel_at (rc_server r1) 0) = [1]" "snapshot {10000} 1 [?open] ?none r1"
    using snapshot_register [of "{}" 0 "[]" ?none _ False 1] by auto
  let ?both = "(?none(ByControlLoop := (\<lambda>_. NotClosing)(0 := ClosingAt CloseCancel)))
     (ByHealthCheck := (\<lambda>_. NotClosing)(0 := ClosingAt CloseCancel))"
  let ?one = "?both(ByHealthCheck := (\<lambda>_. NotClosing)(0 := ClosedBy))"
  let ?done = "?one(ByControlLoop := (\<lambda>_. NotClosing)(0 := ClosedBy))"
  let ?r2 = "r1\<lparr>rc_closing := ?both\<rparr>"
  have r2: "race_run 1 False [BeginClose ByControlLoop 0, BeginClose ByHealthCheck 0] r1 = Some ?r2" "snapshot {10000} 1 [?open] ?both ?r2"
    using r1(2-4) by (auto simp: snapshot_def may_close_def)
  obtain r3 where r3: "race_run 1 False (whole_close ByHealthCheck 0) ?r2 = Some r3" "snapshot {} 0 [?gone] ?one r3"
    using snapshot_close [OF r2(2), of ByHealthCheck 0 False False] by auto
  obtain r4 where r4: "race_run 1 False (whole_registration 0 2) r3 = Some r4" "snapshot {10000} 1 [?gone, ?open] ?one r4"
    using snapshot_register [OF r3(2), of False 2] by auto
  obtain r5 where r5: "race_run 1 False (whole_close ByControlLoop 0) r4 = Some r5" "snapshot {} 0 [?gone, ?open] ?done r5"
    using snapshot_close [OF r4(2), of ByControlLoop 0 True False] by auto
  obtain r6 where r6: "race_run 1 False (whole_registration 0 3) r5 = Some r6" "snapshot {10000} 1 [?gone, ?open, ?open] ?done r6"
    using snapshot_register [OF r5(2), of False 3] by auto
  have "race_run 1 False (whole_registration 0 1 @ [BeginClose ByControlLoop 0, BeginClose ByHealthCheck 0]
      @ whole_close ByHealthCheck 0 @ whole_registration 0 2 @ whole_close ByControlLoop 0 @ whole_registration 0 3)
      (race_start DefaultMuxServerConfig) = Some r6"
    using r1(1) r2(1) r3(1) r4(1) r5(1) r6(1) by (simp only: run_append option.case)
  from race_run_steps [OF this] have "(race_step 1 False)\<^sup>*\<^sup>* (race_start DefaultMuxServerConfig) r6" .
  moreover have "at_rest r6" "sv_activeTunnels (rc_server r6) = 1" using r6(2) by (auto simp: snapshot_def at_rest_def)
  moreover obtain t0 t1 t2 where "sv_heap (rc_server r6) = [t0, t1, t2]" "tn_cancelled t0" "\<not> tn_cancelled t1"
    "\<not> tn_cancelled t2" "tn_Port t1 = 10000" "tn_Port t2 = 10000"
    using r6(2) by (auto simp: snapshot_def map_eq_Cons_conv)
  ultimately show ?thesis by (intro exI [of _ r6]) (auto simp: live_def less_Suc_eq numeral_eq_Suc)
qed

theorem concurrent_accounting_witness:
  "\<exists>r. (race_step 1 True)\<^sup>*\<^sup>* (race_start DefaultMuxServerConfig) r \<and> at_rest r \<and> length (sv_heap (rc_server r)) = 1
     \<and> sv_activeTunnels (rc_server r) = int (card (live (rc_server r)))"
proof -
  have "snapshot {} 0 [] (\<lambda>_ _. NotClosing) (race_start DefaultMuxServerConfig)"
    by (simp add: snapshot_def race_start_def NewMuxServer_def Let_def MuxServer_normalize_def DefaultMuxServerConfig_def
        NewPortManager_def ports_at_def)
  from snapshot_register [OF this, of True 1]
  obtain r where r: "race_run 1 True (whole_registration 0 1) (race_start DefaultMuxServerConfig) = Some r"
    "snapshot {10000} 1 [(10000, [], False)] (\<lambda>_ _. NotClosing) r" by auto
  have "at_rest r" "length (sv_heap (rc_server r)) = 1" using r(2) by (auto simp: snapshot_def at_rest_def)
  moreover have "sc_MaxTunnels (MuxServer_normalize DefaultMuxServerConfig) + int 1 < 2 ^ 63"
    by (simp add: MuxServer_normalize_def DefaultMuxServerConfig_def Let_def)
  ultimately show ?thesis using concurrent_accounting [OF race_run_steps [OF r(1)]] race_run_steps [OF r(1)] by auto
qed

text \<open>The limit is checked before it is used up: with one place left, two registrations that run at the same time
  both get it, so the bound of \<open>concurrent_accounting\<close> is reached.\<close>

definition domain_job :: "byte \<Rightarrow> reg_job" where
  "domain_job b = \<lparr>rj_info = \<lparr>ri_tunnelID = [b], ri_protocol = ProtocolHTTP, ri_localAddr = [], ri_domain = [b], ri_authToken = []\<rparr>,
     rj_conn = unat b, rj_stream = unat b, rj_now = 0\<rparr>"

lemma tunnel_limit_exceeded:
  "\<exists>r. (race_step 2 True)\<^sup>*\<^sup>* (race_start (DefaultMuxServerConfig\<lparr>sc_MaxTunnels := 1\<rparr>)) r \<and> at_rest r
     \<and> sv_activeTunnels (rc_server r) = 2"
proof -
  let ?es = "[BeginRegister 0 (domain_job 1), BeginRegister 1 (domain_job 2), RegisterTurn 0, RegisterTurn 1]
    @ [RegisterTurn 0, RegisterTurn 0, RegisterTurn 0, RegisterTurn 0, RegisterTurn 0, RegisterTurn 0,
       RegisterTurn 1, RegisterTurn 1, RegisterTurn 1, RegisterTurn 1, RegisterTurn 1, RegisterTurn 1]"
  have addr: "register_address ProtocolHTTP i s = (Some (domain_url i, 0), s)" for i s by (simp add: register_address_def)
  note init = race_start_def NewMuxServer_def MuxServer_normalize_def DefaultMuxServerConfig_def
  have "\<exists>r. race_run 2 True ?es (race_start (DefaultMuxServerConfig\<lparr>sc_MaxTunnels := 1\<rparr>)) = Some r
      \<and> rc_slot r = (\<lambda>_. None) \<and> rc_closing r = (\<lambda>_ _. NotClosing) \<and> sv_activeTunnels (rc_server r) = 2"
    by (simp add: init domain_job_def addr Let_def fun_eq_iff in_i64_def)
  then obtain r where r: "race_run 2 True ?es (race_start (DefaultMuxServerConfig\<lparr>sc_MaxTunnels := 1\<rparr>)) = Some r"
    "rc_slot r = (\<lambda>_. None)" "rc_closing r = (\<lambda>_ _. NotClosing)" "sv_activeTunnels (rc_server r) = 2" by blast
  from race_run_steps [OF r(1)] r(2-4) show ?thesis by (intro exI [of _ r]) (simp add: at_rest_def)
qed

end
