(* ===== verification/Tunnel_Path.thy ===== *)
theory Tunnel_Path
  imports Stream_Forwarder Client_Behaviour
begin

text \<open>
  The data path of one user connection, from end to end: the forwarding loops of \<^verbatim>\<open>quic/quic.go\<close> on the
  server (\<^verbatim>\<open>forwardBidirectional\<close>, \<^verbatim>\<open>forwardQUICStream\<close>) and on the client
  (\<^verbatim>\<open>handleTCPDataStreamForward\<close>, \<^verbatim>\<open>handleQUICDataStreamForward\<close>), with the QUIC stream between them.

  A loop is a goroutine that checks its context, reads into its own buffer, writes the buffer out and
  counts; when it returns, it cancels the other direction. \<open>relay\<close> is the two goroutines of one call with
  their context. Each goroutine keeps what it has read and what has left it. \<open>path\<close> puts the relay of the
  server and the one of the client behind each other: what one has written is what the other may read, in
  order, as sockets and QUIC streams promise. User and local service send what they like, may close their
  ends at any time, and connections may break.

  Shown: under every interleaving the path is transparent; from every state in which nobody has closed, all
  that was sent can still be delivered; but after one side has finished sending, the other one gets at most one
  more buffer, and a user is not told when the service closes.
\<close>

section \<open>Two goroutines\<close>

record pump =
  pu_state :: dir_state
  pu_buf :: bytes
  pu_in :: bytes
  pu_out :: bytes
  pu_count :: int

record relay =
  rl_ctxDone :: bool
  rl_pump :: "direction \<Rightarrow> pump"

definition new_pump :: "gslice \<Rightarrow> pump" where
  "new_pump b = \<lparr>pu_state = AtTop, pu_buf = contents b, pu_in = [], pu_out = [], pu_count = 0\<rparr>"

text \<open>\<^verbatim>\<open>forwardBidirectional\<close> and the client's two functions take \<^verbatim>\<open>bufIn\<close>, then \<^verbatim>\<open>bufOut\<close>, and use \<^verbatim>\<open>bufIn\<close> for
  their first goroutine: from the user to the stream on the server, from the stream to the service on the
  client. \<^verbatim>\<open>forwardQUICStream\<close> uses \<^verbatim>\<open>bufOut\<close> for its first goroutine. The context is a child of the one given.\<close>

definition start_relay :: "bool \<Rightarrow> gslice \<Rightarrow> gslice \<Rightarrow> relay" where
  "start_relay ctxDone b1 b2 =
     \<lparr>rl_ctxDone = ctxDone, rl_pump = (\<lambda>d. case d of Dir1 \<Rightarrow> new_pump b1 | Dir2 \<Rightarrow> new_pump b2)\<rparr>"

definition forwardBidirectional_relay ::
  "bool \<Rightarrow> nat option \<Rightarrow> nat option \<Rightarrow> BufferPool \<Rightarrow> relay \<times> BufferPool" where
  "forwardBidirectional_relay ctxDone ch1 ch2 pool =
     (case BufferPool_Get ch1 pool of
        (bufIn, pool1) \<Rightarrow> (case BufferPool_Get ch2 pool1 of (bufOut, pool2) \<Rightarrow> (start_relay ctxDone bufIn bufOut, pool2)))"

definition forwardQUICStream_relay ::
  "bool \<Rightarrow> nat option \<Rightarrow> nat option \<Rightarrow> BufferPool \<Rightarrow> relay \<times> BufferPool" where
  "forwardQUICStream_relay ctxDone ch1 ch2 pool =
     (case BufferPool_Get ch1 pool of
        (bufIn, pool1) \<Rightarrow> (case BufferPool_Get ch2 pool1 of (bufOut, pool2) \<Rightarrow> (start_relay ctxDone bufOut bufIn, pool2)))"

definition handleTCPDataStreamForward_relay ::
  "bool \<Rightarrow> nat option \<Rightarrow> nat option \<Rightarrow> BufferPool \<Rightarrow> relay \<times> BufferPool" where
  "handleTCPDataStreamForward_relay ctxDone ch1 ch2 pool =
     (case BufferPool_Get ch1 pool of
        (bufIn, pool1) \<Rightarrow> (case BufferPool_Get ch2 pool1 of (bufOut, pool2) \<Rightarrow> (start_relay ctxDone bufIn bufOut, pool2)))"

definition handleQUICDataStreamForward_relay ::
  "bool \<Rightarrow> nat option \<Rightarrow> nat option \<Rightarrow> BufferPool \<Rightarrow> relay \<times> BufferPool" where
  "handleQUICDataStreamForward_relay ctxDone ch1 ch2 pool =
     (case BufferPool_Get ch1 pool of
        (bufIn, pool1) \<Rightarrow> (case BufferPool_Get ch2 pool1 of (bufOut, pool2) \<Rightarrow> (start_relay ctxDone bufIn bufOut, pool2)))"

definition set_pump :: "direction \<Rightarrow> pump \<Rightarrow> relay \<Rightarrow> relay" where
  "set_pump d u r = r\<lparr>rl_pump := (rl_pump r)(d := u)\<rparr>"

text \<open>A goroutine returns: its deferred function cancels the context of both.\<close>

definition pump_return :: "direction \<Rightarrow> relay \<Rightarrow> relay" where
  "pump_return d r = (set_pump d (rl_pump r d\<lparr>pu_state := Ended\<rparr>) r)\<lparr>rl_ctxDone := True\<rparr>"

definition pump_check :: "direction \<Rightarrow> relay \<Rightarrow> relay" where
  "pump_check d r =
     (if rl_ctxDone r then pump_return d r else set_pump d (rl_pump r d\<lparr>pu_state := Reading\<rparr>) r)"

definition pump_read :: "direction \<Rightarrow> bytes option \<Rightarrow> relay \<Rightarrow> relay" where
  "pump_read d result r =
     (case result of
        None \<Rightarrow> pump_return d r
      | Some data \<Rightarrow>
          let u = rl_pump r d
          in set_pump d (u\<lparr>pu_buf := data @ drop (length data) (pu_buf u), pu_in := pu_in u @ data,
                          pu_state := Writing (length data)\<rparr>) r)"

text \<open>A write of the first \<open>n\<close> bytes of the buffer; one that fails may have passed on some of them.\<close>

definition pump_write :: "direction \<Rightarrow> nat option \<Rightarrow> nat \<Rightarrow> relay \<Rightarrow> relay" where
  "pump_write d failed n r =
     (let u = rl_pump r d in
      case failed of
        None \<Rightarrow> set_pump d (u\<lparr>pu_out := pu_out u @ take n (pu_buf u), pu_count := i64 (pu_count u + int n),
                             pu_state := AtTop\<rparr>) r
      | Some k \<Rightarrow> pump_return d (set_pump d (u\<lparr>pu_out := pu_out u @ take (min k n) (pu_buf u)\<rparr>) r))"

text \<open>The function returns, and its deferred calls close both ends, when both goroutines have.\<close>

definition returned :: "relay \<Rightarrow> bool" where
  "returned r \<longleftrightarrow> pu_state (rl_pump r Dir1) = Ended \<and> pu_state (rl_pump r Dir2) = Ended"

text \<open>The steps of a relay, given what each direction's source has sent so far and whether reading from it may
  fail. A read gives at least one byte, as sockets and streams do.\<close>

inductive relay_step :: "(direction \<Rightarrow> bytes) \<Rightarrow> (direction \<Rightarrow> bool) \<Rightarrow> relay \<Rightarrow> relay \<Rightarrow> bool"
  for sent fails where
  rl_check: "pu_state (rl_pump r d) = AtTop \<Longrightarrow> relay_step sent fails r (pump_check d r)"
| rl_read: "pu_state (rl_pump r d) = Reading \<Longrightarrow> data \<noteq> [] \<Longrightarrow> length data \<le> length (pu_buf (rl_pump r d)) \<Longrightarrow>
    prefix (pu_in (rl_pump r d) @ data) (sent d) \<Longrightarrow> relay_step sent fails r (pump_read d (Some data) r)"
| rl_read_error: "pu_state (rl_pump r d) = Reading \<Longrightarrow> fails d \<Longrightarrow> relay_step sent fails r (pump_read d None r)"
| rl_write: "pu_state (rl_pump r d) = Writing n \<Longrightarrow> relay_step sent fails r (pump_write d failed n r)"

section \<open>The path\<close>

record path =
  pa_user :: bytes
  pa_service :: bytes
  pa_server :: relay
  pa_client :: relay
  pa_extClosed :: bool
  pa_localClosed :: bool
  pa_tunnelLost :: bool

abbreviation to_stream :: "path \<Rightarrow> pump" where "to_stream P \<equiv> rl_pump (pa_server P) Dir1"
abbreviation to_user :: "path \<Rightarrow> pump" where "to_user P \<equiv> rl_pump (pa_server P) Dir2"
abbreviation to_service :: "path \<Rightarrow> pump" where "to_service P \<equiv> rl_pump (pa_client P) Dir1"
abbreviation from_service :: "path \<Rightarrow> pump" where "from_service P \<equiv> rl_pump (pa_client P) Dir2"

definition new_path :: "relay \<Rightarrow> relay \<Rightarrow> bytes \<Rightarrow> path" where
  "new_path server client payload =
     \<lparr>pa_user = payload, pa_service = [], pa_server = server, pa_client = client,
      pa_extClosed = False, pa_localClosed = False, pa_tunnelLost = False\<rparr>"

text \<open>What each goroutine can read: the server's from the user and from what the client has put on the
  stream; the client's from what the server has put on the stream and from the service.\<close>

definition server_sources :: "path \<Rightarrow> direction \<Rightarrow> bytes" where
  "server_sources P d = (case d of Dir1 \<Rightarrow> pa_user P | Dir2 \<Rightarrow> pu_out (from_service P))"

definition client_sources :: "path \<Rightarrow> direction \<Rightarrow> bytes" where
  "client_sources P d = (case d of Dir1 \<Rightarrow> pu_out (to_stream P) | Dir2 \<Rightarrow> pa_service P)"

text \<open>When a read fails: the connection was closed or broke, the QUIC connection is lost, or the other
  function has returned, which closes its end of the stream, and everything sent before has been read.\<close>

definition server_fails :: "path \<Rightarrow> direction \<Rightarrow> bool" where
  "server_fails P d =
     (case d of
        Dir1 \<Rightarrow> pa_extClosed P
      | Dir2 \<Rightarrow> pa_tunnelLost P \<or> returned (pa_client P) \<and> pu_in (to_user P) = pu_out (from_service P))"

definition client_fails :: "path \<Rightarrow> direction \<Rightarrow> bool" where
  "client_fails P d =
     (case d of
        Dir1 \<Rightarrow> pa_tunnelLost P \<or> returned (pa_server P) \<and> pu_in (to_service P) = pu_out (to_stream P)
      | Dir2 \<Rightarrow> pa_localClosed P)"

inductive path_step :: "path \<Rightarrow> path \<Rightarrow> bool" where
  pa_server_step: "relay_step (server_sources P) (server_fails P) (pa_server P) r \<Longrightarrow> path_step P (P\<lparr>pa_server := r\<rparr>)"
| pa_client_step: "relay_step (client_sources P) (client_fails P) (pa_client P) r \<Longrightarrow> path_step P (P\<lparr>pa_client := r\<rparr>)"
| pa_service_sends: "path_step P (P\<lparr>pa_service := pa_service P @ data\<rparr>)"
| pa_service_closes: "path_step P (P\<lparr>pa_localClosed := True\<rparr>)"
| pa_lost: "path_step P (P\<lparr>pa_tunnelLost := True\<rparr>)"
| pa_client_stops: "path_step P (P\<lparr>pa_client := pa_client P\<lparr>rl_ctxDone := True\<rparr>, pa_tunnelLost := True\<rparr>)"
| pa_user_sends: "path_step P (P\<lparr>pa_user := pa_user P @ data\<rparr>)"
| pa_user_closes: "path_step P (P\<lparr>pa_extClosed := True\<rparr>)"
| pa_tunnel_closes: "path_step P
    (P\<lparr>pa_server := pa_server P\<lparr>rl_ctxDone := True\<rparr>, pa_extClosed := True, pa_tunnelLost := True\<rparr>)"

abbreviation path_steps :: "path \<Rightarrow> path \<Rightarrow> bool" where
  "path_steps \<equiv> path_step\<^sup>*\<^sup>*"

text \<open>A path as the server and the client open it for a connection that was routed with the rest \<open>payload\<close> of
  its first frame: both sides take their buffers from a pool of 64 KB buffers.\<close>

definition opens_path :: "bytes \<Rightarrow> path \<Rightarrow> bool" where
  "opens_path payload P \<longleftrightarrow>
     (\<exists>ch1 ch2 ch3 ch4 pool1 pool2. pool_ok pool1 \<and> bp_size pool1 = DefaultBufferSize
        \<and> pool_ok pool2 \<and> bp_size pool2 = DefaultBufferSize
        \<and> P = new_path (fst (forwardBidirectional_relay False ch1 ch2 pool1))
                      (fst (handleTCPDataStreamForward_relay False ch3 ch4 pool2)) payload)"

section \<open>Invariants\<close>

definition held :: "pump \<Rightarrow> bytes" where
  "held u = (case pu_state u of Writing n \<Rightarrow> take n (pu_buf u) | _ \<Rightarrow> [])"

definition pump_ok :: "bytes \<Rightarrow> pump \<Rightarrow> bool" where
  "pump_ok sent u \<longleftrightarrow> prefix (pu_in u) sent
     \<and> (if pu_state u = Ended then prefix (pu_out u) (pu_in u)
        else pu_out u @ held u = pu_in u \<and> pu_count u = i64 (int (length (pu_out u))))
     \<and> (\<forall>n. pu_state u = Writing n \<longrightarrow> n \<le> length (pu_buf u))"

definition relay_ok :: "(direction \<Rightarrow> bytes) \<Rightarrow> relay \<Rightarrow> bool" where
  "relay_ok sent r \<longleftrightarrow> (\<forall>d. pump_ok (sent d) (rl_pump r d))
     \<and> (\<forall>d. pu_state (rl_pump r d) = Ended \<longrightarrow> rl_ctxDone r)"

lemmas pump_defs = pump_check_def pump_read_def pump_write_def pump_return_def set_pump_def Let_def

lemma pump_ok_prefix: "pump_ok sent u \<Longrightarrow> prefix (pu_out u) (pu_in u)"
  by (auto simp: pump_ok_def split: if_splits) (metis prefixI)

lemma pump_ok_mono: "pump_ok sent u \<Longrightarrow> prefix sent sent' \<Longrightarrow> pump_ok sent' u"
  by (auto simp: pump_ok_def dest: prefix_order.trans)

lemma relay_ok_mono: "relay_ok sent r \<Longrightarrow> (\<And>d. prefix (sent d) (sent' d)) \<Longrightarrow> relay_ok sent' r"
  by (auto simp: relay_ok_def intro: pump_ok_mono)

lemma pump_ok_return: "pump_ok sent u \<Longrightarrow> pump_ok sent (u\<lparr>pu_state := Ended\<rparr>)"
  using pump_ok_prefix [of sent u] by (auto simp: pump_ok_def)

lemma pump_ok_read:
  assumes "pump_ok sent u" "pu_state u = Reading" "prefix (pu_in u @ data) sent" "length data \<le> length (pu_buf u)"
  shows "pump_ok sent (u\<lparr>pu_buf := data @ drop (length data) (pu_buf u), pu_in := pu_in u @ data,
    pu_state := Writing (length data)\<rparr>)"
  using assms by (auto simp: pump_ok_def held_def)

lemma pump_ok_write:
  assumes "pump_ok sent u" "pu_state u = Writing n"
  shows "pump_ok sent (u\<lparr>pu_out := pu_out u @ take n (pu_buf u), pu_count := i64 (pu_count u + int n),
    pu_state := AtTop\<rparr>)"
proof -
  have "n \<le> length (pu_buf u)" "pu_out u @ take n (pu_buf u) = pu_in u" "pu_count u = i64 (int (length (pu_out u)))"
    using assms by (auto simp: pump_ok_def held_def)
  moreover from this have "length (pu_in u) = length (pu_out u) + n"
    by (metis length_append length_take min.absorb2)
  ultimately show ?thesis using assms by (auto simp: pump_ok_def held_def)
qed

lemma pump_ok_fail:
  assumes "pump_ok sent u" "pu_state u = Writing n"
  shows "pump_ok sent (u\<lparr>pu_out := pu_out u @ take (min k n) (pu_buf u), pu_state := Ended\<rparr>)"
proof -
  have "pu_out u @ take n (pu_buf u) = pu_in u" using assms by (simp add: pump_ok_def held_def)
  moreover have "prefix (take (min k n) (pu_buf u)) (take n (pu_buf u))"
    by (metis min.commute take_is_prefix take_take)
  ultimately have "prefix (pu_out u @ take (min k n) (pu_buf u)) (pu_in u)"
    by (metis same_prefix_prefix)
  with assms show ?thesis by (simp add: pump_ok_def)
qed

lemma relay_ok_set:
  assumes "relay_ok sent r" "pump_ok (sent d) u" "pu_state u \<noteq> Ended"
  shows "relay_ok sent (set_pump d u r)"
  using assms by (auto simp: relay_ok_def set_pump_def)

lemma relay_ok_return:
  assumes "relay_ok sent r" "pump_ok (sent d) u" "pu_state u = Ended"
  shows "relay_ok sent ((set_pump d u r)\<lparr>rl_ctxDone := True\<rparr>)"
  using assms by (auto simp: relay_ok_def set_pump_def)

lemma relay_step_ok: "relay_step sent fails r r' \<Longrightarrow> relay_ok sent r \<Longrightarrow> relay_ok sent r'"
proof (induction rule: relay_step.induct)
  case (rl_check r d)
  then have "pump_ok (sent d) (rl_pump r d)" by (simp add: relay_ok_def)
  with rl_check show ?case
    by (auto simp: pump_check_def pump_return_def intro!: relay_ok_return relay_ok_set pump_ok_return)
      (simp add: pump_ok_def held_def)
next
  case (rl_read r d data)
  then have "pump_ok (sent d) (rl_pump r d)" by (simp add: relay_ok_def)
  from pump_ok_read [OF this rl_read(1,4,3)] rl_read(5) show ?case
    by (simp add: pump_read_def Let_def relay_ok_set)
next
  case (rl_read_error r d)
  then show ?case
    by (auto simp: pump_read_def pump_return_def relay_ok_def [of _ r] intro!: relay_ok_return pump_ok_return)
next
  case (rl_write r d n failed)
  then have ok: "pump_ok (sent d) (rl_pump r d)" by (simp add: relay_ok_def)
  show ?case
  proof (cases failed)
    case None
    with pump_ok_write [OF ok rl_write(1)] rl_write(2) show ?thesis
      by (simp add: pump_write_def Let_def relay_ok_set)
  next
    case (Some k)
    with pump_ok_fail [OF ok rl_write(1), of k] rl_write(2) show ?thesis
      by (simp add: pump_write_def pump_return_def set_pump_def Let_def relay_ok_def)
  qed
qed

text \<open>What a goroutine has taken in and put out only grows, its buffer keeps its size, and nothing revives it or
  its context.\<close>

lemma relay_step_grows:
  "relay_step sent fails r r' \<Longrightarrow>
     prefix (pu_out (rl_pump r d)) (pu_out (rl_pump r' d)) \<and> prefix (pu_in (rl_pump r d)) (pu_in (rl_pump r' d))
     \<and> length (pu_buf (rl_pump r' d)) = length (pu_buf (rl_pump r d)) \<and> (rl_ctxDone r \<longrightarrow> rl_ctxDone r')
     \<and> (pu_state (rl_pump r d) = Ended \<longrightarrow> rl_pump r' d = rl_pump r d)"
  by (induction rule: relay_step.induct) (auto simp: pump_defs split: option.split)

definition path_ok :: "path \<Rightarrow> bool" where
  "path_ok P \<longleftrightarrow> relay_ok (server_sources P) (pa_server P) \<and> relay_ok (client_sources P) (pa_client P)"

lemma relay_ok_cancel: "relay_ok sent r \<Longrightarrow> relay_ok sent (r\<lparr>rl_ctxDone := True\<rparr>)"
  by (simp add: relay_ok_def)

lemma path_step_ok: "path_step P P' \<Longrightarrow> path_ok P \<Longrightarrow> path_ok P'"
proof (induction rule: path_step.induct)
  case (pa_server_step P r)
  then have "relay_ok (server_sources P) r" by (auto simp: path_ok_def intro: relay_step_ok)
  moreover have "prefix (client_sources P d) (client_sources (P\<lparr>pa_server := r\<rparr>) d)" for d
    using relay_step_grows [OF pa_server_step(1), of Dir1] by (simp add: client_sources_def split: direction.split)
  ultimately show ?case
    using pa_server_step(2) by (auto simp: path_ok_def server_sources_def cong: direction.case_cong intro: relay_ok_mono)
next
  case (pa_client_step P r)
  then have "relay_ok (client_sources P) r" by (auto simp: path_ok_def intro: relay_step_ok)
  moreover have "prefix (server_sources P d) (server_sources (P\<lparr>pa_client := r\<rparr>) d)" for d
    using relay_step_grows [OF pa_client_step(1), of Dir2] by (simp add: server_sources_def split: direction.split)
  ultimately show ?case
    using pa_client_step(2) by (auto simp: path_ok_def client_sources_def cong: direction.case_cong intro: relay_ok_mono)
qed (auto simp: path_ok_def server_sources_def client_sources_def relay_ok_cancel
      split: direction.splits intro!: relay_ok_cancel elim!: relay_ok_mono)

interpretation path_run: step_invariant path_step path_ok
  by unfold_locales (rule path_step_ok)

lemmas path_steps_ok = path_run.steps_keep

section \<open>Delivery\<close>

abbreviation relay_runs :: "(direction \<Rightarrow> bytes) \<Rightarrow> relay \<Rightarrow> relay \<Rightarrow> bool" where
  "relay_runs sent \<equiv> (relay_step sent (\<lambda>_. False))\<^sup>*\<^sup>*"

text \<open>One direction of a relay that is not cancelled can pass on everything that was sent to it.\<close>

definition drained :: "(direction \<Rightarrow> bytes) \<Rightarrow> direction \<Rightarrow> relay \<Rightarrow> relay \<Rightarrow> bool" where
  "drained sent d r r' \<longleftrightarrow> relay_runs sent r r' \<and> \<not> rl_ctxDone r' \<and> pu_out (rl_pump r' d) = sent d
     \<and> (\<forall>e. e \<noteq> d \<longrightarrow> rl_pump r' e = rl_pump r e)"

lemma drained_running: "drained sent d r r' \<Longrightarrow> \<not> rl_ctxDone r'"
  by (simp add: drained_def)

lemma drained_step:
  assumes "relay_step sent (\<lambda>_. False) r r1" "drained sent d r1 r'" "\<And>e. e \<noteq> d \<Longrightarrow> rl_pump r1 e = rl_pump r e"
  shows "drained sent d r r'"
  using assms by (auto simp: drained_def intro: converse_rtranclp_into_rtranclp)

text \<open>What one direction still has to do: three steps per byte that is not read yet.\<close>

definition work :: "bytes \<Rightarrow> pump \<Rightarrow> nat" where
  "work sent u = 3 * (length sent - length (pu_in u)) + (case pu_state u of Writing n \<Rightarrow> 2 | AtTop \<Rightarrow> 1 | _ \<Rightarrow> 0)"

lemma relay_drains:
  assumes "relay_ok sent r" "\<not> rl_ctxDone r" "pu_buf (rl_pump r d) \<noteq> []"
  shows "\<exists>r'. drained sent d r r'"
  using assms
proof (induction "work (sent d) (rl_pump r d)" arbitrary: r rule: less_induct)
  case less
  let ?u = "rl_pump r d"
  have ok: "pump_ok (sent d) ?u" and alive: "pu_state ?u \<noteq> Ended" using less(2,3) by (auto simp: relay_ok_def)
  have go: "\<exists>r'. drained sent d r r'"
    if "relay_step sent (\<lambda>_. False) r r1" "work (sent d) (rl_pump r1 d) < work (sent d) ?u" "\<not> rl_ctxDone r1"
      "pu_buf (rl_pump r1 d) \<noteq> []" "\<And>e. e \<noteq> d \<Longrightarrow> rl_pump r1 e = rl_pump r e" for r1
    using less(1) [OF that(2) relay_step_ok [OF that(1) less(2)] that(3,4)] drained_step [OF that(1) _ that(5)] by blast
  show ?case
  proof (cases "pu_out ?u = sent d")
    case True
    with less(3) have "drained sent d r r" by (simp add: drained_def)
    then show ?thesis ..
  next
    case False
    show ?thesis
    proof (cases "pu_state ?u")
      case AtTop
      with less(3,4) show ?thesis by (intro go [OF rl_check [OF AtTop]]) (auto simp: pump_defs work_def)
    next
      case (Writing n)
      with less(3,4) show ?thesis
        by (intro go [OF rl_write [OF Writing, of _ _ None]]) (auto simp: pump_defs work_def)
    next
      case Reading
      then have "pu_in ?u = pu_out ?u" "prefix (pu_in ?u) (sent d)" using ok by (auto simp: pump_ok_def held_def)
      then obtain b bs where bs: "sent d = pu_in ?u @ b # bs"
        using False by (metis append_Nil2 neq_Nil_conv prefix_def)
      have "length [b] \<le> length (pu_buf ?u)" using less(4) by (cases "pu_buf ?u") auto
      with Reading bs have "relay_step sent (\<lambda>_. False) r (pump_read d (Some [b]) r)" by (intro rl_read) simp_all
      with less(3,4) Reading bs show ?thesis by (intro go [of "pump_read d (Some [b]) r"]) (auto simp: pump_defs work_def)
    qed (use alive in simp)
  qed
qed

text \<open>Runs of one relay are runs of the path.\<close>

lemma relay_step_any: "relay_step sent (\<lambda>_. False) r r' \<Longrightarrow> relay_step sent fails r r'"
  by (induction rule: relay_step.induct) (auto intro: relay_step.intros)

lemma server_runs: "relay_runs (server_sources P) (pa_server P) r \<Longrightarrow> path_steps P (P\<lparr>pa_server := r\<rparr>)"
proof (induction rule: rtranclp_induct)
  case (step r r')
  have "server_sources (P\<lparr>pa_server := r\<rparr>) = server_sources P" by (simp add: server_sources_def fun_eq_iff split: direction.split)
  with relay_step_any [OF step(2)] have "path_step (P\<lparr>pa_server := r\<rparr>) (P\<lparr>pa_server := r\<rparr>\<lparr>pa_server := r'\<rparr>)"
    by (intro pa_server_step) simp
  with step(3) show ?case by simp
qed simp

lemma client_runs: "relay_runs (client_sources P) (pa_client P) r \<Longrightarrow> path_steps P (P\<lparr>pa_client := r\<rparr>)"
proof (induction rule: rtranclp_induct)
  case (step r r')
  have "client_sources (P\<lparr>pa_client := r\<rparr>) = client_sources P" by (simp add: client_sources_def fun_eq_iff split: direction.split)
  with relay_step_any [OF step(2)] have "path_step (P\<lparr>pa_client := r\<rparr>) (P\<lparr>pa_client := r\<rparr>\<lparr>pa_client := r'\<rparr>)"
    by (intro pa_client_step) simp
  with step(3) show ?case by simp
qed simp

definition buffered :: "relay \<Rightarrow> bool" where
  "buffered r \<longleftrightarrow> (\<forall>d. pu_buf (rl_pump r d) \<noteq> [])"

lemma buffered_step: "relay_step sent fails r r' \<Longrightarrow> buffered r \<Longrightarrow> buffered r'"
  unfolding buffered_def using relay_step_grows [of sent fails r r'] by (metis length_0_conv)

interpretation buffered_run: step_invariant "relay_step sent fails" buffered for sent fails
  by unfold_locales (rule buffered_step)

lemmas buffered_runs = buffered_run.steps_keep

lemma buffered_path: "path_step P P' \<Longrightarrow> buffered (pa_server P) \<and> buffered (pa_client P) \<Longrightarrow>
    buffered (pa_server P') \<and> buffered (pa_client P')"
  by (induction rule: path_step.induct) (auto intro: buffered_step simp: buffered_def [of "_\<lparr>rl_ctxDone := _\<rparr>"] buffered_def [of "pa_server _"] buffered_def [of "pa_client _"])

lemma buffered_paths: "path_steps P P' \<Longrightarrow> buffered (pa_server P) \<and> buffered (pa_client P) \<Longrightarrow>
    buffered (pa_server P') \<and> buffered (pa_client P')"
  by (induction rule: rtranclp_induct) (blast dest: buffered_path)+

lemma all_directions: "(\<forall>d. Q d) \<longleftrightarrow> Q Dir1 \<and> Q Dir2"
  by (metis direction.exhaust)

lemma start_relay_ok: "relay_ok sent (start_relay cd b1 b2)"
  unfolding relay_ok_def all_directions by (simp add: start_relay_def new_pump_def pump_ok_def held_def)

lemma start_relay_buffered: "contents b1 \<noteq> [] \<Longrightarrow> contents b2 \<noteq> [] \<Longrightarrow> buffered (start_relay cd b1 b2)"
  by (auto simp: buffered_def start_relay_def new_pump_def split: direction.splits)

lemma relays_start:
  assumes "pool_ok pool" "bp_size pool = DefaultBufferSize"
  shows "\<exists>b1 b2. fst (forwardBidirectional_relay cd ch1 ch2 pool) = start_relay cd b1 b2
      \<and> fst (handleTCPDataStreamForward_relay cd ch1 ch2 pool) = start_relay cd b1 b2
      \<and> length (contents b1) = DefaultBufferSize \<and> length (contents b2) = DefaultBufferSize"
proof -
  obtain b1 pool1 b2 pool2 where get: "BufferPool_Get ch1 pool = (b1, pool1)" "BufferPool_Get ch2 pool1 = (b2, pool2)"
    by (metis prod.exhaust)
  have "buf_ok DefaultBufferSize b1 \<and> pool_ok pool1 \<and> bp_size pool1 = DefaultBufferSize"
    using sized_pool.get_good [of pool DefaultBufferSize ch1 b1 pool1] assms get(1) by simp
  moreover from this have "buf_ok DefaultBufferSize b2"
    using sized_pool.get_good [of pool1 DefaultBufferSize ch2 b2 pool2] get(2) by simp
  ultimately show ?thesis
    using get
    by (intro exI [of _ b1] exI [of _ b2])
      (auto simp: forwardBidirectional_relay_def handleTCPDataStreamForward_relay_def buf_ok_def contents_def scap_def)
qed

text \<open>What holds from the start of every path on.\<close>

definition path_inv :: "path \<Rightarrow> bool" where
  "path_inv P \<longleftrightarrow> path_ok P
     \<and> (\<forall>d. length (pu_buf (rl_pump (pa_server P) d)) = DefaultBufferSize
           \<and> length (pu_buf (rl_pump (pa_client P) d)) = DefaultBufferSize)"

lemma opens_path_inv: assumes "opens_path payload P" shows "path_inv P"
proof -
  obtain ch1 ch2 ch3 ch4 pool1 pool2 where P: "pool_ok pool1" "bp_size pool1 = DefaultBufferSize"
    "pool_ok pool2" "bp_size pool2 = DefaultBufferSize"
    "P = new_path (fst (forwardBidirectional_relay False ch1 ch2 pool1))
       (fst (handleTCPDataStreamForward_relay False ch3 ch4 pool2)) payload"
    using assms by (auto simp: opens_path_def)
  from relays_start [OF P(1,2), of False ch1 ch2] relays_start [OF P(3,4), of False ch3 ch4] P(5) start_relay_ok
  show ?thesis
    by (auto simp: path_inv_def path_ok_def new_path_def start_relay_def new_pump_def all_directions)
qed

lemma opens_path_fresh:
  assumes "opens_path payload P"
  shows "pa_user P = payload" "\<not> rl_ctxDone (pa_server P)" "\<not> rl_ctxDone (pa_client P)"
proof -
  obtain r1 r2 where "P = new_path r1 r2 payload" "\<not> rl_ctxDone r1" "\<not> rl_ctxDone r2"
    using assms
    by (auto simp: opens_path_def forwardBidirectional_relay_def handleTCPDataStreamForward_relay_def start_relay_def
        case_prod_beta)
  then show "pa_user P = payload" "\<not> rl_ctxDone (pa_server P)" "\<not> rl_ctxDone (pa_client P)"
    by (simp_all add: new_path_def)
qed

lemma path_step_buffers:
  "path_step P P' \<Longrightarrow>
     length (pu_buf (rl_pump (pa_server P') d)) = length (pu_buf (rl_pump (pa_server P) d))
     \<and> length (pu_buf (rl_pump (pa_client P') d)) = length (pu_buf (rl_pump (pa_client P) d))"
  by (induction rule: path_step.induct) (auto dest: relay_step_grows)

lemma path_steps_inv: "path_steps P P' \<Longrightarrow> path_inv P \<Longrightarrow> path_inv P'"
proof (induction rule: rtranclp_induct)
  case (step P' P'')
  then show ?case using path_step_ok [OF step(2)] path_step_buffers [OF step(2)] by (simp add: path_inv_def)
qed

lemma path_inv_buffered: "path_inv P \<Longrightarrow> buffered (pa_server P) \<and> buffered (pa_client P)"
  by (metis DefaultBufferSize_def buffered_def length_0_conv mult_eq_0_iff numeral_neq_zero path_inv_def)

lemmas reached_inv = path_steps_inv [OF _ opens_path_inv]

lemma path_can_deliver:
  assumes "path_inv P" "\<not> rl_ctxDone (pa_server P)" "\<not> rl_ctxDone (pa_client P)"
  shows "\<exists>P'. path_steps P P' \<and> pa_user P' = pa_user P \<and> pa_service P' = pa_service P
    \<and> pu_out (to_service P') = pa_user P \<and> pu_out (to_user P') = pa_service P
    \<and> \<not> rl_ctxDone (pa_server P') \<and> \<not> rl_ctxDone (pa_client P')"
proof -
  have ok: "relay_ok (server_sources Q) (pa_server Q)" "relay_ok (client_sources Q) (pa_client Q)"
    "pu_buf (rl_pump (pa_server Q) d) \<noteq> []" "pu_buf (rl_pump (pa_client Q) d) \<noteq> []" if "path_steps P Q" for Q d
    using path_steps_inv [OF that assms(1)] path_inv_buffered [of Q] by (auto simp: path_inv_def path_ok_def buffered_def)
  obtain s1 where s1: "drained (server_sources P) Dir1 (pa_server P) s1"
    using relay_drains [OF ok(1) assms(2) ok(3)] by blast
  let ?P1 = "P\<lparr>pa_server := s1\<rparr>"
  have P1: "path_steps P ?P1" using s1 server_runs by (simp add: drained_def)
  obtain c1 where c1: "drained (client_sources ?P1) Dir1 (pa_client P) c1"
    using relay_drains [OF ok(2) [OF P1] _ ok(4) [OF P1], of Dir1] assms(3) by auto
  let ?P2 = "?P1\<lparr>pa_client := c1\<rparr>"
  have P2: "path_steps P ?P2" using c1 client_runs [of ?P1 c1] P1 by (simp add: drained_def)
  obtain c2 where c2: "drained (client_sources ?P2) Dir2 c1 c2"
    using relay_drains [OF ok(2) [OF P2] _ ok(4) [OF P2], of Dir2] drained_running [OF c1] by auto
  let ?P3 = "?P2\<lparr>pa_client := c2\<rparr>"
  have P3: "path_steps P ?P3" using c2 client_runs [of ?P2 c2] P2 by (simp add: drained_def)
  obtain s2 where s2: "drained (server_sources ?P3) Dir2 s1 s2"
    using relay_drains [OF ok(1) [OF P3] _ ok(3) [OF P3], of Dir2] drained_running [OF s1] by auto
  let ?P4 = "?P3\<lparr>pa_server := s2\<rparr>"
  have "path_steps P ?P4" using s2 server_runs [of ?P3 s2] P3 by (simp add: drained_def)
  moreover have "pu_out (to_service ?P4) = pa_user P" "pu_out (to_user ?P4) = pa_service P"
    using s1 c1 c2 s2 by (auto simp: drained_def server_sources_def client_sources_def)
  ultimately show ?thesis using c2 s2 by (intro exI [of _ ?P4]) (simp add: drained_def)
qed

lemma path_prefix:
  assumes "path_inv P"
  shows "prefix (pu_out (to_service P)) (pa_user P)" "prefix (pu_out (to_user P)) (pa_service P)"
proof -
  have ok: "pump_ok (pa_user P) (to_stream P)" "pump_ok (pu_out (from_service P)) (to_user P)"
    "pump_ok (pu_out (to_stream P)) (to_service P)" "pump_ok (pa_service P) (from_service P)"
    using assms by (simp_all add: path_inv_def path_ok_def relay_ok_def all_directions server_sources_def client_sources_def)
  have through: "prefix (pu_out v) b" if "pump_ok b u" "pump_ok (pu_out u) v" for u v b
    using that pump_ok_prefix [OF that(1)] pump_ok_prefix [OF that(2)] by (meson pump_ok_def prefix_order.trans)
  show "prefix (pu_out (to_service P)) (pa_user P)" "prefix (pu_out (to_user P)) (pa_service P)"
    using through ok by blast+
qed

section \<open>After one direction has ended\<close>

text \<open>How much a goroutine can still pass on once its context is cancelled: what it holds, or one more read.\<close>

definition allowance :: "pump \<Rightarrow> nat" where
  "allowance u = (case pu_state u of Writing n \<Rightarrow> n | Reading \<Rightarrow> length (pu_buf u) | _ \<Rightarrow> 0)"

lemma cancelled_step:
  "relay_step sent fails r r' \<Longrightarrow> rl_ctxDone r \<Longrightarrow>
     rl_ctxDone r' \<and> length (pu_out (rl_pump r' d)) + allowance (rl_pump r' d)
       \<le> length (pu_out (rl_pump r d)) + allowance (rl_pump r d)"
proof (induction rule: relay_step.induct)
  case (rl_write r e n failed)
  then show ?case by (cases failed) (auto simp: pump_defs allowance_def)
qed (auto simp: pump_defs allowance_def)

lemma cancelled_server_step:
  "path_step P P' \<Longrightarrow> rl_ctxDone (pa_server P) \<Longrightarrow>
     rl_ctxDone (pa_server P') \<and> length (pu_out (to_user P')) + allowance (to_user P')
       \<le> length (pu_out (to_user P)) + allowance (to_user P)"
  by (induction rule: path_step.induct) (auto dest: cancelled_step [where d = Dir2])

lemma cancelled_client_step:
  "path_step P P' \<Longrightarrow> rl_ctxDone (pa_client P) \<Longrightarrow>
     rl_ctxDone (pa_client P') \<and> length (pu_out (to_service P')) + allowance (to_service P')
       \<le> length (pu_out (to_service P)) + allowance (to_service P)"
  by (induction rule: path_step.induct) (auto dest: cancelled_step [where d = Dir1])

lemma cancelled_server:
  "path_steps P P' \<Longrightarrow> rl_ctxDone (pa_server P) \<Longrightarrow>
     rl_ctxDone (pa_server P') \<and> length (pu_out (to_user P')) + allowance (to_user P')
       \<le> length (pu_out (to_user P)) + allowance (to_user P)"
  by (induction rule: rtranclp_induct) (auto dest: cancelled_server_step)

lemma cancelled_client:
  "path_steps P P' \<Longrightarrow> rl_ctxDone (pa_client P) \<Longrightarrow>
     rl_ctxDone (pa_client P') \<and> length (pu_out (to_service P')) + allowance (to_service P')
       \<le> length (pu_out (to_service P)) + allowance (to_service P)"
  by (induction rule: rtranclp_induct) (auto dest: cancelled_client_step)

lemma allowance_bound: "pump_ok sent u \<Longrightarrow> allowance u \<le> length (pu_buf u)"
  by (auto simp: allowance_def pump_ok_def split: dir_state.splits)

text \<open>Both goroutines towards the service wait for data, and there is none.\<close>

definition waiting :: "path \<Rightarrow> bool" where
  "waiting P \<longleftrightarrow> pu_state (to_stream P) = Reading \<and> pu_in (to_stream P) = pa_user P
     \<and> pu_state (to_service P) = Reading \<and> pu_in (to_service P) = pu_out (to_stream P)
     \<and> \<not> pa_extClosed P \<and> \<not> pa_tunnelLost P"

text \<open>Steps in which the user does nothing and no connection breaks.\<close>

definition quiet_step :: "path \<Rightarrow> path \<Rightarrow> bool" where
  "quiet_step P P' \<longleftrightarrow> path_step P P' \<and> pa_user P' = pa_user P \<and> \<not> pa_extClosed P' \<and> \<not> pa_tunnelLost P'"

lemma waiting_not_returned: "waiting P \<Longrightarrow> \<not> returned (pa_server P) \<and> \<not> returned (pa_client P)"
  by (simp add: waiting_def returned_def)

lemma blocked_step:
  "relay_step sent fails r r' \<Longrightarrow> pu_state (rl_pump r d) = Reading \<Longrightarrow> pu_in (rl_pump r d) = sent d \<Longrightarrow> \<not> fails d \<Longrightarrow>
     rl_pump r' d = rl_pump r d"
proof (induction rule: relay_step.induct)
  case (rl_write r e n failed)
  then show ?case by (cases failed) (auto simp: pump_defs)
qed (auto simp: pump_defs prefix_def)

lemma waiting_quiet:
  assumes "quiet_step P P'" "waiting P" shows "waiting P'"
proof -
  have "path_step P P'" using assms(1) by (simp add: quiet_step_def)
  then show ?thesis
  proof cases
    case (pa_server_step r)
    have "rl_pump r Dir1 = to_stream P"
      using blocked_step [OF pa_server_step(2), of Dir1] assms(2)
      by (simp add: waiting_def server_sources_def server_fails_def)
    then show ?thesis using pa_server_step(1) assms(2) by (simp add: waiting_def)
  next
    case (pa_client_step r)
    have "rl_pump r Dir1 = to_service P"
      using blocked_step [OF pa_client_step(2), of Dir1] assms(2) waiting_not_returned [OF assms(2)]
      by (simp add: waiting_def client_sources_def client_fails_def)
    then show ?thesis using pa_client_step(1) assms(2) by (simp add: waiting_def)
  qed (use assms in \<open>auto simp: quiet_step_def waiting_def\<close>)
qed

section \<open>Properties\<close>

text \<open>C4. The path is transparent: for every interleaving of the four goroutines with a user and a service that
  send and close whenever they like, and with connections that break at any moment, what has reached the
  service is a prefix of what the user sent, and the other way round; it is all of it as soon as the goroutines on
  the way have read everything and wait again; and the counters of a direction that still runs give
  the number of bytes it has passed on.\<close>

theorem path_transparent:
  assumes "opens_path payload P0" and "path_steps P0 P"
  shows "prefix (pu_out (to_service P)) (pa_user P) \<and> prefix (pu_out (to_user P)) (pa_service P)
    \<and> (pu_state (to_stream P) \<in> {AtTop, Reading} \<and> pu_in (to_stream P) = pa_user P
       \<and> pu_state (to_service P) \<in> {AtTop, Reading} \<and> pu_in (to_service P) = pu_out (to_stream P)
         \<longrightarrow> pu_out (to_service P) = pa_user P)
    \<and> (pu_state (from_service P) \<in> {AtTop, Reading} \<and> pu_in (from_service P) = pa_service P
       \<and> pu_state (to_user P) \<in> {AtTop, Reading} \<and> pu_in (to_user P) = pu_out (from_service P)
         \<longrightarrow> pu_out (to_user P) = pa_service P)
    \<and> (\<forall>u \<in> {to_stream P, to_user P, to_service P, from_service P}.
         pu_state u \<noteq> Ended \<longrightarrow> pu_count u = i64 (int (length (pu_out u))))"
proof -
  have "path_ok P" using reached_inv [OF assms(2,1)] by (simp add: path_inv_def)
  then have ok: "pump_ok (pa_user P) (to_stream P)" "pump_ok (pu_out (from_service P)) (to_user P)"
    "pump_ok (pu_out (to_stream P)) (to_service P)" "pump_ok (pa_service P) (from_service P)"
    by (simp_all add: path_ok_def relay_ok_def all_directions server_sources_def client_sources_def)
  have in_out: "pu_out u = pu_in u" if "pump_ok b u" "pu_state u \<in> {AtTop, Reading}" for u b
    using that by (auto simp: pump_ok_def held_def)
  show ?thesis
    using path_prefix [OF reached_inv [OF assms(2,1)]] in_out [OF ok(1)] in_out [OF ok(2)] in_out [OF ok(3)] in_out [OF ok(4)] ok
    by (auto simp: pump_ok_def)
qed

definition example_path :: path where
  "example_path = new_path (fst (forwardBidirectional_relay False None None (NewBufferPool DefaultBufferSize)))
     (fst (handleTCPDataStreamForward_relay False None None (NewBufferPool DefaultBufferSize))) [7, 8]"

lemma example_opens: "opens_path [7, 8] example_path"
  unfolding opens_path_def example_path_def by (intro exI conjI) (rule NewBufferPool_ok | rule refl)+

lemma example_server: "pa_server example_path = start_relay False (make_slice DefaultBufferSize) (make_slice DefaultBufferSize)"
  "pa_client example_path = start_relay False (make_slice DefaultBufferSize) (make_slice DefaultBufferSize)"
  "pa_user example_path = [7, 8]" "pa_service example_path = []"
  by (simp_all add: example_path_def new_path_def forwardBidirectional_relay_def handleTCPDataStreamForward_relay_def
      BufferPool_Get_def NewBufferPool_def)

theorem path_transparent_witness:
  "\<exists>P. path_steps example_path P \<and> pu_state (to_stream P) = Writing 2 \<and> prefix (pu_out (to_service P)) (pa_user P)"
proof -
  let ?r = "pump_read Dir1 (Some [7, 8]) (pump_check Dir1 (pa_server example_path))"
  note defs = example_server pump_defs start_relay_def new_pump_def server_sources_def make_slice_def contents_def
    DefaultBufferSize_def
  have "relay_step (server_sources example_path) (\<lambda>_. False) (pa_server example_path) (pump_check Dir1 (pa_server example_path))"
    by (rule rl_check) (simp add: defs)
  moreover have "relay_step (server_sources example_path) (\<lambda>_. False) (pump_check Dir1 (pa_server example_path)) ?r"
    by (rule rl_read) (simp_all add: defs)
  ultimately have "relay_runs (server_sources example_path) (pa_server example_path) ?r"
    by (meson converse_rtranclp_into_rtranclp r_into_rtranclp)
  then have s: "path_steps example_path (example_path\<lparr>pa_server := ?r\<rparr>)" by (rule server_runs)
  have "pu_state (to_stream (example_path\<lparr>pa_server := ?r\<rparr>)) = Writing 2" by (simp add: defs)
  with s path_transparent [OF example_opens s] show ?thesis by blast
qed

text \<open>C5. Nothing gets stuck on the way: from every state a path reaches while nobody has closed and no
  connection has broken, all that the user and the service have sent so far can still be delivered to the other
  one, whatever the goroutines hold at that moment, and both directions go on.\<close>

theorem path_delivers:
  assumes "opens_path payload P0" and "path_steps P0 P"
    and "\<not> rl_ctxDone (pa_server P)" and "\<not> rl_ctxDone (pa_client P)"
  shows "\<exists>P'. path_steps P P' \<and> pa_user P' = pa_user P \<and> pa_service P' = pa_service P
    \<and> pu_out (to_service P') = pa_user P \<and> pu_out (to_user P') = pa_service P
    \<and> \<not> rl_ctxDone (pa_server P') \<and> \<not> rl_ctxDone (pa_client P')"
  by (rule path_can_deliver [OF reached_inv [OF assms(2,1)] assms(3,4)])

theorem path_delivers_witness:
  "\<exists>P. path_steps example_path P \<and> pu_out (to_service P) = [7, 8]"
proof -
  have "\<not> rl_ctxDone (pa_server example_path)" "\<not> rl_ctxDone (pa_client example_path)"
    by (simp_all add: example_server start_relay_def)
  from path_delivers [OF example_opens rtranclp.rtrancl_refl this] show ?thesis by (auto simp: example_server)
qed

text \<open>C39. After one side has finished sending, the other side's data is cut off: once the goroutine that reads
  from the user has returned, at most one buffer of 64 KB more ever reaches the user, however much the
  service still sends; and the same for the service once it has closed its sending side.\<close>

theorem half_close_truncates:
  assumes "opens_path payload P0" and "path_steps P0 P" and "path_steps P P'"
  shows "(pu_state (to_stream P) = Ended \<longrightarrow> length (pu_out (to_user P')) \<le> length (pu_out (to_user P)) + DefaultBufferSize)
    \<and> (pu_state (from_service P) = Ended \<longrightarrow>
         length (pu_out (to_service P')) \<le> length (pu_out (to_service P)) + DefaultBufferSize)"
proof -
  have inv: "path_inv P" using reached_inv [OF assms(2,1)] .
  then have ok: "relay_ok (server_sources P) (pa_server P)" "relay_ok (client_sources P) (pa_client P)"
    by (simp_all add: path_inv_def path_ok_def)
  have "allowance (to_user P) \<le> DefaultBufferSize" "allowance (to_service P) \<le> DefaultBufferSize"
    using inv ok allowance_bound by (metis path_inv_def relay_ok_def)+
  moreover have "pu_state (to_stream P) = Ended \<Longrightarrow> rl_ctxDone (pa_server P)"
    "pu_state (from_service P) = Ended \<Longrightarrow> rl_ctxDone (pa_client P)"
    using ok by (auto simp: relay_ok_def)
  ultimately show ?thesis using cancelled_server [OF assms(3)] cancelled_client [OF assms(3)] by fastforce
qed

theorem half_close_truncates_witness:
  "\<exists>P. path_steps example_path P \<and> pu_state (to_stream P) = Ended \<and> pa_service P = replicate 100000 1
     \<and> (\<forall>P'. path_steps P P' \<longrightarrow> length (pu_out (to_user P')) \<le> DefaultBufferSize)"
proof -
  let ?P = "example_path\<lparr>pa_service := replicate 100000 1\<rparr>\<lparr>pa_extClosed := True\<rparr>"
  let ?P1 = "?P\<lparr>pa_server := pump_check Dir1 (pa_server ?P)\<rparr>"
  let ?P2 = "?P1\<lparr>pa_server := pump_read Dir1 None (pa_server ?P1)\<rparr>"
  note defs = example_server pump_defs start_relay_def new_pump_def
  have s1: "path_step example_path (example_path\<lparr>pa_service := replicate 100000 1\<rparr>)"
    using pa_service_sends [of example_path "replicate 100000 1"] by (simp add: example_server)
  have s2: "path_step (example_path\<lparr>pa_service := replicate 100000 1\<rparr>) ?P" by (rule pa_user_closes)
  have s3: "path_step ?P ?P1" by (rule pa_server_step, rule rl_check) (simp add: defs)
  have s4: "path_step ?P1 ?P2" by (rule pa_server_step, rule rl_read_error) (simp_all add: defs server_fails_def)
  note s = rtranclp_trans [OF rtranclp_trans [OF r_into_rtranclp [of path_step, OF s1] r_into_rtranclp [of path_step, OF s2]]
      rtranclp_trans [OF r_into_rtranclp [of path_step, OF s3] r_into_rtranclp [of path_step, OF s4]]]
  have e: "pu_state (to_stream ?P2) = Ended" "pu_out (to_user ?P2) = []" "pa_service ?P2 = replicate 100000 1"
    by (simp_all add: defs)
  then have "length (pu_out (to_user P')) \<le> DefaultBufferSize" if "path_steps ?P2 P'" for P'
    using half_close_truncates [OF example_opens s that] by simp
  with s e show ?thesis by blast
qed



end
