(* ===== verification/Tunnel_SDK.thy ===== *)
theory Tunnel_SDK
  imports Tunnel_Path
begin

text \<open>
  The dialling functions of \<^verbatim>\<open>quic/sdk.go\<close>, with which a user's program reaches a tunnel through the port that all
  tunnels share, and the way of the first bytes from there to the local service: through the SDK, the domain
  router of the server (\<open>Tunnel_Server\<close>), the data stream and its header (\<open>QuicWire\<close>), the client
  (\<open>Tunnel_Client\<close>) and the forwarding loops (\<open>Tunnel_Path\<close>).
\<close>

section \<open>Dialling\<close>

datatype sdk_error = SDK_DialFailed | SDK_WriteFailed

text \<open>What was sent on each connection, and which were closed.\<close>

record sdk_net =
  sn_sent :: "(nat \<times> bytes) list"
  sn_closed :: "nat set"

text \<open>The first frame is written on the new connection, or the connection is closed. What dialling gives and whether
  the write succeeds are arguments.\<close>

definition first_frame :: "nat \<Rightarrow> bool \<Rightarrow> bytes option \<Rightarrow> sdk_net \<Rightarrow> (sdk_error, nat) go_result \<times> sdk_net" where
  "first_frame c wrote frame n =
     (case frame of
        None \<Rightarrow> (Panic, n)
      | Some header \<Rightarrow>
          if wrote then (Ret c, n\<lparr>sn_sent := sn_sent n @ [(c, header)]\<rparr>)
          else (Err SDK_WriteFailed, n\<lparr>sn_closed := insert c (sn_closed n)\<rparr>))"

definition DialTunnelContext :: "nat option \<Rightarrow> bool \<Rightarrow> gostr \<Rightarrow> sdk_net \<Rightarrow> (sdk_error, nat) go_result \<times> sdk_net" where
  "DialTunnelContext dialed wrote domain n =
     (case dialed of
        None \<Rightarrow> (Err SDK_DialFailed, n)
      | Some c \<Rightarrow> first_frame c wrote (DialTunnel_header domain) n)"

definition DialTunnel :: "nat option \<Rightarrow> bool \<Rightarrow> gostr \<Rightarrow> sdk_net \<Rightarrow> (sdk_error, nat) go_result \<times> sdk_net" where
  "DialTunnel = DialTunnelContext"

definition DialTunnelWithPayloadContext ::
  "nat option \<Rightarrow> bool \<Rightarrow> gostr \<Rightarrow> bytes \<Rightarrow> sdk_net \<Rightarrow> (sdk_error, nat) go_result \<times> sdk_net" where
  "DialTunnelWithPayloadContext dialed wrote domain payload n =
     (case dialed of
        None \<Rightarrow> (Err SDK_DialFailed, n)
      | Some c \<Rightarrow> first_frame c wrote (DialTunnelWithPayload_header domain payload) n)"

definition DialTunnelWithPayload ::
  "nat option \<Rightarrow> bool \<Rightarrow> gostr \<Rightarrow> bytes \<Rightarrow> sdk_net \<Rightarrow> (sdk_error, nat) go_result \<times> sdk_net" where
  "DialTunnelWithPayload = DialTunnelWithPayloadContext"

record TunnelConn =
  tc_Conn :: nat
  tc_Domain :: gostr

definition NewTunnelConn :: "nat \<Rightarrow> gostr \<Rightarrow> TunnelConn" where
  "NewTunnelConn conn domain = \<lparr>tc_Conn = conn, tc_Domain = domain\<rparr>"

definition DialTunnelConnContext ::
  "nat option \<Rightarrow> bool \<Rightarrow> gostr \<Rightarrow> sdk_net \<Rightarrow> (sdk_error, TunnelConn) go_result \<times> sdk_net" where
  "DialTunnelConnContext dialed wrote domain n =
     (case DialTunnelContext dialed wrote domain n of
        (Ret conn, n1) \<Rightarrow> (Ret (NewTunnelConn conn domain), n1)
      | (Err e, n1) \<Rightarrow> (Err e, n1)
      | (Panic, n1) \<Rightarrow> (Panic, n1))"

definition DialTunnelConn ::
  "nat option \<Rightarrow> bool \<Rightarrow> gostr \<Rightarrow> sdk_net \<Rightarrow> (sdk_error, TunnelConn) go_result \<times> sdk_net" where
  "DialTunnelConn = DialTunnelConnContext"

section \<open>Properties\<close>

lemmas sdk_defs = DialTunnelContext_def DialTunnelWithPayloadContext_def DialTunnelWithPayload_def DialTunnel_def
  DialTunnelConnContext_def DialTunnelConn_def NewTunnelConn_def first_frame_def DialTunnel_header_bytes

text \<open>Dialling succeeds exactly if the connection and the write do, sends one frame with the domain, and otherwise leaves no
  connection open; a payload is the only difference between the functions.\<close>

lemma sdk_dial_exact:
  "DialTunnelWithPayload dialed wrote dm payload n =
     (case dialed of
        None \<Rightarrow> (Err SDK_DialFailed, n)
      | Some c \<Rightarrow> if wrote then (Ret c, n\<lparr>sn_sent := sn_sent n @ [(c, pstr dm @ payload)]\<rparr>)
                 else (Err SDK_WriteFailed, n\<lparr>sn_closed := insert c (sn_closed n)\<rparr>))"
  "DialTunnel dialed wrote dm n = DialTunnelWithPayload dialed wrote dm [] n"
  "fst (DialTunnelConn dialed wrote dm n) = Ret t \<Longrightarrow>
     fst (DialTunnel dialed wrote dm n) = Ret (tc_Conn t) \<and> tc_Domain t = dm"
  by (auto simp: sdk_defs split: option.splits if_splits)



end
