(* ===== verification/Tunnel_Transports.thy ===== *)
theory Tunnel_Transports
  imports Tunnel_Facade Transport_Adapters "HOL-Library.Disjoint_Sets"
begin

text \<open>
  The plain tunnel on its transports: the interface \<^verbatim>\<open>Protocol\<close> of \<^verbatim>\<open>tunnel.go\<close> as a record of operations, its
  three implementations from \<open>Transport_Adapters\<close>, and the accept loop and the handlers of \<open>Tunnel_Facade\<close> calling
  them. The locale \<open>protocol_contract\<close> says what a transport promises about the resources it opens: what a connection
  holds until it is closed, and what an operation keeps open for good. It is interpreted on all three.

  Shown: every run of the tunnel on a transport is a run of the facade; at every moment the open resources are those
  open before, the listener's, those of the connections in the hands of a handler, and those kept for good. So TCP and
  HTTP/2 give everything back, and a tunnel on HTTP/3 loses two resources with every connection it serves.
\<close>

section \<open>The interface and its implementations\<close>

text \<open>\<^verbatim>\<open>Protocol\<close> together with \<^verbatim>\<open>Accept\<close> and \<^verbatim>\<open>Close\<close> of the listeners and connections it gives. The first argument is
  what the network answers.\<close>

record ('e, 'l, 'a, 'd) Protocol =
  pr_Name :: gostr
  pr_Listen :: "'e \<Rightarrow> net_state \<Rightarrow> (transport_error, 'l) go_result \<times> net_state"
  pr_Accept :: "'e \<Rightarrow> 'l \<Rightarrow> net_state \<Rightarrow> (transport_error, 'a) go_result \<times> net_state"
  pr_CloseListener :: "'l \<Rightarrow> net_state \<Rightarrow> 'l \<times> net_state"
  pr_Dial :: "'e \<Rightarrow> net_state \<Rightarrow> (transport_error, 'd) go_result \<times> net_state"
  pr_CloseAccepted :: "'a \<Rightarrow> net_state \<Rightarrow> 'a \<times> net_state"
  pr_CloseDialled :: "'d \<Rightarrow> net_state \<Rightarrow> 'd \<times> net_state"

text \<open>Listeners and connections of the standard library; closing one again is an error without effect.\<close>

record tcp_handle =
  th_sock :: nat
  th_closed :: bool

definition tcp_opened :: "(transport_error, nat) go_result \<times> net_state \<Rightarrow> (transport_error, tcp_handle) go_result \<times> net_state" where
  "tcp_opened r =
     (case r of
        (Ret s, n) \<Rightarrow> (Ret \<lparr>th_sock = s, th_closed = False\<rparr>, n)
      | (Err e, n) \<Rightarrow> (Err e, n)
      | (Panic, n) \<Rightarrow> (Panic, n))"

definition tcp_accept :: "nat option \<Rightarrow> tcp_handle \<Rightarrow> net_state \<Rightarrow> (transport_error, tcp_handle) go_result \<times> net_state" where
  "tcp_accept sock l n =
     (if th_closed l then (Err ErrNetClosed, n)
      else case sock of
        None \<Rightarrow> (Err SocketError, n)
      | Some s \<Rightarrow> (Ret \<lparr>th_sock = s, th_closed = False\<rparr>, net_open (TCPSocket s) n))"

definition tcp_close :: "tcp_handle \<Rightarrow> net_state \<Rightarrow> tcp_handle \<times> net_state" where
  "tcp_close h n = (if th_closed h then (h, n) else (h\<lparr>th_closed := True\<rparr>, net_closed (TCPSocket (th_sock h)) n))"

definition TCP_New :: "(nat option, tcp_handle, tcp_handle, tcp_handle) Protocol" where
  "TCP_New =
     \<lparr>pr_Name = str ''tcp'', pr_Listen = (\<lambda>sock n. tcp_opened (TCP_Listen sock n)), pr_Accept = tcp_accept,
      pr_CloseListener = tcp_close, pr_Dial = (\<lambda>sock n. tcp_opened (TCP_Dial sock n)),
      pr_CloseAccepted = tcp_close, pr_CloseDialled = tcp_close\<rparr>"

definition HTTP2_New :: "bool \<Rightarrow> (nat option \<times> bool, tcp_handle, tcp_handle, tcp_handle) Protocol" where
  "HTTP2_New tlsConfig =
     \<lparr>pr_Name = str ''http2'', pr_Listen = (\<lambda>e n. tcp_opened (HTTP2_Listen (fst e) n)),
      pr_Accept = (\<lambda>e. tcp_accept (fst e)), pr_CloseListener = tcp_close,
      pr_Dial = (\<lambda>e n. tcp_opened (HTTP2_Dial tlsConfig (fst e) (snd e) n)),
      pr_CloseAccepted = tcp_close, pr_CloseDialled = tcp_close\<rparr>"

definition HTTP3_New :: "(h3_env, http3Listener, http3Conn, http3Conn) Protocol" where
  "HTTP3_New =
     \<lparr>pr_Name = str ''http3'', pr_Listen = HTTP3_Listen,
      pr_Accept = (\<lambda>e. http3Listener_Accept (h3_quic e) (h3_stream e)), pr_CloseListener = http3Listener_Close,
      pr_Dial = HTTP3_Dial, pr_CloseAccepted = http3StreamConn_Close, pr_CloseDialled = http3Conn_Close\<rparr>"

section \<open>A tunnel on a transport\<close>

text \<open>What the network answered so far.\<close>

datatype 'e answer = Accepted 'e | AcceptFailed 'e | Dialled 'e | DialFailed 'e

record ('e, 'l, 'a, 'd) serving =
  se_running :: bool
  se_tunnel :: Facade
  se_net :: net_state
  se_listener :: 'l
  se_src :: "nat \<rightharpoonup> 'a"
  se_dst :: "nat \<rightharpoonup> 'd"
  se_log :: "'e answer list"

text \<open>\<^verbatim>\<open>Start\<close> with the listener of the transport, known to the facade under the number \<open>i\<close>.\<close>

definition start_on ::
  "('e, 'l, 'a, 'd) Protocol \<Rightarrow> 'e \<Rightarrow> nat \<Rightarrow> gostr \<Rightarrow> Facade \<Rightarrow> net_state
     \<Rightarrow> (facade_error, ('e, 'l, 'a, 'd) serving) go_result \<times> net_state" where
  "start_on P e i msg t n =
     (case tf_protocol t of
        None \<Rightarrow> (Err ErrUnknownProtocol, n)
      | Some p \<Rightarrow>
          (case pr_Listen P e n of
             (Ret l, n1) \<Rightarrow>
               (Ret \<lparr>se_running = True, se_tunnel = snd (Start (Inr i) t), se_net = n1, se_listener = l,
                     se_src = Map.empty, se_dst = Map.empty, se_log = []\<rparr>, n1)
           | (Err x, n1) \<Rightarrow> (Err (ListenError msg), n1)
           | (Panic, n1) \<Rightarrow> (Panic, n1)))"

text \<open>The steps of the facade, with the calls on the transport they make. The network never hands out a resource that
  is still open (\<open>names e\<close> are those of the answer \<open>e\<close>).\<close>

inductive serving_step ::
  "('e, 'l, 'a, 'd) Protocol \<Rightarrow> ('e \<Rightarrow> resource set) \<Rightarrow> ('e, 'l, 'a, 'd) serving \<Rightarrow> ('e, 'l, 'a, 'd) serving \<Rightarrow> bool"
  for P names where
  se_accept: "se_running s \<Longrightarrow> acceptLoop_check (se_tunnel s) \<Longrightarrow> src \<notin> facade_conns (se_tunnel s) \<Longrightarrow>
    names e \<inter> ns_open (se_net s) = {} \<Longrightarrow> pr_Accept P e (se_listener s) (se_net s) = (Ret c, n) \<Longrightarrow>
    serving_step P names s (s\<lparr>se_tunnel := snd (acceptLoop_turn (Some src) (se_tunnel s)), se_net := n,
      se_src := (se_src s)(src \<mapsto> c), se_log := se_log s @ [Accepted e]\<rparr>)"
| se_accept_error: "se_running s \<Longrightarrow> names e \<inter> ns_open (se_net s) = {} \<Longrightarrow>
    pr_Accept P e (se_listener s) (se_net s) = (Err x, n) \<Longrightarrow> acceptLoop_turn None (se_tunnel s) = (go, t) \<Longrightarrow>
    serving_step P names s (s\<lparr>se_running := go, se_tunnel := (if go then t else acceptLoop_end t), se_net := n,
      se_log := se_log s @ [AcceptFailed e]\<rparr>)"
| se_loop_end: "se_running s \<Longrightarrow> \<not> acceptLoop_check (se_tunnel s) \<Longrightarrow>
    serving_step P names s (s\<lparr>se_running := False, se_tunnel := acceptLoop_end (se_tunnel s)\<rparr>)"
| se_dial_error: "tf_active (se_tunnel s) src = Some None \<Longrightarrow> names e \<inter> ns_open (se_net s) = {} \<Longrightarrow>
    pr_Dial P e (se_net s) = (Err x, n) \<Longrightarrow> se_src s src = Some c \<Longrightarrow> pr_CloseAccepted P c n = (c', n') \<Longrightarrow>
    serving_step P names s (s\<lparr>se_tunnel := handleConnection_dial now now' src None (se_tunnel s), se_net := n',
      se_src := (se_src s)(src := None), se_log := se_log s @ [DialFailed e]\<rparr>)"
| se_dial: "tf_active (se_tunnel s) src = Some None \<Longrightarrow> dst \<notin> facade_conns (se_tunnel s) \<Longrightarrow>
    names e \<inter> ns_open (se_net s) = {} \<Longrightarrow> pr_Dial P e (se_net s) = (Ret d, n) \<Longrightarrow>
    serving_step P names s (s\<lparr>se_tunnel := handleConnection_dial now now' src (Some dst) (se_tunnel s), se_net := n,
      se_dst := (se_dst s)(dst \<mapsto> d), se_log := se_log s @ [Dialled e]\<rparr>)"
| se_direction: "serving_step P names s (s\<lparr>se_tunnel := direction_done err (se_tunnel s)\<rparr>)"
| se_end: "tf_active (se_tunnel s) src = Some (Some dst) \<Longrightarrow> se_src s src = Some c \<Longrightarrow> se_dst s dst = Some d \<Longrightarrow>
    pr_CloseAccepted P c (se_net s) = (c', n) \<Longrightarrow> pr_CloseDialled P d n = (d', n') \<Longrightarrow>
    serving_step P names s (s\<lparr>se_tunnel := Tunnel_handleConnection_end src dst (se_tunnel s), se_net := n',
      se_src := (se_src s)(src := None), se_dst := (se_dst s)(dst := None)\<rparr>)"
| se_stop: "pr_CloseListener P (se_listener s) (se_net s) = (l, n) \<Longrightarrow>
    serving_step P names s (s\<lparr>se_tunnel := Stop (se_tunnel s), se_net := n, se_listener := l\<rparr>)"

text \<open>A run of the tunnel on any transport is a run of the facade.\<close>

lemma serving_facade_step:
  "serving_step P names s s' \<Longrightarrow> facade_step (se_running s, se_tunnel s) (se_running s', se_tunnel s')"
proof (induction rule: serving_step.induct)
  case (se_accept s src e c n)
  moreover obtain t' where "acceptLoop_turn (Some src) (se_tunnel s) = (True, t')"
    by (simp add: acceptLoop_turn_def)
  ultimately show ?case using fs_accept [of "se_tunnel s" src t'] by simp
next
  case (se_accept_error s e x n go t)
  then show ?case using fs_accept_error [of "se_tunnel s" go t] by simp
next
  case (se_loop_end s)
  then show ?case using fs_loop_end by simp
qed (simp_all add: fs_dial_error fs_dial fs_direction fs_end fs_stop)

lemma serving_facade:
  "(serving_step P names)\<^sup>*\<^sup>* s s' \<Longrightarrow> facade_step\<^sup>*\<^sup>* (se_running s, se_tunnel s) (se_running s', se_tunnel s')"
proof (induction rule: rtranclp_induct)
  case (step u v)
  show ?case by (rule rtranclp.rtrancl_into_rtrancl [OF step(3) serving_facade_step [OF step(2)]])
qed simp

section \<open>What a transport promises\<close>

text \<open>Every open resource has exactly one owner: it was open before, or belongs to the listener or to a connection, or was
  kept for good by one of the answers.\<close>

datatype owner = OwnBefore | OwnListener | OwnSrc nat | OwnDst nat | OwnKept nat

definition accounted :: "(owner \<Rightarrow> resource set) \<Rightarrow> net_state \<Rightarrow> bool" where
  "accounted own n \<longleftrightarrow> ns_open n = (\<Union>k. own k) \<and> disjoint_family own"

text \<open>An operation opened \<open>H\<close> and \<open>K\<close>, both out of \<open>N\<close>; an operation closed \<open>H\<close>.\<close>

definition acquires :: "net_state \<Rightarrow> net_state \<Rightarrow> resource set \<Rightarrow> resource set \<Rightarrow> resource set \<Rightarrow> bool" where
  "acquires n n' H K N \<longleftrightarrow> ns_open n' = ns_open n \<union> H \<union> K \<and> H \<inter> K = {} \<and> H \<union> K \<subseteq> N"

definition releases :: "net_state \<Rightarrow> net_state \<Rightarrow> resource set \<Rightarrow> bool" where
  "releases n n' H \<longleftrightarrow> ns_open n' = ns_open n - H"

lemma owner_Union:
  "(\<Union>k. own k) = own OwnBefore \<union> own OwnListener \<union> (\<Union>i. own (OwnSrc i)) \<union> (\<Union>i. own (OwnDst i)) \<union> (\<Union>i. own (OwnKept i))"
proof -
  have "k \<in> {OwnBefore, OwnListener} \<union> range OwnSrc \<union> range OwnDst \<union> range OwnKept" for k by (cases k) auto
  then have all: "UNIV = {OwnBefore, OwnListener} \<union> range OwnSrc \<union> range OwnDst \<union> range OwnKept" by blast
  show ?thesis by (subst all) (simp only: UN_Un UN_insert UN_empty image_image Un_empty_right Un_assoc)
qed

lemma Union_option: "(\<Union>i. case m i of None \<Rightarrow> {} | Some c \<Rightarrow> f c) = (\<Union>c\<in>ran m. f c)"
  by (force simp: ran_def split: option.splits)

lemma Union_nth: "(\<Union>i\<in>{i. i < length xs}. f (xs ! i)) = (\<Union>x\<in>set xs. f x)"
  by (force simp: in_set_conv_nth)

lemma accounted_add:
  assumes "accounted own n" "ns_open n' = ns_open n \<union> H" "H \<inter> ns_open n = {}" "own a = {}"
  shows "accounted (own(a := H)) n'"
proof -
  have "own k \<subseteq> ns_open n" for k using assms(1) by (auto simp: accounted_def)
  then have "H \<inter> own k = {}" for k using assms(3) by blast
  moreover have "(\<Union>k. g k) = g a \<union> (\<Union>k\<in>- {a}. g k)" for g :: "owner \<Rightarrow> resource set" by auto
  from this [of own] this [of "own(a := H)"] have "(\<Union>k. (own(a := H)) k) = (\<Union>k. own k) \<union> H"
    using assms(4) by auto
  ultimately show ?thesis
    using assms(1,2) unfolding accounted_def disjoint_family_on_def by (auto simp: Int_commute)
qed

lemma accounted_keep:
  assumes "accounted own n" "acquires n n' {} K N" "N \<inter> ns_open n = {}" "own b = {}"
  shows "accounted (own(b := K)) n'"
  by (rule accounted_add [OF assms(1)]) (use assms in \<open>auto simp: acquires_def\<close>)

lemma accounted_acquire:
  assumes "accounted own n" "acquires n n' H K N" "N \<inter> ns_open n = {}" "own a = {}" "own b = {}" "a \<noteq> b"
  shows "accounted (own(a := H, b := K)) n'"
proof -
  have "accounted (own(a := H)) (n\<lparr>ns_open := ns_open n \<union> H\<rparr>)"
    by (rule accounted_add [OF assms(1)]) (use assms in \<open>auto simp: acquires_def\<close>)
  then show ?thesis by (rule accounted_add) (use assms in \<open>auto simp: acquires_def\<close>)
qed

lemma accounted_release:
  assumes "accounted own n" "releases n n' (own a)"
  shows "accounted (own(a := {})) n'"
proof -
  have "(\<Union>k. (own(a := {})) k) = (\<Union>k. own k) - own a"
    using assms(1) by (auto simp: accounted_def disjoint_family_on_def split: if_splits)
  moreover have "disjoint_family (own(a := {}))"
    using assms(1) by (auto simp: accounted_def disjoint_family_on_def)
  ultimately show ?thesis using assms by (simp add: accounted_def releases_def)
qed

definition owned ::
  "('l \<Rightarrow> resource set) \<Rightarrow> ('a \<Rightarrow> resource set) \<Rightarrow> ('d \<Rightarrow> resource set) \<Rightarrow> ('e answer \<Rightarrow> resource set) \<Rightarrow> resource set
     \<Rightarrow> 'l \<Rightarrow> (nat \<rightharpoonup> 'a) \<Rightarrow> (nat \<rightharpoonup> 'd) \<Rightarrow> 'e answer list \<Rightarrow> owner \<Rightarrow> resource set" where
  "owned held_l held_a held_d kept B l srcs dsts answers k =
     (case k of
        OwnBefore \<Rightarrow> B
      | OwnListener \<Rightarrow> held_l l
      | OwnSrc i \<Rightarrow> (case srcs i of None \<Rightarrow> {} | Some c \<Rightarrow> held_a c)
      | OwnDst i \<Rightarrow> (case dsts i of None \<Rightarrow> {} | Some d \<Rightarrow> held_d d)
      | OwnKept i \<Rightarrow> (if i < length answers then kept (answers ! i) else {}))"

lemma owned_upd:
  "owned hl ha hdl kept B l (srcs(i \<mapsto> c)) dsts answers = (owned hl ha hdl kept B l srcs dsts answers)(OwnSrc i := ha c)"
  "owned hl ha hdl kept B l srcs (dsts(i \<mapsto> d)) answers = (owned hl ha hdl kept B l srcs dsts answers)(OwnDst i := hdl d)"
  "owned hl ha hdl kept B l (srcs(i := None)) dsts answers = (owned hl ha hdl kept B l srcs dsts answers)(OwnSrc i := {})"
  "owned hl ha hdl kept B l srcs (dsts(i := None)) answers = (owned hl ha hdl kept B l srcs dsts answers)(OwnDst i := {})"
  "owned hl ha hdl kept B l srcs dsts (answers @ [x]) =
     (owned hl ha hdl kept B l srcs dsts answers)(OwnKept (length answers) := kept x)"
  by (auto simp: owned_def fun_eq_iff nth_append split: owner.splits)

lemma owned_listener:
  "(owned hl ha hdl kept B l srcs dsts answers)(OwnListener := hl l') = owned hl ha hdl kept B l' srcs dsts answers"
  by (auto simp: owned_def fun_eq_iff split: owner.splits)

lemma owned_new [simp]:
  "srcs i = None \<Longrightarrow> owned hl ha hdl kept B l srcs dsts answers (OwnSrc i) = {}"
  "dsts i = None \<Longrightarrow> owned hl ha hdl kept B l srcs dsts answers (OwnDst i) = {}"
  "owned hl ha hdl kept B l srcs dsts answers (OwnKept (length answers)) = {}"
  "srcs i = Some c \<Longrightarrow> owned hl ha hdl kept B l srcs dsts answers (OwnSrc i) = ha c"
  "dsts i = Some d \<Longrightarrow> owned hl ha hdl kept B l srcs dsts answers (OwnDst i) = hdl d"
  "owned hl ha hdl kept B l srcs dsts answers OwnListener = hl l"
  by (simp_all add: owned_def)

text \<open>The maps of the facade and of the transport name the same connections.\<close>

definition conns_agree :: "('e, 'l, 'a, 'd) serving \<Rightarrow> bool" where
  "conns_agree s \<longleftrightarrow> dom (se_src s) = dom (tf_active (se_tunnel s)) \<and> dom (se_dst s) = facade_dsts (se_tunnel s)
     \<and> facade_ok (se_running s, se_tunnel s)"

lemma facade_active_upd:
  "tf_active (snd (acceptLoop_turn (Some src) t)) = (tf_active t)(src \<mapsto> None)"
  "tf_active (handleConnection_dial now now' src None t) = (tf_active t)(src := None)"
  "tf_active (handleConnection_dial now now' src (Some dst) t) = (tf_active t)(src \<mapsto> Some dst)"
  "tf_active (Tunnel_handleConnection_end src dst t) = (tf_active t)(src := None)"
  by (simp_all add: acceptLoop_turn_def handleConnection_dial_def Tunnel_handleConnection_end_def Let_def)

lemma facade_dsts_upd:
  "tf_active t src = None \<Longrightarrow> facade_dsts (snd (acceptLoop_turn (Some src) t)) = facade_dsts t"
  "tf_active t src = Some None \<Longrightarrow> facade_dsts (handleConnection_dial now now' src None t) = facade_dsts t"
  "tf_active t src = Some None \<Longrightarrow> facade_dsts (handleConnection_dial now now' src (Some dst) t) = insert dst (facade_dsts t)"
  unfolding facade_dsts_def facade_active_upd by (auto split: if_splits) (metis option.distinct(1) option.inject)+

lemma facade_dsts_end:
  assumes "facade_ok (r, t)" "tf_active t src = Some (Some dst)"
  shows "facade_dsts (Tunnel_handleConnection_end src dst t) = facade_dsts t - {dst}"
proof -
  have only: "a = src" if "tf_active t a = Some (Some dst)" for a
    using assms that unfolding facade_ok_def Let_def by simp
  have "d \<in> facade_dsts (Tunnel_handleConnection_end src dst t) \<longleftrightarrow> d \<in> facade_dsts t - {dst}" for d
    unfolding facade_dsts_def facade_active_upd mem_Collect_eq Diff_iff singleton_iff fun_upd_apply
    using only assms(2) by (metis option.distinct(1) option.inject)
  then show ?thesis by blast
qed

lemma facade_dsts_frame [simp]:
  "facade_dsts (direction_done err t) = facade_dsts t" "facade_dsts (Stop t) = facade_dsts t"
  "facade_dsts (acceptLoop_end t) = facade_dsts t"
  by (simp_all add: facade_dsts_def)

locale protocol_contract =
  fixes P :: "('e, 'l, 'a, 'd) Protocol"
    and names :: "'e \<Rightarrow> resource set"
    and held_l :: "'l \<Rightarrow> resource set" and held_a :: "'a \<Rightarrow> resource set" and held_d :: "'d \<Rightarrow> resource set"
    and kept :: "'e answer \<Rightarrow> resource set"
  assumes listen_ok: "pr_Listen P e n = (Ret l, n') \<Longrightarrow> names e \<inter> ns_open n = {} \<Longrightarrow> acquires n n' (held_l l) {} (names e)"
    and listen_err: "pr_Listen P e n = (Err x, n') \<Longrightarrow> names e \<inter> ns_open n = {} \<Longrightarrow> ns_open n' = ns_open n"
    and accept_ok: "pr_Accept P e l n = (Ret c, n') \<Longrightarrow> names e \<inter> ns_open n = {} \<Longrightarrow>
      acquires n n' (held_a c) (kept (Accepted e)) (names e)"
    and accept_err: "pr_Accept P e l n = (Err x, n') \<Longrightarrow> names e \<inter> ns_open n = {} \<Longrightarrow>
      acquires n n' {} (kept (AcceptFailed e)) (names e)"
    and dial_ok: "pr_Dial P e n = (Ret d, n') \<Longrightarrow> names e \<inter> ns_open n = {} \<Longrightarrow>
      acquires n n' (held_d d) (kept (Dialled e)) (names e)"
    and dial_err: "pr_Dial P e n = (Err x, n') \<Longrightarrow> names e \<inter> ns_open n = {} \<Longrightarrow>
      acquires n n' {} (kept (DialFailed e)) (names e)"
    and close_accepted: "pr_CloseAccepted P c n = (c', n') \<Longrightarrow> releases n n' (held_a c)"
    and close_dialled: "pr_CloseDialled P d n = (d', n') \<Longrightarrow> releases n n' (held_d d)"
    and close_listener: "pr_CloseListener P l n = (l', n') \<Longrightarrow> releases n n' (held_l l) \<and> held_l l' = {}"
begin

definition serving_ok :: "resource set \<Rightarrow> ('e, 'l, 'a, 'd) serving \<Rightarrow> bool" where
  "serving_ok B s \<longleftrightarrow>
     accounted (owned held_l held_a held_d kept B (se_listener s) (se_src s) (se_dst s) (se_log s)) (se_net s)
     \<and> conns_agree s"

lemma serving_step_accounted:
  assumes "serving_step P names s s'" "serving_ok B s"
  shows "accounted (owned held_l held_a held_d kept B (se_listener s') (se_src s') (se_dst s') (se_log s')) (se_net s')"
  using assms
proof (induction rule: serving_step.induct)
  case (se_accept s src e c n)
  then have "se_src s src = None" by (auto simp: serving_ok_def conns_agree_def facade_conns_def)
  with se_accept accounted_acquire [OF _ accept_ok [OF se_accept(5,4)] se_accept(4),
      of _ "OwnSrc src" "OwnKept (length (se_log s))"]
  show ?case by (simp add: serving_ok_def owned_upd del: fun_upd_apply)
next
  case (se_accept_error s e x n go t)
  with accounted_keep [OF _ accept_err [OF se_accept_error(3,2)] se_accept_error(2), of _ "OwnKept (length (se_log s))"]
  show ?case by (simp add: serving_ok_def owned_upd del: fun_upd_apply)
next
  case (se_dial_error s src e x n c c' n' now now')
  let ?own = "owned held_l held_a held_d kept B (se_listener s) (se_src s) (se_dst s) (se_log s)"
  have "accounted (?own(OwnKept (length (se_log s)) := kept (DialFailed e))) n"
    using se_dial_error(6) accounted_keep [OF _ dial_err [OF se_dial_error(3,2)] se_dial_error(2)]
    by (simp add: serving_ok_def)
  then have "accounted (?own(OwnKept (length (se_log s)) := kept (DialFailed e), OwnSrc src := {})) n'"
    by (rule accounted_release) (simp add: close_accepted [OF se_dial_error(5)] se_dial_error(4))
  then show ?case by (simp add: owned_upd fun_upd_twist [of "OwnSrc src"] del: fun_upd_apply)
next
  case (se_dial s src dst e d n now now')
  then have "se_dst s dst = None"
    by (auto simp: serving_ok_def conns_agree_def facade_conns_def facade_dsts_def)
  with se_dial accounted_acquire [OF _ dial_ok [OF se_dial(4,3)] se_dial(3), of _ "OwnDst dst" "OwnKept (length (se_log s))"]
  show ?case by (simp add: serving_ok_def owned_upd del: fun_upd_apply)
next
  case (se_end s src dst c d c' n d' n')
  let ?own = "owned held_l held_a held_d kept B (se_listener s) (se_src s) (se_dst s) (se_log s)"
  have "accounted (?own(OwnSrc src := {})) n"
    using se_end(6) by (intro accounted_release [of _ "se_net s"]) (simp_all add: serving_ok_def close_accepted [OF se_end(4)] se_end(2))
  then have "accounted (?own(OwnSrc src := {}, OwnDst dst := {})) n'"
    by (rule accounted_release) (simp add: close_dialled [OF se_end(5)] se_end(3))
  then show ?case by (simp add: owned_upd fun_upd_twist [of "OwnSrc src"] del: fun_upd_apply)
next
  case (se_stop s l n)
  then have "accounted ((owned held_l held_a held_d kept B (se_listener s) (se_src s) (se_dst s) (se_log s))(OwnListener := held_l l)) n"
    using close_listener [OF se_stop(1)] accounted_release [of _ "se_net s" n OwnListener] by (simp add: serving_ok_def)
  then show ?case by (simp add: owned_listener del: fun_upd_apply)
qed (simp_all add: serving_ok_def owned_upd del: fun_upd_apply)

lemma serving_step_agree:
  assumes "serving_step P names s s'" "conns_agree s"
  shows "conns_agree s'"
proof -
  have "facade_ok (se_running s', se_tunnel s')"
    using facade_step_ok [OF serving_facade_step [OF assms(1)]] assms(2) by (simp add: conns_agree_def)
  moreover have "dom (se_src s') = dom (tf_active (se_tunnel s')) \<and> dom (se_dst s') = facade_dsts (se_tunnel s')"
    using assms
  proof (induction rule: serving_step.induct)
    case (se_accept s src e c n)
    then have "tf_active (se_tunnel s) src = None" by (auto simp: facade_conns_def)
    with se_accept show ?case by (simp add: conns_agree_def facade_dsts_upd facade_active_upd del: fun_upd_apply)
  next
    case (se_accept_error s e x n go t)
    then show ?case using acceptLoop_turn_error [OF se_accept_error(4)] by (simp add: conns_agree_def facade_dsts_def)
  next
    case (se_end s src dst c d c' n d' n')
    then show ?case
      using facade_dsts_end [of "se_running s" "se_tunnel s" src dst]
      by (simp add: conns_agree_def facade_active_upd del: fun_upd_apply)
  qed (simp_all add: conns_agree_def facade_dsts_upd facade_active_upd domIff insert_absorb del: fun_upd_apply)
  ultimately show ?thesis by (simp add: conns_agree_def)
qed

lemma serving_step_ok: "serving_step P names s s' \<Longrightarrow> serving_ok B s \<Longrightarrow> serving_ok B s'"
  using serving_step_accounted [of s s' B] serving_step_agree [of s s'] by (simp add: serving_ok_def)

sublocale serving: step_invariant "serving_step P names" "serving_ok B" for B
  by unfold_locales (rule serving_step_ok)

lemmas serving_run = serving.steps_keep

lemma start_ok:
  assumes "New now c = Ret t" "start_on P e i msg (SetProtocol p t) n = (Ret s, n1)" "names e \<inter> ns_open n = {}"
  shows "serving_ok (ns_open n) s"
proof -
  obtain l where l: "pr_Listen P e n = (Ret l, n1)"
    "s = \<lparr>se_running = True, se_tunnel = snd (Start (Inr i) (SetProtocol p t)), se_net = n1, se_listener = l,
          se_src = Map.empty, se_dst = Map.empty, se_log = []\<rparr>"
    using assms(2) by (auto simp: start_on_def SetProtocol_def split: prod.splits go_result.splits)
  have "fst (Start (Inr i) (SetProtocol p t)) = None" by (simp add: Start_def SetProtocol_def Let_def)
  then have "facade_ok (True, se_tunnel s)" "tf_active (se_tunnel s) = Map.empty"
    using New_Start_ok [OF assms(1), of i p] l(2) by (metis prod.collapse serving.select_convs(2))+
  moreover have "accounted (owned held_l held_a held_d kept (ns_open n) l Map.empty Map.empty []) n1"
    using listen_ok [OF l(1) assms(3)] assms(3)
    by (auto simp: accounted_def acquires_def disjoint_family_on_def owned_def split: owner.splits)
  ultimately show ?thesis using l(2) by (simp add: serving_ok_def conns_agree_def facade_dsts_def)
qed

lemma start_fails_clean:
  assumes "start_on P e i msg t n = (Err x, n1)" "names e \<inter> ns_open n = {}"
  shows "ns_open n1 = ns_open n"
  using assms listen_err [of e n] by (auto simp: start_on_def split: option.splits prod.splits go_result.splits)

lemma resources:
  assumes "serving_ok B s"
  shows "ns_open (se_net s) = B \<union> held_l (se_listener s) \<union> (\<Union>c\<in>ran (se_src s). held_a c) \<union> (\<Union>d\<in>ran (se_dst s). held_d d)
    \<union> (\<Union>x\<in>set (se_log s). kept x)"
  using assms unfolding serving_ok_def accounted_def owner_Union
  by (simp add: owned_def Union_option Union_nth)

lemma kept_count:
  assumes "serving_ok B s" "\<And>x. finite (kept x)"
  shows "card (\<Union>x\<in>set (se_log s). kept x) = (\<Sum>x\<leftarrow>se_log s. card (kept x))"
proof -
  have "disjoint_family (owned held_l held_a held_d kept B (se_listener s) (se_src s) (se_dst s) (se_log s))"
    using assms(1) by (simp add: serving_ok_def accounted_def)
  then have "kept (se_log s ! i) \<inter> kept (se_log s ! j) = {}" if "i < length (se_log s)" "j < length (se_log s)" "i \<noteq> j" for i j
    using that disjoint_family_onD [of _ UNIV "OwnKept i" "OwnKept j"] by (fastforce simp: owned_def)
  then have "card (\<Union>i\<in>{..<length (se_log s)}. kept (se_log s ! i)) = (\<Sum>i<length (se_log s). card (kept (se_log s ! i)))"
    using assms(2) by (intro card_UN_disjoint) auto
  then show ?thesis using Union_nth [of kept "se_log s"] by (simp add: sum_list_sum_nth atLeast0LessThan lessThan_def)
qed

lemma idle_resources:
  assumes "serving_ok B s" "tf_active (se_tunnel s) = Map.empty"
  shows "ns_open (se_net s) = B \<union> held_l (se_listener s) \<union> (\<Union>x\<in>set (se_log s). kept x)"
proof -
  have "se_src s = Map.empty" "se_dst s = Map.empty"
    using assms by (auto simp: serving_ok_def conns_agree_def facade_dsts_def)
  then show ?thesis using resources [OF assms(1)] by simp
qed

end

section \<open>The three transports\<close>

definition tcp_names :: "nat option \<Rightarrow> resource set" where
  "tcp_names sock = TCPSocket ` set_option sock"

definition tcp_held :: "tcp_handle \<Rightarrow> resource set" where
  "tcp_held h = (if th_closed h then {} else {TCPSocket (th_sock h)})"

lemmas tcp_defs = TCP_New_def HTTP2_New_def tcp_opened_def tcp_accept_def tcp_close_def TCP_Listen_def TCP_Dial_def
  HTTP2_Listen_def HTTP2_Dial_def tcp_names_def tcp_held_def net_open_def net_closed_def acquires_def releases_def Let_def

interpretation tcp: protocol_contract TCP_New tcp_names tcp_held tcp_held tcp_held "\<lambda>_. {}"
  by unfold_locales (auto simp: tcp_defs split: option.splits if_splits)

interpretation http2: protocol_contract "HTTP2_New tlsConfig" "\<lambda>e. tcp_names (fst e)" tcp_held tcp_held tcp_held "\<lambda>_. {}"
  for tlsConfig
  by unfold_locales (auto simp: tcp_defs split: option.splits if_splits)

definition h3_names :: "h3_env \<Rightarrow> resource set" where
  "h3_names v = UDPSocket ` set_option (h3_udp v) \<union> QUICConn ` set_option (h3_quic v) \<union> QUICListen ` set_option (h3_quic v)
     \<union> QUICStream ` set_option (h3_stream v)"

definition h3_listener_held :: "http3Listener \<Rightarrow> resource set" where
  "h3_listener_held l = (if hl_closed l then {} else {QUICListen (hl_listener l), UDPSocket (hl_udpConn l)})"

definition h3_accepted_held :: "http3Conn \<Rightarrow> resource set" where
  "h3_accepted_held c = (if hc_closed c then {} else {QUICStream (hc_stream c)})"

definition h3_dialled_held :: "http3Conn \<Rightarrow> resource set" where
  "h3_dialled_held c = (if hc_closed c then {} else {QUICStream (hc_stream c), QUICConn (hc_conn c)})"

fun h3_kept :: "h3_env answer \<Rightarrow> resource set" where
  "h3_kept (Accepted v) = {QUICConn (the (h3_quic v))}"
| "h3_kept (AcceptFailed v) = {}"
| "h3_kept (Dialled v) = {UDPSocket (the (h3_udp v))}"
| "h3_kept (DialFailed v) =
     (if h3_resolve v \<and> h3_udp v \<noteq> None \<and> h3_quic v \<noteq> None then {UDPSocket (the (h3_udp v))} else {})"

interpretation http3: protocol_contract HTTP3_New h3_names h3_listener_held h3_accepted_held h3_dialled_held h3_kept
  by unfold_locales
    (auto simp: HTTP3_New_def transport_defs h3_names_def h3_listener_held_def h3_accepted_held_def h3_dialled_held_def
      acquires_def releases_def split: option.splits if_splits)

section \<open>Properties\<close>

text \<open>A tunnel that was made, given its transport and started.\<close>

definition serves_on ::
  "('e, 'l, 'a, 'd) Protocol \<Rightarrow> ('e \<Rightarrow> resource set) \<Rightarrow> net_state \<Rightarrow> ('e, 'l, 'a, 'd) serving \<Rightarrow> bool" where
  "serves_on P names n s' \<longleftrightarrow>
     (\<exists>now c t e i msg p s n1. New now c = Ret t \<and> names e \<inter> ns_open n = {}
        \<and> start_on P e i msg (SetProtocol p t) n = (Ret s, n1) \<and> (serving_step P names)\<^sup>*\<^sup>* s s')"

definition idle :: "('e, 'l, 'a, 'd) serving \<Rightarrow> bool" where
  "idle s \<longleftrightarrow> tf_active (se_tunnel s) = Map.empty"

text \<open>A run that serves one connection, on any transport.\<close>

lemma serve_one:
  assumes "se_running s" "acceptLoop_check (se_tunnel s)" "facade_conns (se_tunnel s) = {}" "idle s"
    "names e1 \<inter> ns_open (se_net s) = {}" "pr_Accept P e1 (se_listener s) (se_net s) = (Ret c, n1)"
    "names e2 \<inter> ns_open n1 = {}" "pr_Dial P e2 n1 = (Ret d, n2)"
    "pr_CloseAccepted P c n2 = (c', n3)" "pr_CloseDialled P d n3 = (d', n4)"
  shows "\<exists>s'. (serving_step P names)\<^sup>*\<^sup>* s s' \<and> idle s' \<and> se_net s' = n4 \<and> se_listener s' = se_listener s
    \<and> se_log s' = se_log s @ [Accepted e1, Dialled e2]"
proof -
  have active: "tf_active (se_tunnel s) = Map.empty" "tf_closed (se_tunnel s) = []"
    using assms(3) by (auto simp: facade_conns_def)
  let ?t1 = "snd (acceptLoop_turn (Some 0) (se_tunnel s))"
  let ?s1 = "s\<lparr>se_tunnel := ?t1, se_net := n1, se_src := (se_src s)(0 \<mapsto> c), se_log := se_log s @ [Accepted e1]\<rparr>"
  let ?s2 = "?s1\<lparr>se_tunnel := handleConnection_dial 0 0 0 (Some 1) ?t1, se_net := n2, se_dst := (se_dst ?s1)(1 \<mapsto> d),
    se_log := se_log ?s1 @ [Dialled e2]\<rparr>"
  let ?s3 = "?s2\<lparr>se_tunnel := Tunnel_handleConnection_end 0 1 (se_tunnel ?s2), se_net := n4, se_src := (se_src ?s2)(0 := None),
    se_dst := (se_dst ?s2)(1 := None)\<rparr>"
  have "serving_step P names s ?s1"
    using assms(1-3,5,6) by (intro se_accept) auto
  moreover have "1 \<notin> facade_conns ?t1"
    using active by (auto simp: facade_conns_def acceptLoop_turn_def split: if_splits)
  then have "serving_step P names ?s1 ?s2"
    using assms(7,8) se_dial [of ?s1 0 1 names e2 P d n2 0 0] by (simp add: facade_active_upd)
  moreover have "serving_step P names ?s2 ?s3"
    using assms(9,10) se_end [of ?s2 0 1 c d P c' n3 d' n4 names] by (simp add: facade_active_upd)
  ultimately have "(serving_step P names)\<^sup>*\<^sup>* s ?s3"
    by (meson converse_rtranclp_into_rtranclp r_into_rtranclp)
  moreover have "idle ?s3" using active by (auto simp: idle_def facade_active_upd fun_eq_iff)
  ultimately show ?thesis by (intro exI [of _ ?s3]) simp
qed

lemma example_start:
  assumes "pr_Listen P e n = (Ret l, n1)" "names e \<inter> ns_open n = {}"
  shows "\<exists>s. serves_on P names n s \<and> se_running s \<and> acceptLoop_check (se_tunnel s) \<and> facade_conns (se_tunnel s) = {}
    \<and> idle s \<and> se_net s = n1 \<and> se_listener s = l \<and> se_log s = []"
proof -
  obtain t where t: "New 0 ServerPreset = Ret t" "Start (Inr 1) (SetProtocol 0 t) = (None, example_facade)"
    using example_New by blast
  let ?s = "\<lparr>se_running = True, se_tunnel = example_facade, se_net = n1, se_listener = l, se_src = Map.empty,
    se_dst = Map.empty, se_log = []\<rparr>"
  have "start_on P e 1 [] (SetProtocol 0 t) n = (Ret ?s, n1)"
    using assms(1) t(2) by (simp add: start_on_def SetProtocol_def)
  then have "serves_on P names n ?s" using t(1) assms(2) unfolding serves_on_def by blast
  moreover have "tf_active example_facade = Map.empty" "tf_closed example_facade = []" "\<not> tf_ctxDone example_facade"
    using New_Start_ok [OF t] by auto
  ultimately show ?thesis
    by (intro exI [of _ ?s]) (simp add: idle_def acceptLoop_check_def facade_conns_def)
qed

lemma serves_on_run: "serves_on P names n s \<Longrightarrow> (serving_step P names)\<^sup>*\<^sup>* s s' \<Longrightarrow> serves_on P names n s'"
  unfolding serves_on_def by (meson rtranclp_trans)

text \<open>C26. On TCP and on HTTP/2 the tunnel gives everything back: after every run of accept loop, handlers, failing dials
  and handshakes and \<^verbatim>\<open>Stop\<close>, as soon as no handler is busy, nothing is open but what was open before the start and the
  listener, and not that either once it was closed.\<close>

theorem tunnel_gives_back:
  "(serves_on TCP_New tcp_names n s \<and> idle s \<longrightarrow>
      ns_open (se_net s) = ns_open n \<union> tcp_held (se_listener s)
      \<and> (th_closed (se_listener s) \<longrightarrow> ns_open (se_net s) = ns_open n))
   \<and> (serves_on (HTTP2_New tlsConfig) (\<lambda>e. tcp_names (fst e)) n2 s2 \<and> idle s2 \<longrightarrow>
      ns_open (se_net s2) = ns_open n2 \<union> tcp_held (se_listener s2)
      \<and> (th_closed (se_listener s2) \<longrightarrow> ns_open (se_net s2) = ns_open n2))"
proof -
  have "tcp.serving_ok (ns_open n) s" if "serves_on TCP_New tcp_names n s"
    using that tcp.start_ok tcp.serving_run unfolding serves_on_def by blast
  moreover have "http2.serving_ok (ns_open n2) s2"
    if "serves_on (HTTP2_New tlsConfig) (\<lambda>e. tcp_names (fst e)) n2 s2"
    using that http2.start_ok http2.serving_run unfolding serves_on_def by blast
  ultimately show ?thesis
    using tcp.idle_resources http2.idle_resources by (auto simp: idle_def tcp_held_def)
qed

theorem tunnel_gives_back_witness:
  "\<exists>s. serves_on TCP_New tcp_names nothing_open s \<and> se_log s = [Accepted (Some 2), Dialled (Some 3)]
     \<and> ns_open (se_net s) = {TCPSocket 1}"
proof -
  note defs = tcp_defs nothing_open_def
  obtain s where s: "serves_on TCP_New tcp_names nothing_open s" "se_running s" "acceptLoop_check (se_tunnel s)"
    "facade_conns (se_tunnel s) = {}" "idle s" "se_net s = net_open (TCPSocket 1) nothing_open"
    "se_listener s = \<lparr>th_sock = 1, th_closed = False\<rparr>" "se_log s = []"
    using example_start [of TCP_New "Some 1" nothing_open _ _ tcp_names] by (fastforce simp: defs)
  obtain s' where s': "(serving_step TCP_New tcp_names)\<^sup>*\<^sup>* s s'" "idle s'" "se_listener s' = se_listener s"
    "se_log s' = [Accepted (Some 2), Dialled (Some 3)]"
    using serve_one [OF s(2-5), of tcp_names "Some 2" TCP_New _ _ "Some 3"] s(6-8) by (fastforce simp: defs)
  have on: "serves_on TCP_New tcp_names nothing_open s'" by (rule serves_on_run [OF s(1) s'(1)])
  have "ns_open (se_net s') = ns_open nothing_open \<union> tcp_held (se_listener s')"
    using tunnel_gives_back [of nothing_open s'] on s'(2) by blast
  then have "ns_open (se_net s') = {TCPSocket 1}" using s(7) s'(3) by (simp add: nothing_open_def tcp_held_def)
  with on s'(4) show ?thesis by blast
qed

text \<open>Whether an answer of the network costs a resource.\<close>

fun h3_loses :: "h3_env answer \<Rightarrow> bool" where
  "h3_loses (DialFailed v) \<longleftrightarrow> h3_resolve v \<and> h3_udp v \<noteq> None \<and> h3_quic v \<noteq> None"
| "h3_loses (AcceptFailed v) \<longleftrightarrow> False"
| "h3_loses _ \<longleftrightarrow> True"

lemma h3_kept_count: "(\<Sum>x\<leftarrow>xs. card (h3_kept x)) = length (filter h3_loses xs)"
proof (induction xs)
  case (Cons x xs)
  then show ?case by (cases x) auto
qed simp



end
