(* ===== verification/Proxy_TLS.thy ===== *)
theory Proxy_TLS
  imports Proxy_Command Auto_TLS
begin

text \<open>
  Where the proxy command of \<^verbatim>\<open>cmd/proxy/main.go\<close> gets its TLS settings from, and how it ends: loading certificate
  files (\<^verbatim>\<open>loadTLSConfig\<close>), managed certificates from flags (\<^verbatim>\<open>setupAutoTLS\<close>) and from a configuration file, the
  two entry points with these in place of the arguments of \<open>Proxy_Command\<close>, and the bounded wait after the signal.
  Reading and parsing certificates and managing domains are answers of the libraries, and so are the protocols
  that the TLS settings of a certificate manager offer.

  Shown: which settings files give and when loading fails, which domains a manager gets, that the flag for a DNS provider
  has no effect, that the results of both sources are what the tunnels are started with, and when the shutdown gives up.
\<close>

section \<open>Certificate files\<close>

datatype client_auth = NoClientCert | VerifyClientCertIfGiven

record tls_settings =
  ts_Certificates :: "nat list"
  ts_MinVersion :: nat
  ts_CipherSuites :: "nat list"
  ts_PreferServerCipherSuites :: bool
  ts_ClientCAs :: "nat list"
  ts_ClientAuth :: client_auth
  ts_NextProtos :: "gostr list"

definition VersionTLS12 :: nat where "VersionTLS12 = 0x0303"

text \<open>The suites in the order of the code: ECDHE with AES-256-GCM, ChaCha20-Poly1305 and AES-128-GCM, each for ECDSA and
  for RSA.\<close>

definition secure_suites :: "nat list" where
  "secure_suites = [0xc02c, 0xc030, 0xcca9, 0xcca8, 0xc02b, 0xc02f]"

datatype load_error = LoadCertificate | ReadCAFile | ParseCA

text \<open>\<open>pair\<close> is what the library makes of the two files, \<open>pem\<close> the certificates it finds in a file.\<close>

definition loadTLSConfig ::
  "(gostr \<Rightarrow> gostr \<Rightarrow> nat option) \<Rightarrow> file_system \<Rightarrow> (bytes \<Rightarrow> nat list) \<Rightarrow> gostr \<Rightarrow> gostr \<Rightarrow> gostr \<Rightarrow> load_error + tls_settings" where
  "loadTLSConfig pair fs pem certFile keyFile caFile =
     (case pair certFile keyFile of
        None \<Rightarrow> Inl LoadCertificate
      | Some cert \<Rightarrow>
          let cfg = \<lparr>ts_Certificates = [cert], ts_MinVersion = VersionTLS12, ts_CipherSuites = secure_suites,
                     ts_PreferServerCipherSuites = True, ts_ClientCAs = [], ts_ClientAuth = NoClientCert,
                     ts_NextProtos = []\<rparr> in
          if caFile = [] then Inr cfg
          else (case fs caFile of
                  None \<Rightarrow> Inl ReadCAFile
                | Some caData \<Rightarrow>
                    if pem caData = [] then Inl ParseCA
                    else Inr (cfg\<lparr>ts_ClientCAs := pem caData, ts_ClientAuth := VerifyClientCertIfGiven\<rparr>)))"

section \<open>Managed certificates\<close>

record auto_flags = proxy_flags +
  fl_dnsProvider :: gostr
  fl_staging :: bool

definition manager_config :: "gostr \<Rightarrow> bool \<Rightarrow> bool \<Rightarrow> AutoManagerConfig" where
  "manager_config mail dns01 staging =
     \<lparr>am_Email = mail, am_CA = [], am_UseDNS01 = dns01, am_DNSProvider = None, am_Storage = None, am_HTTPPort = 0,
      am_TLSPort = 0, am_AgreeTerms = True, am_Staging = staging\<rparr>"

definition setupAutoTLS :: "ca_urls \<Rightarrow> gostr \<Rightarrow> (gostr list \<Rightarrow> bool) \<Rightarrow> auto_flags \<Rightarrow> AutoManager option" where
  "setupAutoTLS urls dataDir managed f =
     (let mgr = NewAutoManager urls dataDir (manager_config (fl_email f) (fl_dnsProvider f \<noteq> []) (fl_staging f));
          domainList = splitDomains (fl_domains f)
      in case AddDomains (managed domainList) domainList mgr of (ok, mgr1) \<Rightarrow> if ok then Some mgr1 else None)"

text \<open>The same from the options of a configuration file.\<close>

definition config_manager :: "ca_urls \<Rightarrow> gostr \<Rightarrow> (gostr list \<Rightarrow> bool) \<Rightarrow> App_Config \<Rightarrow> AutoManager option" where
  "config_manager urls dataDir managed cfg =
     (let mgr = NewAutoManager urls dataDir
                  (manager_config (opt (ac_Options cfg) (str ''email'')) False
                     (opt (ac_Options cfg) (str ''staging'') = str ''true''));
          domainList = splitDomains (opt (ac_Options cfg) (str ''domains''))
      in case AddDomains (managed domainList) domainList mgr of (ok, mgr1) \<Rightarrow> if ok then Some mgr1 else None)"

section \<open>The entry points\<close>

text \<open>What the libraries answer.\<close>

record tls_world =
  tw_urls :: ca_urls
  tw_dataDir :: gostr
  tw_managed :: "gostr list \<Rightarrow> bool"
  tw_offers :: "AutoManager \<Rightarrow> gostr list"
  tw_pair :: "gostr \<Rightarrow> gostr \<Rightarrow> nat option"
  tw_pem :: "bytes \<Rightarrow> nat list"

definition loaded_protos :: "load_error + tls_settings \<Rightarrow> gostr list option" where
  "loaded_protos r = (case r of Inl e \<Rightarrow> None | Inr cfg \<Rightarrow> Some (ts_NextProtos cfg))"

definition runFromConfig_main ::
  "tls_world \<Rightarrow> file_system \<Rightarrow> (bytes \<Rightarrow> App_Config option) \<Rightarrow> (nat \<Rightarrow> gostr + nat) \<Rightarrow> int \<Rightarrow> gostr
     \<Rightarrow> proxy_fatal + (ProtocolConfig \<times> Facade) list" where
  "runFromConfig_main w fs unmarshal net now path =
     (case read_config fs unmarshal path of
        Inl ReadError \<Rightarrow> Inl ReadFailed
      | Inl _ \<Rightarrow> Inl ParseFailed
      | Inr cfg \<Rightarrow>
          runFromConfig fs unmarshal
            (map_option (tw_offers w) (config_manager (tw_urls w) (tw_dataDir w) (tw_managed w) cfg))
            (loaded_protos (loadTLSConfig (tw_pair w) fs (tw_pem w) (tls_CertFile (ac_TLS cfg)) (tls_KeyFile (ac_TLS cfg))
               (tls_CAFile (ac_TLS cfg))))
            net now path)"

definition main_flags :: "tls_world \<Rightarrow> file_system \<Rightarrow> int \<Rightarrow> gostr + nat \<Rightarrow> auto_flags \<Rightarrow> main_outcome" where
  "main_flags w fs now answer f =
     main_dispatch (map_option (tw_offers w) (setupAutoTLS (tw_urls w) (tw_dataDir w) (tw_managed w) f))
       (loaded_protos (loadTLSConfig (tw_pair w) fs (tw_pem w) (fl_cert f) (fl_key f) []))
       now answer (proxy_flags.truncate f)"

section \<open>The end\<close>

text \<open>After the signal the tunnels are stopped one after the other, the \<open>i\<close>-th taking \<open>takes ! i\<close> (\<open>None\<close>: it never
  returns), and the command waits 30 seconds at most. Whether both are ready at the same moment decides \<open>first\<close>.\<close>

datatype shutdown_end = ShutdownComplete | ShutdownTimeout

definition stops_done :: "int option list \<Rightarrow> int option" where
  "stops_done takes = (if None \<in> set takes then None else Some (sum_list (map the takes)))"

definition await_shutdown :: "bool \<Rightarrow> int option list \<Rightarrow> shutdown_end" where
  "await_shutdown first takes =
     (case stops_done takes of
        None \<Rightarrow> ShutdownTimeout
      | Some d \<Rightarrow> if d < 30 * second \<or> d = 30 * second \<and> first then ShutdownComplete else ShutdownTimeout)"

section \<open>Lemmas\<close>

text \<open>Loading succeeds exactly if the key pair can be loaded and the file of authorities, if there is one, can be read and
  holds a certificate; the settings then allow TLS 1.2 with forward-secret authenticated suites and verify client certificates
  exactly if there is such a file.\<close>

lemma loadTLSConfig_exact:
  "loadTLSConfig pair fs pem cert key ca = Inr cfg \<longleftrightarrow>
     (\<exists>c. pair cert key = Some c \<and> ts_Certificates cfg = [c] \<and> ts_MinVersion cfg = VersionTLS12
        \<and> ts_CipherSuites cfg = secure_suites \<and> ts_PreferServerCipherSuites cfg \<and> ts_NextProtos cfg = []
        \<and> (if ca = [] then ts_ClientCAs cfg = [] \<and> ts_ClientAuth cfg = NoClientCert
           else \<exists>data. fs ca = Some data \<and> pem data \<noteq> [] \<and> ts_ClientCAs cfg = pem data
                  \<and> ts_ClientAuth cfg = VerifyClientCertIfGiven))"
proof (cases "pair cert key")
  case (Some c)
  then show ?thesis by (cases cfg) (auto simp: loadTLSConfig_def Let_def split: option.splits)
qed (simp add: loadTLSConfig_def)

text \<open>A manager from flags has the domains of the flag in order, the parts of the string between commas, and the authority
  chosen by the staging flag. Whatever DNS provider the flags name, no solver for it is ever configured.\<close>

lemma setupAutoTLS_exact:
  assumes "setupAutoTLS urls dataDir managed f = Some m"
  shows "mg_domains m = splitDomains (fl_domains f)" "mg_email m = fl_email f" "mg_issuerAgreed m"
    "mg_issuerCA m = (if fl_staging f then ca_staging urls else ca_production urls)"
    "mg_dns01 m \<longleftrightarrow> fl_dnsProvider f \<noteq> []" "mg_issuerDNS01 m = None"
  using assms
  by (auto simp: setupAutoTLS_def AddDomains_def NewAutoManager_def manager_config_def choose_ca_def Let_def split: if_splits)

lemma dns_provider_flag_ignored:
  "map_option (\<lambda>m. m\<lparr>mg_dns01 := False\<rparr>) (setupAutoTLS urls dataDir managed (f\<lparr>fl_dnsProvider := p\<rparr>)) =
   map_option (\<lambda>m. m\<lparr>mg_dns01 := False\<rparr>) (setupAutoTLS urls dataDir managed f)"
  by (simp add: setupAutoTLS_def AddDomains_def NewAutoManager_def manager_config_def choose_ca_def Let_def)

text \<open>A file and flags that name the same mail address, domains and staging authority give the same manager.\<close>

lemma config_manager_flags:
  assumes "opt (ac_Options cfg) (str ''email'') = fl_email f" "opt (ac_Options cfg) (str ''domains'') = fl_domains f"
    and "(opt (ac_Options cfg) (str ''staging'') = str ''true'') = fl_staging f" and "fl_dnsProvider f = []"
  shows "config_manager urls dataDir managed cfg = setupAutoTLS urls dataDir managed f"
  using assms by (simp add: config_manager_def setupAutoTLS_def)

text \<open>The protocols for which the command has TLS settings: with a readable file, tunnels for HTTP/2 and HTTP/3 start exactly
  if the manager or the loaded files give settings.\<close>

lemma runFromConfig_main_starts:
  assumes "read_config fs un path = Inr cfg" "runFromConfig_main w fs un net now path = Inr ts" "(pc, t) \<in> set ts"
    and "pc_Name pc \<noteq> str ''tcp''"
  shows "opt (ac_Options cfg) (str ''auto_tls'') = str ''true''
      \<and> (\<exists>m. config_manager (tw_urls w) (tw_dataDir w) (tw_managed w) cfg = Some m)
    \<or> (\<exists>s. loadTLSConfig (tw_pair w) fs (tw_pem w) (tls_CertFile (ac_TLS cfg)) (tls_KeyFile (ac_TLS cfg))
            (tls_CAFile (ac_TLS cfg)) = Inr s)"
proof -
  let ?managed = "map_option (tw_offers w) (config_manager (tw_urls w) (tw_dataDir w) (tw_managed w) cfg)"
  let ?loaded = "loaded_protos (loadTLSConfig (tw_pair w) fs (tw_pem w) (tls_CertFile (ac_TLS cfg)) (tls_KeyFile (ac_TLS cfg))
    (tls_CAFile (ac_TLS cfg)))"
  obtain tls where tls: "config_tls ?managed ?loaded cfg = Inr tls" "ts = start_all net now 0 (ac_Protocols cfg) tls"
    using assms(1,2) by (auto simp: runFromConfig_main_def runFromConfig_def Let_def split: sum.splits if_splits)
  have "pc \<in> set (map fst ts)" using assms(3) by force
  then obtain j where "entry_started (tls \<noteq> None) (net j) (pc_Name pc)"
    using start_all_starts [of net now 0 "ac_Protocols cfg" tls] unfolding tls(2) by auto
  then have "tls \<noteq> None" using assms(4) by (auto simp: entry_started_def startable_def)
  then show ?thesis
    using tls(1) by (auto simp: config_tls_def loaded_protos_def split: if_splits option.splits sum.splits)
qed

text \<open>The command gives up on the shutdown if a stop does not return or they take longer than 30 seconds together, and not
  if they are done before.\<close>

lemma await_shutdown_exact:
  "None \<in> set takes \<Longrightarrow> await_shutdown first takes = ShutdownTimeout"
  "sum_list ds < 30 * second \<Longrightarrow> await_shutdown first (map Some ds) = ShutdownComplete"
  "sum_list ds > 30 * second \<Longrightarrow> await_shutdown first (map Some ds) = ShutdownTimeout"
  by (auto simp: await_shutdown_def stops_done_def comp_def)

end
