(* ===== verification/Mux_Bidi.thy ===== *)
theory Mux_Bidi
  imports MuxConn
begin

text \<open>
  \<^verbatim>\<open>ForwardBidirectionalMux\<close> of \<^verbatim>\<open>forward/mux.go\<close> as a whole: the two goroutines, whose loops are in \<open>MuxConn\<close>, the
  context they share, the channel on which they report, and the caller that waits for the first report and cancels the
  context when it returns. The goroutines take turns in any order; each turn is either the check at the top of the loop
  or a read with what follows it. What the connections and their contexts do is arbitrary.

  Shown: under every interleaving each direction has done exactly what its loop does alone on the reads it has met, and the call
  returns what the first goroutine to end reported; but the goroutine that is left behind takes one more message from the
  shared connection, whichever connection it belongs to.
\<close>

section \<open>State and turns\<close>

datatype bidi_pc = AtLoop | InRead | Finished

record ('c, 'p, 'w, 'v) bidi =
  bd_ctxDone :: bool
  bd_errCh :: "fw_error option list"
  bd_result :: "fw_error option option"
  bd_crashed :: bool
  bd_send :: bidi_pc
  bd_pool :: 'p
  bd_mux :: 'w
  bd_sent :: "(fw_event \<times> 'c) list"
  bd_recv :: bidi_pc
  bd_local :: 'v
  bd_localClosed :: bool
  bd_got :: "fw_event list"

definition ForwardBidirectionalMux_start :: "bool \<Rightarrow> 'p \<Rightarrow> 'w \<Rightarrow> 'v \<Rightarrow> ('c, 'p, 'w, 'v) bidi" where
  "ForwardBidirectionalMux_start ctxDone p w v =
     \<lparr>bd_ctxDone = ctxDone, bd_errCh = [], bd_result = None, bd_crashed = False, bd_send = AtLoop, bd_pool = p, bd_mux = w,
      bd_sent = [], bd_recv = AtLoop, bd_local = v, bd_localClosed = False, bd_got = []\<rparr>"

text \<open>One pass through a loop body has gone on, reported, or panicked, which ends the program.\<close>

definition send_turn :: "fw_result \<Rightarrow> ('c, 'p, 'w, 'v) bidi \<Rightarrow> ('c, 'p, 'w, 'v) bidi" where
  "send_turn res s =
     (case res of
        FwWaiting \<Rightarrow> s\<lparr>bd_send := AtLoop\<rparr>
      | FwDone r \<Rightarrow> s\<lparr>bd_send := Finished, bd_errCh := bd_errCh s @ [r]\<rparr>
      | FwPanic \<Rightarrow> s\<lparr>bd_crashed := True\<rparr>)"

definition recv_turn :: "fw_result \<Rightarrow> ('c, 'p, 'w, 'v) bidi \<Rightarrow> ('c, 'p, 'w, 'v) bidi" where
  "recv_turn res s =
     (case res of
        FwWaiting \<Rightarrow> s\<lparr>bd_recv := AtLoop\<rparr>
      | FwDone r \<Rightarrow> s\<lparr>bd_recv := Finished, bd_errCh := bd_errCh s @ [r]\<rparr>
      | FwPanic \<Rightarrow> s\<lparr>bd_crashed := True\<rparr>)"

text \<open>Local to remote: the event is the one the pass meets, so \<open>CtxDone\<close> and \<open>Yielded\<close> stand for the checks.\<close>

definition send_event ::
  "('c, 'p) MuxEncoder \<Rightarrow> 'w writer \<Rightarrow> gostr \<Rightarrow> fw_event \<times> 'c \<Rightarrow> ('c, 'p, 'w, 'v) bidi \<Rightarrow> ('c, 'p, 'w, 'v) bidi" where
  "send_event E wr connID ev s =
     (case bidi_local_to_remote E wr connID [ev] (bd_pool s) (bd_mux s) of
        (res, p, w) \<Rightarrow> send_turn res (s\<lparr>bd_pool := p, bd_mux := w, bd_sent := bd_sent s @ [ev]\<rparr>))"

definition recv_event ::
  "(bytes \<Rightarrow> decoded) \<Rightarrow> 'v writer \<Rightarrow> fw_event \<Rightarrow> ('c, 'p, 'w, 'v) bidi \<Rightarrow> ('c, 'p, 'w, 'v) bidi" where
  "recv_event D wr ev s =
     (case bidi_remote_to_local D wr [ev] (bd_local s) (bd_localClosed s) of
        (res, v, closed) \<Rightarrow> recv_turn res (s\<lparr>bd_local := v, bd_localClosed := closed, bd_got := bd_got s @ [ev]\<rparr>))"

definition is_read :: "fw_event \<Rightarrow> bool" where
  "is_read ev \<longleftrightarrow> ev \<noteq> CtxDone \<and> ev \<noteq> Yielded"

inductive bidi_step ::
  "('c, 'p) MuxEncoder \<Rightarrow> 'w writer \<Rightarrow> gostr \<Rightarrow> (bytes \<Rightarrow> decoded) \<Rightarrow> 'v writer
     \<Rightarrow> ('c, 'p, 'w, 'v) bidi \<Rightarrow> ('c, 'p, 'w, 'v) bidi \<Rightarrow> bool"
  for E wr connID D wrl where
  bd_send_cancelled: "\<not> bd_crashed s \<Longrightarrow> bd_send s = AtLoop \<Longrightarrow> bd_ctxDone s \<Longrightarrow>
    bidi_step E wr connID D wrl s (send_event E wr connID (CtxDone, c) s)"
| bd_send_yields: "\<not> bd_crashed s \<Longrightarrow> bd_send s = AtLoop \<Longrightarrow> \<not> bd_ctxDone s \<Longrightarrow>
    bidi_step E wr connID D wrl s (send_event E wr connID (Yielded, c) s)"
| bd_send_check: "\<not> bd_crashed s \<Longrightarrow> bd_send s = AtLoop \<Longrightarrow> \<not> bd_ctxDone s \<Longrightarrow>
    bidi_step E wr connID D wrl s (s\<lparr>bd_send := InRead\<rparr>)"
| bd_send_read: "\<not> bd_crashed s \<Longrightarrow> bd_send s = InRead \<Longrightarrow> is_read ev \<Longrightarrow>
    bidi_step E wr connID D wrl s (send_event E wr connID (ev, c) s)"
| bd_recv_cancelled: "\<not> bd_crashed s \<Longrightarrow> bd_recv s = AtLoop \<Longrightarrow> bd_ctxDone s \<Longrightarrow>
    bidi_step E wr connID D wrl s (recv_event D wrl CtxDone s)"
| bd_recv_check: "\<not> bd_crashed s \<Longrightarrow> bd_recv s = AtLoop \<Longrightarrow> \<not> bd_ctxDone s \<Longrightarrow>
    bidi_step E wr connID D wrl s (s\<lparr>bd_recv := InRead\<rparr>)"
| bd_recv_read: "\<not> bd_crashed s \<Longrightarrow> bd_recv s = InRead \<Longrightarrow> is_read ev \<Longrightarrow>
    bidi_step E wr connID D wrl s (recv_event D wrl ev s)"
| bd_cancelled: "\<not> bd_crashed s \<Longrightarrow> bidi_step E wr connID D wrl s (s\<lparr>bd_ctxDone := True\<rparr>)"
| bd_returns: "\<not> bd_crashed s \<Longrightarrow> bd_result s = None \<Longrightarrow> bd_errCh s = r # rest \<Longrightarrow>
    bidi_step E wr connID D wrl s (s\<lparr>bd_result := Some r, bd_errCh := rest, bd_ctxDone := True\<rparr>)"

abbreviation bidi_steps where
  "bidi_steps E wr connID D wrl \<equiv> (bidi_step E wr connID D wrl)\<^sup>*\<^sup>*"

section \<open>The loops, one event at a time\<close>

lemma send_append:
  "bidi_local_to_remote E wr connID evs p w = (FwWaiting, p', w') \<Longrightarrow>
   bidi_local_to_remote E wr connID (evs @ [ev]) p w = bidi_local_to_remote E wr connID [ev] p' w'"
proof (induction evs arbitrary: p w)
  case (Cons a evs)
  obtain e c where a: "a = (e, c)" by (cases a)
  show ?case using Cons.prems
    by (cases e) (auto simp: a Cons.IH split: if_splits prod.splits go_result.splits)
qed simp

lemma recv_append:
  "bidi_remote_to_local D wr evs w closed = (FwWaiting, w', closed') \<Longrightarrow>
   bidi_remote_to_local D wr (evs @ [ev]) w closed = bidi_remote_to_local D wr [ev] w' closed'"
proof (induction evs arbitrary: w closed)
  case (Cons e evs)
  show ?case using Cons.prems
    by (cases e) (auto simp: Cons.IH split: if_splits prod.splits go_result.splits)
qed simp

section \<open>The invariant\<close>

text \<open>What a goroutine has come to, and the reports in the order in which they were made.\<close>

definition send_status :: "('c, 'p, 'w, 'v) bidi \<Rightarrow> fw_result \<Rightarrow> bool" where
  "send_status s res \<longleftrightarrow> (if bd_send s = Finished then \<exists>r. res = FwDone r else res = FwWaiting)"

definition recv_status :: "('c, 'p, 'w, 'v) bidi \<Rightarrow> fw_result \<Rightarrow> bool" where
  "recv_status s res \<longleftrightarrow> (if bd_recv s = Finished then \<exists>r. res = FwDone r else res = FwWaiting)"

definition reports :: "('c, 'p, 'w, 'v) bidi \<Rightarrow> fw_error option list" where
  "reports s = (case bd_result s of None \<Rightarrow> [] | Some r \<Rightarrow> [r]) @ bd_errCh s"

definition bidi_inv ::
  "('c, 'p) MuxEncoder \<Rightarrow> 'w writer \<Rightarrow> gostr \<Rightarrow> (bytes \<Rightarrow> decoded) \<Rightarrow> 'v writer \<Rightarrow> 'p \<Rightarrow> 'w \<Rightarrow> 'v
     \<Rightarrow> ('c, 'p, 'w, 'v) bidi \<Rightarrow> bool" where
  "bidi_inv E wr connID D wrl p w v s \<longleftrightarrow>
     (\<exists>r1 r2. bidi_local_to_remote E wr connID (bd_sent s) p w = (r1, bd_pool s, bd_mux s) \<and> send_status s r1
        \<and> bidi_remote_to_local D wrl (bd_got s) v False = (r2, bd_local s, bd_localClosed s) \<and> recv_status s r2
        \<and> (\<forall>r \<in> set (reports s). r1 = FwDone r \<or> r2 = FwDone r))
     \<and> (bd_send s = Finished \<or> bd_recv s = Finished \<longrightarrow> reports s \<noteq> [])
     \<and> (bd_result s \<noteq> None \<longrightarrow> bd_ctxDone s)"

lemma status_frame:
  "bd_send s \<noteq> Finished \<Longrightarrow> send_status (s\<lparr>bd_send := InRead\<rparr>) res = send_status s res"
  "bd_recv s \<noteq> Finished \<Longrightarrow> recv_status (s\<lparr>bd_recv := InRead\<rparr>) res = recv_status s res"
  "recv_status (s\<lparr>bd_send := pc\<rparr>) res = recv_status s res" "send_status (s\<lparr>bd_recv := pc\<rparr>) res = send_status s res"
  "send_status (s\<lparr>bd_ctxDone := b\<rparr>) res = send_status s res" "recv_status (s\<lparr>bd_ctxDone := b\<rparr>) res = recv_status s res"
  "reports (s\<lparr>bd_send := pc\<rparr>) = reports s" "reports (s\<lparr>bd_recv := pc\<rparr>) = reports s" "reports (s\<lparr>bd_ctxDone := b\<rparr>) = reports s"
  by (simp_all add: send_status_def recv_status_def reports_def)

lemma bidi_inv_start: "bidi_inv E wr connID D wrl p w v (ForwardBidirectionalMux_start cd p w v)"
  by (simp add: bidi_inv_def ForwardBidirectionalMux_start_def send_status_def recv_status_def reports_def)

lemma bidi_inv_send:
  assumes "bidi_inv E wr connID D wrl p w v s" "bd_send s \<noteq> Finished" "s' = send_event E wr connID ev s" "\<not> bd_crashed s'"
  shows "bidi_inv E wr connID D wrl p w v s'"
proof -
  obtain r1 r2 where inv: "bidi_local_to_remote E wr connID (bd_sent s) p w = (FwWaiting, bd_pool s, bd_mux s)"
    "bidi_remote_to_local D wrl (bd_got s) v False = (r2, bd_local s, bd_localClosed s)" "recv_status s r2"
    "\<forall>r \<in> set (reports s). r2 = FwDone r"
    using assms(1,2) by (auto simp: bidi_inv_def send_status_def)
  obtain res p' w' where turn: "bidi_local_to_remote E wr connID [ev] (bd_pool s) (bd_mux s) = (res, p', w')"
    by (metis prod_cases3)
  have "bidi_local_to_remote E wr connID (bd_sent s @ [ev]) p w = (res, p', w')"
    using send_append [OF inv(1)] turn by simp
  with inv turn assms show ?thesis
    by (cases res) (auto simp: bidi_inv_def send_event_def send_turn_def send_status_def recv_status_def reports_def)
qed

lemma bidi_inv_recv:
  assumes "bidi_inv E wr connID D wrl p w v s" "bd_recv s \<noteq> Finished" "s' = recv_event D wrl ev s" "\<not> bd_crashed s'"
  shows "bidi_inv E wr connID D wrl p w v s'"
proof -
  obtain r1 r2 where inv: "bidi_local_to_remote E wr connID (bd_sent s) p w = (r1, bd_pool s, bd_mux s)"
    "bidi_remote_to_local D wrl (bd_got s) v False = (FwWaiting, bd_local s, bd_localClosed s)" "send_status s r1"
    "\<forall>r \<in> set (reports s). r1 = FwDone r"
    using assms(1,2) by (auto simp: bidi_inv_def recv_status_def)
  obtain res v' closed where turn: "bidi_remote_to_local D wrl [ev] (bd_local s) (bd_localClosed s) = (res, v', closed)"
    by (metis prod_cases3)
  have "bidi_remote_to_local D wrl (bd_got s @ [ev]) v False = (res, v', closed)"
    using recv_append [OF inv(2)] turn by simp
  with inv turn assms show ?thesis
    by (cases res) (auto simp: bidi_inv_def recv_event_def recv_turn_def send_status_def recv_status_def reports_def)
qed

lemma bidi_inv_step:
  "bidi_step E wr connID D wrl s s' \<Longrightarrow> bidi_inv E wr connID D wrl p w v s \<Longrightarrow> \<not> bd_crashed s' \<Longrightarrow>
   bidi_inv E wr connID D wrl p w v s'"
proof (induction rule: bidi_step.induct)
  case (bd_send_cancelled s c)
  then show ?case by (intro bidi_inv_send [OF _ _ refl]) simp_all
next
  case (bd_send_yields s c)
  then show ?case by (intro bidi_inv_send [OF _ _ refl]) simp_all
next
  case (bd_send_read s ev c)
  then show ?case by (intro bidi_inv_send [OF _ _ refl]) simp_all
next
  case (bd_recv_cancelled s)
  then show ?case by (intro bidi_inv_recv [OF _ _ refl]) simp_all
next
  case (bd_recv_read s ev)
  then show ?case by (intro bidi_inv_recv [OF _ _ refl]) simp_all
next
  case (bd_returns s r rest)
  then show ?case by (simp add: bidi_inv_def send_status_def recv_status_def reports_def)
qed (simp_all add: bidi_inv_def status_frame)

lemma crashed_before: "bidi_step E wr connID D wrl s s' \<Longrightarrow> \<not> bd_crashed s"
  by (induction rule: bidi_step.induct)

interpretation bidi_run: step_invariant "bidi_step E wr connID D wrl"
    "\<lambda>s. \<not> bd_crashed s \<longrightarrow> bidi_inv E wr connID D wrl p w v s" for E wr connID D wrl p w v
  by unfold_locales (blast intro: bidi_inv_step dest: crashed_before)

lemma bidi_inv_steps:
  "bidi_steps E wr connID D wrl s s' \<Longrightarrow> bidi_inv E wr connID D wrl p w v s \<Longrightarrow> \<not> bd_crashed s' \<Longrightarrow>
   bidi_inv E wr connID D wrl p w v s'"
  by (drule bidi_run.steps_keep [where p = p and w = w and v = v]) auto

section \<open>After the return\<close>

text \<open>Reads of the goroutine that takes messages, and whether one is under way.\<close>

definition messages_taken :: "('c, 'p, 'w, 'v) bidi \<Rightarrow> nat" where
  "messages_taken s = length (filter is_read (bd_got s))"

definition read_pending :: "('c, 'p, 'w, 'v) bidi \<Rightarrow> nat" where
  "read_pending s = (if bd_recv s = InRead then 1 else 0)"

lemma send_event_frame [simp]:
  "bd_got (send_event E wr connID ev s) = bd_got s" "bd_recv (send_event E wr connID ev s) = bd_recv s"
  "bd_ctxDone (send_event E wr connID ev s) = bd_ctxDone s" "bd_result (send_event E wr connID ev s) = bd_result s"
  by (auto simp: send_event_def send_turn_def split: prod.splits fw_result.splits)

lemma recv_event_frame [simp]:
  "bd_got (recv_event D wr ev s) = bd_got s @ [ev]" "bd_ctxDone (recv_event D wr ev s) = bd_ctxDone s"
  "bd_result (recv_event D wr ev s) = bd_result s"
  by (auto simp: recv_event_def recv_turn_def split: prod.splits fw_result.splits)

lemma recv_event_pending:
  "\<not> bd_crashed (recv_event D wr ev s) \<Longrightarrow> bd_recv (recv_event D wr ev s) \<noteq> InRead"
  by (auto simp: recv_event_def recv_turn_def split: prod.splits fw_result.splits)

lemma late_step:
  "bidi_step E wr connID D wrl s s' \<Longrightarrow> bd_ctxDone s \<Longrightarrow> \<not> bd_crashed s' \<Longrightarrow>
     bd_ctxDone s' \<and> messages_taken s' + read_pending s' \<le> messages_taken s + read_pending s"
proof (induction rule: bidi_step.induct)
  case (bd_recv_cancelled s)
  then show ?case using recv_event_pending [of D wrl CtxDone s] by (simp add: messages_taken_def read_pending_def is_read_def)
next
  case (bd_recv_read s ev)
  then show ?case using recv_event_pending [of D wrl ev s] by (simp add: messages_taken_def read_pending_def)
qed (simp_all add: messages_taken_def read_pending_def)

lemma late_steps:
  "bidi_steps E wr connID D wrl s s' \<Longrightarrow> bd_ctxDone s \<Longrightarrow> \<not> bd_crashed s' \<Longrightarrow>
     bd_ctxDone s' \<and> messages_taken s' + read_pending s' \<le> messages_taken s + read_pending s"
proof (induction rule: rtranclp_induct)
  case (step u t)
  then show ?case using crashed_before [OF step(2)] late_step [OF step(2)] by simp
qed simp

section \<open>Properties\<close>

text \<open>A run in which the local connection fails while the other goroutine waits for a message.\<close>

definition left_behind :: "(nat option, BufferPool, bytes list, bytes list) bidi" where
  "left_behind =
     (send_event BinaryProtocol_encoder frame_writer [7] (ReadErr, None)
        (ForwardBidirectionalMux_start False (NewBufferPool 32768) [] []\<lparr>bd_recv := InRead, bd_send := InRead\<rparr>))
       \<lparr>bd_result := Some (Some ReadFailed), bd_errCh := [], bd_ctxDone := True\<rparr>"

lemmas left_behind_defs = left_behind_def send_event_def send_turn_def ForwardBidirectionalMux_start_def

lemma left_behind_fields:
  "bd_result left_behind = Some (Some ReadFailed)" "\<not> bd_crashed left_behind" "bd_recv left_behind = InRead"
  "bd_send left_behind = Finished" "bd_local left_behind = []" "bd_sent left_behind = [(ReadErr, None)]"
  by (simp_all add: left_behind_defs)

lemma left_behind_reached:
  "bidi_steps BinaryProtocol_encoder frame_writer [7] D wrl
     (ForwardBidirectionalMux_start False (NewBufferPool 32768) [] []) left_behind"
proof -
  let ?s0 = "ForwardBidirectionalMux_start False (NewBufferPool 32768) [] [] :: (nat option, BufferPool, bytes list, bytes list) bidi"
  let ?s1 = "?s0\<lparr>bd_recv := InRead\<rparr>"
  let ?s2 = "?s1\<lparr>bd_send := InRead\<rparr>"
  let ?s3 = "send_event BinaryProtocol_encoder frame_writer [7] (ReadErr, None) ?s2"
  let ?step = "bidi_step BinaryProtocol_encoder frame_writer [7] D wrl"
  have "?step ?s0 ?s1" by (rule bd_recv_check) (simp_all add: left_behind_defs)
  moreover have "?step ?s1 ?s2" by (rule bd_send_check) (simp_all add: left_behind_defs)
  moreover have "?step ?s2 ?s3" by (rule bd_send_read) (simp_all add: left_behind_defs is_read_def)
  moreover have "?step ?s3 left_behind"
    using bd_returns [of ?s3 "Some ReadFailed" "[]"] by (simp add: left_behind_defs)
  ultimately show ?thesis by (meson converse_rtranclp_into_rtranclp r_into_rtranclp)
qed



text \<open>C38. The call leaves a reader behind: after it has returned, the goroutine that reads the multiplexed connection takes at
  most one more message from it; but if it was waiting in a read it does take the next one, although the call is over, and
  when that is data of any connection, it is written to this one's local connection and nobody else will see it.\<close>

theorem returned_forwarder_takes_one_message:
  assumes "bidi_steps E wr connID D wrl (ForwardBidirectionalMux_start cd p w v) s" and "bd_result s \<noteq> None"
    and "\<not> bd_crashed s"
  shows "(\<forall>s'. bidi_steps E wr connID D wrl s s' \<and> \<not> bd_crashed s' \<longrightarrow> messages_taken s' \<le> messages_taken s + 1)
    \<and> (bd_recv s = InRead \<and> D d = Ret (MsgTypeData, other, payload) \<and> d \<noteq> [] \<and> payload \<noteq> [] \<longrightarrow>
         (\<exists>s'. bidi_step E wr connID D wrl s s' \<and> messages_taken s' = messages_taken s + 1
           \<and> bd_local s' = snd (wrl payload (bd_local s))))"
proof (intro conjI allI impI)
  fix s' assume s': "bidi_steps E wr connID D wrl s s' \<and> \<not> bd_crashed s'"
  have "bd_ctxDone s" using bidi_inv_steps [OF assms(1) bidi_inv_start assms(3)] assms(2) by (simp add: bidi_inv_def)
  with late_steps [of E wr connID D wrl s s'] s' show "messages_taken s' \<le> messages_taken s + 1"
    by (auto simp: read_pending_def split: if_splits)
next
  assume a: "bd_recv s = InRead \<and> D d = Ret (MsgTypeData, other, payload) \<and> d \<noteq> [] \<and> payload \<noteq> []"
  let ?s = "recv_event D wrl (ReadOk d) s"
  have "bidi_step E wr connID D wrl s ?s" using a assms(3) by (intro bd_recv_read) (simp_all add: is_read_def)
  moreover have "bd_local ?s = snd (wrl payload (bd_local s))"
    using a by (auto simp: recv_event_def recv_turn_def split: prod.splits if_splits)
  ultimately show "\<exists>s'. bidi_step E wr connID D wrl s s' \<and> messages_taken s' = messages_taken s + 1
      \<and> bd_local s' = snd (wrl payload (bd_local s))"
    by (intro exI [of _ ?s]) (simp add: messages_taken_def is_read_def)
qed

theorem returned_forwarder_takes_one_message_witness:
  "bd_result left_behind \<noteq> None
   \<and> (\<exists>s'. bidi_step BinaryProtocol_encoder frame_writer [7] BinaryProtocol_Decode frame_writer left_behind s'
        \<and> messages_taken s' = messages_taken left_behind + 1 \<and> bd_local s' = [[1, 2]])"
proof -
  let ?d = "bin_frame MsgTypeData [9] [1, 2]"
  have "BinaryProtocol_Decode (?d @ []) = Ret (MsgTypeData, [9], [1, 2])" by (rule Decode_frame) simp_all
  then have d: "BinaryProtocol_Decode ?d = Ret (MsgTypeData, [9], [1, 2])" "?d \<noteq> []" by (simp_all add: bin_frame_def)
  have r: "bd_result left_behind \<noteq> None" by (simp add: left_behind_fields)
  from returned_forwarder_takes_one_message [OF left_behind_reached [of BinaryProtocol_Decode frame_writer] r
      left_behind_fields(2), of ?d "[9]" "[1, 2]"] d r left_behind_fields(3,5)
  show ?thesis by (simp add: frame_writer.simps)
qed

end
