(* ===== verification/Identifiers.thy ===== *)
theory Identifiers
  imports QuicWire
begin

text \<open>
  Random identifiers, \<^verbatim>\<open>generateID\<close> of \<^verbatim>\<open>quic/quic.go\<close> and of \<^verbatim>\<open>internal/connmgr/connmgr.go\<close>: eight random bytes in
  hexadecimal. What the random source gives is an argument; the server's function falls back to the time. Elsewhere an
  identifier is an argument of the operation that makes one; shown here is what those arguments can be: identifiers that fit into every
  wire format, that contain no delimiter of the text protocol, and that differ whenever the random bytes do.
\<close>

definition hex_digit :: "nat \<Rightarrow> byte" where
  "hex_digit n = word_of_nat (if n < 10 then 48 + n else 87 + n)"

definition hex_byte :: "byte \<Rightarrow> gostr" where
  "hex_byte b = [hex_digit (unat b div 16), hex_digit (unat b mod 16)]"

definition hex_string :: "bytes \<Rightarrow> gostr" where
  "hex_string bs = concat (map hex_byte bs)"

text \<open>\<^verbatim>\<open>%x\<close> of a non-negative integer: the nanoseconds since 1970 are not negative.\<close>

fun hex_nat :: "nat \<Rightarrow> gostr" where
  "hex_nat n = (if n < 16 then [hex_digit n] else hex_nat (n div 16) @ [hex_digit (n mod 16)])"

declare hex_nat.simps [simp del]

definition generateID :: "bytes option \<Rightarrow> nat \<Rightarrow> gostr" where
  "generateID random nanos = (case random of None \<Rightarrow> hex_nat nanos | Some b \<Rightarrow> hex_string b)"

text \<open>The connection manager ignores an error of the random source; its buffer then keeps what it has.\<close>

definition connmgr_generateID :: "bytes \<Rightarrow> gostr" where
  "connmgr_generateID b = hex_string b"

section \<open>Lemmas\<close>

lemma unat_byte: "k < 256 \<Longrightarrow> unat (word_of_nat k :: byte) = k"
  by (simp add: unat_of_nat take_bit_nat_eq_self)

lemma unat_hex_digit: "n < 16 \<Longrightarrow> unat (hex_digit n) = (if n < 10 then 48 + n else 87 + n)"
  using unat_byte [of "48 + n"] unat_byte [of "87 + n"] by (cases "n < 10") (simp_all add: hex_digit_def)

lemma hex_digit_inj: "m < 16 \<Longrightarrow> n < 16 \<Longrightarrow> hex_digit m = hex_digit n \<Longrightarrow> m = n"
proof -
  assume "m < 16" "n < 16" "hex_digit m = hex_digit n"
  then have "(if m < 10 then 48 + m else 87 + m) = (if n < 10 then 48 + n else 87 + n)"
    using unat_hex_digit [of m] unat_hex_digit [of n] by metis
  then show "m = n" by (cases "m < 10"; cases "n < 10") simp_all
qed

lemma hex_digit_no_colon: "n < 16 \<Longrightarrow> hex_digit n \<noteq> 58"
proof
  assume n: "n < 16" and "hex_digit n = 58"
  then have "unat (hex_digit n) = 58" by simp
  with unat_hex_digit [OF n] show False by (cases "n < 10") simp_all
qed

lemma byte_halves: "unat (b :: byte) div 16 < 16" "unat b mod 16 < 16"
proof -
  have "unat b < 256" using unsigned_less [of b] by simp
  then show "unat b div 16 < 16" by (simp add: less_mult_imp_div_less)
qed simp

lemma hex_byte_inj: "hex_byte a = hex_byte b \<Longrightarrow> a = b"
proof -
  assume "hex_byte a = hex_byte b"
  then have "unat a div 16 = unat b div 16" "unat a mod 16 = unat b mod 16"
    unfolding hex_byte_def using byte_halves hex_digit_inj by auto
  then have "unat a = unat b" by (metis div_mult_mod_eq)
  then show "a = b" by (simp add: word_unat_eq_iff)
qed

lemma hex_string_simps [simp]: "hex_string [] = []" "hex_string (b # bs) = hex_byte b @ hex_string bs"
  by (simp_all add: hex_string_def)

lemma length_hex_byte [simp]: "length (hex_byte b) = 2"
  by (simp add: hex_byte_def)

lemma length_hex_string [simp]: "length (hex_string bs) = 2 * length bs"
  by (induction bs) simp_all

lemma hex_string_inj: "hex_string xs = hex_string ys \<Longrightarrow> xs = ys"
proof (induction xs arbitrary: ys)
  case Nil
  then show ?case by (cases ys) (auto dest: arg_cong [of _ _ length])
next
  case (Cons x xs)
  then have "hex_string ys \<noteq> []" by (metis append_is_Nil_conv hex_string_simps(2) length_hex_byte list.size(3) zero_neq_numeral)
  then obtain y zs where ys: "ys = y # zs" by (cases ys) auto
  with Cons.prems have "hex_byte x @ hex_string xs = hex_byte y @ hex_string zs" by simp
  then have "hex_byte x = hex_byte y" "hex_string xs = hex_string zs" by (simp_all add: append_eq_append_conv)
  with Cons.IH hex_byte_inj ys show ?case by blast
qed

lemma hex_string_no_colon: "58 \<notin> set (hex_string bs)"
  by (induction bs) (use byte_halves hex_digit_no_colon in \<open>auto simp: hex_byte_def\<close>)

lemma hex_nat_no_colon: "58 \<notin> set (hex_nat n)"
proof (induction n rule: hex_nat.induct)
  case (1 n)
  then show ?case using hex_digit_no_colon [of n] hex_digit_no_colon [of "n mod 16"]
    by (subst hex_nat.simps) auto
qed

lemma length_hex_nat: "n < 16 ^ k \<Longrightarrow> 0 < k \<Longrightarrow> length (hex_nat n) \<le> k"
proof (induction k arbitrary: n)
  case (Suc k)
  show ?case
  proof (cases "n < 16")
    case False
    then have "0 < k" using Suc.prems by (cases k) auto
    moreover have "n div 16 < 16 ^ k" using Suc.prems by (simp add: less_mult_imp_div_less mult.commute)
    ultimately show ?thesis using Suc.IH False by (subst hex_nat.simps) auto
  qed (subst hex_nat.simps, simp)
qed simp

section \<open>What identifiers are like\<close>

text \<open>An identifier fits into every length field, has no colon, and, when the random source works, differs from one made of
  other random bytes.\<close>

lemma generateID_usable:
  assumes "\<And>b. random = Some b \<Longrightarrow> length b = 8" and "nanos < 2 ^ 63"
  shows "short (generateID random nanos)" "58 \<notin> set (generateID random nanos)" "length (generateID random nanos) \<le> 16"
proof -
  have "nanos < 16 ^ 16" using assms(2) by simp
  then show *: "length (generateID random nanos) \<le> 16"
    using assms(1) length_hex_nat [of nanos 16] by (auto simp: generateID_def split: option.splits)
  then show "short (generateID random nanos)" by (simp add: short_def)
  show "58 \<notin> set (generateID random nanos)"
    by (auto simp: generateID_def hex_string_no_colon hex_nat_no_colon split: option.splits)
qed

lemma generateID_distinct:
  "generateID (Some a) t = generateID (Some b) u \<longleftrightarrow> a = b" "connmgr_generateID a = connmgr_generateID b \<longleftrightarrow> a = b"
  using hex_string_inj by (auto simp: generateID_def connmgr_generateID_def)

end
