(* ===== verification/Spec2Isabelle.thy ===== *)
theory Spec2Isabelle
  imports Circuit Limiter MuxConn Backpressure Client_Behaviour Conn_Pool Conn_Manager Tunnel_Registry
    Quic_Connect Stream_Forwarder Protocol_Router Transport_Adapters Proxy_Command Tunnel_App Auto_TLS Metrics
    Server_Races Tunnel_SDK Tunnel_Transports Proxy_TLS Mux_Bidi Identifiers
begin

text \<open>
  A verification library for go-tunnel, a multiplexing tunnel server in Go.

  \<^bold>\<open>The program.\<close> A tunnel client behind a firewall keeps one QUIC connection to a public server
  (\<^verbatim>\<open>quic/quic.go\<close>: \<^verbatim>\<open>MuxServer\<close>, \<^verbatim>\<open>MuxClient\<close>). On the first stream, the control stream, it registers a
  tunnel; the server gives it a port or a domain. Users connect to the port or, on a port shared by all
  tunnels, send the domain first (\<^verbatim>\<open>quic/sdk.go\<close>). The server announces or opens a stream per user
  connection, with a session header that names the connection and the target, and forwards bytes both
  ways. Connections are admitted by a circuit breaker (\<^verbatim>\<open>internal/circuit\<close>) and a connection
  limiter (\<^verbatim>\<open>internal/limiter\<close>); buffers come from pools (\<^verbatim>\<open>internal/pool\<close>). A second multiplexing
  protocol, with a binary and a text codec, is in \<^verbatim>\<open>forward/mux.go\<close>. The package \<^verbatim>\<open>quic\<close> has parts of
  \<^verbatim>\<open>MuxServer\<close> and \<^verbatim>\<open>MuxClient\<close> once more as components of their own: a tunnel registry, a connection manager,
  a stream forwarder and handler, a protocol router, statistics.

  Beside the QUIC tunnel there is a plain one-to-one proxy: the facade \<^verbatim>\<open>tunnel.go\<close> accepts connections
  on one of the transports \<^verbatim>\<open>tcp\<close>, \<^verbatim>\<open>http2\<close>, \<^verbatim>\<open>http3\<close>, dials the target and copies with the
  forwarders of \<^verbatim>\<open>forward\<close>, one per platform. The command \<^verbatim>\<open>cmd/proxy\<close> starts such tunnels from a
  configuration file (\<^verbatim>\<open>config\<close>); \<^verbatim>\<open>server\<close> combines the QUIC server with the health endpoints and the graceful
  shutdown. Both can obtain certificates (\<^verbatim>\<open>tls\<close>).

  \<^bold>\<open>Theories.\<close>
  \<^item> \<open>Go_Prelude\<close>: Go's byte slices, 64-bit integers (\<open>i64\<close>, wrap-around written out), results with
    errors and panics (\<open>go_result\<close>), writes into a buffer at an offset, big-endian integers, decimal
    text, and the lemmas on offsets that the codecs share; the locale \<open>step_invariant\<close> for step relations that keep an
    invariant, interpreted on the components whose operations interleave.
  \<^item> \<open>Circuit\<close> (\<^verbatim>\<open>internal/circuit/circuit.go\<close>): \<open>Breaker\<close> with \<open>Breaker_Allow\<close>,
    \<open>Breaker_RecordSuccess\<close>, \<open>Breaker_RecordFailure\<close>, the manager, and \<open>cb_step\<close>, in which any number of
    goroutines run the operations with their atomic loads and critical sections as separate steps. Shown:
    only legal transitions under every interleaving, when the breaker opens, refuses, probes and
    recovers, and configurations from which it never recovers.
  \<^item> \<open>Limiter\<close> (\<^verbatim>\<open>internal/limiter/limiter.go\<close>): the counting limiters, token bucket, memory limiter,
    composite limiter and monitor; the locale \<open>limiter_contract\<close> states what the interface promises and is
    interpreted on the implementations. Shown: bounds under interleaved compare-and-swap loops, and
    that these refine atomic operations; bursts; the token bucket's rate over any sequence of calls.
  \<^item> \<open>Buffer_Pool\<close> (\<^verbatim>\<open>internal/pool/pool.go\<close>): pools of slices with length and capacity; which buffer
    \<^verbatim>\<open>sync.Pool\<close> hands out is an argument.
  \<^item> \<open>MuxCodec\<close> (\<^verbatim>\<open>forward/mux.go\<close>, codecs): the buffers of the encoders byte by byte; the locale
    \<open>mux_codec\<close> (decoding inverts encoding, buffers stay well-formed), interpreted on both codecs. Shown:
    refinement of the frame format, exactness of the decoder, round trips, and where reuse of
    buffers or malformed lengths break them.
  \<^item> \<open>MuxConn\<close> (\<^verbatim>\<open>forward/mux.go\<close>, forwarders and \<^verbatim>\<open>MuxConnManager\<close>): the forwarding loops as
    functions of what the reads deliver, and the manager. Shown: delivery end to end under interleaving
    with other connections, the counter of connections, and two failures of the code.
  \<^item> \<open>Mux_Bidi\<close> (\<^verbatim>\<open>ForwardBidirectionalMux\<close>): both loops of \<open>MuxConn\<close> as goroutines with their context, the channel
    for their reports and the caller. Shown: every interleaving refines the two loops; a forwarder that has returned still
    takes a message from the shared connection.
  \<^item> \<open>QuicWire\<close> (wire formats of \<^verbatim>\<open>quic/quic.go\<close>, \<^verbatim>\<open>quic/sdk.go\<close>, \<^verbatim>\<open>quic/stream_handler.go\<close>): builders
    and parsers of the session header, of control messages and datagrams, the address classification
    with what it uses of package \<^verbatim>\<open>net\<close>, and the comparison of tokens. Shown: round trips, and where
    builder and parser disagree.
  \<^item> \<open>Identifiers\<close> (\<^verbatim>\<open>generateID\<close> of \<^verbatim>\<open>quic/quic.go\<close> and \<^verbatim>\<open>internal/connmgr\<close>): the identifiers that other theories take as
    arguments. Shown: they fit into every length field, contain no colon, and differ when the random bytes do.
  \<^item> \<open>Ports\<close> (\<^verbatim>\<open>PortManager\<close>): the locale \<open>port_allocator\<close> is the contract the server relies on,
    interpreted on the port manager.
  \<^item> \<open>Tunnel_Server\<close> (\<^verbatim>\<open>MuxServer\<close>): the server's record, a heap of tunnel objects with the two maps
    holding pointers, and one operation per handler or per turn of a goroutine's loop.
  \<^item> \<open>Server_Invariants\<close>: the step relation \<open>server_step\<close> over all those operations and the
    accounting invariant of every reachable state.
  \<^item> \<open>Server_Behaviour\<close>: what the operations do end to end, in both directions of the protocol.
  \<^item> \<open>Retry\<close> (\<^verbatim>\<open>internal/retry/retry.go\<close>): the retry loop over what each turn meets. Shown: number of
    attempts and result against a reference, bounds on the waits, equivalence of the callback variant.
  \<^item> \<open>Backpressure\<close> (\<^verbatim>\<open>internal/backpressure/backpressure.go\<close>): both controllers, with the locale
    \<open>watermark_controller\<close> for what they promise about levels, interpreted on each.
  \<^item> \<open>Tunnel_Client\<close> (\<^verbatim>\<open>MuxClient\<close>, \<^verbatim>\<open>AntiReplay\<close>): the client in the same style as the server; its
    connect loop runs the retrier on its connection attempts.
  \<^item> \<open>Client_Behaviour\<close>: client and server together. Shown: registration and the announcement of a
    connection end to end, what happens to data on the control stream, the connect loop, the
    anti-replay cache, and that every reconnect leaves one more acceptor running.
  \<^item> \<open>Server_Lifecycle\<close> (\<^verbatim>\<open>MuxServer.Start\<close> and the accept loops): the server together with its goroutines, a
    multiset of tasks and the wait group; \<open>run_step\<close> gives any of them a turn. Any goroutine but the accept
    loops and the health check may also end at any moment, which covers every way its code returns. Shown: the
    wait group counts the goroutines, the loops run until \<^verbatim>\<open>Stop\<close>, every run keeps the accounting of
    \<open>Server_Invariants\<close>; when \<^verbatim>\<open>Start\<close> fails; the protocols it offers are those it admits.
  \<^item> \<open>Server_Races\<close> (\<^verbatim>\<open>closeTunnel\<close>, the registration in \<^verbatim>\<open>handleControlStream\<close>): both cut at every access to
    shared state, any number of them interleaved; run to the end alone, the pieces give the operations of
    \<open>Tunnel_Server\<close>. Shown: ports and counters stay exact under every interleaving in which no tunnel is closed
    by two callers; with two, a port is shared; concurrent registrations exceed the limit of tunnels.
  \<^item> \<open>Tunnel_Path\<close> (\<^verbatim>\<open>forwardBidirectional\<close>, \<^verbatim>\<open>forwardQUICStream\<close>, \<^verbatim>\<open>handleTCPDataStreamForward\<close>,
    \<^verbatim>\<open>handleQUICDataStreamForward\<close>): the forwarding loops of server and client behind each other, with user, service
    and failures. Shown: transparency, that everything can be delivered, and the two ways a close is handled
    badly.
  \<^item> \<open>Tunnel_SDK\<close> (\<^verbatim>\<open>quic/sdk.go\<close>): dialling, and the whole way of a connection through \<open>QuicWire\<close>,
    \<open>Tunnel_Server\<close>, \<open>Tunnel_Client\<close> and \<open>Tunnel_Path\<close>.
  \<^item> \<open>Tunnel_Registry\<close> (\<^verbatim>\<open>quic/tunnel_registry.go\<close>): over the server's own heap of tunnels. Shown: it is
    equivalent to the bookkeeping of \<open>Tunnel_Server\<close> on every state that reaches, its counters, and what
    closing a stale tunnel does to its successor.
  \<^item> \<open>Stats_Handlers\<close> (\<^verbatim>\<open>quic/stats.go\<close>): the locale \<open>stats_sink\<close> (updates add up and commute), interpreted
    on the server's and the client's handler.
  \<^item> \<open>Quic_Connect\<close> (\<^verbatim>\<open>quic/conn_manager.go\<close>): dialling and the reconnect loop over the retrier of \<open>Retry\<close>.
    Shown: the loop ends after exactly \<open>n * (n + 1)\<close> dials, and which connections it leaks.
  \<^item> \<open>Stream_Forwarder\<close> (\<^verbatim>\<open>quic/forwarder.go\<close>, \<^verbatim>\<open>quic/stream_handler.go\<close>): two goroutines over buffers in
    a shared memory. Shown: transparency under every interleaving with pooled buffers, and that it fails with a
    shared one; that a data stream reaches its target.
  \<^item> \<open>Protocol_Router\<close> (\<^verbatim>\<open>quic/protocol.go\<close>, \<^verbatim>\<open>quic/protocol_router.go\<close>): handlers, their registry, and the
    external listeners of a tunnel from start to stop.
  \<^item> \<open>Conn_Pool\<close> (\<^verbatim>\<open>internal/pool/connpool.go\<close>): pieces of the operations between lock operations, in any
    order. Shown: no connection is handed out twice, and the two misuses after which one is.
  \<^item> \<open>Conn_Manager\<close> (\<^verbatim>\<open>internal/connmgr/connmgr.go\<close>): admission by a semaphore, tracking, release. Shown: the
    limit holds and the counter is exact; where shutdown and double release break them.
  \<^item> \<open>Graceful_Shutdown\<close> (\<^verbatim>\<open>internal/shutdown/shutdown.go\<close>): callbacks as concurrent goroutines, the global
    handler with its mutex. Shown: each callback runs once; the order is not that of the priorities.
  \<^item> \<open>Health_Checks\<close> (\<^verbatim>\<open>internal/health/health.go\<close>): the checks with timeouts and the status codes of the
    endpoints.
  \<^item> \<open>Copy_Forward\<close> (\<^verbatim>\<open>forward/forward.go\<close>, \<^verbatim>\<open>forward_linux.go\<close>, \<^verbatim>\<open>forward_darwin.go\<close>,
    \<^verbatim>\<open>forward_windows.go\<close>): every copying loop on what its turns meet; the locale \<open>copying_loop\<close>, interpreted
    on five loops. Shown: equivalence with one reference, and the loops that lose, duplicate or hold back data.
  \<^item> \<open>Tunnel_Facade\<close> (\<^verbatim>\<open>tunnel.go\<close>): configuration, life cycle, accept loop, connection handler. Shown: validation
    is exact, every connection is closed once, and \<^verbatim>\<open>Stop\<close> does not wait for connections.
  \<^item> \<open>Transport_Adapters\<close> (\<^verbatim>\<open>tcp\<close>, \<^verbatim>\<open>http2\<close>, \<^verbatim>\<open>http3\<close>): what each operation leaves open, and how
    errors of closed connections are classified.
  \<^item> \<open>Tunnel_Transports\<close> (interface \<^verbatim>\<open>Protocol\<close> of \<^verbatim>\<open>tunnel.go\<close>): the facade running on a transport. The locale
    \<open>protocol_contract\<close> is what a transport promises about the resources it opens, interpreted on TCP, HTTP/2 and HTTP/3.
    Shown: runs on a transport are runs of the facade; TCP and HTTP/2 give everything back; HTTP/3 loses two resources with
    every connection it serves.
  \<^item> \<open>Proxy_Command\<close> (\<^verbatim>\<open>cmd/proxy/main.go\<close>, \<^verbatim>\<open>config/config.go\<close>): on top of \<open>Tunnel_Facade\<close>. Shown: which
    tunnels are started, and that one for QUIC never is; what loading, saving and reloading keep.
  \<^item> \<open>Proxy_TLS\<close> (\<^verbatim>\<open>loadTLSConfig\<close>, \<^verbatim>\<open>setupAutoTLS\<close>, the end of \<^verbatim>\<open>runFromConfig\<close>): \<open>Proxy_Command\<close> and
    \<open>Auto_TLS\<close> together. Shown: when loading succeeds and what it gives; which domains are managed; the flag for a DNS
    provider has no effect; when the shutdown gives up.
  \<^item> \<open>Tunnel_App\<close> (\<^verbatim>\<open>server/server.go\<close>): \<open>Server_Lifecycle\<close>, \<open>Health_Checks\<close>, \<open>Limiter\<close> and
    \<open>Graceful_Shutdown\<close> together. Shown: a shutdown stops the server; its health does not depend on it.
  \<^item> \<open>Auto_TLS\<close> (\<^verbatim>\<open>tls/auto.go\<close>, \<^verbatim>\<open>tls/dns_provider.go\<close>): which domains and which authority a manager uses.
  \<^item> \<open>Metrics\<close> (\<^verbatim>\<open>internal/metrics/metrics.go\<close>): the calls on the metrics of a collector, their names.

  \<^bold>\<open>Reading the models.\<close> Names are \<open>Type_Method\<close> where Go has methods. Time, random identifiers, the
  free buffer a pool picks, and the outcome of network operations are arguments, so a theorem holds
  for all of them. In \<open>Tunnel_Server\<close> and the theories on it an operation
  is atomic: the order of operations is arbitrary, but two handlers do not interleave inside one. Registration and
  closing, which change the accounting, are interleaved at every access in \<open>Server_Races\<close>. The breaker and the
  limiter are modelled at the level of their atomic instructions, and the connection pool, the shutdown and the
  forwarders at the level of their critical sections and statements. A log of what was sent and a set of what
  was closed stand for the network. Panics are results of their own. Recursion is structural or has a
  termination proof; loops that may run forever (\<open>RateLimiter_WaitN\<close>, the retry, reconnect and copying loops)
  take what happens at each turn as a list and say when they are still running after it; the theorems hold for every list,
  or for every list long enough for the limit in force.

  \<^bold>\<open>Not modelled.\<close> What belongs to other systems is an argument: the network and its sockets, TLS and
  X.509, the certificate and metrics libraries, files, YAML. Left out are logging and printing, socket options and
  deadlines that only pass through, JSON encoding of statistics, extraction of file descriptors, iteration callbacks
  (\<^verbatim>\<open>Range\<close>, \<^verbatim>\<open>ForEach\<close>), and getters of one field. Handlers of \<^verbatim>\<open>MuxServer\<close> other than registration and closing do not
  interleave inside one operation.
\<close>

end
